(* ===== verification/Net_Prelude.thy ===== *)
theory Net_Prelude
  imports Main "HOL-Library.Word"
begin

text \<open>
  Shared vocabulary of the development: the machine integers and byte buffers the C sources
  work on, memory faults as values of a sum type, loads and stores into a byte buffer the way
  a packed struct overlay performs them on a little-endian host, the byte-order functions, the
  C string functions the sources call, and the generic lemmas about them that the component
  theories share.
\<close>

unbundle bit_operations_syntax

section \<open>Machine integers, buffers and faults\<close>

type_synonym u8 = "8 word"
type_synonym u16 = "16 word"
type_synonym u32 = "32 word"
type_synonym bytes = "u8 list"

lemma unat_less_width [simp]:
  "unat (a :: u8) < 256" "unat (b :: u16) < 65536" "unat (c :: u32) < 4294967296"
  using unsigned_less [of a, where 'a = nat] unsigned_less [of b, where 'a = nat]
    unsigned_less [of c, where 'a = nat] by simp_all

lemma unat_le_width:
  "unat (a :: u8) \<le> 255" "unat (b :: u16) \<le> 65535" "unat (c :: u32) \<le> 4294967295"
  using unat_less_width(1) [of a] unat_less_width(2) [of b] unat_less_width(3) [of c] by linarith+

lemma unat_ucast_up [simp]:
  "unat (ucast (a :: u8) :: u16) = unat a"
  "unat (ucast (a :: u8) :: u32) = unat a"
  "unat (ucast (b :: u16) :: u32) = unat b"
  using unat_le_width(1) [of a] unat_le_width(2) [of b]
  by (simp_all add: unsigned_ucast_eq take_bit_nat_eq_self)

text \<open>
  What undefined behaviour of the C program can be in the model.  \<open>StackOverflow\<close> is the
  exhaustion of the recursion budget of a recursive handler, \<open>OverlappingCopy\<close> a \<open>memcpy\<close>
  between overlapping regions, \<open>Uninitialised\<close> the use of a variable that was never set.
\<close>

datatype fault = OutOfBounds | NullDeref | AssertFail | UseAfterFree | StackOverflow
  | SignedOverflow | OverlappingCopy | Uninitialised

named_theorems mem_simps \<open>loads and stores in byte buffers\<close>
named_theorems bindR_elims \<open>inversion of a computation that ended without a fault\<close>

text \<open>Sequencing of fallible computations: the first fault ends the run.\<close>

definition bindR :: "'e + 'a \<Rightarrow> ('a \<Rightarrow> 'e + 'b) \<Rightarrow> 'e + 'b" where
  "bindR m f = (case m of Inl e \<Rightarrow> Inl e | Inr x \<Rightarrow> f x)"

lemma bindR_simps [simp]:
  "bindR (Inl e) f = Inl e"
  "bindR (Inr x) f = f x"
  by (simp_all add: bindR_def)

lemma bindR_Inr_iff: "bindR m f = Inr y \<longleftrightarrow> (\<exists>x. m = Inr x \<and> f x = Inr y)"
  by (cases m) auto

lemma bindR_InrE [elim!, bindR_elims]:
  assumes "bindR m f = Inr y"
  obtains x where "m = Inr x" and "f x = Inr y"
  using assms by (auto simp: bindR_Inr_iff)

lemma bindR_assoc: "bindR (bindR m f) g = bindR m (\<lambda>x. bindR (f x) g)"
  by (cases m) auto

lemma bindR_if: "bindR (if c then a else b) f = (if c then bindR a f else bindR b f)"
  by simp

lemma bindR_cong:
  "\<lbrakk>m = m'; \<And>x. m' = Inr x \<Longrightarrow> f x = g x\<rbrakk> \<Longrightarrow> bindR m f = bindR m' g"
  by (cases m) auto

text \<open>A computation that does not fault.\<close>

definition safe :: "'e + 'a \<Rightarrow> bool" where
  "safe m \<longleftrightarrow> (\<exists>x. m = Inr x)"

lemma safe_simps [simp]: "safe (Inr x)" "\<not> safe (Inl e)"
  by (simp_all add: safe_def)

lemma safe_bindI:
  assumes "safe m" and "\<And>x. m = Inr x \<Longrightarrow> safe (f x)"
  shows "safe (bindR m f)"
  using assms by (auto simp: safe_def)

text \<open>A C \<open>assert\<close>.\<close>

definition assertR :: "bool \<Rightarrow> fault + unit" where
  "assertR b = (if b then Inr () else Inl AssertFail)"

lemma assertR_simps [simp]:
  "assertR True = Inr ()"
  "assertR False = Inl AssertFail"
  "assertR b = Inr u \<longleftrightarrow> b"
  by (simp_all add: assertR_def)

text \<open>Dereferencing a pointer that may be \<open>NULL\<close>.\<close>

definition deref :: "'a option \<Rightarrow> fault + 'a" where
  "deref p = (case p of None \<Rightarrow> Inl NullDeref | Some x \<Rightarrow> Inr x)"

lemma deref_simps [simp]:
  "deref None = Inl NullDeref"
  "deref (Some x) = Inr x"
  "deref p = Inr x \<longleftrightarrow> p = Some x"
  by (simp_all add: deref_def split: option.splits)

section \<open>Byte buffers\<close>

text \<open>\<open>n\<close> bytes from offset \<open>off\<close>, and the buffer with the bytes at \<open>off\<close> overwritten.\<close>

definition slice :: "'a list \<Rightarrow> nat \<Rightarrow> nat \<Rightarrow> 'a list" where
  "slice buf off n = take n (drop off buf)"

definition splice :: "'a list \<Rightarrow> nat \<Rightarrow> 'a list \<Rightarrow> 'a list" where
  "splice buf off bs = take off buf @ bs @ drop (off + length bs) buf"

text \<open>Little-endian integers in memory.\<close>

definition le16 :: "bytes \<Rightarrow> u16" where
  "le16 bs = ucast (bs ! 0) OR push_bit 8 (ucast (bs ! 1))"

definition le32 :: "bytes \<Rightarrow> u32" where
  "le32 bs = ucast (bs ! 0) OR push_bit 8 (ucast (bs ! 1))
             OR push_bit 16 (ucast (bs ! 2)) OR push_bit 24 (ucast (bs ! 3))"

definition bytes16 :: "u16 \<Rightarrow> bytes" where
  "bytes16 w = [ucast w, ucast (drop_bit 8 w)]"

definition bytes32 :: "u32 \<Rightarrow> bytes" where
  "bytes32 w = [ucast w, ucast (drop_bit 8 w), ucast (drop_bit 16 w), ucast (drop_bit 24 w)]"

text \<open>Memory accesses: out of the buffer is a fault.\<close>

definition load_bytes :: "bytes \<Rightarrow> nat \<Rightarrow> nat \<Rightarrow> fault + bytes" where
  "load_bytes buf off n = (if off + n \<le> length buf then Inr (slice buf off n) else Inl OutOfBounds)"

definition load8 :: "bytes \<Rightarrow> nat \<Rightarrow> fault + u8" where
  "load8 buf off = bindR (load_bytes buf off 1) (\<lambda>bs. Inr (bs ! 0))"

definition load16 :: "bytes \<Rightarrow> nat \<Rightarrow> fault + u16" where
  "load16 buf off = bindR (load_bytes buf off 2) (\<lambda>bs. Inr (le16 bs))"

definition load32 :: "bytes \<Rightarrow> nat \<Rightarrow> fault + u32" where
  "load32 buf off = bindR (load_bytes buf off 4) (\<lambda>bs. Inr (le32 bs))"

definition store_bytes :: "bytes \<Rightarrow> nat \<Rightarrow> bytes \<Rightarrow> fault + bytes" where
  "store_bytes buf off bs =
     (if off + length bs \<le> length buf then Inr (splice buf off bs) else Inl OutOfBounds)"

definition store8 :: "bytes \<Rightarrow> nat \<Rightarrow> u8 \<Rightarrow> fault + bytes" where
  "store8 buf off w = store_bytes buf off [w]"

definition store16 :: "bytes \<Rightarrow> nat \<Rightarrow> u16 \<Rightarrow> fault + bytes" where
  "store16 buf off w = store_bytes buf off (bytes16 w)"

definition store32 :: "bytes \<Rightarrow> nat \<Rightarrow> u32 \<Rightarrow> fault + bytes" where
  "store32 buf off w = store_bytes buf off (bytes32 w)"

subsection \<open>Laws of slices\<close>

lemma length_bytes16 [simp]: "length (bytes16 w) = 2"
  by (simp add: bytes16_def)

lemma length_bytes32 [simp]: "length (bytes32 w) = 4"
  by (simp add: bytes32_def)

lemma length_slice [simp]: "off + n \<le> length buf \<Longrightarrow> length (slice buf off n) = n"
  by (simp add: slice_def)

lemma length_splice [simp]: "off + length bs \<le> length buf \<Longrightarrow> length (splice buf off bs) = length buf"
  by (simp add: splice_def)

lemma slice_splice_same [simp]:
  "off + length bs \<le> length buf \<Longrightarrow> n = length bs \<Longrightarrow> slice (splice buf off bs) off n = bs"
  by (simp add: slice_def splice_def)

lemma slice_nth: "i < n \<Longrightarrow> off + n \<le> length buf \<Longrightarrow> slice buf off n ! i = buf ! (off + i)"
  by (simp add: slice_def)

lemma splice_nth:
  "off + length bs \<le> length buf \<Longrightarrow> i < length buf \<Longrightarrow>
   splice buf off bs ! i = (if off \<le> i \<and> i < off + length bs then bs ! (i - off) else buf ! i)"
  by (auto simp: splice_def nth_append min_def)

lemma slice_splice_disj [simp]:
  assumes "off + length bs \<le> length buf" "p + n \<le> length buf"
    and "p + n \<le> off \<or> off + length bs \<le> p"
  shows "slice (splice buf off bs) p n = slice buf p n"
  by (rule nth_equalityI) (use assms in \<open>auto simp: slice_nth splice_nth\<close>)

lemma slice_0_all [simp]: "slice buf 0 (length buf) = buf"
  by (simp add: slice_def)

lemma slice_slice [simp]: "i + m \<le> n \<Longrightarrow> slice (slice buf off n) i m = slice buf (off + i) m"
  by (simp add: slice_def take_drop drop_drop min_def add.commute)

lemma le16_bytes16 [simp]: "le16 (bytes16 w) = w"
  by (rule bit_word_eqI) (auto simp: le16_def bytes16_def bit_simps)

lemma le32_bytes32 [simp]: "le32 (bytes32 w) = w"
proof (rule bit_word_eqI)
  fix n :: nat
  assume "n < LENGTH(32)"
  then consider "n < 8" | "8 \<le> n" "n < 16" | "16 \<le> n" "n < 24" | "24 \<le> n" "n < 32" by force
  then show "bit (le32 (bytes32 w)) n \<longleftrightarrow> bit w n"
    by cases (auto simp: le32_def bytes32_def bit_simps)
qed

lemma list2_eq: "length bs = 2 \<Longrightarrow> bs = [bs ! 0, bs ! 1]"
  by (auto simp: numeral_2_eq_2 length_Suc_conv)

lemma bytes16_le16 [simp]:
  assumes "length bs = 2"
  shows "bytes16 (le16 bs) = bs"
proof -
  have "ucast (le16 bs) = bs ! 0"
    by (rule bit_word_eqI) (auto simp: le16_def bit_simps)
  moreover have "ucast (drop_bit 8 (le16 bs)) = bs ! 1"
    by (rule bit_word_eqI) (auto simp: le16_def bit_simps dest: bit_imp_le_length)
  ultimately show ?thesis
    using list2_eq [OF assms] by (simp add: bytes16_def)
qed

lemma list4_eq: "length bs = 4 \<Longrightarrow> bs = [bs ! 0, bs ! 1, bs ! 2, bs ! 3]"
  by (auto simp: numeral_eq_Suc length_Suc_conv)

lemma bytes32_le32 [simp]:
  assumes "length bs = 4"
  shows "bytes32 (le32 bs) = bs"
proof -
  have "ucast (le32 bs) = bs ! 0"
    by (rule bit_word_eqI) (auto simp: le32_def bit_simps)
  moreover have "ucast (drop_bit 8 (le32 bs)) = bs ! 1"
    by (rule bit_word_eqI) (auto simp: le32_def bit_simps dest: bit_imp_le_length)
  moreover have "ucast (drop_bit 16 (le32 bs)) = bs ! 2"
    by (rule bit_word_eqI) (auto simp: le32_def bit_simps dest: bit_imp_le_length)
  moreover have "ucast (drop_bit 24 (le32 bs)) = bs ! 3"
    by (rule bit_word_eqI) (auto simp: le32_def bit_simps dest: bit_imp_le_length)
  ultimately show ?thesis
    using list4_eq [OF assms] by (simp add: bytes32_def)
qed

section \<open>Byte order\<close>

text \<open>
  Reversing the bytes of an integer.  The host is little-endian, so \<open>htons\<close>, \<open>ntohs\<close>,
  \<open>htonl\<close> and \<open>ntohl\<close> all do that.
\<close>

definition swap16 :: "u16 \<Rightarrow> u16" where
  "swap16 w = le16 (rev (bytes16 w))"

definition swap32 :: "u32 \<Rightarrow> u32" where
  "swap32 w = le32 (rev (bytes32 w))"

abbreviation htons :: "u16 \<Rightarrow> u16" where "htons \<equiv> swap16"
abbreviation ntohs :: "u16 \<Rightarrow> u16" where "ntohs \<equiv> swap16"
abbreviation htonl :: "u32 \<Rightarrow> u32" where "htonl \<equiv> swap32"
abbreviation ntohl :: "u32 \<Rightarrow> u32" where "ntohl \<equiv> swap32"

lemma bytes16_swap16 [simp]: "bytes16 (swap16 w) = rev (bytes16 w)"
  by (simp add: swap16_def)

lemma bytes32_swap32 [simp]: "bytes32 (swap32 w) = rev (bytes32 w)"
  by (simp add: swap32_def)

lemma le16_rev_bytes16 [simp]: "le16 (rev (bytes16 w)) = swap16 w"
  by (simp add: swap16_def)

lemma le32_rev_bytes32 [simp]: "le32 (rev (bytes32 w)) = swap32 w"
  by (simp add: swap32_def)

lemma bytes16_inj: "bytes16 a = bytes16 b \<longleftrightarrow> a = b"
  by (metis le16_bytes16)

lemma bytes32_inj: "bytes32 a = bytes32 b \<longleftrightarrow> a = b"
  by (metis le32_bytes32)

lemma swap16_swap16 [simp]: "swap16 (swap16 w) = w"
  by (subst swap16_def) simp

lemma swap32_swap32 [simp]: "swap32 (swap32 w) = w"
  by (subst swap32_def) simp

lemma swap16_inj [simp]: "swap16 a = swap16 b \<longleftrightarrow> a = b"
  by (metis swap16_swap16)

lemma swap32_inj [simp]: "swap32 a = swap32 b \<longleftrightarrow> a = b"
  by (metis swap32_swap32)

subsection \<open>Laws of loads and stores\<close>

text \<open>Overwriting a list of fields, in order.\<close>

definition splices :: "bytes \<Rightarrow> (nat \<times> bytes) list \<Rightarrow> bytes" where
  "splices buf ws = foldl (\<lambda>b (off, bs). splice b off bs) buf ws"

lemma splices_simps:
  "splices buf [] = buf" "splices buf ((off, bs) # ws) = splices (splice buf off bs) ws"
  by (simp_all add: splices_def)

lemma length_splices [simp]:
  "\<forall>(off, bs) \<in> set ws. off + length bs \<le> length buf \<Longrightarrow> length (splices buf ws) = length buf"
  by (induction ws arbitrary: buf) (auto simp: splices_simps)

lemma splices_append [simp]: "splices (splices buf ws) vs = splices buf (ws @ vs)"
  by (simp add: splices_def)

lemma splice_splices: "splice buf off bs = splices buf [(off, bs)]"
  by (simp add: splices_simps)


lemmas mem_defs = load_bytes_def load8_def load16_def load32_def
  store_bytes_def store8_def store16_def store32_def

lemma load_bytes_Inr [mem_simps]: "off + n \<le> length buf \<Longrightarrow> load_bytes buf off n = Inr (slice buf off n)"
  and load8_Inr [mem_simps]: "off < length buf \<Longrightarrow> load8 buf off = Inr (buf ! off)"
  and load16_Inr [mem_simps]: "off + 2 \<le> length buf \<Longrightarrow> load16 buf off = Inr (le16 (slice buf off 2))"
  and load32_Inr [mem_simps]: "off + 4 \<le> length buf \<Longrightarrow> load32 buf off = Inr (le32 (slice buf off 4))"
  and store_bytes_Inr [mem_simps]:
    "off + length bs \<le> length buf \<Longrightarrow> store_bytes buf off bs = Inr (splices buf [(off, bs)])"
  and store8_Inr [mem_simps]: "off < length buf \<Longrightarrow> store8 buf off b = Inr (splices buf [(off, [b])])"
  and store16_Inr [mem_simps]: "off + 2 \<le> length buf \<Longrightarrow> store16 buf off w = Inr (splices buf [(off, bytes16 w)])"
  and store32_Inr [mem_simps]: "off + 4 \<le> length buf \<Longrightarrow> store32 buf off d = Inr (splices buf [(off, bytes32 d)])"
  by (simp_all add: mem_defs slice_nth splices_simps)

lemma store_bytes_Inr_iff:
  "store_bytes buf off bs = Inr buf' \<longleftrightarrow> off + length bs \<le> length buf \<and> buf' = splice buf off bs"
  by (auto simp: store_bytes_def)

lemma store_length [bindR_elims]:
  "store_bytes buf off bs = Inr buf' \<Longrightarrow> length buf' = length buf"
  "store8 buf off b = Inr buf' \<Longrightarrow> length buf' = length buf"
  "store16 buf off w = Inr buf' \<Longrightarrow> length buf' = length buf"
  "store32 buf off d = Inr buf' \<Longrightarrow> length buf' = length buf"
  by (auto simp: store8_def store16_def store32_def store_bytes_Inr_iff)

text \<open>A run of assignments to fields at fixed offsets, in order.\<close>

fun stores :: "bytes \<Rightarrow> (nat \<times> bytes) list \<Rightarrow> fault + bytes" where
  "stores buf [] = Inr buf"
| "stores buf ((off, bs) # ws) = bindR (store_bytes buf off bs) (\<lambda>buf. stores buf ws)"

lemma stores_Inr [mem_simps]:
  "\<forall>(off, bs) \<in> set ws. off + length bs \<le> length buf \<Longrightarrow> stores buf ws = Inr (splices buf ws)"
  by (induction ws arbitrary: buf) (auto simp: store_bytes_def splices_simps)

lemma stores_Inr_iff:
  "stores buf ws = Inr buf' \<longleftrightarrow>
   (\<forall>(off, bs) \<in> set ws. off + length bs \<le> length buf) \<and> buf' = splices buf ws"
  by (induction ws arbitrary: buf) (auto simp: store_bytes_def splices_simps split: if_splits)

text \<open>
  Reading a field back after a run of assignments: the last one to exactly that field, if the
  others are disjoint from it.
\<close>

fun read_back :: "(nat \<times> bytes) list \<Rightarrow> bytes \<Rightarrow> nat \<Rightarrow> bytes" where
  "read_back [] cur p = cur"
| "read_back ((off, bs) # ws) cur p = read_back ws (if off = p then bs else cur) p"

lemma slice_splices:
  assumes "\<forall>(off, bs) \<in> set ws. off + length bs \<le> length buf
             \<and> (off = p \<and> length bs = n \<or> off \<noteq> p \<and> (p + n \<le> off \<or> off + length bs \<le> p))"
    and "p + n \<le> length buf"
  shows "slice (splices buf ws) p n = read_back ws (slice buf p n) p"
  using assms
proof (induction ws arbitrary: buf)
  case (Cons w ws)
  obtain off bs where w: "w = (off, bs)" by fastforce
  have fits: "off + length bs \<le> length buf" using Cons.prems w by simp
  have "slice (splices (splice buf off bs) ws) p n = read_back ws (slice (splice buf off bs) p n) p"
    by (rule Cons.IH) (use Cons.prems fits in auto)
  moreover have "slice (splice buf off bs) p n = (if off = p then bs else slice buf p n)"
    using Cons.prems w fits by auto
  ultimately show ?case by (simp add: w splices_simps)
qed (simp add: splices_simps)

lemma nth_splices_other:
  assumes "\<forall>(off, bs) \<in> set ws. off + length bs \<le> length buf \<and> (i < off \<or> off + length bs \<le> i)"
    and "i < length buf"
  shows "splices buf ws ! i = buf ! i"
  using assms by (induction ws arbitrary: buf) (auto simp: splice_nth splices_simps)

lemma slice_splice_inside:
  assumes "p \<le> q" and "q + length bs \<le> p + n" and "p + n \<le> length buf"
  shows "slice (splice buf q bs) p n = splice (slice buf p n) (q - p) bs"
  by (rule nth_equalityI) (use assms in \<open>auto simp: slice_nth splice_nth add.commute\<close>)

lemma nth_splices:
  assumes "\<forall>(off, bs) \<in> set ws. off + length bs \<le> length buf
             \<and> (off = p \<and> length bs = 1 \<or> off \<noteq> p \<and> (p + 1 \<le> off \<or> off + length bs \<le> p))"
    and "p < length buf"
  shows "splices buf ws ! p = read_back ws [buf ! p] p ! 0"
proof -
  have "slice (splices buf ws) p 1 = read_back ws (slice buf p 1) p"
    by (rule slice_splices) (use assms in auto)
  moreover have "slice buf p 1 = [buf ! p]" if "p < length buf" for buf :: bytes
    using that by (simp add: slice_def take_Suc hd_drop_conv_nth)
  moreover have "length (splices buf ws) = length buf"
    using assms by (intro length_splices) auto
  ultimately show ?thesis using assms(2) by (metis nth_Cons_0)
qed

section \<open>C strings\<close>

text \<open>
  A C string is the list of its characters without the terminating NUL; \<open>strncmp\<close> with bound
  \<open>n\<close> compares the first \<open>n\<close> of them, \<open>strncpy\<close> into an array of size \<open>n\<close> keeps the first
  \<open>n\<close> (a longer source leaves the array without a terminator, and every reader of these
  arrays is bounded by \<open>n\<close>).
\<close>

definition strncmp_eq :: "nat \<Rightarrow> 'a list \<Rightarrow> 'a list \<Rightarrow> bool" where
  "strncmp_eq n a b \<longleftrightarrow> take n a = take n b"

definition strncpy :: "nat \<Rightarrow> 'a list \<Rightarrow> 'a list" where
  "strncpy n s = take n s"

lemma strncmp_eq_refl [simp]: "strncmp_eq n a a"
  by (simp add: strncmp_eq_def)

lemma strncmp_eq_strncpy [simp]:
  "strncmp_eq n (strncpy n a) b = strncmp_eq n a b"
  "strncmp_eq n a (strncpy n b) = strncmp_eq n a b"
  by (simp_all add: strncmp_eq_def strncpy_def)

section \<open>Lists as linked lists\<close>

text \<open>Walking to the last node and updating it.\<close>

fun update_last :: "('a \<Rightarrow> 'a) \<Rightarrow> 'a list \<Rightarrow> 'a list" where
  "update_last f [] = []"
| "update_last f [x] = [f x]"
| "update_last f (x # y # zs) = x # update_last f (y # zs)"

lemma update_last_append [simp]: "update_last f (xs @ [x]) = xs @ [f x]"
  by (induction f xs rule: update_last.induct) (auto simp: neq_Nil_conv)

lemma length_update_last [simp]: "length (update_last f xs) = length xs"
  by (induction f xs rule: update_last.induct) auto

section \<open>Tables\<close>

text \<open>What a client of a table with updates and deletions relies on.\<close>

locale partial_map =
  fixes valid :: "'k \<Rightarrow> bool"
    and inv :: "'t \<Rightarrow> bool"
    and lookup :: "'t \<Rightarrow> 'k \<Rightarrow> 'v option"
    and put :: "'t \<Rightarrow> 'k \<Rightarrow> 'v \<Rightarrow> fault + 't"
    and del :: "'t \<Rightarrow> 'k \<Rightarrow> fault + 't"
  assumes put_ok: "inv t \<Longrightarrow> valid k \<Longrightarrow> \<exists>t'. put t k v = Inr t' \<and> inv t' \<and> lookup t' = (lookup t)(k \<mapsto> v)"
    and del_ok: "inv t \<Longrightarrow> valid k \<Longrightarrow> \<exists>t'. del t k = Inr t' \<and> inv t' \<and> lookup t' = (lookup t)(k := None)"
begin

fun updates :: "'t \<Rightarrow> ('k \<times> 'v option) list \<Rightarrow> fault + 't" where
  "updates t [] = Inr t"
| "updates t ((k, Some v) # ops) = bindR (put t k v) (\<lambda>t. updates t ops)"
| "updates t ((k, None) # ops) = bindR (del t k) (\<lambda>t. updates t ops)"

text \<open>Any sequence of updates with valid keys succeeds and does what it does to a map.\<close>

lemma updates_refine:
  assumes "inv t" and "\<forall>(k, v) \<in> set ops. valid k"
  shows "\<exists>t'. updates t ops = Inr t' \<and> inv t' \<and> lookup t' = foldl (\<lambda>m (k, v). m(k := v)) (lookup t) ops"
  using assms
proof (induction ops arbitrary: t)
  case (Cons op ops)
  obtain k v where op: "op = (k, v)" by (cases op)
  with Cons.prems(2) have k: "valid k" by simp
  show ?case
  proof (cases v)
    case None
    obtain t' where t': "del t k = Inr t'" "inv t'" "lookup t' = (lookup t)(k := None)"
      using del_ok [OF Cons.prems(1) k] by blast
    with Cons.IH [OF t'(2)] Cons.prems(2) show ?thesis by (simp add: op None)
  next
    case (Some x)
    obtain t' where t': "put t k x = Inr t'" "inv t'" "lookup t' = (lookup t)(k \<mapsto> x)"
      using put_ok [OF Cons.prems(1) k] by blast
    with Cons.IH [OF t'(2)] Cons.prems(2) show ?thesis by (simp add: op Some)
  qed
qed simp

end

end
