(* ===== verification/Sr_Utils.thy ===== *)
theory Sr_Utils
  imports Net_Prelude
begin

text \<open>
  The Internet checksum of \<^verbatim>\<open>router/sr_utils.c\<close> and the two header accessors beside it.
  The loop, the carry folding and the final complement are translated statement by statement
  at their widths; the reference is the sum of the big-endian 16-bit words of the buffer.
\<close>

section \<open>The checksum routine\<close>

text \<open>The first loop and the trailing odd byte, \<open>acc\<close> (\<open>sum\<close> in the source) a 32-bit accumulator.\<close>

fun cksum_sum :: "u32 \<Rightarrow> bytes \<Rightarrow> u32" where
  "cksum_sum acc (a # b # data) = cksum_sum (acc + (push_bit 8 (ucast a) OR ucast b)) data"
| "cksum_sum acc [a] = acc + push_bit 8 (ucast a)"
| "cksum_sum acc [] = acc"

lemma cksum_fold_step:
  fixes s :: u32
  shows "unat (drop_bit 16 s + (s AND 0xffff)) = unat s div 65536 + unat s mod 65536"
proof -
  have d: "unat (drop_bit 16 s) = unat s div 65536"
    by (simp add: drop_bit_eq_div unat_div)
  have m: "s AND 0xffff = take_bit 16 s"
    by (simp add: take_bit_eq_mask mask_eq_exp_minus_1)
  have t: "unat (take_bit 16 s) = unat s mod 65536"
    by (simp add: take_bit_eq_mod unat_mod)
  have "unat s div 65536 + unat s mod 65536 \<le> unat s"
    using div_mult_mod_eq [of "unat s" 65536] by linarith
  moreover have "unat s < 2 ^ 32" by simp
  ultimately have "unat s div 65536 + unat s mod 65536 < 2 ^ 32" by linarith
  then show ?thesis
    by (simp add: m unat_word_ariths d t)
qed

function cksum_fold :: "u32 \<Rightarrow> u32" where
  "cksum_fold acc =
     (if acc > 0xffff then cksum_fold (drop_bit 16 acc + (acc AND 0xffff)) else acc)"
  by pat_completeness auto
termination
proof (relation "measure unat")
  fix s :: u32
  assume "s > 0xffff"
  then have "unat s > 65535" by (simp add: word_less_nat_alt)
  moreover have "unat s div 65536 * 65536 + unat s mod 65536 = unat s" by simp
  ultimately have "unat s div 65536 + unat s mod 65536 < unat s"
    by (cases "unat s div 65536") auto
  then show "(drop_bit 16 s + (s AND 0xffff), s) \<in> measure unat"
    by (simp add: cksum_fold_step)
qed simp

declare cksum_fold.simps [simp del]

definition cksum :: "bytes \<Rightarrow> u16" where
  "cksum data =
     (let acc = cksum_fold (cksum_sum 0 data);
          s = htons (ucast (NOT acc))
      in if s \<noteq> 0 then s else 0xffff)"

text \<open>Header accessors: the two bytes at offset 12 of a frame, the byte at offset 9 of an IP header.\<close>

definition ethertype :: "bytes \<Rightarrow> fault + u16" where
  "ethertype buf = bindR (load16 buf 12) (\<lambda>t. Inr (ntohs t))"

definition ip_protocol :: "bytes \<Rightarrow> fault + u8" where
  "ip_protocol buf = load8 buf 9"

section \<open>The reference sum\<close>

fun sum16 :: "bytes \<Rightarrow> nat" where
  "sum16 (a # b # data) = 256 * unat a + unat b + sum16 data"
| "sum16 [a] = 256 * unat a"
| "sum16 [] = 0"

lemma unat_be16:
  "unat (push_bit 8 (ucast (a::u8)) OR ucast (b::u8) :: u32) = 256 * unat a + unat b"
proof -
  have "push_bit 8 (ucast a) OR ucast b = (push_bit 8 (ucast a) + ucast b :: u32)"
    by (rule disjunctive_add [symmetric]) (auto simp: bit_simps dest: bit_imp_le_length)
  moreover have "unat (push_bit 8 (ucast a) + ucast b :: u32) = 256 * unat a + unat b"
    using unat_le_width(1) [of a] unat_le_width(1) [of b]
    by (simp add: unat_word_ariths push_bit_eq_mult)
  ultimately show ?thesis by simp
qed

lemma unat_shl8: "unat (push_bit 8 (ucast (a::u8)) :: u32) = 256 * unat a"
  using unat_be16 [of a 0] by simp

lemma sum16_bound: "sum16 data \<le> 65535 * ((length data + 1) div 2)"
proof (induction data rule: sum16.induct)
  case (1 a b data)
  then show ?case
    using unat_le_width(1) [of a] unat_le_width(1) [of b] by simp
next
  case (2 a)
  then show ?case using unat_le_width(1) [of a] by simp
qed simp

lemma unat_cksum_sum:
  "unat acc + sum16 data < 2 ^ 32 \<Longrightarrow> unat (cksum_sum acc data) = unat acc + sum16 data"
proof (induction acc data rule: cksum_sum.induct)
  case (1 acc a b data)
  let ?w = "push_bit 8 (ucast a) OR ucast b :: u32"
  have "unat (acc + ?w) = unat acc + (256 * unat a + unat b)"
    using "1.prems" by (simp add: unat_word_ariths unat_be16)
  with "1.IH" "1.prems" show ?case by simp
next
  case (2 acc a)
  then show ?case by (simp add: unat_word_ariths unat_shl8)
qed simp

lemma sum16_append: "even (length xs) \<Longrightarrow> sum16 (xs @ ys) = sum16 xs + sum16 ys"
  by (induction xs rule: sum16.induct) auto

lemma cksum_fold_spec:
  "unat (cksum_fold s) \<le> 65535 \<and> unat (cksum_fold s) mod 65535 = unat s mod 65535
   \<and> (cksum_fold s = 0 \<longleftrightarrow> s = 0)"
proof (induction s rule: cksum_fold.induct)
  case (1 s)
  show ?case
  proof (cases "s > 0xffff")
    case True
    let ?t = "drop_bit 16 s + (s AND 0xffff)"
    have f: "cksum_fold s = cksum_fold ?t"
      using True by (subst cksum_fold.simps) simp
    have "unat s = unat ?t + unat s div 65536 * 65535"
      using div_mult_mod_eq [of "unat s" 65536] unfolding cksum_fold_step by linarith
    then have m: "unat ?t mod 65535 = unat s mod 65535"
      by (metis mod_mult_self1)
    have "unat s > 65535" using True by (simp add: word_less_nat_alt)
    then have "unat s div 65536 > 0" by (simp add: div_greater_zero_iff)
    then have nz: "?t \<noteq> 0" using cksum_fold_step [of s] by (metis add_is_0 not_gr_zero unat_0)
    show ?thesis using "1.IH" [OF True] m nz True by (auto simp: f)
  next
    case False
    then show ?thesis
      by (subst (1 2 3) cksum_fold.simps) (simp add: word_less_nat_alt not_less)
  qed
qed

text \<open>The complement of the folded sum, as the 16-bit value that is returned.\<close>

lemma unat_complement16: "unat (NOT w :: u16) = 65535 - unat w"
proof -
  have "unat (- 1 - w) = unat (- 1 :: u16) - unat w"
    by (rule unat_sub) simp
  moreover have "NOT w = - 1 - w" by (simp add: not_eq_complement)
  moreover have "unat (- 1 :: u16) = 65535"
    by (simp add: unsigned_minus_1_eq_mask mask_eq_exp_minus_1)
  ultimately show ?thesis by metis
qed

lemma unat_ucast_complement:
  fixes s :: u32
  assumes "unat s \<le> 65535"
  shows "unat (ucast (NOT s) :: u16) = 65535 - unat s"
proof -
  have "(ucast (NOT s) :: u16) = NOT (ucast s)"
    by (rule bit_word_eqI) (auto simp: bit_simps)
  moreover have "unat (ucast s :: u16) = unat s"
    using assms by (simp add: unsigned_ucast_eq take_bit_nat_eq_self)
  ultimately show ?thesis by (simp add: unat_complement16)
qed

lemma swap16_eq_0 [simp]: "swap16 w = 0 \<longleftrightarrow> w = 0"
proof -
  have "swap16 0 = 0" by (simp add: swap16_def bytes16_def le16_def)
  then show ?thesis by (metis swap16_inj)
qed

lemma swap16_ffff [simp]: "swap16 0xffff = 0xffff"
  by (simp add: swap16_def bytes16_def le16_def)

lemma unat_ntohs_cksum:
  fixes data
  defines "f \<equiv> unat (cksum_fold (cksum_sum 0 data))"
  shows "unat (ntohs (cksum data)) = (if f = 65535 then 65535 else 65535 - f)"
proof -
  have f: "f \<le> 65535" using cksum_fold_spec f_def by blast
  let ?s = "ucast (NOT (cksum_fold (cksum_sum 0 data))) :: u16"
  have u: "unat ?s = 65535 - f"
    using f by (simp add: f_def unat_ucast_complement)
  then have "?s = 0 \<longleftrightarrow> f = 65535"
    using f by (metis diff_is_0_eq diff_zero le_antisym unat_0 unat_eq_zero)
  with u f show ?thesis
    by (auto simp: cksum_def Let_def)
qed

section \<open>Correctness\<close>

lemma cksum_nonzero: "cksum data \<noteq> 0"
  by (simp add: cksum_def Let_def)

text \<open>No 32-bit overflow happens up to 131070 bytes, more than any frame holds.\<close>

lemma cksum_sum_exact:
  assumes "length data \<le> 131070"
  shows "unat (cksum_sum 0 data) = sum16 data"
proof -
  have "(length data + 1) div 2 \<le> 65535" using assms by simp
  then have "sum16 data \<le> 65535 * 65535"
    using sum16_bound [of data] by (meson le_trans mult_le_mono2)
  then show ?thesis using unat_cksum_sum [of 0 data] by simp
qed

text \<open>
  Together with the returned value, in network order, the words of the buffer sum to a
  multiple of 65535: the acceptance test of a one's complement checksum.
\<close>

lemma cksum_complements:
  assumes "length data \<le> 131070"
  shows "(sum16 data + unat (ntohs (cksum data))) mod 65535 = 0"
proof -
  let ?f = "unat (cksum_fold (cksum_sum 0 data))"
  have le: "?f \<le> 65535" and m: "?f mod 65535 = sum16 data mod 65535"
    using cksum_fold_spec [of "cksum_sum 0 data"] cksum_sum_exact [OF assms] by auto
  have "(?f + unat (ntohs (cksum data))) mod 65535 = 0"
    using le by (simp add: unat_ntohs_cksum)
  then show ?thesis using m by (metis mod_add_left_eq)
qed

text \<open>Overwriting a 16-bit field at an even offset changes the sum by that field only.\<close>

lemma unat_le16: "unat (le16 [a, b]) = unat a + 256 * unat b"
proof -
  have "le16 [a, b] = ucast a + push_bit 8 (ucast b)"
    unfolding le16_def nth_Cons_0 One_nat_def nth_Cons_Suc
    by (rule disjunctive_add [symmetric]) (auto simp: bit_simps dest: bit_imp_le_length)
  moreover have "unat (ucast a + push_bit 8 (ucast b) :: u16) = unat a + 256 * unat b"
    using unat_le_width(1) [of a] unat_le_width(1) [of b]
    by (simp add: unat_word_ariths push_bit_eq_mult)
  ultimately show ?thesis by simp
qed

lemma sum16_bytes16: "sum16 (bytes16 w) = unat (ntohs w)"
  by (simp add: swap16_def bytes16_def unat_le16)

lemma sum16_splice:
  assumes "even off" and "off + 2 \<le> length buf"
  shows "sum16 (splice buf off (bytes16 w)) + sum16 (slice buf off 2) = sum16 buf + unat (ntohs w)"
proof -
  have "buf = take off buf @ slice buf off 2 @ drop (off + 2) buf"
    unfolding slice_def by (metis append_take_drop_id drop_drop add.commute)
  then have "sum16 buf = sum16 (take off buf) + (sum16 (slice buf off 2) + sum16 (drop (off + 2) buf))"
    using assms by (metis (no_types, lifting) add_leD1 even_numeral length_slice length_take min.absorb2 sum16_append)
  moreover have "sum16 (splice buf off (bytes16 w)) =
      sum16 (take off buf) + (unat (ntohs w) + sum16 (drop (off + 2) buf))"
    using assms by (simp add: splice_def sum16_append sum16_bytes16)
  ultimately show ?thesis by simp
qed

end
