(* ===== verification/Sr_State.thy ===== *)
theory Sr_State
  imports Net_Prelude
begin

text \<open>
  The data of the router: the packed protocol headers of \<^verbatim>\<open>sr_protocol.h\<close> as records with
  their byte layout, and the structs of \<^verbatim>\<open>sr_if.h\<close>, \<^verbatim>\<open>sr_rt.h\<close>, \<^verbatim>\<open>sr_arpcache.h\<close> and
  \<^verbatim>\<open>sr_router.h\<close> as records.  A linked list is the list of its nodes; an ARP request node
  keeps its address (\<open>req_id\<close>), since handlers hold pointers to it across calls that may free
  it.  Multi-byte header fields hold the value as loaded on the little-endian host, that is,
  in network byte order exactly where the C field is.
\<close>

section \<open>Protocol headers\<close>

record sr_ethernet_hdr =
  ether_dhost :: bytes
  ether_shost :: bytes
  ether_type :: u16

record sr_ip_hdr =
  ip_hl :: u8
  ip_v :: u8
  ip_tos :: u8
  ip_len :: u16
  ip_id :: u16
  ip_off :: u16
  ip_ttl :: u8
  ip_p :: u8
  ip_sum :: u16
  ip_src :: u32
  ip_dst :: u32

record sr_arp_hdr =
  ar_hrd :: u16
  ar_pro :: u16
  ar_hln :: u8
  ar_pln :: u8
  ar_op :: u16
  ar_sha :: bytes
  ar_sip :: u32
  ar_tha :: bytes
  ar_tip :: u32

record sr_icmp_hdr =
  icmp_type :: u8
  icmp_code :: u8
  icmp_sum :: u16

record sr_icmp_t3_hdr = sr_icmp_hdr +
  icmp_unused :: u16
  icmp_next_mtu :: u16
  icmp_data :: bytes

text \<open>Reading a header off a buffer that is long enough.\<close>

definition ethernet_hdr_at :: "bytes \<Rightarrow> nat \<Rightarrow> sr_ethernet_hdr" where
  "ethernet_hdr_at b p = \<lparr>ether_dhost = slice b p 6, ether_shost = slice b (p + 6) 6,
     ether_type = le16 (slice b (p + 12) 2)\<rparr>"

definition ip_hdr_at :: "bytes \<Rightarrow> nat \<Rightarrow> sr_ip_hdr" where
  "ip_hdr_at b p = \<lparr>ip_hl = b ! p AND 0x0f, ip_v = drop_bit 4 (b ! p), ip_tos = b ! (p + 1),
     ip_len = le16 (slice b (p + 2) 2), ip_id = le16 (slice b (p + 4) 2),
     ip_off = le16 (slice b (p + 6) 2), ip_ttl = b ! (p + 8), ip_p = b ! (p + 9),
     ip_sum = le16 (slice b (p + 10) 2), ip_src = le32 (slice b (p + 12) 4),
     ip_dst = le32 (slice b (p + 16) 4)\<rparr>"

definition arp_hdr_at :: "bytes \<Rightarrow> nat \<Rightarrow> sr_arp_hdr" where
  "arp_hdr_at b p = \<lparr>ar_hrd = le16 (slice b p 2), ar_pro = le16 (slice b (p + 2) 2),
     ar_hln = b ! (p + 4), ar_pln = b ! (p + 5), ar_op = le16 (slice b (p + 6) 2),
     ar_sha = slice b (p + 8) 6, ar_sip = le32 (slice b (p + 14) 4),
     ar_tha = slice b (p + 18) 6, ar_tip = le32 (slice b (p + 24) 4)\<rparr>"

definition icmp_t3_hdr_at :: "bytes \<Rightarrow> nat \<Rightarrow> sr_icmp_t3_hdr" where
  "icmp_t3_hdr_at b p = \<lparr>icmp_type = b ! p, icmp_code = b ! (p + 1),
     icmp_sum = le16 (slice b (p + 2) 2), icmp_unused = le16 (slice b (p + 4) 2),
     icmp_next_mtu = le16 (slice b (p + 6) 2), icmp_data = slice b (p + 8) 28\<rparr>"

text \<open>Sizes and the values of the enumerations.\<close>

abbreviation (input) sizeof_ethernet_hdr :: nat where "sizeof_ethernet_hdr \<equiv> 14"
abbreviation (input) sizeof_ip_hdr :: nat where "sizeof_ip_hdr \<equiv> 20"
abbreviation (input) sizeof_arp_hdr :: nat where "sizeof_arp_hdr \<equiv> 28"
abbreviation (input) sizeof_icmp_t3_hdr :: nat where "sizeof_icmp_t3_hdr \<equiv> 36"
abbreviation (input) ICMP_DATA_SIZE :: nat where "ICMP_DATA_SIZE \<equiv> 28"
abbreviation (input) ETHER_ADDR_LEN :: nat where "ETHER_ADDR_LEN \<equiv> 6"
abbreviation (input) sr_IFACE_NAMELEN :: nat where "sr_IFACE_NAMELEN \<equiv> 32"

abbreviation (input) ethertype_arp :: u16 where "ethertype_arp \<equiv> 0x0806"
abbreviation (input) ethertype_ip :: u16 where "ethertype_ip \<equiv> 0x0800"
abbreviation (input) arp_op_request :: u16 where "arp_op_request \<equiv> 1"
abbreviation (input) arp_op_reply :: u16 where "arp_op_reply \<equiv> 2"
abbreviation (input) arp_hrd_ethernet :: u16 where "arp_hrd_ethernet \<equiv> 1"
abbreviation (input) ip_protocol_icmp :: u8 where "ip_protocol_icmp \<equiv> 1"
abbreviation (input) IP_DF :: u16 where "IP_DF \<equiv> 0x4000"

section \<open>Router state\<close>

record sr_if =
  if_name :: string
  if_addr :: bytes
  if_ip :: u32
  if_speed :: u32

record sr_rt =
  rt_dest :: u32
  rt_gw :: u32
  rt_mask :: u32
  rt_interface :: string

record sr_packet =
  pkt_buf :: bytes
  pkt_len :: nat
  pkt_iface :: string

record sr_arpentry =
  ae_mac :: bytes
  ae_ip :: u32
  ae_added :: int
  ae_valid :: bool

record sr_arpreq =
  req_id :: nat
  req_ip :: u32
  req_sent :: int
  req_times_sent :: u32
  req_packets :: "sr_packet list"

record sr_arpcache =
  entries :: "sr_arpentry list"
  requests :: "sr_arpreq list"

text \<open>
  The outside world: what the \<open>k\<close>-th interaction with it gives, for the clock (\<open>time(NULL)\<close>),
  the contents of a freshly allocated block and the result of \<open>write\<close> on the server socket.
\<close>

record sr_env =
  env_time :: "nat \<Rightarrow> int"
  env_mem :: "nat \<Rightarrow> nat \<Rightarrow> u8"
  env_write :: "nat \<Rightarrow> int"

text \<open>
  \<open>wire\<close> is the sequence of messages handed to \<open>write\<close>, oldest first; \<open>ticks\<close> counts the
  interactions with the environment and \<open>next_addr\<close> is the next address \<open>calloc\<close> gives an ARP
  request.  \<open>saved_files\<close> are the files the router has written.
\<close>

record sr_instance =
  sockfd :: int
  user :: string
  host :: string
  template :: string
  topo_id :: u16
  if_list :: "sr_if list"
  routing_table :: "sr_rt list"
  cache :: sr_arpcache
  env :: sr_env
  ticks :: nat
  next_addr :: nat
  wire :: "bytes list"
  saved_files :: "string \<rightharpoonup> string"

definition sr_time :: "sr_instance \<Rightarrow> int \<times> sr_instance" where
  "sr_time sr = (env_time (env sr) (ticks sr), sr\<lparr>ticks := Suc (ticks sr)\<rparr>)"

definition sr_malloc :: "sr_instance \<Rightarrow> nat \<Rightarrow> bytes \<times> sr_instance" where
  "sr_malloc sr n = (map (env_mem (env sr) (ticks sr)) [0..<n], sr\<lparr>ticks := Suc (ticks sr)\<rparr>)"

lemma length_sr_malloc [simp]: "length (fst (sr_malloc sr n)) = n"
  by (simp add: sr_malloc_def)

text \<open>
  What no packet handler changes: the interfaces, the routing table and the identity of the
  router.
\<close>

definition same_config :: "sr_instance \<Rightarrow> sr_instance \<Rightarrow> bool" where
  "same_config sr sr' \<longleftrightarrow> sockfd sr' = sockfd sr \<and> user sr' = user sr \<and> host sr' = host sr
     \<and> template sr' = template sr \<and> topo_id sr' = topo_id sr
     \<and> if_list sr' = if_list sr \<and> routing_table sr' = routing_table sr \<and> env sr' = env sr"

lemma same_config_refl [simp]: "same_config sr sr"
  by (simp add: same_config_def)

lemma same_config_trans [trans]: "same_config a b \<Longrightarrow> same_config b c \<Longrightarrow> same_config a c"
  by (simp add: same_config_def)

lemma same_config_update [simp]:
  "same_config a (b\<lparr>cache := c\<rparr>) = same_config a b"
  "same_config a (b\<lparr>ticks := t\<rparr>) = same_config a b"
  "same_config a (b\<lparr>next_addr := n\<rparr>) = same_config a b"
  "same_config a (b\<lparr>wire := w\<rparr>) = same_config a b"
  by (simp_all add: same_config_def)

end
