(* ===== verification/Sr_If.thy ===== *)
theory Sr_If
  imports Sr_State
begin

text \<open>
  The interface list of \<^verbatim>\<open>router/sr_if.c\<close>: lookup by name, address and hardware address,
  and the operations that build the list from the hardware information of the server.
\<close>

section \<open>Lookup\<close>

fun if_walk :: "(sr_if \<Rightarrow> bool) \<Rightarrow> sr_if list \<Rightarrow> sr_if option" where
  "if_walk P [] = None"
| "if_walk P (i # is) = (if P i then Some i else if_walk P is)"

definition sr_get_interface :: "sr_instance \<Rightarrow> string \<Rightarrow> sr_if option" where
  "sr_get_interface sr name =
     if_walk (\<lambda>i. strncmp_eq sr_IFACE_NAMELEN (if_name i) name) (if_list sr)"

definition get_interface_from_ip :: "sr_instance \<Rightarrow> u32 \<Rightarrow> sr_if option" where
  "get_interface_from_ip sr ip_address = if_walk (\<lambda>i. ip_address = if_ip i) (if_list sr)"

text \<open>The byte-by-byte comparison of six bytes; \<open>addr\<close> is an array of six.\<close>

fun ether_addr_match :: "nat \<Rightarrow> bytes \<Rightarrow> bytes \<Rightarrow> bool" where
  "ether_addr_match 0 a b = True"
| "ether_addr_match (Suc n) (x # a) (y # b) = (if x \<noteq> y then False else ether_addr_match n a b)"
| "ether_addr_match (Suc n) a b = False"

definition get_interface_from_eth :: "sr_instance \<Rightarrow> bytes \<Rightarrow> sr_if option" where
  "get_interface_from_eth sr eth_address =
     if_walk (\<lambda>i. ether_addr_match ETHER_ADDR_LEN (if_addr i) eth_address) (if_list sr)"

section \<open>Building the list\<close>

text \<open>
  \<open>malloc\<close> leaves the address, IP and speed of a new node as they are in the block: bytes 32
  to 37, 40 to 43 and 44 to 47 of the struct.
\<close>

definition sr_if_of_block :: "bytes \<Rightarrow> string \<Rightarrow> sr_if" where
  "sr_if_of_block blk name = \<lparr>if_name = strncpy sr_IFACE_NAMELEN name, if_addr = slice blk 32 6,
     if_ip = le32 (slice blk 40 4), if_speed = le32 (slice blk 44 4)\<rparr>"

definition sr_add_interface :: "sr_instance \<Rightarrow> string \<Rightarrow> sr_instance" where
  "sr_add_interface sr name =
     (let (blk, sr) = sr_malloc sr 56
      in sr\<lparr>if_list := if_list sr @ [sr_if_of_block blk name]\<rparr>)"

definition sr_set_ether_addr :: "sr_instance \<Rightarrow> bytes \<Rightarrow> fault + sr_instance" where
  "sr_set_ether_addr sr addr =
     bindR (assertR (if_list sr \<noteq> [])) (\<lambda>_.
     bindR (load_bytes addr 0 6) (\<lambda>a.
       Inr (sr\<lparr>if_list := update_last (\<lambda>i. i\<lparr>if_addr := a\<rparr>) (if_list sr)\<rparr>)))"

definition sr_set_ether_ip :: "sr_instance \<Rightarrow> u32 \<Rightarrow> fault + sr_instance" where
  "sr_set_ether_ip sr ip_nbo =
     bindR (assertR (if_list sr \<noteq> [])) (\<lambda>_.
       Inr (sr\<lparr>if_list := update_last (\<lambda>i. i\<lparr>if_ip := ip_nbo\<rparr>) (if_list sr)\<rparr>))"

section \<open>Lemmas\<close>

lemma if_walk_Some: "if_walk P xs = Some i \<Longrightarrow> i \<in> set xs \<and> P i"
  by (induction P xs rule: if_walk.induct) (auto split: if_splits)

lemma if_walk_None: "if_walk P xs = None \<longleftrightarrow> (\<forall>i \<in> set xs. \<not> P i)"
  by (induction P xs rule: if_walk.induct) auto

lemma if_walk_append:
  "if_walk P (xs @ ys) = (case if_walk P xs of None \<Rightarrow> if_walk P ys | Some i \<Rightarrow> Some i)"
  by (induction P xs rule: if_walk.induct) auto

lemma ether_addr_match_iff:
  "length a = n \<Longrightarrow> length b = n \<Longrightarrow> ether_addr_match n a b \<longleftrightarrow> a = b"
  by (induction n a b rule: ether_addr_match.induct) auto

lemma sr_get_interface_same_config:
  "same_config sr sr' \<Longrightarrow> sr_get_interface sr' name = sr_get_interface sr name"
  by (simp add: same_config_def sr_get_interface_def)

lemma sr_get_interface_update [simp]:
  "sr_get_interface (sr\<lparr>cache := c\<rparr>) = sr_get_interface sr"
  "sr_get_interface (sr\<lparr>ticks := t\<rparr>) = sr_get_interface sr"
  "sr_get_interface (sr\<lparr>next_addr := n\<rparr>) = sr_get_interface sr"
  "sr_get_interface (sr\<lparr>wire := w\<rparr>) = sr_get_interface sr"
  by (simp_all add: sr_get_interface_def fun_eq_iff)

lemma sr_get_interface_Some:
  "sr_get_interface sr name = Some i \<Longrightarrow>
   i \<in> set (if_list sr) \<and> take 32 (if_name i) = take 32 name"
  by (auto simp: sr_get_interface_def strncmp_eq_def dest: if_walk_Some)

text \<open>Every interface record is well formed: six address bytes, a name that fits its array.\<close>

definition if_wf :: "sr_if \<Rightarrow> bool" where
  "if_wf i \<longleftrightarrow> length (if_addr i) = 6 \<and> length (if_name i) \<le> 32"

definition ifs_wf :: "sr_instance \<Rightarrow> bool" where
  "ifs_wf sr \<longleftrightarrow> (\<forall>i \<in> set (if_list sr). if_wf i)"

lemma ifs_wf_same_config: "same_config sr sr' \<Longrightarrow> ifs_wf sr' = ifs_wf sr"
  by (simp add: same_config_def ifs_wf_def)

lemma ifs_wf_update [simp]:
  "ifs_wf (sr\<lparr>cache := c\<rparr>) = ifs_wf sr"
  "ifs_wf (sr\<lparr>ticks := t\<rparr>) = ifs_wf sr"
  "ifs_wf (sr\<lparr>next_addr := n\<rparr>) = ifs_wf sr"
  "ifs_wf (sr\<lparr>wire := w\<rparr>) = ifs_wf sr"
  by (simp_all add: ifs_wf_def)

lemma sr_get_interface_wf:
  "ifs_wf sr \<Longrightarrow> sr_get_interface sr name = Some i \<Longrightarrow> if_wf i"
  using sr_get_interface_Some ifs_wf_def by blast

lemma length_if_addr [simp]:
  "ifs_wf sr \<Longrightarrow> sr_get_interface sr name = Some i \<Longrightarrow> length (if_addr i) = 6"
  using sr_get_interface_wf if_wf_def by blast

lemma get_own_name:
  "sr_get_interface sr name = Some i \<Longrightarrow> sr_get_interface sr (if_name i) = Some i"
proof -
  assume a: "sr_get_interface sr name = Some i"
  then have "take 32 (if_name i) = take 32 name" using sr_get_interface_Some by blast
  then have "sr_get_interface sr (if_name i) = sr_get_interface sr name"
    by (simp add: sr_get_interface_def strncmp_eq_def)
  with a show ?thesis by simp
qed

lemma sr_add_interface_wf: "ifs_wf sr \<Longrightarrow> ifs_wf (sr_add_interface sr name)"
  by (auto simp: ifs_wf_def sr_add_interface_def if_wf_def sr_if_of_block_def sr_malloc_def
      strncpy_def Let_def)

lemma if_list_snoc: "if_list sr \<noteq> [] \<Longrightarrow> \<exists>is i. if_list sr = is @ [i]"
  by (metis append_butlast_last_id)

lemma sr_set_ether_addr_wf:
  assumes "ifs_wf sr" and "sr_set_ether_addr sr addr = Inr sr'"
  shows "ifs_wf sr'"
proof -
  from assms(2) obtain "is" i where l: "if_list sr = is @ [i]" and "6 \<le> length addr"
    and "sr' = sr\<lparr>if_list := is @ [i\<lparr>if_addr := slice addr 0 6\<rparr>]\<rparr>"
    using if_list_snoc
    by (fastforce simp: sr_set_ether_addr_def load_bytes_def split: if_splits)
  with assms(1) show ?thesis by (auto simp: ifs_wf_def if_wf_def)
qed

lemma sr_set_ether_ip_wf:
  assumes "ifs_wf sr" and "sr_set_ether_ip sr ip = Inr sr'"
  shows "ifs_wf sr'"
proof -
  from assms(2) obtain "is" i where "if_list sr = is @ [i]"
    and "sr' = sr\<lparr>if_list := is @ [i\<lparr>if_ip := ip\<rparr>]\<rparr>"
    using if_list_snoc by (fastforce simp: sr_set_ether_ip_def)
  with assms(1) show ?thesis by (auto simp: ifs_wf_def if_wf_def)
qed

end
