(* ===== verification/Sr_Rt.thy ===== *)
theory Sr_Rt
  imports Sr_If
begin

text \<open>
  The routing table: appending entries (\<^verbatim>\<open>router/sr_rt.c\<close>), the consistency check of
  \<^verbatim>\<open>router/sr_main.c\<close> and the longest prefix match of \<^verbatim>\<open>router/sr_router.c\<close>.  The match
  compares netmasks as host integers although they are stored in network byte order; the
  theorem below shows that on a little-endian host this order still is the order of prefix
  lengths, as long as every mask is a prefix mask.
\<close>

section \<open>Operations\<close>

definition sr_add_rt_entry ::
  "sr_instance \<Rightarrow> u32 \<Rightarrow> u32 \<Rightarrow> u32 \<Rightarrow> string \<Rightarrow> sr_instance" where
  "sr_add_rt_entry sr dest gw msk ifname =
     sr\<lparr>routing_table := routing_table sr @
       [\<lparr>rt_dest = dest, rt_gw = gw, rt_mask = msk,
         rt_interface = strncpy sr_IFACE_NAMELEN ifname\<rparr>]\<rparr>"

text \<open>The number of entries whose interface does not exist, or 999.\<close>

definition sr_verify_routing_table :: "sr_instance \<Rightarrow> nat" where
  "sr_verify_routing_table sr =
     (if if_list sr = [] \<or> routing_table sr = [] then 999
      else foldl (\<lambda>ret r. if if_walk (\<lambda>i. strncmp_eq sr_IFACE_NAMELEN (if_name i) (rt_interface r))
                              (if_list sr) = None
                          then ret + 1 else ret) 0 (routing_table sr))"

text \<open>The walk of the longest prefix match, with the best entry so far and its mask.\<close>

fun lpm_walk :: "u32 \<Rightarrow> sr_rt list \<Rightarrow> sr_rt option \<Rightarrow> u32 \<Rightarrow> sr_rt option" where
  "lpm_walk ip [] longest_match longest_mask = longest_match"
| "lpm_walk ip (r # rs) longest_match longest_mask =
     (if ip AND rt_mask r = rt_dest r AND rt_mask r
      then (if rt_mask r \<ge> longest_mask then lpm_walk ip rs (Some r) (rt_mask r)
            else lpm_walk ip rs longest_match longest_mask)
      else lpm_walk ip rs longest_match longest_mask)"

definition sr_get_longest_prefix_match :: "sr_instance \<Rightarrow> u32 \<Rightarrow> sr_rt option" where
  "sr_get_longest_prefix_match sr ip = lpm_walk ip (routing_table sr) None 0"

section \<open>The consistency check\<close>

text \<open>
  The routing table is accepted exactly when the router has interfaces and routes and every
  route names an interface the router has.
\<close>

theorem verify_routing_table_ok:
  "sr_verify_routing_table sr = 0 \<longleftrightarrow> if_list sr \<noteq> [] \<and> routing_table sr \<noteq> []
     \<and> {r \<in> set (routing_table sr). sr_get_interface sr (rt_interface r) = None} = {}"
proof -
  define miss where "miss r \<longleftrightarrow> sr_get_interface sr (rt_interface r) = None" for r :: sr_rt
  have f: "foldl (\<lambda>n r. if if_walk (\<lambda>i. strncmp_eq 32 (if_name i) (rt_interface r)) (if_list sr) = None
                then n + 1 else n) k rs = k + length (filter miss rs)" for k rs
    by (induction rs arbitrary: k) (simp_all add: miss_def sr_get_interface_def)
  have "sr_verify_routing_table sr = (if if_list sr = [] \<or> routing_table sr = [] then 999
      else length (filter miss (routing_table sr)))"
    unfolding sr_verify_routing_table_def f by simp
  then show ?thesis by (auto simp: miss_def filter_empty_conv)
qed

section \<open>What the walk computes\<close>

definition rt_matches :: "u32 \<Rightarrow> sr_rt \<Rightarrow> bool" where
  "rt_matches ip r \<longleftrightarrow> ip AND rt_mask r = rt_dest r AND rt_mask r"

lemma lpm_walk_invariant:
  assumes "\<And>b. best = Some b \<Longrightarrow> rt_matches ip b \<and> rt_mask b = m"
    and "best = None \<Longrightarrow> m = 0"
  shows "case lpm_walk ip rs best m of
           None \<Rightarrow> best = None \<and> (\<forall>r \<in> set rs. \<not> rt_matches ip r)
         | Some e \<Rightarrow> (e \<in> set rs \<or> best = Some e) \<and> rt_matches ip e \<and> m \<le> rt_mask e
                     \<and> (\<forall>r \<in> set rs. rt_matches ip r \<longrightarrow> rt_mask r \<le> rt_mask e)"
  using assms
proof (induction rs arbitrary: best m)
  case Nil
  then show ?case by (auto split: option.split)
next
  case (Cons r rs)
  show ?case
  proof (cases "rt_matches ip r \<and> m \<le> rt_mask r")
    case True
    then have w: "lpm_walk ip (r # rs) best m = lpm_walk ip rs (Some r) (rt_mask r)"
      by (simp add: rt_matches_def)
    have IH: "case lpm_walk ip rs (Some r) (rt_mask r) of
           None \<Rightarrow> Some r = None \<and> (\<forall>r \<in> set rs. \<not> rt_matches ip r)
         | Some e \<Rightarrow> (e \<in> set rs \<or> Some r = Some e) \<and> rt_matches ip e \<and> rt_mask r \<le> rt_mask e
                     \<and> (\<forall>r \<in> set rs. rt_matches ip r \<longrightarrow> rt_mask r \<le> rt_mask e)"
      by (rule Cons.IH) (use True in auto)
    show ?thesis
      unfolding w using IH True by (auto split: option.splits)
  next
    case False
    then have w: "lpm_walk ip (r # rs) best m = lpm_walk ip rs best m"
      by (auto simp: rt_matches_def)
    have IH: "case lpm_walk ip rs best m of
           None \<Rightarrow> best = None \<and> (\<forall>r \<in> set rs. \<not> rt_matches ip r)
         | Some e \<Rightarrow> (e \<in> set rs \<or> best = Some e) \<and> rt_matches ip e \<and> m \<le> rt_mask e
                     \<and> (\<forall>r \<in> set rs. rt_matches ip r \<longrightarrow> rt_mask r \<le> rt_mask e)"
      by (rule Cons.IH) (use Cons.prems in auto)
    have "rt_matches ip r \<Longrightarrow> rt_mask r < m" using False by auto
    moreover from this Cons.prems(2) have "best = None \<Longrightarrow> \<not> rt_matches ip r" by auto
    ultimately show ?thesis
      unfolding w using IH by (auto split: option.splits)
  qed
qed

lemma sr_get_longest_prefix_match_None:
  "sr_get_longest_prefix_match sr ip = None \<longleftrightarrow> (\<forall>r \<in> set (routing_table sr). \<not> rt_matches ip r)"
  using lpm_walk_invariant [of None ip 0 "routing_table sr"]
  by (auto simp: sr_get_longest_prefix_match_def split: option.splits)

lemma sr_get_longest_prefix_match_Some:
  assumes "sr_get_longest_prefix_match sr ip = Some e"
  shows "e \<in> set (routing_table sr) \<and> rt_matches ip e
     \<and> (\<forall>r \<in> set (routing_table sr). rt_matches ip r \<longrightarrow> rt_mask r \<le> rt_mask e)"
  using lpm_walk_invariant [of None ip 0 "routing_table sr"] assms
  by (auto simp: sr_get_longest_prefix_match_def split: option.splits)

lemma lpm_same_config:
  "same_config sr sr' \<Longrightarrow> sr_get_longest_prefix_match sr' ip = sr_get_longest_prefix_match sr ip"
  by (simp add: same_config_def sr_get_longest_prefix_match_def)

lemma lpm_update [simp]:
  "sr_get_longest_prefix_match (sr\<lparr>cache := c\<rparr>) = sr_get_longest_prefix_match sr"
  "sr_get_longest_prefix_match (sr\<lparr>ticks := t\<rparr>) = sr_get_longest_prefix_match sr"
  "sr_get_longest_prefix_match (sr\<lparr>next_addr := n\<rparr>) = sr_get_longest_prefix_match sr"
  "sr_get_longest_prefix_match (sr\<lparr>wire := w\<rparr>) = sr_get_longest_prefix_match sr"
  by (simp_all add: sr_get_longest_prefix_match_def fun_eq_iff)

section \<open>Prefix masks\<close>

text \<open>The mask with \<open>n\<close> leading ones, stored in network byte order.\<close>

definition netmask :: "nat \<Rightarrow> u32" where
  "netmask n = htonl (NOT (mask (32 - n)))"

definition mask_len :: "u32 \<Rightarrow> nat" where
  "mask_len m = length (filter (bit m) [0..<32])"

definition prefix_masks :: "sr_rt list \<Rightarrow> bool" where
  "prefix_masks rs \<longleftrightarrow> (\<forall>r \<in> set rs. \<exists>n \<le> 32. rt_mask r = netmask n)"

lemma all_upto_32: "(\<forall>n \<le> (32::nat). P n) \<longleftrightarrow> (\<forall>n \<in> set [0..<33]. P n)"
  by (auto simp: less_Suc_eq_le)

lemma netmask_values:
  "map netmask [0..<33] =
    [0x0, 0x80, 0xc0, 0xe0, 0xf0, 0xf8, 0xfc, 0xfe, 0xff,
     0x80ff, 0xc0ff, 0xe0ff, 0xf0ff, 0xf8ff, 0xfcff, 0xfeff, 0xffff,
     0x80ffff, 0xc0ffff, 0xe0ffff, 0xf0ffff, 0xf8ffff, 0xfcffff, 0xfeffff, 0xffffff,
     0x80ffffff, 0xc0ffffff, 0xe0ffffff, 0xf0ffffff, 0xf8ffffff, 0xfcffffff, 0xfeffffff,
     0xffffffff]"
  by code_simp

lemma netmask_nth: "n \<le> 32 \<Longrightarrow> netmask n = map netmask [0..<33] ! n"
  by (simp add: less_Suc_eq_le del: upt_Suc)

text \<open>On a little-endian host the integer order of stored prefix masks is the order of lengths.\<close>

lemma netmask_less_iff:
  assumes "m \<le> 32" "n \<le> 32"
  shows "netmask m < netmask n \<longleftrightarrow> m < n"
proof -
  have "sorted_wrt (<) (map netmask [0..<33])"
    unfolding netmask_values by simp
  then have less: "i < j \<Longrightarrow> j \<le> 32 \<Longrightarrow> netmask i < netmask j" for i j
    by (auto simp: sorted_wrt_iff_nth_less simp del: upt_Suc dest!: spec [of _ i])
  show ?thesis
    using less [of m n] less [of n m] assms by (cases m n rule: linorder_cases) auto
qed

lemma mask_len_netmask [simp]:
  assumes "n \<le> 32"
  shows "mask_len (netmask n) = n"
proof -
  have "map mask_len (map netmask [0..<33]) = [0..<33]"
    unfolding netmask_values by code_simp
  then have "map (mask_len \<circ> netmask) [0..<33] ! n = [0..<33] ! n" by simp
  with assms show ?thesis by (simp add: less_Suc_eq_le del: upt_Suc)
qed

lemma mask_len_mono:
  assumes "m \<le> 32" "n \<le> 32"
  shows "netmask m \<le> netmask n \<longleftrightarrow> mask_len (netmask m) \<le> mask_len (netmask n)"
  using netmask_less_iff [OF assms(2,1)] assms by (simp add: not_less [symmetric])

end
