(* ===== verification/Sr_Arpcache.thy ===== *)
theory Sr_Arpcache
  imports Sr_If
begin

text \<open>
  The ARP cache of \<^verbatim>\<open>router/sr_arpcache.c\<close>: an array of 100 entries and a queue of pending
  requests, each with the packets that wait for it.  Every operation is translated with its
  loop; the mutex is recursive and held for the whole of each operation, so an operation is
  one atomic state change.  The interface the router relies on is the locale \<open>arp_table\<close>,
  interpreted below on these operations.
\<close>

section \<open>Entries\<close>

abbreviation (input) SR_ARPCACHE_SZ :: nat where "SR_ARPCACHE_SZ \<equiv> 100"
abbreviation (input) SR_ARPCACHE_TO :: int where "SR_ARPCACHE_TO \<equiv> 15"

text \<open>The lookup loop does not stop at a hit: the last valid entry for the address wins.\<close>

fun lookup_walk :: "u32 \<Rightarrow> sr_arpentry list \<Rightarrow> sr_arpentry option \<Rightarrow> sr_arpentry option" where
  "lookup_walk ip [] entry = entry"
| "lookup_walk ip (e # es) entry =
     lookup_walk ip es (if ae_valid e \<and> ae_ip e = ip then Some e else entry)"

definition sr_arpcache_lookup :: "sr_instance \<Rightarrow> u32 \<Rightarrow> sr_arpentry option" where
  "sr_arpcache_lookup sr ip = lookup_walk ip (entries (cache sr)) None"

text \<open>The index of the first invalid entry, the length of the array if there is none.\<close>

fun free_slot :: "sr_arpentry list \<Rightarrow> nat" where
  "free_slot [] = 0"
| "free_slot (e # es) = (if \<not> ae_valid e then 0 else Suc (free_slot es))"

text \<open>Unlinking the first request that satisfies a test, as both list walks do it.\<close>

fun unlink :: "(sr_arpreq \<Rightarrow> bool) \<Rightarrow> sr_arpreq list \<Rightarrow> sr_arpreq option \<times> sr_arpreq list" where
  "unlink P [] = (None, [])"
| "unlink P (r # rs) =
     (if P r then (Some r, rs) else (case unlink P rs of (q, rs') \<Rightarrow> (q, r # rs')))"

definition sr_arpcache_insert ::
  "sr_instance \<Rightarrow> bytes \<Rightarrow> u32 \<Rightarrow> sr_arpreq option \<times> sr_instance" where
  "sr_arpcache_insert sr mac ip =
     (let (req, reqs) = unlink (\<lambda>r. req_ip r = ip) (requests (cache sr));
          sr = sr\<lparr>cache := (cache sr)\<lparr>requests := reqs\<rparr>\<rparr>;
          i = free_slot (entries (cache sr))
      in if i \<noteq> SR_ARPCACHE_SZ
         then (let (now, sr) = sr_time sr;
                   e = \<lparr>ae_mac = mac, ae_ip = ip, ae_added = now, ae_valid = True\<rparr>
               in (req, sr\<lparr>cache := (cache sr)\<lparr>entries := (entries (cache sr))[i := e]\<rparr>\<rparr>))
         else (req, sr))"

section \<open>Requests\<close>

text \<open>
  Queueing a packet: the first request for the address, or a new zeroed one at the head of the
  queue; the packet is copied to the head of the request's packets unless its length is zero
  (the two pointers are never null in the calls of this program).  The result is the address
  of the request.
\<close>

definition new_arpreq :: "nat \<Rightarrow> u32 \<Rightarrow> sr_arpreq" where
  "new_arpreq a ip = \<lparr>req_id = a, req_ip = ip, req_sent = 0, req_times_sent = 0, req_packets = []\<rparr>"

text \<open>Updating the node at an address.\<close>

definition update_req :: "nat \<Rightarrow> (sr_arpreq \<Rightarrow> sr_arpreq) \<Rightarrow> sr_instance \<Rightarrow> sr_instance" where
  "update_req a f sr = sr\<lparr>cache := (cache sr)\<lparr>requests :=
     map (\<lambda>r. if req_id r = a then f r else r) (requests (cache sr))\<rparr>\<rparr>"

definition sr_arpcache_queuereq ::
  "sr_instance \<Rightarrow> u32 \<Rightarrow> bytes \<Rightarrow> nat \<Rightarrow> string \<Rightarrow> fault + nat \<times> sr_instance" where
  "sr_arpcache_queuereq sr ip packet packet_len iface =
     (let (a, sr) = (case find (\<lambda>r. req_ip r = ip) (requests (cache sr)) of
                       Some r \<Rightarrow> (req_id r, sr)
                     | None \<Rightarrow> (next_addr sr, sr\<lparr>next_addr := Suc (next_addr sr),
                         cache := (cache sr)\<lparr>requests :=
                           new_arpreq (next_addr sr) ip # requests (cache sr)\<rparr>\<rparr>))
      in if packet_len \<noteq> 0
         then bindR (load_bytes packet 0 packet_len) (\<lambda>copy.
                let new_pkt = \<lparr>pkt_buf = copy, pkt_len = packet_len,
                               pkt_iface = strncpy sr_IFACE_NAMELEN iface\<rparr>
                in Inr (a, update_req a (\<lambda>r. r\<lparr>req_packets := new_pkt # req_packets r\<rparr>) sr))
         else Inr (a, sr))"

text \<open>Destroying a request: it leaves the queue if it is on it, and its memory is freed.\<close>

definition sr_arpreq_destroy :: "sr_instance \<Rightarrow> nat \<Rightarrow> sr_instance" where
  "sr_arpreq_destroy sr a =
     sr\<lparr>cache := (cache sr)\<lparr>requests := snd (unlink (\<lambda>r. req_id r = a) (requests (cache sr)))\<rparr>\<rparr>"

text \<open>Reading a request through a pointer: a request that left the queue has been freed.\<close>

definition deref_req :: "sr_instance \<Rightarrow> nat \<Rightarrow> fault + sr_arpreq" where
  "deref_req sr a =
     (case find (\<lambda>r. req_id r = a) (requests (cache sr)) of
        None \<Rightarrow> Inl UseAfterFree | Some r \<Rightarrow> Inr r)"

section \<open>Initialisation and expiry\<close>

definition sr_arpcache_init :: "sr_instance \<Rightarrow> sr_instance" where
  "sr_arpcache_init sr =
     (let (now, sr) = sr_time sr
      in sr\<lparr>cache := \<lparr>entries = replicate SR_ARPCACHE_SZ
              \<lparr>ae_mac = replicate 6 0, ae_ip = 0, ae_added = 0, ae_valid = False\<rparr>,
            requests = []\<rparr>\<rparr>)"

definition expire_entry :: "int \<Rightarrow> sr_arpentry \<Rightarrow> sr_arpentry" where
  "expire_entry curtime e =
     (if ae_valid e \<and> curtime - ae_added e > SR_ARPCACHE_TO then e\<lparr>ae_valid := False\<rparr> else e)"

definition expire_entries :: "sr_instance \<Rightarrow> sr_instance" where
  "expire_entries sr =
     (let (curtime, sr) = sr_time sr
      in sr\<lparr>cache := (cache sr)\<lparr>entries := map (expire_entry curtime) (entries (cache sr))\<rparr>\<rparr>)"

section \<open>Lemmas: entries\<close>

lemma lookup_walk_append:
  "lookup_walk ip (xs @ ys) e = lookup_walk ip ys (lookup_walk ip xs e)"
  by (induction ip xs e rule: lookup_walk.induct) auto

lemma lookup_walk_start:
  "lookup_walk ip xs e = (case lookup_walk ip xs None of None \<Rightarrow> e | Some x \<Rightarrow> Some x)"
proof (induction xs arbitrary: e)
  case (Cons x xs)
  show ?case
    using Cons [of "Some x"] Cons [of e] by (simp split: option.splits)
qed simp

lemma lookup_walk_None:
  "lookup_walk ip xs None = None \<longleftrightarrow> (\<forall>e \<in> set xs. \<not> (ae_valid e \<and> ae_ip e = ip))"
proof (induction xs)
  case (Cons x xs)
  then show ?case
    using lookup_walk_start [of ip xs "Some x"] by (auto split: option.splits)
qed simp

lemma lookup_walk_Some:
  "lookup_walk ip xs None = Some e \<Longrightarrow> e \<in> set xs \<and> ae_valid e \<and> ae_ip e = ip"
proof (induction xs)
  case (Cons x xs)
  then show ?case
    using lookup_walk_start [of ip xs "Some x"] by (auto split: option.splits if_splits)
qed simp

lemma lookup_walk_skip:
  "\<not> (ae_valid e \<and> ae_ip e = ip) \<Longrightarrow> lookup_walk ip (xs @ e # ys) None = lookup_walk ip (xs @ ys) None"
  by (auto simp: lookup_walk_append)

lemma lookup_walk_hit:
  "ae_valid e \<Longrightarrow> ae_ip e = ip \<Longrightarrow> lookup_walk ip (xs @ ys) None = None \<Longrightarrow>
   lookup_walk ip (xs @ e # ys) None = Some e"
  using lookup_walk_start [of ip ys "Some e"]
  by (simp only: lookup_walk_None) (simp add: lookup_walk_append lookup_walk_None [THEN iffD2])

lemma free_slot_le: "free_slot es \<le> length es"
  by (induction es) auto

lemma free_slot_split:
  assumes "free_slot es < length es"
  obtains xs e ys where "es = xs @ e # ys" and "length xs = free_slot es" and "\<not> ae_valid e"
    and "\<forall>x \<in> set xs. ae_valid x"
  using assms
proof (induction es arbitrary: thesis)
  case (Cons x es)
  show ?case
  proof (cases "ae_valid x")
    case True
    with Cons.prems(2) have "free_slot es < length es" by simp
    then obtain xs e ys where "es = xs @ e # ys" "length xs = free_slot es" "\<not> ae_valid e"
      "\<forall>x \<in> set xs. ae_valid x" using Cons.IH by blast
    with True show ?thesis by (intro Cons.prems(1) [of "x # xs" e ys]) auto
  next
    case False
    then show ?thesis by (intro Cons.prems(1) [of "[]" x es]) auto
  qed
qed simp

lemma lookup_walk_update:
  assumes "free_slot es < length es" and "ae_valid e"
  shows "ae_ip e \<noteq> ip \<Longrightarrow> lookup_walk ip (es[free_slot es := e]) None = lookup_walk ip es None"
    and "ae_ip e = ip \<Longrightarrow> lookup_walk ip es None = None \<Longrightarrow>
         lookup_walk ip (es[free_slot es := e]) None = Some e"
proof -
  obtain xs f ys where s: "es = xs @ f # ys" "length xs = free_slot es" "\<not> ae_valid f"
    using free_slot_split [OF assms(1)] by metis
  then have u: "es[free_slot es := e] = xs @ e # ys"
    by (metis list_update_length)
  show "lookup_walk ip (es[free_slot es := e]) None = lookup_walk ip es None" if "ae_ip e \<noteq> ip"
    unfolding u unfolding s(1) using that s(3) by (simp add: lookup_walk_skip)
  show "lookup_walk ip (es[free_slot es := e]) None = Some e"
    if "ae_ip e = ip" "lookup_walk ip es None = None"
    unfolding u using that assms(2) s(3) unfolding s(1)
    by (simp add: lookup_walk_skip lookup_walk_hit)
qed

lemma lookup_walk_expire:
  "lookup_walk ip (map (expire_entry t) es) None =
   lookup_walk ip (filter (\<lambda>e. t - ae_added e \<le> SR_ARPCACHE_TO) es) None"
proof -
  have "lookup_walk ip (map (expire_entry t) es) e =
        lookup_walk ip (filter (\<lambda>e. t - ae_added e \<le> SR_ARPCACHE_TO) es) e" for e
    by (induction es arbitrary: e) (auto simp: expire_entry_def)
  then show ?thesis .
qed

section \<open>Lemmas: requests\<close>

lemma unlink_fst: "fst (unlink P rs) = find P rs"
  by (induction P rs rule: unlink.induct) (auto split: prod.splits)

lemma set_unlink: "set (snd (unlink P rs)) \<subseteq> set rs"
  by (induction P rs rule: unlink.induct) (auto split: prod.splits)

lemma unlink_none: "\<forall>r \<in> set rs. \<not> P r \<Longrightarrow> unlink P rs = (None, rs)"
  by (induction P rs rule: unlink.induct) auto

lemma unlink_keeps: "r \<in> set rs \<Longrightarrow> \<not> P r \<Longrightarrow> r \<in> set (snd (unlink P rs))"
  by (induction P rs rule: unlink.induct) (auto split: prod.splits)

lemma unlink_distinct:
  "distinct (map f rs) \<Longrightarrow> distinct (map f (snd (unlink P rs)))"
proof (induction P rs rule: unlink.induct)
  case (2 P r rs)
  then show ?case
    using set_unlink [of P rs] by (auto split: prod.splits if_splits)
qed simp

lemma unlink_gone:
  assumes "distinct (map f rs)" and "r \<in> set (snd (unlink (\<lambda>r. f r = x) rs))"
  shows "f r \<noteq> x"
  using assms
proof (induction rs)
  case (Cons q rs)
  then show ?case
    by (cases "unlink (\<lambda>r. f r = x) rs") (auto split: if_splits simp: image_iff)
qed simp

lemma find_Some_set: "find P xs = Some x \<Longrightarrow> x \<in> set xs \<and> P x"
  by (induction xs) (auto split: if_splits)

lemma find_unique:
  "distinct (map f xs) \<Longrightarrow> x \<in> set xs \<Longrightarrow> find (\<lambda>y. f y = f x) xs = Some x"
  by (induction xs) (auto simp: image_iff)

lemma deref_req_Inr: "deref_req sr a = Inr r \<Longrightarrow> r \<in> set (requests (cache sr)) \<and> req_id r = a"
  by (auto simp: deref_req_def dest: find_Some_set split: option.splits)

lemma same_config_ops [simp]:
  "same_config a (update_req i f b) = same_config a b"
  "same_config a (sr_arpreq_destroy b i) = same_config a b"
  "same_config a (expire_entries b) = same_config a b"
  "same_config a (snd (sr_arpcache_insert b mac ip)) = same_config a b"
  "same_config a (snd (sr_time b)) = same_config a b"
  "same_config a (snd (sr_malloc b n)) = same_config a b"
  by (auto simp: update_req_def sr_arpreq_destroy_def expire_entries_def sr_arpcache_insert_def
      sr_time_def sr_malloc_def Let_def split: prod.splits)

lemma sr_arpcache_queuereq_Inr:
  assumes "sr_arpcache_queuereq sr ip p n ifc = Inr (a, sr')"
  shows "same_config sr sr'" and "wire sr' = wire sr" and "ticks sr' = ticks sr"
    and "entries (cache sr') = entries (cache sr)"
  using assms
  by (auto simp: sr_arpcache_queuereq_def Let_def update_req_def
      split: option.splits if_splits)

section \<open>The cache as a table\<close>

text \<open>
  What a client of an ARP table may rely on: a lookup after learning a new address, and that
  learning one address does not disturb another, as long as there is room.
\<close>

locale arp_table =
  fixes lookup :: "'c \<Rightarrow> u32 \<Rightarrow> bytes option"
    and learn :: "'c \<Rightarrow> bytes \<Rightarrow> u32 \<Rightarrow> 'c"
    and room :: "'c \<Rightarrow> nat"
    and invar :: "'c \<Rightarrow> bool"
  assumes invar_learn: "invar c \<Longrightarrow> invar (learn c mac ip)"
    and lookup_learn_same:
      "invar c \<Longrightarrow> 0 < room c \<Longrightarrow> lookup c ip = None \<Longrightarrow> lookup (learn c mac ip) ip = Some mac"
    and lookup_learn_other:
      "invar c \<Longrightarrow> ip \<noteq> ip' \<Longrightarrow> lookup (learn c mac ip') ip = lookup c ip"
    and room_learn: "invar c \<Longrightarrow> room (learn c mac ip) = room c - 1"
    and learn_full: "invar c \<Longrightarrow> room c = 0 \<Longrightarrow> lookup (learn c mac ip) = lookup c"
begin

text \<open>Learning a list of new pairs makes the table agree with that list.\<close>

definition learn_all :: "'c \<Rightarrow> (u32 \<times> bytes) list \<Rightarrow> 'c" where
  "learn_all c bs = fold (\<lambda>(ip, mac) c. learn c mac ip) bs c"

lemma learn_all_lookup:
  assumes "invar c" and "length bs \<le> room c" and "distinct (map fst bs)"
    and "\<forall>ip \<in> fst ` set bs. lookup c ip = None"
  shows "lookup (learn_all c bs) ip = (case map_of bs ip of None \<Rightarrow> lookup c ip | Some m \<Rightarrow> Some m)"
  using assms
proof (induction bs arbitrary: c)
  case (Cons b bs)
  obtain i m where b [simp]: "b = (i, m)" by fastforce
  let ?c = "learn c m i"
  have room: "length bs \<le> room ?c" using Cons.prems by (simp add: room_learn)
  have new: "\<forall>ip \<in> fst ` set bs. lookup ?c ip = None"
  proof
    fix j
    assume "j \<in> fst ` set bs"
    with Cons.prems have "j \<noteq> i" "lookup c j = None" by auto
    then show "lookup ?c j = None" using Cons.prems(1) by (simp add: lookup_learn_other)
  qed
  have "lookup (learn_all ?c bs) ip = (case map_of bs ip of None \<Rightarrow> lookup ?c ip | Some m \<Rightarrow> Some m)"
    by (rule Cons.IH) (use Cons.prems room new in \<open>simp_all add: invar_learn\<close>)
  moreover have "map_of bs i = None" using Cons.prems by (simp add: map_of_eq_None_iff)
  moreover have "lookup ?c i = Some m" using Cons.prems by (intro lookup_learn_same) auto
  moreover have "ip \<noteq> i \<Longrightarrow> lookup ?c ip = lookup c ip"
    using Cons.prems(1) by (simp add: lookup_learn_other)
  ultimately show ?case
    by (cases "ip = i") (simp_all add: learn_all_def split: option.split)
qed (simp add: learn_all_def)

end

definition arp_lookup :: "sr_instance \<Rightarrow> u32 \<Rightarrow> bytes option" where
  "arp_lookup sr ip = map_option ae_mac (sr_arpcache_lookup sr ip)"

definition arp_learn :: "sr_instance \<Rightarrow> bytes \<Rightarrow> u32 \<Rightarrow> sr_instance" where
  "arp_learn sr mac ip = snd (sr_arpcache_insert sr mac ip)"

definition arp_room :: "sr_instance \<Rightarrow> nat" where
  "arp_room sr = length (filter (\<lambda>e. \<not> ae_valid e) (entries (cache sr)))"

definition arp_wf :: "sr_instance \<Rightarrow> bool" where
  "arp_wf sr \<longleftrightarrow> length (entries (cache sr)) = SR_ARPCACHE_SZ"

lemma entries_arp_learn:
  "entries (cache (arp_learn sr mac ip)) =
     (if free_slot (entries (cache sr)) \<noteq> 100
      then (entries (cache sr))[free_slot (entries (cache sr)) :=
             \<lparr>ae_mac = mac, ae_ip = ip, ae_added = env_time (env sr) (ticks sr), ae_valid = True\<rparr>]
      else entries (cache sr))"
  by (simp add: arp_learn_def sr_arpcache_insert_def Let_def sr_time_def split: prod.splits)

lemma free_slot_room: "free_slot es < length es \<longleftrightarrow> filter (\<lambda>e. \<not> ae_valid e) es \<noteq> []"
  by (induction es) auto

lemma free_slot_full: "arp_wf sr \<Longrightarrow> free_slot (entries (cache sr)) = 100 \<longleftrightarrow> arp_room sr = 0"
  using free_slot_le [of "entries (cache sr)"] free_slot_room [of "entries (cache sr)"]
  by (auto simp: arp_wf_def arp_room_def)

lemma room_update:
  assumes "free_slot es < length es" and "ae_valid e"
  shows "length (filter (\<lambda>e. \<not> ae_valid e) (es[free_slot es := e]))
         = length (filter (\<lambda>e. \<not> ae_valid e) es) - 1"
proof -
  obtain xs f ys where "es = xs @ f # ys" "length xs = free_slot es" "\<not> ae_valid f"
    using free_slot_split [OF assms(1)] by metis
  with assms(2) show ?thesis by (metis (no_types, lifting) filter.simps(2) filter_append
    length_append length_Cons list_update_length add_Suc_right diff_Suc_1)
qed

interpretation arp: arp_table arp_lookup arp_learn arp_room arp_wf
proof
  fix sr mac ip ip'
  assume wf: "arp_wf sr"
  show "arp_wf (arp_learn sr mac ip)"
    using wf by (simp add: arp_wf_def entries_arp_learn)
  have slot: "arp_room sr \<noteq> 0 \<Longrightarrow> free_slot (entries (cache sr)) < length (entries (cache sr))"
    by (simp add: free_slot_room arp_room_def)
  show "arp_room (arp_learn sr mac ip) = arp_room sr - 1"
    using slot free_slot_full [OF wf]
    by (auto simp: arp_room_def entries_arp_learn room_update)
  show "arp_lookup (arp_learn sr mac ip) = arp_lookup sr" if "arp_room sr = 0"
    using that free_slot_full [OF wf]
    by (simp add: arp_lookup_def sr_arpcache_lookup_def entries_arp_learn fun_eq_iff)
  show "arp_lookup (arp_learn sr mac ip) ip = Some mac"
    if "0 < arp_room sr" "arp_lookup sr ip = None"
    using that slot free_slot_full [OF wf]
    by (simp add: arp_lookup_def sr_arpcache_lookup_def entries_arp_learn lookup_walk_update)
  show "arp_lookup (arp_learn sr mac ip') ip = arp_lookup sr ip" if "ip \<noteq> ip'"
    using that slot free_slot_full [OF wf]
    by (simp add: arp_lookup_def sr_arpcache_lookup_def entries_arp_learn lookup_walk_update)
qed

end
