(* ===== verification/C_Text.thy ===== *)
theory C_Text
  imports Net_Prelude
begin

text \<open>
  What the programs use of the C library on text: classes of characters, numbers (\<open>strtol\<close>,
  \<open>strtoul\<close> with base 0, \<open>%u\<close> and \<open>%lu\<close>), words (\<open>%s\<close> of \<open>sscanf\<close>), lines (\<open>fgets\<close>) and
  dotted addresses (\<open>inet_aton\<close>), with the laws that tie reading to printing.
\<close>

abbreviation NUL :: char where "NUL \<equiv> CHR 0x00"
abbreviation SP :: char where "SP \<equiv> CHR '' ''"
abbreviation LF :: char where "LF \<equiv> CHR 0x0A"
abbreviation CR :: char where "CR \<equiv> CHR 0x0D"

definition char_byte :: "char \<Rightarrow> u8" where
  "char_byte c = of_nat (of_char c)"

lemma char_of_char_byte [simp]: "char_of (unat (char_byte c)) = c"
  by (simp add: char_byte_def unat_of_nat)

lemma char_byte_eq_0 [simp]: "char_byte c = 0 \<longleftrightarrow> c = CHR 0x00"
proof
  assume "char_byte c = 0"
  then have "char_of (unat (0 :: u8)) = c" using char_of_char_byte [of c] by simp
  moreover have "char_of (0 :: nat) = CHR 0x00" by (simp add: char_of_def)
  ultimately show "c = CHR 0x00" by simp
qed (simp add: char_byte_def)

section \<open>Numbers\<close>

definition digit_val :: "char \<Rightarrow> nat" where
  "digit_val c = of_char c - 48"

definition is_digit :: "char \<Rightarrow> bool" where
  "is_digit c \<longleftrightarrow> 48 \<le> (of_char c :: nat) \<and> (of_char c :: nat) \<le> 57"

definition is_space :: "char \<Rightarrow> bool" where
  "is_space c \<longleftrightarrow> (of_char c :: nat) = 32 \<or> 9 \<le> (of_char c :: nat) \<and> (of_char c :: nat) \<le> 13"

definition decimal :: "string \<Rightarrow> nat" where
  "decimal ds = foldl (\<lambda>v c. 10 * v + digit_val c) 0 ds"

text \<open>\<open>strtol\<close> in base 10, converted to \<open>int\<close>.\<close>

definition strtol :: "string \<Rightarrow> int" where
  "strtol s =
     (let s = dropWhile is_space s;
          neg = (take 1 s = ''-'');
          s = (if take 1 s = ''-'' \<or> take 1 s = ''+'' then drop 1 s else s);
          v = int (decimal (takeWhile is_digit s));
          v = (if neg then max (- (2 ^ 63)) (- v) else min (2 ^ 63 - 1) v)
      in sint (of_int v :: 32 word))"

text \<open>Printing in base 10.\<close>

fun show_nat :: "nat \<Rightarrow> string" where
  "show_nat n = (if n < 10 then [char_of (48 + n)] else show_nat (n div 10) @ [char_of (48 + n mod 10)])"

declare show_nat.simps [simp del]

lemma digit_char: "k < 10 \<Longrightarrow> is_digit (char_of (48 + k)) \<and> digit_val (char_of (48 + k)) = k"
  by (simp add: is_digit_def digit_val_def)

lemma show_nat_digits: "\<forall>c \<in> set (show_nat n). is_digit c"
  by (induction n rule: show_nat.induct) (subst show_nat.simps, auto simp: digit_char)

lemma show_nat_not_Nil [simp]: "show_nat n \<noteq> []"
  by (subst show_nat.simps) simp

lemma decimal_snoc: "decimal (ds @ [c]) = 10 * decimal ds + digit_val c"
  by (simp add: decimal_def)

lemma decimal_show_nat [simp]: "decimal (show_nat n) = n"
proof (induction n rule: show_nat.induct)
  case (1 n)
  show ?case
  proof (cases "n < 10")
    case True
    then show ?thesis by (subst show_nat.simps) (simp add: decimal_def digit_char)
  next
    case False
    then show ?thesis using 1 by (subst show_nat.simps) (simp add: decimal_snoc digit_char)
  qed
qed

lemma show_nat_zero: "hd (show_nat n) = CHR ''0'' \<Longrightarrow> n = 0"
proof (induction n rule: show_nat.induct)
  case (1 n)
  have c: "char_of (48 + k) = CHR ''0'' \<Longrightarrow> k = 0" if "k < 10" for k :: nat
    using digit_char [OF that] by (simp add: digit_val_def)
  show ?case
  proof (cases "n < 10")
    case True
    then show ?thesis using 1 c by (subst (asm) (2) show_nat.simps) simp
  next
    case False
    with 1 have "n div 10 = 0" by (subst (asm) (2) show_nat.simps) (simp add: hd_append)
    with False show ?thesis by simp
  qed
qed

text \<open>\<open>strtoul\<close> with base 0 at a digit: hexadecimal after \<open>0x\<close>, octal after \<open>0\<close>; the value and the rest.\<close>

definition hex_val :: "char \<Rightarrow> nat option" where
  "hex_val c =
     (let k = of_char c :: nat
      in if 48 \<le> k \<and> k \<le> 57 then Some (k - 48)
         else if 65 \<le> k \<and> k \<le> 70 then Some (k - 55)
         else if 97 \<le> k \<and> k \<le> 102 then Some (k - 87) else None)"

definition radix :: "nat \<Rightarrow> string \<Rightarrow> nat" where
  "radix b ds = foldl (\<lambda>v c. b * v + the (hex_val c)) 0 ds"

definition strtoul0 :: "string \<Rightarrow> nat \<times> string" where
  "strtoul0 s =
     (let hex = (\<lambda>c. hex_val c \<noteq> None); oct = (\<lambda>c. is_digit c \<and> digit_val c < 8)
      in if (take 2 s = ''0x'' \<or> take 2 s = ''0X'') \<and> drop 2 s \<noteq> [] \<and> hex (hd (drop 2 s))
         then (radix 16 (takeWhile hex (drop 2 s)), dropWhile hex (drop 2 s))
         else if take 1 s = ''0'' then (radix 8 (takeWhile oct s), dropWhile oct s)
         else (decimal (takeWhile is_digit s), dropWhile is_digit s))"

section \<open>Dotted addresses\<close>

text \<open>
  \<open>inet_aton\<close>: up to four numbers with dots between them, all but the last below 256 and the last
  within the bytes that are left; what follows must be the end or white space.  \<open>k\<close> is how many
  further numbers may come, \<open>v\<close> the value of those read.  The result is in network byte order.
\<close>

fun aton_loop :: "nat \<Rightarrow> nat \<Rightarrow> string \<Rightarrow> u32 option" where
  "aton_loop k v s =
     (if s = [] \<or> \<not> is_digit (hd s) then None
      else let (n, rest) = strtoul0 s
           in if take 1 rest = ''.''
              then (case k of
                      0 \<Rightarrow> None
                    | Suc k \<Rightarrow> if n > 255 then None else aton_loop k (256 * v + n) (drop 1 rest))
              else if rest \<noteq> [] \<and> \<not> is_space (hd rest) then None
              else if n < 256 ^ (k + 1) then Some (htonl (of_nat (v * 256 ^ (k + 1) + n))) else None)"

declare aton_loop.simps [simp del]

definition inet_aton :: "string \<Rightarrow> u32 option" where
  "inet_aton s = aton_loop 3 0 s"

text \<open>An address in memory as text.\<close>

definition dotted :: "u32 \<Rightarrow> string" where
  "dotted a = (case map unat (bytes32 a) of
     [b0, b1, b2, b3] \<Rightarrow> show_nat b0 @ ''.'' @ show_nat b1 @ ''.'' @ show_nat b2 @ ''.'' @ show_nat b3)"

lemma strtoul0_show:
  assumes "rest = [] \<or> \<not> is_digit (hd rest) \<and> hd rest \<noteq> CHR ''x'' \<and> hd rest \<noteq> CHR ''X''"
  shows "strtoul0 (show_nat n @ rest) = (n, rest)"
proof -
  let ?d = "show_nat n"
  have t: "takeWhile is_digit (?d @ rest) = ?d" "dropWhile is_digit (?d @ rest) = rest"
    using show_nat_digits [of n] assms by (cases rest; auto simp: takeWhile_append2 dropWhile_append2)+
  show ?thesis
  proof (cases "hd ?d = CHR ''0''")
    case True
    then have "n = 0" by (rule show_nat_zero)
    have "show_nat 0 = ''0''" by code_simp
    with \<open>n = 0\<close> have d: "?d = ''0''" by simp
    have "is_digit CHR ''0''" "digit_val CHR ''0'' = 0" "radix 8 ''0'' = 0" by code_simp+
    then have "strtoul0 (''0'' @ rest) = (0, rest)"
      using assms by (cases rest) (auto simp: strtoul0_def Let_def)
    then show ?thesis unfolding d using \<open>n = 0\<close> by simp
  next
    case False
    obtain c cs where d: "?d = c # cs" by (cases ?d) auto
    have "take 1 (?d @ rest) \<noteq> ''0''" "take 2 (?d @ rest) \<noteq> ''0x''" "take 2 (?d @ rest) \<noteq> ''0X''"
      using False by (auto simp: d numeral_2_eq_2)
    then show ?thesis by (simp add: strtoul0_def t)
  qed
qed

lemma show_nat_hd: "is_digit (hd (show_nat n @ s))"
  using show_nat_digits [of n] by (cases "show_nat n") auto

lemma aton_step:
  "n < 256 \<Longrightarrow> aton_loop (Suc k) v (show_nat n @ CHR ''.'' # rest) = aton_loop k (256 * v + n) rest"
  using strtoul0_show [of "CHR ''.'' # rest" n] show_nat_hd [of n "CHR ''.'' # rest"]
  by (subst aton_loop.simps) (simp add: is_digit_def)

lemma aton_last:
  "n < 256 \<Longrightarrow> aton_loop 0 v (show_nat n) = Some (htonl (of_nat (256 * v + n)))"
  using strtoul0_show [of "[]" n] show_nat_hd [of n "[]"] by (subst aton_loop.simps) (simp add: mult.commute)

lemma le32_value:
  "le32 [a, b, c, d] = ucast a + 256 * ucast b + 65536 * ucast c + 16777216 * ucast d"
proof -
  have p: "push_bit 8 (ucast b :: u32) = 256 * ucast b" "push_bit 16 (ucast c :: u32) = 65536 * ucast c"
    "push_bit 24 (ucast d :: u32) = 16777216 * ucast d"
    by (simp_all add: push_bit_eq_mult mult.commute)
  have z: "(ucast a :: u32) AND push_bit 8 (ucast b) = 0"
    "(ucast a OR push_bit 8 (ucast b) :: u32) AND push_bit 16 (ucast c) = 0"
    "(ucast a OR push_bit 8 (ucast b) OR push_bit 16 (ucast c) :: u32) AND push_bit 24 (ucast d) = 0"
    by (rule bit_word_eqI; auto simp: bit_simps dest: bit_imp_le_length)+
  show ?thesis
    using disjunctive_add_eq_or [OF z(1)] disjunctive_add_eq_or [OF z(2)] disjunctive_add_eq_or [OF z(3)]
    by (simp add: le32_def p or.assoc)
qed

lemma inet_aton_dotted: "inet_aton (dotted a) = Some a"
proof -
  obtain b0 b1 b2 b3 where b: "bytes32 a = [b0, b1, b2, b3]"
    using that [OF bytes32_def] .
  have lt: "unat x < 256" for x :: u8 using unsigned_less [of x] by simp
  let ?v = "256 * (256 * (256 * unat b0 + unat b1) + unat b2) + unat b3"
  have "inet_aton (dotted a) = Some (htonl (of_nat ?v))"
    using lt by (simp add: inet_aton_def dotted_def b numeral_3_eq_3 aton_step aton_last)
  moreover have "of_nat ?v = le32 (rev (bytes32 a))" unfolding b by (simp add: le32_value)
  then have "htonl (of_nat ?v) = a" by (metis le32_rev_bytes32 swap32_swap32)
  ultimately show ?thesis by simp
qed

section \<open>Words and lines\<close>

text \<open>The words a sequence of \<open>%s\<close> directives assigns: at most \<open>n\<close>, and none after the input has ended.\<close>

fun scan_words :: "nat \<Rightarrow> string \<Rightarrow> string list" where
  "scan_words 0 s = []"
| "scan_words (Suc n) s =
     (let s = dropWhile is_space s
      in if s = [] then []
         else takeWhile (\<lambda>c. \<not> is_space c) s # scan_words n (dropWhile (\<lambda>c. \<not> is_space c) s))"

text \<open>
  \<open>fgets\<close> with a buffer of \<open>sz\<close> characters: the line with its line feed, cut after \<open>sz - 1\<close>
  characters, and the rest of the file.
\<close>

definition fgets :: "nat \<Rightarrow> string \<Rightarrow> (string \<times> string) option" where
  "fgets sz contents =
     (if contents = [] then None
      else let n = min (sz - 1) (Suc (length (takeWhile (\<lambda>c. c \<noteq> LF) contents))) in Some (take n contents, drop n contents))"

definition word_ok :: "string \<Rightarrow> bool" where
  "word_ok w \<longleftrightarrow> w \<noteq> [] \<and> (\<forall>c \<in> set w. \<not> is_space c \<and> c \<noteq> NUL)"

lemma scan_word_first:
  assumes "word_ok w" and "rest = [] \<or> is_space (hd rest)"
  shows "scan_words (Suc n) (w @ rest) = w # scan_words n rest"
proof -
  have d: "dropWhile is_space (w @ rest) = w @ rest" using assms(1) by (cases w) (auto simp: word_ok_def)
  have t: "takeWhile (\<lambda>c. \<not> is_space c) (w @ rest) = w" "dropWhile (\<lambda>c. \<not> is_space c) (w @ rest) = rest"
    using assms by (cases rest; auto simp: word_ok_def takeWhile_append2 dropWhile_append2)+
  show ?thesis unfolding scan_words.simps Let_def d t using assms(1) by (simp add: word_ok_def)
qed

lemma scan_words_space: "is_space c \<Longrightarrow> scan_words n (c # s) = scan_words n s"
  by (cases n) simp_all

lemma is_space_simps [simp]: "is_space SP" "is_space LF" "is_space CHR 0x0D"
  by (simp_all add: is_space_def)

lemma scan_words_line:
  "word_ok a \<Longrightarrow> word_ok b \<Longrightarrow> word_ok c \<Longrightarrow> word_ok d \<Longrightarrow>
   scan_words 4 (a @ '' '' @ b @ '' '' @ c @ '' '' @ d @ [LF]) = [a, b, c, d]"
  by (simp add: numeral_eq_Suc scan_word_first scan_words_space del: scan_words.simps(2))

lemma fgets_line:
  assumes "LF \<notin> set l" and "length l + 1 < sz"
  shows "fgets sz (l @ LF # rest) = Some (l @ [LF], rest)"
proof -
  have "takeWhile (\<lambda>c. c \<noteq> LF) (l @ LF # rest) = l" using assms(1) by (induction l) auto
  then show ?thesis using assms(2) by (simp add: fgets_def)
qed

lemma fgets_shrinks: "fgets sz contents = Some (l, rest) \<Longrightarrow> 1 < sz \<Longrightarrow> length rest < length contents"
  by (auto simp: fgets_def Let_def split: if_splits)

lemma not_digit_space: "is_digit c \<Longrightarrow> \<not> is_space c \<and> c \<noteq> NUL"
  by (auto simp: is_digit_def is_space_def)

lemma dotted_word: "word_ok (dotted a)" and dotted_chars: "c \<in> set (dotted a) \<Longrightarrow> is_digit c \<or> c = CHR ''.''"
  and dotted_length: "length (dotted a) < 32"
proof -
  obtain b0 b1 b2 b3 where b: "bytes32 a = [b0, b1, b2, b3]" using that [OF bytes32_def] .
  show 1: "c \<in> set (dotted a) \<Longrightarrow> is_digit c \<or> c = CHR ''.''" for c
    using show_nat_digits by (auto simp: dotted_def b)
  have "\<not> is_space CHR ''.''" by (simp add: is_space_def)
  then show "word_ok (dotted a)"
    using 1 not_digit_space by (fastforce simp: word_ok_def dotted_def b)
  have l: "n < 256 \<Longrightarrow> length (show_nat n) \<le> 3" for n
    by (subst show_nat.simps, subst show_nat.simps, subst show_nat.simps) simp
  have lt: "unat x < 256" for x :: u8 using unsigned_less [of x] by simp
  show "length (dotted a) < 32"
    using l [OF lt [of b0]] l [OF lt [of b1]] l [OF lt [of b2]] l [OF lt [of b3]] by (simp add: dotted_def b)
qed

section \<open>Characters in strings\<close>

definition strchr :: "string \<Rightarrow> char \<Rightarrow> nat option" where
  "strchr s c = (if c \<in> set s then Some (length (takeWhile (\<lambda>d. d \<noteq> c) s)) else None)"

definition strrchr :: "string \<Rightarrow> char \<Rightarrow> nat option" where
  "strrchr s c = (if c \<in> set s then Some (length s - 1 - length (takeWhile (\<lambda>d. d \<noteq> c) (rev s))) else None)"

lemma strrchr_last: "c \<notin> set b \<Longrightarrow> strrchr (a @ c # b) c = Some (length a)"
proof -
  assume "c \<notin> set b"
  then have "takeWhile (\<lambda>d. d \<noteq> c) (rev b @ [c] @ rev a) = rev b" by (subst takeWhile_append2) auto
  then show ?thesis by (simp add: strrchr_def)
qed

text \<open>\<open>%d\<close> of \<open>sscanf\<close>: none if there is no number.\<close>

definition scan_int :: "string \<Rightarrow> int option" where
  "scan_int s =
     (let t = dropWhile is_space s; t = (if take 1 t = ''-'' \<or> take 1 t = ''+'' then drop 1 t else t)
      in if t \<noteq> [] \<and> is_digit (hd t) then Some (strtol s) else None)"

lemma strtol_show:
  assumes "n < 2 ^ 31"
  shows "strtol (show_nat n) = int n" and "scan_int (show_nat n) = Some (int n)"
proof -
  obtain c cs where d: "show_nat n = c # cs" and c: "is_digit c"
    using show_nat_digits [of n] by (cases "show_nat n") auto
  have sp: "dropWhile is_space (show_nat n) = show_nat n" using not_digit_space [OF c] by (simp add: d)
  have sg: "\<not> (take 1 (show_nat n) = ''-'' \<or> take 1 (show_nat n) = ''+'')"
    using c by (auto simp: d is_digit_def)
  have tw: "takeWhile is_digit (show_nat n) = show_nat n" using show_nat_digits [of n] by (simp add: takeWhile_eq_all_conv)
  have "min (2 ^ 63 - 1) (int n) = int n" using assms by simp
  moreover have "sint (of_int (int n) :: 32 word) = int n"
    using assms by (simp add: signed_of_nat signed_take_bit_int_eq_self)
  ultimately show v: "strtol (show_nat n) = int n"
    unfolding strtol_def Let_def sp using sg by (simp add: tw)
  show "scan_int (show_nat n) = Some (int n)" using sp sg c v by (simp add: scan_int_def Let_def d [symmetric]) (simp add: d)
qed

end
