(* ===== verification/Sr_Send.thy ===== *)
theory Sr_Send
  imports Sr_If C_Text
begin

text \<open>
  Sending a frame: \<open>sr_send_packet\<close> and its guard \<open>sr_ether_addrs_match_interface\<close> of
  \<^verbatim>\<open>router/sr_vns_comm.c\<close>.  A frame goes to the server as a \<open>c_packet_header\<close> (24 bytes:
  total length and type in network byte order, the interface name in 16 bytes) followed by the
  frame.  The packet log is in Sr_Dumper.
\<close>

abbreviation (input) VNSPACKET :: u32 where "VNSPACKET \<equiv> 4"
abbreviation (input) sizeof_c_packet_header :: nat where "sizeof_c_packet_header \<equiv> 24"

text \<open>\<open>strncpy\<close> into an array of \<open>n\<close> bytes: truncated, or padded with NUL.\<close>

definition strncpy_bytes :: "nat \<Rightarrow> string \<Rightarrow> bytes" where
  "strncpy_bytes n s = map char_byte (take n s) @ replicate (n - length s) 0"

lemma length_strncpy_bytes [simp]: "length (strncpy_bytes n s) = n"
  by (simp add: strncpy_bytes_def)

definition c_packet_header :: "u32 \<Rightarrow> string \<Rightarrow> bytes" where
  "c_packet_header total_len iface =
     bytes32 (htonl total_len) @ bytes32 (htonl VNSPACKET) @ strncpy_bytes 16 iface"

lemma length_c_packet_header [simp]: "length (c_packet_header n iface) = 24"
  by (simp add: c_packet_header_def)

definition sr_ether_addrs_match_interface ::
  "sr_instance \<Rightarrow> bytes \<Rightarrow> string \<Rightarrow> fault + bool" where
  "sr_ether_addrs_match_interface sr buf name =
     (case sr_get_interface sr name of
        None \<Rightarrow> Inr False
      | Some iface \<Rightarrow> bindR (load_bytes buf 6 ETHER_ADDR_LEN) (\<lambda>shost. Inr (shost = if_addr iface)))"

definition sr_send_packet ::
  "sr_instance \<Rightarrow> bytes \<Rightarrow> nat \<Rightarrow> string \<Rightarrow> fault + int \<times> sr_instance" where
  "sr_send_packet sr buf len iface =
     (let total_len = of_nat len + 24 :: u32
      in if len < sizeof_ethernet_hdr then Inr (-1, sr)
         else bindR (load_bytes buf 0 len) (\<lambda>frame.
              bindR (sr_ether_addrs_match_interface sr buf iface) (\<lambda>ok.
                if \<not> ok then Inr (-1, sr)
                else (let ret = env_write (env sr) (ticks sr);
                          sr = sr\<lparr>ticks := Suc (ticks sr),
                                  wire := wire sr @ [c_packet_header total_len iface @ frame]\<rparr>
                      in if ret < int (unat total_len) then Inr (-1, sr) else Inr (0, sr)))))"

text \<open>The state after a send whose result the caller ignores, as every handler does.\<close>

definition send_ignoring :: "sr_instance \<Rightarrow> bytes \<Rightarrow> nat \<Rightarrow> string \<Rightarrow> fault + sr_instance" where
  "send_ignoring sr buf len iface = bindR (sr_send_packet sr buf len iface) (\<lambda>(_, sr). Inr sr)"

section \<open>Lemmas\<close>

text \<open>The message that carries a frame out of an interface.\<close>

definition vns_message :: "bytes \<Rightarrow> string \<Rightarrow> bytes" where
  "vns_message frame iface = c_packet_header (of_nat (length frame) + 24) iface @ frame"

definition emit :: "bytes \<Rightarrow> string \<Rightarrow> sr_instance \<Rightarrow> sr_instance" where
  "emit frame iface sr =
     sr\<lparr>ticks := Suc (ticks sr), wire := wire sr @ [vns_message frame iface]\<rparr>"

lemma same_config_emit [simp]: "same_config a (emit f i b) = same_config a b"
  by (simp add: emit_def)

lemma emit_simps [simp]:
  "wire (emit f i sr) = wire sr @ [vns_message f i]" "cache (emit f i sr) = cache sr"
  "next_addr (emit f i sr) = next_addr sr" "if_list (emit f i sr) = if_list sr"
  "routing_table (emit f i sr) = routing_table sr" "env (emit f i sr) = env sr"
  "ticks (emit f i sr) = Suc (ticks sr)"
  by (simp_all add: emit_def)

text \<open>A frame whose source address is that of the interface goes out unchanged.\<close>

lemma send_ignoring_emit:
  assumes "sr_get_interface sr name = Some iface" and "14 \<le> len" and "len \<le> length buf"
    and "slice buf 6 6 = if_addr iface"
  shows "send_ignoring sr buf len name = Inr (emit (take len buf) name sr)"
  using assms
  by (simp add: send_ignoring_def sr_send_packet_def sr_ether_addrs_match_interface_def Let_def
      load_bytes_def emit_def vns_message_def) (simp add: slice_def min_def)

text \<open>A message of the wire that left through an interface of the router, under its own address.\<close>

definition sent_by_interface :: "sr_instance \<Rightarrow> bytes \<Rightarrow> bool" where
  "sent_by_interface sr m \<longleftrightarrow>
     (\<exists>i \<in> set (if_list sr). slice m (24 + 6) 6 = if_addr i) \<and> 24 + 14 \<le> length m"

lemma sent_by_interface_same_config:
  "same_config sr sr' \<Longrightarrow> sent_by_interface sr' = sent_by_interface sr"
  by (simp add: same_config_def sent_by_interface_def fun_eq_iff)

text \<open>Every send either leaves the wire alone or appends one such message.\<close>

lemma send_ignoring_cases:
  assumes "send_ignoring sr buf len name = Inr sr'"
  shows "same_config sr sr' \<and> cache sr' = cache sr \<and> next_addr sr' = next_addr sr
     \<and> (wire sr' = wire sr \<or> (\<exists>m. wire sr' = wire sr @ [m] \<and> sent_by_interface sr m))"
proof -
  have slice_msg: "slice (c_packet_header n name @ slice buf 0 len) 30 6 = slice buf 6 6"
    if "14 \<le> len" "len \<le> length buf" for n
    using that by (simp add: slice_def take_drop min_def)
  from assms show ?thesis
    using sr_get_interface_Some [of sr name] slice_msg
    by (auto simp: send_ignoring_def sr_send_packet_def sr_ether_addrs_match_interface_def Let_def
        load_bytes_def sent_by_interface_def split: option.splits if_splits)
qed

end
