(* ===== verification/Sr_Router.thy ===== *)
theory Sr_Router
  imports Sr_Utils Sr_Rt Sr_Arpcache Sr_Send
begin

text \<open>
  The packet handlers of \<^verbatim>\<open>router/sr_router.c\<close> and the request handling of
  \<^verbatim>\<open>router/sr_arpcache.c\<close>.  A frame is a byte buffer \<open>packet\<close> with its length \<open>len\<close>; header
  fields are read and written at their offsets in the frame (Ethernet 0, IP and ARP 14, ICMP
  34), and an access past the end of the buffer, a null interface or a freed request is a
  fault.  \<open>sr_send_error\<close> and \<open>handle_arpreq\<close> call each other; the former takes the latter as a
  parameter, and \<open>handle_arpreq\<close> recurses on the number of its own activations that may be
  nested (the stack).
\<close>

section \<open>Building frames\<close>

text \<open>The two nibbles of the first IP header byte: \<open>ip_hl\<close> is the low one on this host.\<close>

definition store_ip_hl :: "bytes \<Rightarrow> nat \<Rightarrow> u8 \<Rightarrow> fault + bytes" where
  "store_ip_hl buf p v = bindR (load8 buf p) (\<lambda>b. store8 buf p ((b AND 0xf0) OR (v AND 0x0f)))"

definition store_ip_v :: "bytes \<Rightarrow> nat \<Rightarrow> u8 \<Rightarrow> fault + bytes" where
  "store_ip_v buf p v = bindR (load8 buf p) (\<lambda>b. store8 buf p ((b AND 0x0f) OR push_bit 4 v))"

text \<open>Setting a 16-bit checksum field at \<open>q\<close> to the checksum of the \<open>n\<close> bytes at \<open>p\<close>.\<close>

definition store_cksum :: "bytes \<Rightarrow> nat \<Rightarrow> nat \<Rightarrow> nat \<Rightarrow> fault + bytes" where
  "store_cksum buf q p n =
     bindR (store16 buf q 0) (\<lambda>buf.
     bindR (load_bytes buf p n) (\<lambda>data. store16 buf q (cksum data)))"

definition sr_send_arp_request :: "sr_instance \<Rightarrow> u32 \<Rightarrow> sr_if option \<Rightarrow> fault + sr_instance" where
  "sr_send_arp_request sr tip iface =
     (let len = sizeof_ethernet_hdr + sizeof_arp_hdr;
          (arp_packet, sr) = sr_malloc sr len
      in bindR (deref iface) (\<lambda>iface.
         bindR (stores arp_packet
           [(0, replicate ETHER_ADDR_LEN 0xff), (6, if_addr iface), (12, bytes16 (htons ethertype_arp)),
            (14, bytes16 (htons arp_hrd_ethernet)), (16, bytes16 (htons ethertype_ip)),
            (18, [6]), (19, [4]), (20, bytes16 (htons arp_op_request)),
            (22, if_addr iface), (28, bytes32 (if_ip iface)),
            (32, replicate ETHER_ADDR_LEN 0), (38, bytes32 tip)]) (\<lambda>arp_packet.
           send_ignoring sr arp_packet len (if_name iface))))"

definition sr_send_arp_reply ::
  "sr_instance \<Rightarrow> bytes \<Rightarrow> nat \<Rightarrow> string \<Rightarrow> fault + sr_instance" where
  "sr_send_arp_reply sr req_packet len interface =
     (let iface = sr_get_interface sr interface;
          (reply_packet, sr) = sr_malloc sr len
      in bindR (load_bytes req_packet 6 ETHER_ADDR_LEN) (\<lambda>req_shost.
         bindR (deref iface) (\<lambda>iface.
         bindR (load_bytes req_packet 22 ETHER_ADDR_LEN) (\<lambda>req_sha.
         bindR (load32 req_packet 28) (\<lambda>req_sip.
         bindR (stores reply_packet
           [(0, req_shost), (6, if_addr iface), (12, bytes16 (htons ethertype_arp)),
            (14, bytes16 (htons arp_hrd_ethernet)), (16, bytes16 (htons ethertype_ip)),
            (18, [6]), (19, [4]), (20, bytes16 (htons arp_op_reply)),
            (22, if_addr iface), (28, bytes32 (if_ip iface)),
            (32, req_sha), (38, bytes32 req_sip)]) (\<lambda>reply_packet.
           send_ignoring sr reply_packet len interface))))))"

section \<open>ICMP errors and pending requests\<close>

text \<open>The IP header, then the ICMP header and data, of an error message for \<open>packet\<close>.\<close>

definition icmp_error_ip :: "bytes \<Rightarrow> sr_if option \<Rightarrow> u32 \<Rightarrow> fault + bytes" where
  "icmp_error_ip icmp_packet iface orig_src =
     bindR (store_ip_hl icmp_packet 14 5) (\<lambda>b.
     bindR (store_ip_v b 14 4) (\<lambda>b.
     bindR (stores b [(15, [0]), (16, bytes16 (htons 56)), (18, bytes16 (htons 0)),
                      (20, bytes16 (htons IP_DF)), (22, [64]), (23, [ip_protocol_icmp])]) (\<lambda>b.
     bindR (deref iface) (\<lambda>iface.
     bindR (stores b [(26, bytes32 (if_ip iface)), (30, bytes32 orig_src)]) (\<lambda>b.
       store_cksum b 24 14 sizeof_ip_hdr)))))"

definition icmp_error_body :: "bytes \<Rightarrow> bytes \<Rightarrow> u8 \<Rightarrow> u8 \<Rightarrow> fault + bytes" where
  "icmp_error_body packet icmp_packet ty code =
     bindR (stores icmp_packet [(34, [ty]), (35, [code]), (38, bytes16 0), (40, bytes16 0)]) (\<lambda>b.
     bindR (load_bytes packet 14 ICMP_DATA_SIZE) (\<lambda>data.
     bindR (store_bytes b 42 data) (\<lambda>b.
       store_cksum b 36 34 sizeof_icmp_t3_hdr)))"

definition sr_send_error ::
  "(sr_instance \<Rightarrow> nat \<Rightarrow> fault + sr_instance) \<Rightarrow> sr_instance \<Rightarrow> bytes \<Rightarrow> string \<Rightarrow> u8 \<Rightarrow> u8
   \<Rightarrow> fault + sr_instance" where
  "sr_send_error handler sr packet interface ty code =
     (let (icmp_packet, sr) = sr_malloc sr 70;
          iface = sr_get_interface sr interface
      in bindR (load32 packet 26) (\<lambda>orig_src.
         case sr_get_longest_prefix_match sr orig_src of
           None \<Rightarrow> Inr sr
         | Some rt \<Rightarrow>
        (case sr_get_interface sr (rt_interface rt) of
           None \<Rightarrow> Inr sr
         | Some out_iface \<Rightarrow>
             bindR (icmp_error_ip icmp_packet iface orig_src) (\<lambda>icmp_packet.
             bindR (icmp_error_body packet icmp_packet ty code) (\<lambda>icmp_packet.
               case sr_arpcache_lookup sr (rt_gw rt) of
                 Some arp_entry \<Rightarrow>
                   bindR (stores icmp_packet [(0, ae_mac arp_entry), (6, if_addr out_iface),
                                              (12, bytes16 (htons ethertype_ip))]) (\<lambda>icmp_packet.
                     send_ignoring sr icmp_packet 70 (if_name out_iface))
               | None \<Rightarrow>
                   bindR (stores icmp_packet [(12, bytes16 (htons ethertype_ip)),
                                              (6, if_addr out_iface)]) (\<lambda>icmp_packet.
                   bindR (sr_arpcache_queuereq sr (rt_gw rt) icmp_packet 70 (if_name out_iface))
                     (\<lambda>(req, sr). handler sr req)))))))"

definition sr_send_icmp_port_unreachable where
  "sr_send_icmp_port_unreachable handler sr packet interface =
     sr_send_error handler sr packet interface 3 3"

definition sr_send_icmp_time_exceeded where
  "sr_send_icmp_time_exceeded handler sr packet interface =
     sr_send_error handler sr packet interface 11 0"

definition sr_send_icmp_host_unreachable where
  "sr_send_icmp_host_unreachable handler sr packet interface =
     sr_send_error handler sr packet interface 3 1"

definition sr_send_icmp_net_unreachable where
  "sr_send_icmp_net_unreachable handler sr packet interface =
     sr_send_error handler sr packet interface 3 0"

text \<open>
  The loop over the packets of an exhausted request.  New packets are only ever put at the
  head of the list, so the nodes still to visit are the ones seen at the start, as long as the
  request has not been freed in between; \<open>pkt->next\<close> is read after each message.
\<close>

fun host_unreachable_loop ::
  "(sr_instance \<Rightarrow> nat \<Rightarrow> fault + sr_instance) \<Rightarrow> sr_instance \<Rightarrow> nat \<Rightarrow> sr_packet list
   \<Rightarrow> fault + sr_instance" where
  "host_unreachable_loop handler sr a [] = Inr sr"
| "host_unreachable_loop handler sr a (pkt # pkts) =
     bindR (sr_send_icmp_host_unreachable handler sr (pkt_buf pkt) (pkt_iface pkt)) (\<lambda>sr.
     bindR (deref_req sr a) (\<lambda>_. host_unreachable_loop handler sr a pkts))"

definition handle_arpreq_body ::
  "(sr_instance \<Rightarrow> nat \<Rightarrow> fault + sr_instance) \<Rightarrow> sr_instance \<Rightarrow> nat \<Rightarrow> fault + sr_instance" where
  "handle_arpreq_body handler sr a =
     (let (now, sr) = sr_time sr
      in bindR (deref_req sr a) (\<lambda>req.
           if now - req_sent req > 1
           then if req_times_sent req \<ge> 5
                then bindR (host_unreachable_loop handler sr a (req_packets req)) (\<lambda>sr.
                       Inr (sr_arpreq_destroy sr a))
                else (case req_packets req of
                        [] \<Rightarrow> Inl NullDeref
                      | pkt # _ \<Rightarrow>
                          bindR (sr_send_arp_request sr (req_ip req)
                                   (sr_get_interface sr (pkt_iface pkt))) (\<lambda>sr.
                            Inr (update_req a (\<lambda>r. r\<lparr>req_sent := now,
                                   req_times_sent := req_times_sent r + 1\<rparr>) sr)))
           else Inr sr))"

primrec handle_arpreq :: "nat \<Rightarrow> sr_instance \<Rightarrow> nat \<Rightarrow> fault + sr_instance" where
  "handle_arpreq 0 sr a = Inl StackOverflow"
| "handle_arpreq (Suc fuel) sr a = handle_arpreq_body (handle_arpreq fuel) sr a"

section \<open>Handlers\<close>

definition sr_forward_packet ::
  "nat \<Rightarrow> sr_instance \<Rightarrow> bytes \<Rightarrow> nat \<Rightarrow> string \<Rightarrow> fault + sr_instance" where
  "sr_forward_packet fuel sr packet len interface =
     bindR (load8 packet 22) (\<lambda>ttl.
     bindR (store8 packet 22 (ttl - 1)) (\<lambda>packet.
       if ttl - 1 \<le> 0 then sr_send_icmp_time_exceeded (handle_arpreq fuel) sr packet interface
       else
         bindR (store_cksum packet 24 14 sizeof_ip_hdr) (\<lambda>packet.
         bindR (load32 packet 30) (\<lambda>dst.
           case sr_get_longest_prefix_match sr dst of
             None \<Rightarrow> sr_send_icmp_net_unreachable (handle_arpreq fuel) sr packet interface
           | Some rt \<Rightarrow>
          (case sr_get_interface sr (rt_interface rt) of
             None \<Rightarrow> Inr sr
           | Some out_iface \<Rightarrow>
          (case sr_arpcache_lookup sr (rt_gw rt) of
             Some arp_entry \<Rightarrow>
               bindR (stores packet [(6, if_addr out_iface), (0, ae_mac arp_entry)]) (\<lambda>packet.
                 send_ignoring sr packet len (if_name out_iface))
           | None \<Rightarrow>
               bindR (sr_arpcache_queuereq sr (rt_gw rt) packet len (if_name out_iface))
                 (\<lambda>(req, sr). handle_arpreq fuel sr req)))))))"

definition sr_handle_icmp_echo_request :: "bytes \<Rightarrow> bytes \<Rightarrow> nat \<Rightarrow> fault + bytes" where
  "sr_handle_icmp_echo_request packet new_packet len =
     bindR (load16 packet 12) (\<lambda>ety.
     bindR (store16 new_packet 12 ety) (\<lambda>b.
     bindR (load8 packet 14) (\<lambda>vhl.
     bindR (store_ip_hl b 14 (vhl AND 0x0f)) (\<lambda>b.
     bindR (store_ip_v b 14 (drop_bit 4 vhl)) (\<lambda>b.
     bindR (load_bytes packet 15 7) (\<lambda>tos_len_id_off.
     bindR (load32 packet 26) (\<lambda>src.
     bindR (load32 packet 30) (\<lambda>dst.
     bindR (stores b [(15, slice tos_len_id_off 0 1), (16, slice tos_len_id_off 1 2),
                      (18, slice tos_len_id_off 3 2), (20, slice tos_len_id_off 5 2),
                      (22, [64]), (23, [ip_protocol_icmp]), (30, bytes32 src), (26, bytes32 dst)]) (\<lambda>b.
     bindR (store_cksum b 24 14 sizeof_ip_hdr) (\<lambda>b.
     bindR (stores b [(34, [0]), (35, [0])]) (\<lambda>b.
       store_cksum b 36 34 (len - sizeof_ethernet_hdr - sizeof_ip_hdr))))))))))))"

definition sr_handle_icmp_packet ::
  "nat \<Rightarrow> sr_instance \<Rightarrow> bytes \<Rightarrow> nat \<Rightarrow> string \<Rightarrow> fault + sr_instance" where
  "sr_handle_icmp_packet fuel sr packet len interface =
     (let (_, sr) = sr_malloc sr len
      in bindR (load_bytes packet 0 len) (\<lambda>new_packet.
         bindR (load8 packet 34) (\<lambda>icmp_ty.
           if icmp_ty = 8
           then
             bindR (sr_handle_icmp_echo_request packet new_packet len) (\<lambda>new_packet.
             bindR (load32 packet 26) (\<lambda>src.
               case sr_get_longest_prefix_match sr src of
                 None \<Rightarrow> Inr sr
               | Some rt \<Rightarrow>
              (case sr_get_interface sr (rt_interface rt) of
                 None \<Rightarrow> Inr sr
               | Some out_iface \<Rightarrow>
              (case sr_arpcache_lookup sr (rt_gw rt) of
                 Some arp_entry \<Rightarrow>
                   bindR (stores new_packet [(6, if_addr out_iface), (0, ae_mac arp_entry)])
                     (\<lambda>new_packet. send_ignoring sr new_packet len (if_name out_iface))
               | None \<Rightarrow>
                   bindR (sr_arpcache_queuereq sr (rt_gw rt) new_packet len (if_name out_iface))
                     (\<lambda>(req, sr). handle_arpreq fuel sr req)))))
           else Inr sr)))"

definition sr_handle_ip_packet ::
  "nat \<Rightarrow> sr_instance \<Rightarrow> bytes \<Rightarrow> nat \<Rightarrow> string \<Rightarrow> fault + sr_instance" where
  "sr_handle_ip_packet fuel sr packet len interface =
     (if len < sizeof_ethernet_hdr + sizeof_ip_hdr then Inr sr
      else
        bindR (load16 packet 24) (\<lambda>old_sum.
        bindR (store16 packet 24 0) (\<lambda>zeroed.
        bindR (load_bytes zeroed 14 sizeof_ip_hdr) (\<lambda>hdr.
        bindR (store16 zeroed 24 old_sum) (\<lambda>packet.
          if old_sum \<noteq> cksum hdr then Inr sr
          else
            bindR (load32 packet 30) (\<lambda>dst.
              if if_walk (\<lambda>i. if_ip i = dst) (if_list sr) \<noteq> None
              then bindR (load8 packet 23) (\<lambda>proto.
                     if proto = ip_protocol_icmp
                     then sr_handle_icmp_packet fuel sr packet len interface
                     else sr_send_icmp_port_unreachable (handle_arpreq fuel) sr packet interface)
              else sr_forward_packet fuel sr packet len interface))))))"

text \<open>Sending the packets of a resolved request.\<close>

fun send_pending :: "sr_instance \<Rightarrow> bytes \<Rightarrow> sr_packet list \<Rightarrow> fault + sr_instance" where
  "send_pending sr mac [] = Inr sr"
| "send_pending sr mac (pkt # pkts) =
     bindR (deref (sr_get_interface sr (pkt_iface pkt))) (\<lambda>out_iface.
     bindR (stores (pkt_buf pkt) [(0, mac), (6, if_addr out_iface)]) (\<lambda>buf.
     bindR (send_ignoring sr buf (pkt_len pkt) (pkt_iface pkt)) (\<lambda>sr.
       send_pending sr mac pkts)))"

definition sr_handle_arp_packet ::
  "sr_instance \<Rightarrow> bytes \<Rightarrow> nat \<Rightarrow> string \<Rightarrow> fault + sr_instance" where
  "sr_handle_arp_packet sr packet len interface =
     (if len < sizeof_ethernet_hdr + sizeof_arp_hdr then Inr sr
      else case sr_get_interface sr interface of
             None \<Rightarrow> Inr sr
           | Some iface \<Rightarrow>
               bindR (load16 packet 20) (\<lambda>op.
                 if ntohs op = arp_op_request
                 then bindR (load32 packet 38) (\<lambda>tip.
                        if tip = if_ip iface then sr_send_arp_reply sr packet len interface
                        else Inr sr)
                 else if ntohs op = arp_op_reply
                 then bindR (load32 packet 38) (\<lambda>tip.
                        if tip = if_ip iface
                        then
                          bindR (load_bytes packet 22 ETHER_ADDR_LEN) (\<lambda>sha.
                          bindR (load32 packet 28) (\<lambda>sip.
                            case sr_arpcache_insert sr sha sip of
                              (None, sr) \<Rightarrow> Inr sr
                            | (Some req, sr) \<Rightarrow>
                                bindR (send_pending sr sha (req_packets req)) (\<lambda>sr.
                                  Inr (sr_arpreq_destroy sr (req_id req)))))
                        else Inr sr)
                 else Inr sr))"

definition sr_handlepacket ::
  "nat \<Rightarrow> sr_instance \<Rightarrow> bytes \<Rightarrow> nat \<Rightarrow> string \<Rightarrow> fault + sr_instance" where
  "sr_handlepacket fuel sr packet len interface =
     bindR (ethertype packet) (\<lambda>t.
       if t = ethertype_arp then sr_handle_arp_packet sr packet len interface
       else if t = ethertype_ip then sr_handle_ip_packet fuel sr packet len interface
       else Inr sr)"

section \<open>The sweep\<close>

text \<open>The node after the one at an address, \<open>req->next\<close>.\<close>

fun next_req :: "nat \<Rightarrow> sr_arpreq list \<Rightarrow> nat option" where
  "next_req a [] = None"
| "next_req a (r # rs) =
     (if req_id r = a then (case rs of [] \<Rightarrow> None | q # _ \<Rightarrow> Some (req_id q)) else next_req a rs)"

text \<open>\<open>steps\<close> bounds the number of nodes visited; running out of it is a fault.\<close>

fun sweep_loop :: "nat \<Rightarrow> nat \<Rightarrow> sr_instance \<Rightarrow> nat option \<Rightarrow> fault + sr_instance" where
  "sweep_loop steps fuel sr None = Inr sr"
| "sweep_loop 0 fuel sr (Some a) = Inl StackOverflow"
| "sweep_loop (Suc steps) fuel sr (Some a) =
     bindR (deref_req sr a) (\<lambda>_.
     let nxt = next_req a (requests (cache sr))
     in bindR (handle_arpreq fuel sr a) (\<lambda>sr. sweep_loop steps fuel sr nxt))"

definition sr_arpcache_sweepreqs :: "nat \<Rightarrow> sr_instance \<Rightarrow> fault + sr_instance" where
  "sr_arpcache_sweepreqs fuel sr =
     sweep_loop (length (requests (cache sr))) fuel sr
       (case requests (cache sr) of [] \<Rightarrow> None | r # _ \<Rightarrow> Some (req_id r))"

text \<open>One second of the cleanup thread.\<close>

definition sr_arpcache_timeout_step :: "nat \<Rightarrow> sr_instance \<Rightarrow> fault + sr_instance" where
  "sr_arpcache_timeout_step fuel sr = sr_arpcache_sweepreqs fuel (expire_entries sr)"

definition sr_init :: "sr_instance \<Rightarrow> sr_instance" where
  "sr_init sr = sr_arpcache_init sr"

end
