(* ===== verification/Sr_Frames.thy ===== *)
theory Sr_Frames
  imports Sr_Router
begin

text \<open>
  What the frame-building code of the router puts into its buffers: every builder, run on a
  buffer that is long enough, gives the buffer with a list of fields overwritten, and the
  checksum fields it sets make the header sum to zero in one's complement arithmetic.
\<close>

section \<open>Checksum fields\<close>

text \<open>The acceptance test of RFC 1071 for the \<open>n\<close> bytes at \<open>p\<close>.\<close>

definition cksum_ok :: "bytes \<Rightarrow> nat \<Rightarrow> nat \<Rightarrow> bool" where
  "cksum_ok b p n \<longleftrightarrow> sum16 (slice b p n) mod 65535 = 0"

definition with_cksum :: "bytes \<Rightarrow> nat \<Rightarrow> nat \<Rightarrow> nat \<Rightarrow> bytes" where
  "with_cksum b q p n =
     splices b [(q, bytes16 0), (q, bytes16 (cksum (slice (splices b [(q, bytes16 0)]) p n)))]"

lemma store_cksum_Inr [mem_simps]:
  "q + 2 \<le> length b \<Longrightarrow> p + n \<le> length b \<Longrightarrow> store_cksum b q p n = Inr (with_cksum b q p n)"
  by (simp add: store_cksum_def mem_simps with_cksum_def splices_simps)

lemma length_with_cksum [simp]: "q + 2 \<le> length b \<Longrightarrow> length (with_cksum b q p n) = length b"
  by (simp add: with_cksum_def)

lemma slice_with_cksum:
  assumes "q + 2 \<le> length b" and "i + m \<le> q \<or> q + 2 \<le> i" and "i + m \<le> length b"
  shows "slice (with_cksum b q p n) i m = slice b i m"
  using assms by (simp add: with_cksum_def splices_simps)

lemma nth_with_cksum:
  assumes "q + 2 \<le> length b" and "i < q \<or> q + 2 \<le> i" and "i < length b"
  shows "with_cksum b q p n ! i = b ! i"
  unfolding with_cksum_def using assms by (intro nth_splices_other) auto

lemma with_cksum_ok:
  assumes "p \<le> q" and "even (q - p)" and "q + 2 \<le> p + n" and "p + n \<le> length b"
    and "n \<le> 131070"
  shows "cksum_ok (with_cksum b q p n) p n"
proof -
  let ?z = "splice b q (bytes16 0)" and ?d = "slice (splice b q (bytes16 0)) p n"
  have fits: "q + 2 \<le> length b" using assms by simp
  have s: "slice (with_cksum b q p n) p n = splice ?d (q - p) (bytes16 (cksum ?d))"
    using assms fits by (simp add: with_cksum_def splices_simps slice_splice_inside)
  have z: "slice ?d (q - p) 2 = bytes16 0"
    using assms fits by (simp add: slice_splice_inside [symmetric])
  have "sum16 (splice ?d (q - p) (bytes16 (cksum ?d))) + sum16 (slice ?d (q - p) 2)
        = sum16 ?d + unat (ntohs (cksum ?d))"
    using assms fits by (intro sum16_splice) simp_all
  moreover have "sum16 (bytes16 0) = 0" by (simp add: bytes16_def)
  ultimately have "sum16 (slice (with_cksum b q p n) p n) = sum16 ?d + unat (ntohs (cksum ?d))"
    using s z by simp
  then show ?thesis
    using cksum_complements [of ?d] assms fits by (simp add: cksum_ok_def)
qed

text \<open>A later change outside the summed bytes keeps the test.\<close>

lemma cksum_ok_splices:
  assumes "cksum_ok b p n" and "p + n \<le> length b"
    and "\<forall>(off, bs) \<in> set ws. off + length bs \<le> length b
           \<and> (p + n \<le> off \<or> off + length bs \<le> p) \<and> off \<noteq> p"
  shows "cksum_ok (splices b ws) p n"
proof -
  have "slice (splices b ws) p n = read_back ws (slice b p n) p"
    by (rule slice_splices) (use assms in auto)
  moreover have "\<forall>(off, bs) \<in> set ws. off \<noteq> p \<Longrightarrow> read_back ws c p = c" for c
    by (induction ws) auto
  moreover have "\<forall>(off, bs) \<in> set ws. off \<noteq> p" using assms(3) by auto
  ultimately show ?thesis using assms(1) by (simp add: cksum_ok_def)
qed

section \<open>The version and header length byte\<close>

lemma nibbles_45: "((b AND 0xf0 OR 5) AND 0x0f OR 0x40 :: u8) = 0x45"
proof -
  have "bit ((b AND 0xf0 OR 5) AND 0x0f OR 0x40 :: u8) k = bit (0x45 :: u8) k" if "k < 8" for k
  proof -
    from that consider "k = 0" | "k = 1" | "k = 2" | "k = 3" | "k = 4" | "k = 5" | "k = 6" | "k = 7"
      by force
    then show ?thesis by cases (simp_all add: bit_simps bit_numeral_rec)
  qed
  then show ?thesis by (intro bit_word_eqI) simp
qed

lemma nibbles_copy: "((b AND 0xf0 OR v AND 0x0f) AND 0x0f OR push_bit 4 (drop_bit 4 v) :: u8) = v"
proof -
  have "bit ((b AND 0xf0 OR v AND 0x0f) AND 0x0f OR push_bit 4 (drop_bit 4 v)) k = bit v k"
    if "k < 8" for k
  proof -
    from that consider "k = 0" | "k = 1" | "k = 2" | "k = 3" | "k = 4" | "k = 5" | "k = 6" | "k = 7"
      by force
    then show ?thesis by cases (simp_all add: bit_simps bit_numeral_rec)
  qed
  then show ?thesis by (intro bit_word_eqI) simp
qed

lemma store_vhl_45 [mem_simps]:
  "14 < length b \<Longrightarrow> bindR (store_ip_hl b 14 5) (\<lambda>b. bindR (store_ip_v b 14 4) f)
     = f (splices b [(14, [(b ! 14 AND 0xf0) OR 5]), (14, [0x45])])"
  by (simp add: store_ip_hl_def store_ip_v_def mem_simps splice_nth splices_simps nibbles_45)

lemma store_vhl_copy [mem_simps]:
  "14 < length b \<Longrightarrow>
   bindR (store_ip_hl b 14 (v AND 0x0f)) (\<lambda>b. bindR (store_ip_v b 14 (drop_bit 4 v)) f)
     = f (splices b [(14, [(b ! 14 AND 0xf0) OR (v AND 0x0f)]), (14, [v])])"
  by (simp add: store_ip_hl_def store_ip_v_def mem_simps splice_nth splices_simps nibbles_copy)

section \<open>ICMP error messages\<close>

definition icmp_error_ip_fields :: "bytes \<Rightarrow> sr_if \<Rightarrow> u32 \<Rightarrow> (nat \<times> bytes) list" where
  "icmp_error_ip_fields b iface src =
     [(14, [(b ! 14 AND 0xf0) OR 5]), (14, [0x45]), (15, [0]), (16, bytes16 (htons 56)),
      (18, bytes16 (htons 0)), (20, bytes16 (htons IP_DF)), (22, [64]), (23, [1]),
      (26, bytes32 (if_ip iface)), (30, bytes32 src)]"

definition icmp_error_frame :: "bytes \<Rightarrow> bytes \<Rightarrow> sr_if \<Rightarrow> u32 \<Rightarrow> u8 \<Rightarrow> u8 \<Rightarrow> bytes" where
  "icmp_error_frame b packet iface src ty code =
     with_cksum
       (splices (with_cksum (splices b (icmp_error_ip_fields b iface src)) 24 14 20)
         [(34, [ty]), (35, [code]), (38, bytes16 0), (40, bytes16 0), (42, slice packet 14 28)])
       36 34 36"

lemma icmp_error_frame_Inr:
  assumes "length b = 70" and "42 \<le> length packet"
  shows "bindR (icmp_error_ip b (Some iface) src) (\<lambda>b. icmp_error_body packet b ty code)
         = Inr (icmp_error_frame b packet iface src ty code)"
  using assms
  by (simp add: icmp_error_ip_def icmp_error_body_def mem_simps icmp_error_frame_def
      icmp_error_ip_fields_def splice_splices)

lemma length_icmp_error_frame [simp]:
  "length b = 70 \<Longrightarrow> 42 \<le> length packet \<Longrightarrow>
   length (icmp_error_frame b packet iface src ty code) = 70"
  by (simp add: icmp_error_frame_def icmp_error_ip_fields_def)

lemma icmp_error_frame_ip:
  assumes "length b = 70" and "42 \<le> length packet"
  shows "ip_hdr_at (icmp_error_frame b packet iface src ty code) 14 =
     \<lparr>ip_hl = 5, ip_v = 4, ip_tos = 0, ip_len = htons 56, ip_id = htons 0, ip_off = htons IP_DF,
      ip_ttl = 64, ip_p = 1,
      ip_sum = ip_sum (ip_hdr_at (icmp_error_frame b packet iface src ty code) 14),
      ip_src = if_ip iface, ip_dst = src\<rparr>"
  using assms
  by (simp add: ip_hdr_at_def icmp_error_frame_def icmp_error_ip_fields_def slice_with_cksum
      nth_with_cksum slice_splices nth_splices)

lemma icmp_error_frame_icmp:
  assumes "length b = 70" and "42 \<le> length packet"
  shows "icmp_t3_hdr_at (icmp_error_frame b packet iface src ty code) 34 =
     \<lparr>icmp_type = ty, icmp_code = code,
      icmp_sum = icmp_sum (icmp_t3_hdr_at (icmp_error_frame b packet iface src ty code) 34),
      icmp_unused = 0, icmp_next_mtu = 0, icmp_data = slice packet 14 28\<rparr>"
  using assms
  by (simp add: icmp_t3_hdr_at_def icmp_error_frame_def icmp_error_ip_fields_def slice_with_cksum
      nth_with_cksum slice_splices nth_splices)

lemma icmp_error_frame_cksum:
  assumes "length b = 70" and "42 \<le> length packet"
  shows "cksum_ok (icmp_error_frame b packet iface src ty code) 14 20"
    and "cksum_ok (icmp_error_frame b packet iface src ty code) 34 36"
proof -
  let ?w = "with_cksum (splices b (icmp_error_ip_fields b iface src)) 24 14 20"
  let ?b = "splices ?w [(34, [ty]), (35, [code]), (38, bytes16 0), (40, bytes16 0), (42, slice packet 14 28)]"
  have l: "length (splices b (icmp_error_ip_fields b iface src)) = 70"
    using assms by (simp add: icmp_error_ip_fields_def)
  have "cksum_ok ?w 14 20" by (rule with_cksum_ok) (simp_all add: l)
  then have "cksum_ok ?b 14 20"
    by (rule cksum_ok_splices) (use assms in \<open>simp_all add: l\<close>)
  moreover have lb: "length ?b = 70" using assms by (simp add: l)
  ultimately show "cksum_ok (icmp_error_frame b packet iface src ty code) 14 20"
    by (simp add: icmp_error_frame_def cksum_ok_def slice_with_cksum)
  show "cksum_ok (icmp_error_frame b packet iface src ty code) 34 36"
    unfolding icmp_error_frame_def by (rule with_cksum_ok) (simp_all add: lb)
qed

section \<open>Forwarded frames\<close>

definition forwarded :: "bytes \<Rightarrow> bytes" where
  "forwarded packet = with_cksum (splices packet [(22, [packet ! 22 - 1])]) 24 14 20"

lemma length_forwarded [simp]: "34 \<le> length packet \<Longrightarrow> length (forwarded packet) = length packet"
  by (simp add: forwarded_def)

lemma forwarded_cksum: "34 \<le> length packet \<Longrightarrow> cksum_ok (forwarded packet) 14 20"
  unfolding forwarded_def by (rule with_cksum_ok) simp_all

lemma forwarded_ttl: "34 \<le> length packet \<Longrightarrow> forwarded packet ! 22 = packet ! 22 - 1"
  by (simp add: forwarded_def nth_with_cksum nth_splices)

lemma forwarded_other:
  assumes "34 \<le> length packet" and "i < length packet" and "i \<notin> {22, 24, 25}"
  shows "forwarded packet ! i = packet ! i"
proof -
  have "i < 24 \<or> 24 + 2 \<le> i" "i < 22 \<or> 22 + 1 \<le> i" using assms(3) by force+
  then show ?thesis
    using assms(1,2) by (simp add: forwarded_def nth_with_cksum nth_splices_other)
qed

lemma forwarded_slice:
  "34 \<le> length packet \<Longrightarrow> p + n \<le> 22 \<or> 26 \<le> p \<Longrightarrow> p + n \<le> length packet \<Longrightarrow>
   slice (forwarded packet) p n = slice packet p n"
  by (rule nth_equalityI) (auto simp: slice_nth forwarded_other)

section \<open>Echo replies\<close>

definition echo_fields :: "bytes \<Rightarrow> bytes \<Rightarrow> (nat \<times> bytes) list" where
  "echo_fields b packet =
     [(12, slice packet 12 2), (14, [(b ! 14 AND 0xf0) OR (packet ! 14 AND 0x0f)]), (14, [packet ! 14]),
      (15, slice packet 15 1), (16, slice packet 16 2), (18, slice packet 18 2),
      (20, slice packet 20 2), (22, [64]), (23, [1]),
      (30, slice packet 26 4), (26, slice packet 30 4)]"

definition echo_reply :: "bytes \<Rightarrow> bytes" where
  "echo_reply packet =
     with_cksum (splices (with_cksum (splices packet (echo_fields packet packet)) 24 14 20)
       [(34, [0]), (35, [0])]) 36 34 (length packet - 34)"

lemma echo_reply_Inr:
  assumes "38 \<le> length packet"
  shows "sr_handle_icmp_echo_request packet packet (length packet) = Inr (echo_reply packet)"
  using assms
  by (simp add: sr_handle_icmp_echo_request_def mem_simps echo_reply_def echo_fields_def nth_splices)

lemma length_echo_fields [simp]:
  "38 \<le> length packet \<Longrightarrow> length (splices packet (echo_fields packet packet)) = length packet"
  by (simp add: echo_fields_def)

lemma length_echo_reply [simp]: "38 \<le> length packet \<Longrightarrow> length (echo_reply packet) = length packet"
  by (simp add: echo_reply_def)

lemma echo_reply_ip:
  assumes "38 \<le> length packet"
  shows "ip_hdr_at (echo_reply packet) 14 = (ip_hdr_at packet 14)
     \<lparr>ip_ttl := 64, ip_p := 1, ip_sum := ip_sum (ip_hdr_at (echo_reply packet) 14),
      ip_src := ip_dst (ip_hdr_at packet 14), ip_dst := ip_src (ip_hdr_at packet 14)\<rparr>"
  using assms
  by (simp add: ip_hdr_at_def echo_reply_def slice_with_cksum nth_with_cksum slice_splices nth_splices)
     (simp add: echo_fields_def slice_splices nth_splices slice_nth)

lemma echo_reply_cksum:
  assumes "38 \<le> length packet" and "length packet \<le> 131070"
  shows "cksum_ok (echo_reply packet) 14 20" and "cksum_ok (echo_reply packet) 34 (length packet - 34)"
proof -
  let ?w = "with_cksum (splices packet (echo_fields packet packet)) 24 14 20"
  let ?b = "splices ?w [(34, [0]), (35, [0])]"
  have "cksum_ok ?w 14 20" by (rule with_cksum_ok) (use assms in simp_all)
  then have "cksum_ok ?b 14 20"
    by (rule cksum_ok_splices) (use assms in simp_all)
  then show "cksum_ok (echo_reply packet) 14 20"
    using assms by (simp add: echo_reply_def cksum_ok_def slice_with_cksum)
  show "cksum_ok (echo_reply packet) 34 (length packet - 34)"
    unfolding echo_reply_def by (rule with_cksum_ok) (use assms in simp_all)
qed

lemma echo_reply_payload:
  assumes "38 \<le> length packet" 
  shows "echo_reply packet ! 34 = 0" and "echo_reply packet ! 35 = 0"
    and "slice (echo_reply packet) 38 (length packet - 38) = slice packet 38 (length packet - 38)"
  using assms
  by (simp_all add: echo_reply_def slice_with_cksum nth_with_cksum slice_splices nth_splices)
     (simp add: echo_fields_def slice_splices)

section \<open>Addressing\<close>

text \<open>Setting both Ethernet addresses, in either order, changes nothing behind them.\<close>

lemma addressed_slice:
  assumes "length shost = 6" and "length dhost = 6" and "14 \<le> length b"
  shows "slice (splices b [(6, shost), (0, dhost)]) 6 6 = shost"
    and "slice (splices b [(6, shost), (0, dhost)]) 0 6 = dhost"
    and "slice (splices b [(0, dhost), (6, shost)]) 6 6 = shost"
    and "slice (splices b [(0, dhost), (6, shost)]) 0 6 = dhost"
  using assms by (simp_all add: slice_splices)

lemma addressed_rest:
  assumes "length shost = 6" and "length dhost = 6" and "12 \<le> p" and "p + n \<le> length b"
  shows "slice (splices b [(6, shost), (0, dhost)]) p n = slice b p n"
  using assms by (simp add: slice_splices)

end
