(* ===== verification/Sr_Router_Inv.thy ===== *)
theory Sr_Router_Inv
  imports Sr_Frames
begin

text \<open>
  The invariant of the router and what every handler keeps.  The mutual recursion between
  \<open>sr_send_error\<close> and \<open>handle_arpreq\<close> is cut by a contract, the locale \<open>arpreq_handler\<close>: code
  that calls a handler with the contract meets it, so each activation of \<open>handle_arpreq\<close> meets
  it by induction on the stack, and the locale is interpreted on \<open>handle_arpreq\<close> itself.
\<close>

section \<open>The invariant\<close>

text \<open>
  Configuration and size of the cache stay; the wire only grows, and only by frames that carry
  the hardware address of one of the router's interfaces as their source.
\<close>

definition extends :: "sr_instance \<Rightarrow> sr_instance \<Rightarrow> bool" where
  "extends sr sr' \<longleftrightarrow> same_config sr sr'
     \<and> length (entries (cache sr')) = length (entries (cache sr))
     \<and> (\<exists>ms. wire sr' = wire sr @ ms \<and> (\<forall>m \<in> set ms. sent_by_interface sr m))"

definition pkt_wf :: "sr_instance \<Rightarrow> sr_packet \<Rightarrow> bool" where
  "pkt_wf sr p \<longleftrightarrow> 14 \<le> pkt_len p \<and> pkt_len p \<le> length (pkt_buf p)
     \<and> sr_get_interface sr (pkt_iface p) \<noteq> None"

definition req_wf :: "sr_instance \<Rightarrow> sr_arpreq \<Rightarrow> bool" where
  "req_wf sr r \<longleftrightarrow> req_packets r \<noteq> [] \<and> (\<forall>p \<in> set (req_packets r). pkt_wf sr p)
     \<and> req_id r < next_addr sr"

definition reqs_wf :: "sr_instance \<Rightarrow> bool" where
  "reqs_wf sr \<longleftrightarrow> (\<forall>r \<in> set (requests (cache sr)). req_wf sr r)
     \<and> distinct (map req_id (requests (cache sr))) \<and> distinct (map req_ip (requests (cache sr)))"

definition macs_wf :: "sr_instance \<Rightarrow> bool" where
  "macs_wf sr \<longleftrightarrow> (\<forall>e \<in> set (entries (cache sr)). length (ae_mac e) = 6)"

definition router_inv :: "sr_instance \<Rightarrow> bool" where
  "router_inv sr \<longleftrightarrow> ifs_wf sr \<and> arp_wf sr \<and> macs_wf sr \<and> reqs_wf sr"

lemmas router_inv_defs = router_inv_def arp_wf_def macs_wf_def reqs_wf_def req_wf_def pkt_wf_def

section \<open>Laws of the relation\<close>

lemma extends_refl [simp]: "extends sr sr"
  by (simp add: extends_def)

lemma extends_trans [trans]: "extends a b \<Longrightarrow> extends b c \<Longrightarrow> extends a c"
  using same_config_trans sent_by_interface_same_config
  by (fastforce simp: extends_def)

lemma extends_same_config: "extends a b \<Longrightarrow> same_config a b"
  by (simp add: extends_def)

lemma extends_update [simp]:
  "extends a (b\<lparr>ticks := t\<rparr>) = extends a b"
  "extends a (b\<lparr>next_addr := n\<rparr>) = extends a b"
  "extends a (b\<lparr>cache := (cache b)\<lparr>requests := rs\<rparr>\<rparr>) = extends a b"
  by (simp_all add: extends_def)

lemma extends_ops [simp]:
  "extends a (update_req i f b) = extends a b"
  "extends a (sr_arpreq_destroy b i) = extends a b"
  by (simp_all add: update_req_def sr_arpreq_destroy_def)

lemma extends_insert: "extends sr (snd (sr_arpcache_insert sr mac ip))"
  by (auto simp: extends_def sr_arpcache_insert_def sr_time_def Let_def split: prod.splits)

lemma extends_expire: "extends sr (expire_entries sr)"
  by (auto simp: extends_def expire_entries_def sr_time_def)

lemma extends_queuereq: "sr_arpcache_queuereq sr ip p n ifc = Inr (a, sr') \<Longrightarrow> extends sr sr'"
  using sr_arpcache_queuereq_Inr by (simp add: extends_def)

lemma extends_send: "send_ignoring sr buf len name = Inr sr' \<Longrightarrow> extends sr sr'"
  using send_ignoring_cases [of sr buf len name sr'] by (auto simp: extends_def)

lemma extends_malloc [simp]: "extends a (snd (sr_malloc b n)) = extends a b"
  and extends_time [simp]: "extends a (snd (sr_time b)) = extends a b"
  by (simp_all add: sr_malloc_def sr_time_def)

lemma extends_from_malloc [simp]: "extends (snd (sr_malloc b n)) a = extends b a"
  and extends_from_time [simp]: "extends (snd (sr_time b)) a = extends b a"
  by (simp_all add: extends_def sr_malloc_def sr_time_def same_config_def sent_by_interface_def)

section \<open>Preservation by the cache operations\<close>

lemma pkt_wf_same_config: "same_config sr sr' \<Longrightarrow> pkt_wf sr' p = pkt_wf sr p"
  by (simp add: pkt_wf_def sr_get_interface_same_config)

lemma req_wf_cache [simp]: "req_wf (sr\<lparr>cache := c\<rparr>) r = req_wf sr r"
  and pkt_wf_cache [simp]: "pkt_wf (sr\<lparr>cache := c\<rparr>) p = pkt_wf sr p"
  by (simp_all add: req_wf_def pkt_wf_def)

lemma list_update_all: "\<forall>x \<in> set xs. P x \<Longrightarrow> P y \<Longrightarrow> \<forall>x \<in> set (xs[i := y]). P x"
  using set_update_subset_insert [of xs i y] by auto

lemma router_inv_cong:
  assumes "same_config sr sr'" and "cache sr' = cache sr" and "next_addr sr' = next_addr sr"
  shows "router_inv sr' = router_inv sr"
  using assms(2,3) sr_get_interface_same_config [OF assms(1)] ifs_wf_same_config [OF assms(1)]
  by (simp add: router_inv_defs)

lemma router_inv_send:
  "send_ignoring sr buf len name = Inr sr' \<Longrightarrow> router_inv sr' = router_inv sr"
  using send_ignoring_cases [of sr buf len name sr'] by (intro router_inv_cong) auto

lemma router_inv_alloc [simp]:
  "router_inv (snd (sr_malloc sr n)) = router_inv sr" "router_inv (snd (sr_time sr)) = router_inv sr"
  by (rule router_inv_cong; simp add: sr_malloc_def sr_time_def)+

lemma router_inv_destroy:
  assumes "router_inv sr"
  shows "router_inv (sr_arpreq_destroy sr a)"
proof -
  have "same_config sr (sr_arpreq_destroy sr a)" by simp
  with assms show ?thesis
    unfolding router_inv_def reqs_wf_def
    by (auto simp: sr_arpreq_destroy_def arp_wf_def macs_wf_def
        intro: unlink_distinct dest: set_unlink [THEN subsetD])
qed

lemma router_inv_update_req:
  assumes "router_inv sr"
    and "\<And>r. req_wf sr r \<Longrightarrow> req_wf sr (f r) \<and> req_id (f r) = req_id r \<and> req_ip (f r) = req_ip r"
  shows "router_inv (update_req a f sr)"
proof -
  let ?g = "\<lambda>r. if req_id r = a then f r else r"
  have wf: "req_wf sr r" if "r \<in> set (requests (cache sr))" for r
    using assms(1) that by (simp add: router_inv_def reqs_wf_def)
  have id: "map (req_id \<circ> ?g) (requests (cache sr)) = map req_id (requests (cache sr))"
    and ip: "map (req_ip \<circ> ?g) (requests (cache sr)) = map req_ip (requests (cache sr))"
    using assms(2) wf by auto
  have "distinct (map (req_id \<circ> ?g) (requests (cache sr)))"
    "distinct (map (req_ip \<circ> ?g) (requests (cache sr)))"
    unfolding id ip using assms(1) by (auto simp: router_inv_def reqs_wf_def)
  moreover have "\<forall>r \<in> set (requests (cache sr)). req_wf sr (?g r)" using wf assms(2) by simp
  ultimately show ?thesis
    using assms(1) wf assms(2)
    by (auto simp: router_inv_def reqs_wf_def update_req_def arp_wf_def macs_wf_def)
qed

lemma insert_fields:
  "requests (cache (snd (sr_arpcache_insert sr mac ip)))
     = snd (unlink (\<lambda>r. req_ip r = ip) (requests (cache sr)))"
  "fst (sr_arpcache_insert sr mac ip) = find (\<lambda>r. req_ip r = ip) (requests (cache sr))"
  "next_addr (snd (sr_arpcache_insert sr mac ip)) = next_addr sr"
  "if_list (snd (sr_arpcache_insert sr mac ip)) = if_list sr"
  "wire (snd (sr_arpcache_insert sr mac ip)) = wire sr"
  by (simp_all add: sr_arpcache_insert_def sr_time_def Let_def unlink_fst [symmetric] split: prod.splits)

lemma router_inv_insert:
  assumes "router_inv sr" and "length mac = 6"
  shows "router_inv (snd (sr_arpcache_insert sr mac ip))"
proof -
  let ?reqs = "snd (unlink (\<lambda>r. req_ip r = ip) (requests (cache sr)))"
  have "set ?reqs \<subseteq> set (requests (cache sr))" by (rule set_unlink)
  moreover have "distinct (map req_id ?reqs)" "distinct (map req_ip ?reqs)"
    using assms(1) by (auto simp: router_inv_def reqs_wf_def intro: unlink_distinct)
  moreover have "length (entries (cache (snd (sr_arpcache_insert sr mac ip)))) = length (entries (cache sr))"
    using extends_insert by (simp add: extends_def)
  moreover have "macs_wf (snd (sr_arpcache_insert sr mac ip))"
    using assms entries_arp_learn [of sr mac ip] unfolding arp_learn_def
    by (auto simp: router_inv_def macs_wf_def dest: list_update_all [THEN bspec, rotated 2])
  ultimately show ?thesis
    using assms(1)
    by (auto simp: router_inv_def reqs_wf_def arp_wf_def ifs_wf_def req_wf_def pkt_wf_def
        sr_get_interface_def insert_fields)
qed

end
