(* ===== verification/Sr_Handlers.thy ===== *)
theory Sr_Handlers
  imports Sr_Router_Inv
begin

text \<open>
  The contract of \<open>handle_arpreq\<close> as a locale, its interpretation, and with it the invariant of
  every packet handler and of the cleanup thread.
\<close>

section \<open>Queueing\<close>

lemma pkt_new_wf:
  assumes "14 \<le> len" and "len \<le> length packet" and "sr_get_interface sr name = Some i"
  shows "pkt_wf sr \<lparr>pkt_buf = slice packet 0 len, pkt_len = len, pkt_iface = strncpy 32 name\<rparr>"
proof -
  have "sr_get_interface sr (strncpy 32 name) = sr_get_interface sr name"
    by (simp add: sr_get_interface_def)
  then show ?thesis using assms by (simp add: pkt_wf_def)
qed

definition enqueued :: "sr_instance \<Rightarrow> u32 \<Rightarrow> sr_packet \<Rightarrow> sr_arpreq list" where
  "enqueued sr ip p =
     (case find (\<lambda>r. req_ip r = ip) (requests (cache sr)) of
        Some r \<Rightarrow> map (\<lambda>q. if req_id q = req_id r then q\<lparr>req_packets := p # req_packets q\<rparr> else q)
                    (requests (cache sr))
      | None \<Rightarrow> (new_arpreq (next_addr sr) ip)\<lparr>req_packets := [p]\<rparr> # requests (cache sr))"

lemma map_id_fresh:
  "\<forall>r \<in> set rs. req_id r < a \<Longrightarrow> map (\<lambda>r. if req_id r = a then f r else r) rs = rs"
  by (induction rs) auto

lemma queuereq_result:
  assumes inv: "router_inv sr" and len: "14 \<le> len" "len \<le> length packet"
    and ifc: "sr_get_interface sr name = Some i"
  defines "p \<equiv> \<lparr>pkt_buf = slice packet 0 len, pkt_len = len, pkt_iface = strncpy 32 name\<rparr>"
  obtains a sr' where "sr_arpcache_queuereq sr ip packet len name = Inr (a, sr')"
    and "extends sr sr'" and "router_inv sr'" and "wire sr' = wire sr" and "ticks sr' = ticks sr"
    and "entries (cache sr') = entries (cache sr)" and "requests (cache sr') = enqueued sr ip p"
    and "\<exists>r \<in> set (requests (cache sr')). req_id r = a \<and> req_ip r = ip
           \<and> p \<in> set (req_packets r)"
proof (cases "find (\<lambda>r. req_ip r = ip) (requests (cache sr))")
  case (Some r)
  then have r: "r \<in> set (requests (cache sr))" "req_ip r = ip"
    using find_Some_set by fastforce+
  let ?sr = "update_req (req_id r) (\<lambda>q. q\<lparr>req_packets := p # req_packets q\<rparr>) sr"
  have q: "sr_arpcache_queuereq sr ip packet len name = Inr (req_id r, ?sr)"
    using Some len by (simp add: sr_arpcache_queuereq_def load_bytes_def p_def)
  have "router_inv ?sr"
    by (rule router_inv_update_req [OF inv])
       (use pkt_new_wf [OF len ifc] in \<open>auto simp: req_wf_def p_def\<close>)
  moreover have "requests (cache ?sr) = enqueued sr ip p"
    using Some by (simp add: update_req_def enqueued_def)
  moreover have "\<exists>q \<in> set (requests (cache ?sr)). req_id q = req_id r \<and> req_ip q = ip
      \<and> p \<in> set (req_packets q)"
    by (rule bexI [of _ "r\<lparr>req_packets := p # req_packets r\<rparr>"])
       (use r in \<open>auto simp: update_req_def\<close>)
  ultimately show thesis
    by (intro that [OF q]) (simp_all add: extends_queuereq [OF q] sr_arpcache_queuereq_Inr [OF q])
next
  case None
  let ?new = "(new_arpreq (next_addr sr) ip)\<lparr>req_packets := [p]\<rparr>"
  let ?sr = "sr\<lparr>next_addr := Suc (next_addr sr),
               cache := (cache sr)\<lparr>requests := ?new # requests (cache sr)\<rparr>\<rparr>"
  have fresh: "\<forall>r \<in> set (requests (cache sr)). req_id r < next_addr sr"
    using inv by (simp add: router_inv_def reqs_wf_def req_wf_def)
  have q: "sr_arpcache_queuereq sr ip packet len name = Inr (next_addr sr, ?sr)"
    using None len map_id_fresh [OF fresh]
    by (simp add: sr_arpcache_queuereq_def load_bytes_def p_def update_req_def new_arpreq_def)
  have "req_ip r \<noteq> ip" if "r \<in> set (requests (cache sr))" for r
    using None that by (auto simp: find_None_iff)
  then have ips: "distinct (map req_ip (?new # requests (cache sr)))"
    using inv by (auto simp: router_inv_def reqs_wf_def new_arpreq_def)
  have ids: "distinct (map req_id (?new # requests (cache sr)))"
    using inv fresh by (auto simp: router_inv_def reqs_wf_def new_arpreq_def)
  have new: "req_wf ?sr ?new"
    using pkt_new_wf [OF len ifc] by (simp add: req_wf_def pkt_wf_def new_arpreq_def p_def)
  have old: "req_wf ?sr r" if "r \<in> set (requests (cache sr))" for r
    using inv that by (auto simp: router_inv_def reqs_wf_def req_wf_def pkt_wf_def)
  have "router_inv ?sr"
    using inv ips ids new old by (simp add: router_inv_def reqs_wf_def arp_wf_def macs_wf_def)
  then show thesis
    by (intro that [OF q])
       (simp_all add: extends_queuereq [OF q] None enqueued_def, simp add: new_arpreq_def)
qed

section \<open>The contract of the request handler\<close>

text \<open>The ways \<open>sr_send_error\<close> can end: no route back, a message sent, a message queued.\<close>

lemma send_error_cases:
  assumes "sr_send_error handler sr packet name ty code = Inr sr'"
  defines "sr1 \<equiv> snd (sr_malloc sr 70)"
  obtains (no_route) "sr' = sr1"
    | (sent) m and i :: sr_if where "send_ignoring sr1 m 70 (if_name i) = Inr sr'"
    | (queued) m and i :: sr_if and ip a sr2 n where "sr_arpcache_queuereq sr1 ip m 70 (if_name i) = Inr (a, sr2)"
        and "handler sr2 a = Inr sr'" and "sr_get_interface sr1 n = Some i"
proof -
  obtain blk where ml: "sr_malloc sr 70 = (blk, sr1)"
    unfolding sr1_def by (metis prod.collapse)
  note run = assms(1) [unfolded sr_send_error_def ml Let_def prod.case]
  then obtain src where src: "load32 packet 26 = Inr src" by auto
  show thesis
  proof (cases "sr_get_longest_prefix_match sr1 src")
    case None
    then show ?thesis using run src by (simp add: no_route)
  next
    case (Some rt)
    note rt = this
    show ?thesis
    proof (cases "sr_get_interface sr1 (rt_interface rt)")
      case None
      then show ?thesis using run src rt by (simp add: no_route)
    next
      case (Some i)
      then show ?thesis
        using run src rt
        by (cases "sr_arpcache_lookup sr1 (rt_gw rt)") (auto intro: sent queued)
    qed
  qed
qed

lemma queuereq_length: "sr_arpcache_queuereq sr ip m n name = Inr r \<Longrightarrow> n \<le> length m"
  by (auto simp: sr_arpcache_queuereq_def load_bytes_def Let_def split: option.splits if_splits)

locale arpreq_handler =
  fixes handler :: "sr_instance \<Rightarrow> nat \<Rightarrow> fault + sr_instance"
  assumes handler_extends: "handler sr a = Inr sr' \<Longrightarrow> extends sr sr'"
    and handler_inv: "router_inv sr \<Longrightarrow> handler sr a = Inr sr' \<Longrightarrow> router_inv sr'"
begin

lemma send_error_extends:
  assumes "sr_send_error handler sr packet name ty code = Inr sr'"
  shows "extends sr sr'"
proof -
  have "extends (snd (sr_malloc sr 70)) sr'"
    using assms
  proof (cases rule: send_error_cases)
    case (queued m i ip a sr2 n)
    then show ?thesis
      using extends_trans [OF extends_queuereq handler_extends] by blast
  next
    case (sent m i)
    then show ?thesis by (rule extends_send)
  qed simp
  then show ?thesis by simp
qed

lemma send_error_inv:
  assumes inv: "router_inv sr" and run: "sr_send_error handler sr packet name ty code = Inr sr'"
  shows "router_inv sr'"
proof -
  have inv': "router_inv (snd (sr_malloc sr 70))" using inv by simp
  from run show ?thesis
  proof (cases rule: send_error_cases)
    case no_route
    then show ?thesis using inv' by simp
  next
    case (sent m i)
    then show ?thesis using inv' router_inv_send by blast
  next
    case (queued m i ip a sr2 n)
    obtain b sr3 where "sr_arpcache_queuereq (snd (sr_malloc sr 70)) ip m 70 (if_name i) = Inr (b, sr3)"
      "router_inv sr3"
      by (rule queuereq_result [OF inv' _ queuereq_length [OF queued(1)] get_own_name [OF queued(3)]])
         simp_all
    with queued show ?thesis using handler_inv by auto
  qed
qed

lemma unreachable_loop_extends:
  "host_unreachable_loop handler sr a pkts = Inr sr' \<Longrightarrow> extends sr sr'"
proof (induction pkts arbitrary: sr)
  case (Cons p pkts)
  then show ?case
    by (auto simp: sr_send_icmp_host_unreachable_def)
       (meson send_error_extends extends_trans)
qed simp

lemma unreachable_loop_inv:
  "host_unreachable_loop handler sr a pkts = Inr sr' \<Longrightarrow> router_inv sr \<Longrightarrow> router_inv sr'"
proof (induction pkts arbitrary: sr)
  case (Cons p pkts)
  then show ?case
    by (auto simp: sr_send_icmp_host_unreachable_def) (meson send_error_inv)
qed simp

end

lemma arp_request_extends: "sr_send_arp_request sr ip i = Inr sr' \<Longrightarrow> extends sr sr'"
  by (auto simp: sr_send_arp_request_def Let_def split: prod.splits dest!: extends_send)
     (metis extends_from_malloc snd_conv)

lemma arp_request_inv: "sr_send_arp_request sr ip i = Inr sr' \<Longrightarrow> router_inv sr' = router_inv sr"
  by (auto simp: sr_send_arp_request_def Let_def split: prod.splits dest!: router_inv_send)
     (metis router_inv_alloc(1) snd_conv)+

context arpreq_handler
begin

lemma body_extends:
  assumes "handle_arpreq_body handler sr a = Inr sr'"
  shows "extends sr sr'"
proof -
  obtain now sr1 where t: "sr_time sr = (now, sr1)" by fastforce
  have "extends sr1 sr'"
    using assms t
    by (auto simp: handle_arpreq_body_def unreachable_loop_extends arp_request_extends
        split: if_splits list.splits)
  then show ?thesis using t extends_from_time [of sr] by simp
qed

lemma body_inv:
  assumes "router_inv sr" and "handle_arpreq_body handler sr a = Inr sr'"
  shows "router_inv sr'"
proof -
  obtain now sr1 where t: "sr_time sr = (now, sr1)" by fastforce
  then have "router_inv sr1" using assms(1) router_inv_alloc(2) [of sr] by simp
  with assms(2) t show ?thesis
    by (auto simp: handle_arpreq_body_def arp_request_inv req_wf_def
        split: if_splits list.splits intro!: router_inv_destroy router_inv_update_req
        dest: unreachable_loop_inv)
qed

end

lemma handle_arpreq_contract: "arpreq_handler (handle_arpreq fuel)"
proof (induction fuel)
  case 0
  show ?case by unfold_locales simp_all
next
  case (Suc fuel)
  show ?case
    by unfold_locales
       (simp_all add: arpreq_handler.body_extends [OF Suc] arpreq_handler.body_inv [OF Suc])
qed

interpretation req: arpreq_handler "handle_arpreq fuel" for fuel
  by (rule handle_arpreq_contract)

section \<open>The packet handlers\<close>

text \<open>Both parts of the contract of a state change.\<close>

definition keeps :: "sr_instance \<Rightarrow> sr_instance \<Rightarrow> bool" where
  "keeps sr sr' \<longleftrightarrow> extends sr sr' \<and> (router_inv sr \<longrightarrow> router_inv sr')"

lemma keeps_refl [simp, intro]: "keeps sr sr"
  by (simp add: keeps_def)

lemma keeps_trans: "keeps a b \<Longrightarrow> keeps b c \<Longrightarrow> keeps a c"
  by (auto simp: keeps_def intro: extends_trans)

lemma keeps_alloc [simp]:
  "keeps (snd (sr_malloc sr n)) sr' = keeps sr sr'" "keeps (snd (sr_time sr)) sr' = keeps sr sr'"
  by (simp_all add: keeps_def)

lemma keeps_malloc_result: "sr_malloc sr n = (b, sr1) \<Longrightarrow> keeps sr1 sr' \<Longrightarrow> keeps sr sr'"
  by (metis keeps_alloc(1) snd_conv)

lemma keeps_send: "send_ignoring sr buf len name = Inr sr' \<Longrightarrow> keeps sr sr'"
  by (simp add: keeps_def extends_send router_inv_send)

lemma keeps_handle: "handle_arpreq fuel sr a = Inr sr' \<Longrightarrow> keeps sr sr'"
  using req.handler_extends req.handler_inv by (simp add: keeps_def)

lemma keeps_error: "sr_send_error (handle_arpreq fuel) sr p name ty code = Inr sr' \<Longrightarrow> keeps sr sr'"
  using req.send_error_extends req.send_error_inv by (simp add: keeps_def)

lemma keeps_queuereq:
  assumes "sr_arpcache_queuereq sr ip p len (if_name i) = Inr (a, sr')"
    and "sr_get_interface sr n = Some i" and "14 \<le> len"
  shows "keeps sr sr'"
proof -
  have "router_inv sr'" if inv: "router_inv sr"
  proof -
    obtain b sr2 where "sr_arpcache_queuereq sr ip p len (if_name i) = Inr (b, sr2)" "router_inv sr2"
      by (rule queuereq_result [OF inv assms(3) queuereq_length [OF assms(1)] get_own_name [OF assms(2)]])
    with assms(1) show ?thesis by simp
  qed
  with assms(1) show ?thesis by (simp add: keeps_def extends_queuereq)
qed

text \<open>Queueing a frame and handling the request for it, as three handlers do on a cache miss.\<close>

lemma keeps_miss:
  "sr_arpcache_queuereq sr ip p len (if_name i) = Inr (a, sr1) \<Longrightarrow> handle_arpreq fuel sr1 a = Inr sr'
   \<Longrightarrow> sr_get_interface sr n = Some i \<Longrightarrow> 14 \<le> len \<Longrightarrow> keeps sr sr'"
  using keeps_queuereq keeps_handle keeps_trans by blast

lemmas icmp_wrappers = sr_send_icmp_port_unreachable_def sr_send_icmp_time_exceeded_def
  sr_send_icmp_host_unreachable_def sr_send_icmp_net_unreachable_def

lemma keeps_forward:
  assumes "sr_forward_packet fuel sr packet len name = Inr sr'" and "14 \<le> len"
  shows "keeps sr sr'"
  using assms unfolding sr_forward_packet_def icmp_wrappers
  by (auto split: if_splits option.splits) (blast intro: keeps_error keeps_send keeps_miss)+

lemma keeps_icmp:
  assumes "sr_handle_icmp_packet fuel sr packet len name = Inr sr'" and "14 \<le> len"
  shows "keeps sr sr'"
proof -
  obtain blk sr1 where m: "sr_malloc sr len = (blk, sr1)" by fastforce
  have "keeps sr1 sr'"
    using assms unfolding sr_handle_icmp_packet_def m Let_def prod.case
    by (auto split: if_splits option.splits) (blast intro: keeps_send keeps_miss)+
  with m show ?thesis by (rule keeps_malloc_result)
qed

lemma keeps_ip:
  "sr_handle_ip_packet fuel sr packet len name = Inr sr' \<Longrightarrow> keeps sr sr'"
  unfolding sr_handle_ip_packet_def icmp_wrappers
  by (auto split: if_splits)
     ((rule keeps_icmp, assumption, simp) | (erule keeps_error) | (rule keeps_forward, assumption, simp))+

lemma keeps_pending: "send_pending sr mac pkts = Inr sr' \<Longrightarrow> keeps sr sr'"
proof (induction pkts arbitrary: sr)
  case (Cons p pkts)
  then show ?case by (auto intro: keeps_trans keeps_send)
qed simp

lemma keeps_destroy: "keeps sr (sr_arpreq_destroy sr a)"
  by (simp add: keeps_def router_inv_destroy)

lemma keeps_insert: "length mac = 6 \<Longrightarrow> keeps sr (snd (sr_arpcache_insert sr mac ip))"
  by (simp add: keeps_def extends_insert router_inv_insert)

lemma keeps_arp_reply:
  assumes "sr_send_arp_reply sr packet len name = Inr sr'"
  shows "keeps sr sr'"
proof -
  obtain blk sr1 where m: "sr_malloc sr len = (blk, sr1)" by fastforce
  have "keeps sr1 sr'"
    using assms unfolding sr_send_arp_reply_def m Let_def prod.case by (auto intro: keeps_send)
  with m show ?thesis by (rule keeps_malloc_result)
qed

lemma load_bytes_length: "load_bytes b p n = Inr bs \<Longrightarrow> length bs = n"
  by (auto simp: load_bytes_def split: if_splits)

lemma keeps_arp_answer:
  assumes "(case sr_arpcache_insert sr sha sip of
              (None, sr) \<Rightarrow> Inr sr
            | (Some req, sr) \<Rightarrow> bindR (send_pending sr sha (req_packets req))
                (\<lambda>sr. Inr (sr_arpreq_destroy sr (req_id req)))) = Inr sr'"
    and "length sha = 6"
  shows "keeps sr sr'"
proof -
  have k: "keeps sr (snd (sr_arpcache_insert sr sha sip))" by (rule keeps_insert) (rule assms(2))
  show ?thesis
    using assms(1) k
    by (cases "sr_arpcache_insert sr sha sip")
       (auto split: option.splits, metis keeps_trans keeps_pending keeps_destroy)
qed

lemma keeps_arp:
  "sr_handle_arp_packet sr packet len name = Inr sr' \<Longrightarrow> keeps sr sr'"
  unfolding sr_handle_arp_packet_def
  by (auto split: if_splits option.splits)
     ((erule keeps_arp_reply) | (rule keeps_arp_answer, assumption, simp add: load_bytes_length))+

lemma keeps_handlepacket:
  "sr_handlepacket fuel sr packet len name = Inr sr' \<Longrightarrow> keeps sr sr'"
  unfolding sr_handlepacket_def by (auto split: if_splits intro: keeps_arp keeps_ip)

section \<open>The cleanup thread\<close>

lemma keeps_sweep_loop: "sweep_loop steps fuel sr next = Inr sr' \<Longrightarrow> keeps sr sr'"
proof (induction steps fuel sr "next" rule: sweep_loop.induct)
  case (3 steps fuel sr a)
  then show ?case by (auto simp: Let_def intro: keeps_trans keeps_handle)
qed auto

lemma router_inv_expire:
  assumes "router_inv sr"
  shows "router_inv (expire_entries sr)"
  using assms
  by (auto simp: expire_entries_def sr_time_def router_inv_defs expire_entry_def)

lemma keeps_expire: "keeps sr (expire_entries sr)"
  by (simp add: keeps_def extends_expire router_inv_expire)

lemma keeps_timeout: "sr_arpcache_timeout_step fuel sr = Inr sr' \<Longrightarrow> keeps sr sr'"
  unfolding sr_arpcache_timeout_step_def sr_arpcache_sweepreqs_def
  using keeps_trans [OF keeps_expire keeps_sweep_loop] by blast

lemma router_inv_init:
  assumes "ifs_wf sr"
  shows "router_inv (sr_init sr)"
  using assms by (simp add: sr_init_def sr_arpcache_init_def sr_time_def router_inv_defs)

end
