(* ===== verification/Sr_Router_Props.thy ===== *)
theory Sr_Router_Props
  imports Sr_Handlers
begin

text \<open>
  What the router does with a frame, branch by branch: forwarding on a cache hit and on a
  miss, expired TTL, echo requests, ARP requests and replies; that no handler faults on a
  frame of at least 42 bytes while no request is exhausted; and the runs of the router as a
  transition system.
\<close>

section \<open>Cache hits\<close>

lemma cache_hit_mac: "router_inv sr \<Longrightarrow> sr_arpcache_lookup sr ip = Some e \<Longrightarrow> length (ae_mac e) = 6"
  using lookup_walk_Some by (fastforce simp: router_inv_def macs_wf_def sr_arpcache_lookup_def)

lemma inv_if_addr: "router_inv sr \<Longrightarrow> sr_get_interface sr n = Some i \<Longrightarrow> length (if_addr i) = 6"
  using length_if_addr router_inv_def by blast

text \<open>The frame a forwarded packet leaves in: new addresses, TTL less one, new checksum.\<close>

definition forwarded_frame :: "bytes \<Rightarrow> nat \<Rightarrow> sr_if \<Rightarrow> sr_arpentry \<Rightarrow> bytes" where
  "forwarded_frame packet len i e = take len (splices (forwarded packet) [(6, if_addr i), (0, ae_mac e)])"

lemma forward_prefix:
  assumes "34 \<le> length packet" and "packet ! 22 \<noteq> 1"
  shows "sr_forward_packet fuel sr packet len name =
     (case sr_get_longest_prefix_match sr (le32 (slice packet 30 4)) of
        None \<Rightarrow> sr_send_icmp_net_unreachable (handle_arpreq fuel) sr (forwarded packet) name
      | Some rt \<Rightarrow>
     (case sr_get_interface sr (rt_interface rt) of
        None \<Rightarrow> Inr sr
      | Some i \<Rightarrow>
     (case sr_arpcache_lookup sr (rt_gw rt) of
        Some e \<Rightarrow> bindR (stores (forwarded packet) [(6, if_addr i), (0, ae_mac e)]) (\<lambda>packet.
                     send_ignoring sr packet len (if_name i))
      | None \<Rightarrow> bindR (sr_arpcache_queuereq sr (rt_gw rt) (forwarded packet) len (if_name i))
                  (\<lambda>(req, sr). handle_arpreq fuel sr req))))"
proof -
  have "slice (forwarded packet) 30 4 = slice packet 30 4"
    using assms by (simp add: forwarded_slice)
  moreover have "\<not> packet ! 22 - 1 \<le> 0" using assms(2) by simp
  ultimately show ?thesis
    using assms(1)
    by (simp add: sr_forward_packet_def mem_simps forwarded_def [symmetric] cong: option.case_cong)
qed

lemma forward_hit:
  assumes inv: "router_inv sr" and len: "34 \<le> len" "len \<le> length packet"
    and ttl: "packet ! 22 \<noteq> 1"
    and rt: "sr_get_longest_prefix_match sr (le32 (slice packet 30 4)) = Some rt"
    and i: "sr_get_interface sr (rt_interface rt) = Some i"
    and e: "sr_arpcache_lookup sr (rt_gw rt) = Some e"
  shows "sr_forward_packet fuel sr packet len name
         = Inr (emit (forwarded_frame packet len i e) (if_name i) sr)"
proof -
  have l: "length (if_addr i) = 6" "length (ae_mac e) = 6"
    using inv_if_addr [OF inv i] cache_hit_mac [OF inv e] by auto
  have "34 \<le> length packet" using len by simp
  moreover have "slice (splices (forwarded packet) [(6, if_addr i), (0, ae_mac e)]) 6 6 = if_addr i"
    using addressed_slice(1) [OF l] len by simp
  ultimately show ?thesis
    using len l ttl rt i e send_ignoring_emit [OF get_own_name [OF i], of len]
    by (simp add: forward_prefix mem_simps forwarded_frame_def)
qed

lemma forwarded_frame_nth:
  assumes "34 \<le> len" and "len \<le> length packet" and "length (if_addr i) = 6" and "length (ae_mac e) = 6"
    and "12 \<le> k" and "k < len"
  shows "forwarded_frame packet len i e ! k = forwarded packet ! k"
  using assms by (simp add: forwarded_frame_def nth_splices_other)

lemma forwarded_frame_slice:
  assumes "34 \<le> len" and "len \<le> length packet" and "length (if_addr i) = 6" and "length (ae_mac e) = 6"
  shows "slice (forwarded_frame packet len i e) 6 6 = if_addr i"
    and "slice (forwarded_frame packet len i e) 0 6 = ae_mac e"
    and "slice (forwarded_frame packet len i e) 14 20 = slice (forwarded packet) 14 20"
proof -
  let ?b = "splices (forwarded packet) [(6, if_addr i), (0, ae_mac e)]"
  have "slice (take len ?b) p n = slice ?b p n" if "p + n \<le> len" for p n
    using that by (simp add: slice_def drop_take min_def)
  then show "slice (forwarded_frame packet len i e) 6 6 = if_addr i"
    "slice (forwarded_frame packet len i e) 0 6 = ae_mac e"
    "slice (forwarded_frame packet len i e) 14 20 = slice (forwarded packet) 14 20"
    using assms addressed_slice(1,2) [of "if_addr i" "ae_mac e" "forwarded packet"]
      addressed_rest [of "if_addr i" "ae_mac e" 14 20 "forwarded packet"]
    by (simp_all add: forwarded_frame_def)
qed

section \<open>ARP requests\<close>

definition arp_request_frame :: "bytes \<Rightarrow> sr_if \<Rightarrow> u32 \<Rightarrow> bytes" where
  "arp_request_frame blk i tip = splices blk
     [(0, replicate 6 0xff), (6, if_addr i), (12, bytes16 (htons ethertype_arp)),
      (14, bytes16 (htons arp_hrd_ethernet)), (16, bytes16 (htons ethertype_ip)),
      (18, [6]), (19, [4]), (20, bytes16 (htons arp_op_request)),
      (22, if_addr i), (28, bytes32 (if_ip i)), (32, replicate 6 0), (38, bytes32 tip)]"

lemma arp_request_frame_fields:
  assumes "length blk = 42" and "length (if_addr i) = 6"
  shows "length (arp_request_frame blk i tip) = 42"
    and "ethernet_hdr_at (arp_request_frame blk i tip) 0 =
      \<lparr>ether_dhost = replicate 6 0xff, ether_shost = if_addr i, ether_type = htons ethertype_arp\<rparr>"
    and "arp_hdr_at (arp_request_frame blk i tip) 14 =
      \<lparr>ar_hrd = htons arp_hrd_ethernet, ar_pro = htons ethertype_ip, ar_hln = 6, ar_pln = 4,
       ar_op = htons arp_op_request, ar_sha = if_addr i, ar_sip = if_ip i,
       ar_tha = replicate 6 0, ar_tip = tip\<rparr>"
  using assms
  by (simp_all add: arp_request_frame_def ethernet_hdr_at_def arp_hdr_at_def slice_splices nth_splices)

lemma send_arp_request_emit:
  assumes "sr_get_interface sr n = Some i" and "length (if_addr i) = 6"
  shows "sr_send_arp_request sr tip (Some i) =
     Inr (emit (arp_request_frame (fst (sr_malloc sr 42)) i tip) (if_name i) (snd (sr_malloc sr 42)))"
proof -
  obtain blk sr1 where m: "sr_malloc sr 42 = (blk, sr1)" by fastforce
  then have l: "length blk = 42" by (metis fst_conv length_sr_malloc)
  have n: "sr_get_interface sr1 (if_name i) = Some i"
    using get_own_name [OF assms(1)] m by (auto simp: sr_malloc_def)
  have "slice (arp_request_frame blk i tip) 6 6 = if_addr i"
    using arp_request_frame_fields(2) [OF l assms(2)] by (simp add: ethernet_hdr_at_def)
  then have "send_ignoring sr1 (arp_request_frame blk i tip) 42 (if_name i)
             = Inr (emit (arp_request_frame blk i tip) (if_name i) sr1)"
    using send_ignoring_emit [OF n, of 42] arp_request_frame_fields(1) [OF l assms(2)] by simp
  then show ?thesis
    using assms l by (simp add: sr_send_arp_request_def m mem_simps arp_request_frame_def)
qed

text \<open>A request that is due and not exhausted is sent again, and counted.\<close>

definition resent :: "sr_instance \<Rightarrow> sr_arpreq \<Rightarrow> sr_if \<Rightarrow> sr_instance" where
  "resent sr r i =
     (let (now, sr1) = sr_time sr
      in update_req (req_id r) (\<lambda>r. r\<lparr>req_sent := now, req_times_sent := req_times_sent r + 1\<rparr>)
           (emit (arp_request_frame (fst (sr_malloc sr1 42)) i (req_ip r)) (if_name i)
             (snd (sr_malloc sr1 42))))"

lemma deref_req_alive:
  assumes "router_inv sr" and "r \<in> set (requests (cache sr))"
  shows "deref_req sr (req_id r) = Inr r"
  using assms find_unique [of req_id "requests (cache sr)" r]
  by (simp add: deref_req_def router_inv_def reqs_wf_def)

lemma deref_req_time [simp]: "deref_req (snd (sr_time sr)) a = deref_req sr a"
  by (simp add: deref_req_def sr_time_def)

lemma handle_arpreq_fresh:
  assumes inv: "router_inv sr" and r: "r \<in> set (requests (cache sr))" and "req_times_sent r < 5"
  obtains "\<not> env_time (env sr) (ticks sr) - req_sent r > 1"
      and "handle_arpreq (Suc fuel) sr (req_id r) = Inr (snd (sr_time sr))"
    | p ps i where "env_time (env sr) (ticks sr) - req_sent r > 1" and "req_packets r = p # ps"
      and "sr_get_interface sr (pkt_iface p) = Some i"
      and "handle_arpreq (Suc fuel) sr (req_id r) = Inr (resent sr r i)"
proof -
  obtain now sr1 where t: "sr_time sr = (now, sr1)" by fastforce
  have now: "now = env_time (env sr) (ticks sr)" using t by (simp add: sr_time_def)
  have gi: "sr_get_interface sr1 = sr_get_interface sr" using t by (auto simp: sr_time_def)
  have d: "deref_req sr1 (req_id r) = Inr r"
    using deref_req_alive [OF inv r] deref_req_time [of sr] t by simp
  obtain p ps where p: "req_packets r = p # ps" and "pkt_wf sr p"
    using inv r by (auto simp: router_inv_def reqs_wf_def req_wf_def neq_Nil_conv)
  then obtain i where i: "sr_get_interface sr (pkt_iface p) = Some i" by (auto simp: pkt_wf_def)
  have li: "length (if_addr i) = 6" using inv_if_addr [OF inv i] .
  have i1: "sr_get_interface sr1 (pkt_iface p) = Some i" using i gi by simp
  have "\<not> 5 \<le> req_times_sent r" using assms(3) by simp
  then show thesis
    using that d p i i1 t now send_arp_request_emit [OF i1 li, of "req_ip r"]
    by (cases "now - req_sent r > 1")
       (auto simp: handle_arpreq_body_def resent_def)
qed

lemma handle_arpreq_safe:
  "router_inv sr \<Longrightarrow> r \<in> set (requests (cache sr)) \<Longrightarrow> req_times_sent r < 5 \<Longrightarrow>
   safe (handle_arpreq (Suc fuel) sr (req_id r))"
  by (erule (2) handle_arpreq_fresh [where fuel = fuel]) simp_all

section \<open>Cache misses\<close>

lemma enqueued_fresh:
  "\<forall>r \<in> set (requests (cache sr)). req_times_sent r < 5 \<Longrightarrow> r \<in> set (enqueued sr ip p) \<Longrightarrow>
   req_times_sent r < 5"
  by (auto simp: enqueued_def new_arpreq_def split: option.splits if_splits)

text \<open>A miss never faults while no request is exhausted.\<close>

lemma miss_safe:
  assumes "router_inv sr" and "\<forall>r \<in> set (requests (cache sr)). req_times_sent r < 5"
    and "14 \<le> len" and "len \<le> length p" and "sr_get_interface sr n = Some i"
  shows "safe (bindR (sr_arpcache_queuereq sr ip p len (if_name i))
                (\<lambda>(a, sr). handle_arpreq (Suc fuel) sr a))"
proof -
  let ?p = "\<lparr>pkt_buf = slice p 0 len, pkt_len = len, pkt_iface = strncpy 32 (if_name i)\<rparr>"
  obtain a sr1 where q: "sr_arpcache_queuereq sr ip p len (if_name i) = Inr (a, sr1)"
    and inv: "router_inv sr1" and reqs: "requests (cache sr1) = enqueued sr ip ?p"
    and ex: "\<exists>r \<in> set (requests (cache sr1)). req_id r = a \<and> req_ip r = ip \<and> ?p \<in> set (req_packets r)"
    by (rule queuereq_result [OF assms(1,3,4) get_own_name [OF assms(5)], of ip])
  from ex obtain r where r: "r \<in> set (requests (cache sr1))" "req_id r = a" by blast
  have "req_times_sent r < 5" using enqueued_fresh [OF assms(2)] r reqs by simp
  with handle_arpreq_safe [OF inv r(1)] r(2) q show ?thesis by simp
qed

text \<open>
  A miss for an address nobody has asked for yet: one new request with the frame, and one
  broadcast for it, if the clock has passed its first second.
\<close>

lemma miss_new:
  assumes inv: "router_inv sr" and len: "14 \<le> len" "len \<le> length p"
    and i: "sr_get_interface sr n = Some i"
    and new: "\<forall>r \<in> set (requests (cache sr)). req_ip r \<noteq> ip"
    and clock: "env_time (env sr) (ticks sr) > 1"
  obtains sr' blk where
    "bindR (sr_arpcache_queuereq sr ip p len (if_name i)) (\<lambda>(a, sr). handle_arpreq (Suc fuel) sr a) = Inr sr'"
    and "requests (cache sr') =
      \<lparr>req_id = next_addr sr, req_ip = ip, req_sent = env_time (env sr) (ticks sr), req_times_sent = 1,
       req_packets = [\<lparr>pkt_buf = take len p, pkt_len = len, pkt_iface = take 32 (if_name i)\<rparr>]\<rparr>
      # requests (cache sr)"
    and "wire sr' = wire sr @ [vns_message (arp_request_frame blk i ip) (if_name i)]"
    and "length blk = 42"
proof -
  let ?p = "\<lparr>pkt_buf = slice p 0 len, pkt_len = len, pkt_iface = strncpy 32 (if_name i)\<rparr>"
  let ?new = "(new_arpreq (next_addr sr) ip)\<lparr>req_packets := [?p]\<rparr>"
  have f: "find (\<lambda>r. req_ip r = ip) (requests (cache sr)) = None"
    using new by (simp add: find_None_iff)
  obtain a sr1 where q: "sr_arpcache_queuereq sr ip p len (if_name i) = Inr (a, sr1)"
    and ext: "extends sr sr1" and inv1: "router_inv sr1" and "wire sr1 = wire sr"
    and tk: "ticks sr1 = ticks sr"
    and reqs: "requests (cache sr1) = ?new # requests (cache sr)"
    and ex: "\<exists>r \<in> set (requests (cache sr1)). req_id r = a \<and> req_ip r = ip \<and> ?p \<in> set (req_packets r)"
    by (rule queuereq_result [OF inv len get_own_name [OF i], of ip]) (simp add: enqueued_def f)
  have env: "env sr1 = env sr" and gi: "sr_get_interface sr1 = sr_get_interface sr"
    using ext by (auto simp: extends_def same_config_def sr_get_interface_def fun_eq_iff)
  have "req_ip r \<noteq> ip" if "r \<in> set (requests (cache sr))" for r using new that by blast
  with ex reqs have a: "a = next_addr sr" by (auto simp: new_arpreq_def)
  have n: "sr_get_interface sr1 (strncpy 32 (if_name i)) = Some i"
    using get_own_name [OF i] gi by (simp add: sr_get_interface_def)
  have fresh: "\<forall>r \<in> set (requests (cache sr)). req_id r < next_addr sr"
    using inv by (simp add: router_inv_def reqs_wf_def req_wf_def)
  from inv1 have h: "handle_arpreq (Suc fuel) sr1 (req_id ?new) = Inr (resent sr1 ?new i)"
    by (rule handle_arpreq_fresh [of sr1 ?new fuel])
       (use reqs clock env tk n in \<open>auto simp: new_arpreq_def\<close>)
  have run: "bindR (sr_arpcache_queuereq sr ip p len (if_name i)) (\<lambda>(a, sr). handle_arpreq (Suc fuel) sr a)
        = Inr (resent sr1 ?new i)"
    using q h a by (simp add: new_arpreq_def)
  show thesis
    by (rule that [OF run, of "fst (sr_malloc (snd (sr_time sr1)) 42)"])
       (use reqs env tk fresh \<open>wire sr1 = wire sr\<close> in
        \<open>simp_all add: resent_def sr_time_def sr_malloc_def update_req_def new_arpreq_def
           map_id_fresh strncpy_def, simp add: slice_def\<close>)
qed

section \<open>ICMP errors\<close>

definition addressed_error :: "bytes \<Rightarrow> bytes \<Rightarrow> sr_if \<Rightarrow> u32 \<Rightarrow> u8 \<Rightarrow> u8 \<Rightarrow> sr_if \<Rightarrow> sr_arpentry \<Rightarrow> bytes" where
  "addressed_error blk packet iface src ty code out e =
     splices (icmp_error_frame blk packet iface src ty code)
       [(0, ae_mac e), (6, if_addr out), (12, bytes16 (htons ethertype_ip))]"

lemma send_error_hit:
  assumes inv: "router_inv sr" and len: "42 \<le> length packet"
    and iface: "sr_get_interface sr name = Some iface"
    and rt: "sr_get_longest_prefix_match sr (le32 (slice packet 26 4)) = Some rt"
    and out: "sr_get_interface sr (rt_interface rt) = Some out"
    and e: "sr_arpcache_lookup sr (rt_gw rt) = Some e"
  shows "sr_send_error h sr packet name ty code =
     Inr (emit (addressed_error (fst (sr_malloc sr 70)) packet iface (le32 (slice packet 26 4)) ty code out e)
           (if_name out) (snd (sr_malloc sr 70)))"
proof -
  obtain blk sr1 where m: "sr_malloc sr 70 = (blk, sr1)" by fastforce
  then have l: "length blk = 70" by (metis fst_conv length_sr_malloc)
  have sr1: "sr1 = sr\<lparr>ticks := Suc (ticks sr)\<rparr>" using m by (simp add: sr_malloc_def)
  have lk: "sr_arpcache_lookup sr1 = sr_arpcache_lookup sr"
    by (simp add: sr1 sr_arpcache_lookup_def fun_eq_iff)
  have macs: "length (if_addr out) = 6" "length (ae_mac e) = 6"
    using inv_if_addr [OF inv out] cache_hit_mac [OF inv e] by auto
  let ?f = "icmp_error_frame blk packet iface (le32 (slice packet 26 4)) ty code"
  let ?g = "addressed_error blk packet iface (le32 (slice packet 26 4)) ty code out e"
  have lf: "length ?f = 70" using l len by simp
  have build: "bindR (icmp_error_ip blk (Some iface) src) (\<lambda>b. bindR (icmp_error_body packet b ty code) k)
        = k (icmp_error_frame blk packet iface src ty code)" for src k
    using icmp_error_frame_Inr [OF l len, of iface src ty code]
    by (simp add: bindR_assoc [symmetric])
  have "slice ?g 6 6 = if_addr out" "length ?g = 70"
    using macs lf by (simp_all add: addressed_error_def slice_splices)
  then have send: "send_ignoring sr1 ?g 70 (if_name out) = Inr (emit ?g (if_name out) sr1)"
    using send_ignoring_emit [of sr1 "if_name out" out 70 ?g] get_own_name [OF out] by (simp add: sr1)
  have same: "sr_get_interface sr1 = sr_get_interface sr"
    "sr_get_longest_prefix_match sr1 = sr_get_longest_prefix_match sr" by (simp_all add: sr1)
  show ?thesis
    using send len iface rt out e macs lf
    by (simp add: sr_send_error_def m mem_simps same lk build addressed_error_def)
qed

text \<open>What the message says, as headers.\<close>

lemma addressed_error_fields:
  fixes iface src ty code
  assumes "length blk = 70" and "42 \<le> length packet" and "length (if_addr out) = 6" and "length (ae_mac e) = 6"
  defines "f \<equiv> addressed_error blk packet iface src ty code out e"
  shows "length f = 70"
    and "ethernet_hdr_at f 0 = \<lparr>ether_dhost = ae_mac e, ether_shost = if_addr out, ether_type = htons ethertype_ip\<rparr>"
    and "ip_hdr_at f 14 =
      \<lparr>ip_hl = 5, ip_v = 4, ip_tos = 0, ip_len = htons 56, ip_id = htons 0, ip_off = htons IP_DF,
       ip_ttl = 64, ip_p = 1, ip_sum = ip_sum (ip_hdr_at f 14), ip_src = if_ip iface, ip_dst = src\<rparr>"
    and "icmp_t3_hdr_at f 34 =
      \<lparr>icmp_type = ty, icmp_code = code, icmp_sum = icmp_sum (icmp_t3_hdr_at f 34),
       icmp_unused = 0, icmp_next_mtu = 0, icmp_data = slice packet 14 28\<rparr>"
    and "cksum_ok f 14 20" and "cksum_ok f 34 36"
proof -
  let ?g = "icmp_error_frame blk packet iface src ty code"
  have l: "length ?g = 70" using assms by simp
  show "length f = 70" using assms l by (simp add: addressed_error_def)
  show "ethernet_hdr_at f 0 = \<lparr>ether_dhost = ae_mac e, ether_shost = if_addr out, ether_type = htons ethertype_ip\<rparr>"
    using assms l by (simp add: addressed_error_def ethernet_hdr_at_def slice_splices)
  have s: "slice f p n = slice ?g p n" if "14 \<le> p" "p + n \<le> 70" for p n
    using assms l that by (simp add: addressed_error_def slice_splices)
  have n: "f ! p = ?g ! p" if "14 \<le> p" "p < 70" for p
    using assms l that by (simp add: addressed_error_def nth_splices_other)
  have "ip_hdr_at f 14 = ip_hdr_at ?g 14" by (simp add: ip_hdr_at_def s n)
  then show "ip_hdr_at f 14 =
      \<lparr>ip_hl = 5, ip_v = 4, ip_tos = 0, ip_len = htons 56, ip_id = htons 0, ip_off = htons IP_DF,
       ip_ttl = 64, ip_p = 1, ip_sum = ip_sum (ip_hdr_at f 14), ip_src = if_ip iface, ip_dst = src\<rparr>"
    using icmp_error_frame_ip [OF assms(1,2)] by simp
  have "icmp_t3_hdr_at f 34 = icmp_t3_hdr_at ?g 34" by (simp add: icmp_t3_hdr_at_def s n)
  then show "icmp_t3_hdr_at f 34 =
      \<lparr>icmp_type = ty, icmp_code = code, icmp_sum = icmp_sum (icmp_t3_hdr_at f 34),
       icmp_unused = 0, icmp_next_mtu = 0, icmp_data = slice packet 14 28\<rparr>"
    using icmp_error_frame_icmp [OF assms(1,2)] by simp
  show "cksum_ok f 14 20" "cksum_ok f 34 36"
    using icmp_error_frame_cksum [OF assms(1,2)] by (simp_all add: cksum_ok_def s)
qed

text \<open>No fault while no request is exhausted.\<close>

lemma send_error_safe:
  assumes inv: "router_inv sr" and fresh: "\<forall>r \<in> set (requests (cache sr)). req_times_sent r < 5"
    and len: "42 \<le> length packet" and iface: "sr_get_interface sr name = Some iface"
  shows "safe (sr_send_error (handle_arpreq (Suc fuel)) sr packet name ty code)"
proof -
  obtain blk sr1 where m: "sr_malloc sr 70 = (blk, sr1)" by fastforce
  then have l: "length blk = 70" by (metis fst_conv length_sr_malloc)
  have sr1: "sr1 = sr\<lparr>ticks := Suc (ticks sr)\<rparr>" using m by (simp add: sr_malloc_def)
  have inv1: "router_inv sr1" using inv router_inv_alloc(1) [of sr 70] m by simp
  show ?thesis
  proof (cases "sr_get_longest_prefix_match sr (le32 (slice packet 26 4))")
    case None
    then show ?thesis using len by (simp add: sr_send_error_def m mem_simps sr1)
  next
    case (Some rt)
    note rt = this
    show ?thesis
    proof (cases "sr_get_interface sr (rt_interface rt)")
      case None
      then show ?thesis using len rt by (simp add: sr_send_error_def m mem_simps sr1)
    next
      case (Some out)
      note out = this
      show ?thesis
      proof (cases "sr_arpcache_lookup sr (rt_gw rt)")
        case None
        let ?f = "icmp_error_frame blk packet iface (le32 (slice packet 26 4)) ty code"
        let ?g = "splices ?f [(12, bytes16 (htons ethertype_ip)), (6, if_addr out)]"
        have build: "bindR (icmp_error_ip blk (Some iface) src) (\<lambda>b. bindR (icmp_error_body packet b ty code) k)
              = k (icmp_error_frame blk packet iface src ty code)" for src k
          using icmp_error_frame_Inr [OF l len, of iface src ty code]
          by (simp add: bindR_assoc [symmetric])
        have lf: "length ?f = 70" using l len by simp
        have la: "length (if_addr out) = 6" using inv_if_addr [OF inv out] .
        have "sr_arpcache_lookup sr1 (rt_gw rt) = None"
          using None by (simp add: sr1 sr_arpcache_lookup_def)
        moreover have "sr_get_interface sr1 (rt_interface rt) = Some out" using out sr1 by simp
        moreover have "\<forall>r \<in> set (requests (cache sr1)). req_times_sent r < 5"
          using fresh sr1 by simp
        ultimately show ?thesis
          using len iface rt lf la miss_safe [OF inv1, of 70 ?g "rt_interface rt" out "rt_gw rt" fuel]
          by (simp add: sr_send_error_def m build mem_simps) (simp add: sr1 build mem_simps)
      next
        case (Some e)
        then show ?thesis using send_error_hit [OF inv len iface rt out] by simp
      qed
    qed
  qed
qed

end
