(* ===== verification/Sr_Router_Runs.thy ===== *)
theory Sr_Router_Runs
  imports Sr_Router_Props
begin

text \<open>
  ARP traffic, absence of faults, and whole runs of the router.  A run is a sequence of frames
  from the server and of seconds of the cleanup thread, as a transition system.
\<close>

section \<open>ARP replies release the waiting packets\<close>

lemma emit_lookups [simp]:
  "sr_get_interface (emit f n sr) = sr_get_interface sr"
  "sr_arpcache_lookup (emit f n sr) = sr_arpcache_lookup sr"
  by (simp_all add: emit_def sr_arpcache_lookup_def fun_eq_iff)

definition pending_message :: "sr_instance \<Rightarrow> bytes \<Rightarrow> sr_packet \<Rightarrow> bytes" where
  "pending_message sr mac p =
     (case sr_get_interface sr (pkt_iface p) of
        None \<Rightarrow> []
      | Some i \<Rightarrow> vns_message (take (pkt_len p) (splices (pkt_buf p) [(0, mac), (6, if_addr i)])) (pkt_iface p))"

lemma pending_message_cong:
  "sr_get_interface sr' = sr_get_interface sr \<Longrightarrow> pending_message sr' = pending_message sr"
  by (simp add: pending_message_def fun_eq_iff)

lemma send_pending_result:
  assumes "ifs_wf sr" and "length mac = 6" and "\<forall>p \<in> set pkts. pkt_wf sr p"
  shows "\<exists>sr'. send_pending sr mac pkts = Inr sr' \<and> cache sr' = cache sr
           \<and> wire sr' = wire sr @ map (pending_message sr mac) pkts"
  using assms
proof (induction pkts arbitrary: sr)
  case (Cons p pkts)
  then obtain i where i: "sr_get_interface sr (pkt_iface p) = Some i"
    and len: "14 \<le> pkt_len p" "pkt_len p \<le> length (pkt_buf p)" by (auto simp: pkt_wf_def)
  have a: "length (if_addr i) = 6" using length_if_addr [OF Cons.prems(1) i] .
  let ?b = "splices (pkt_buf p) [(0, mac), (6, if_addr i)]"
  let ?sr = "emit (take (pkt_len p) ?b) (pkt_iface p) sr"
  have "slice ?b 6 6 = if_addr i" using addressed_slice(3) [OF a Cons.prems(2)] len by simp
  then have s: "send_ignoring sr ?b (pkt_len p) (pkt_iface p) = Inr ?sr"
    using send_ignoring_emit [OF i len(1)] len a Cons.prems(2) by simp
  have "ifs_wf ?sr" using Cons.prems(1) by (simp add: ifs_wf_def)
  moreover have "\<forall>p \<in> set pkts. pkt_wf ?sr p" using Cons.prems(3) by (simp add: pkt_wf_def)
  ultimately obtain sr' where "send_pending ?sr mac pkts = Inr sr'" "cache sr' = cache ?sr"
    "wire sr' = wire ?sr @ map (pending_message ?sr mac) pkts"
    using Cons.IH Cons.prems(2) by blast
  moreover have "pending_message ?sr = pending_message sr" by (rule pending_message_cong) simp
  ultimately show ?case
    using s i len a Cons.prems(2)
    by (simp add: mem_simps) (simp add: pending_message_def)
qed simp

lemma insert_lookup_if: "sr_get_interface (snd (sr_arpcache_insert sr mac ip)) = sr_get_interface sr"
  by (simp add: sr_get_interface_def fun_eq_iff insert_fields)

lemma arp_reply_releases:
  assumes inv: "router_inv sr" and len: "42 \<le> len" "len \<le> length packet"
    and i: "sr_get_interface sr name = Some i"
    and op: "le16 (slice packet 20 2) = htons arp_op_reply"
    and tip: "le32 (slice packet 38 4) = if_ip i"
    and r: "r \<in> set (requests (cache sr))" "req_ip r = le32 (slice packet 28 4)"
  shows "\<exists>sr'. sr_handle_arp_packet sr packet len name = Inr sr'
           \<and> wire sr' = wire sr @ map (pending_message sr (slice packet 22 6)) (req_packets r)
           \<and> entries (cache sr') = entries (cache (arp_learn sr (slice packet 22 6) (req_ip r)))
           \<and> (\<forall>q \<in> set (requests (cache sr')). req_ip q \<noteq> req_ip r)
           \<and> (\<forall>q \<in> set (requests (cache sr)). req_ip q \<noteq> req_ip r \<longrightarrow> q \<in> set (requests (cache sr')))"
proof -
  let ?sha = "slice packet 22 6" and ?ip = "le32 (slice packet 28 4)"
  have lsha: "length ?sha = 6" using len by simp
  obtain q sr1 where ins: "sr_arpcache_insert sr ?sha ?ip = (q, sr1)" by fastforce
  have dist: "distinct (map req_ip (requests (cache sr)))" "distinct (map req_id (requests (cache sr)))"
    using inv by (simp_all add: router_inv_def reqs_wf_def)
  have q: "q = Some r"
    using insert_fields(2) [of sr ?sha ?ip] find_unique [OF dist(1) r(1)] r(2) ins by simp
  have sr1: "requests (cache sr1) = snd (unlink (\<lambda>r. req_ip r = ?ip) (requests (cache sr)))"
    "wire sr1 = wire sr" "sr_get_interface sr1 = sr_get_interface sr"
    using insert_fields(1,5) [of sr ?sha ?ip] insert_lookup_if [of sr ?sha ?ip] ins by simp_all
  have inv1: "router_inv sr1" using router_inv_insert [OF inv lsha, of ?ip] ins by simp
  have "\<forall>p \<in> set (req_packets r). pkt_wf sr1 p"
    using inv r(1) sr1(3) by (simp add: router_inv_def reqs_wf_def req_wf_def pkt_wf_def)
  then obtain sr2 where s: "send_pending sr1 ?sha (req_packets r) = Inr sr2" "cache sr2 = cache sr1"
    "wire sr2 = wire sr1 @ map (pending_message sr1 ?sha) (req_packets r)"
    using send_pending_result [of sr1 ?sha] inv1 lsha by (auto simp: router_inv_def)
  have gone: "req_ip x \<noteq> ?ip" if "x \<in> set (requests (cache sr1))" for x
    using unlink_gone [OF dist(1)] that sr1(1) by simp
  have "x \<in> set (requests (cache sr1)) \<Longrightarrow> req_id x \<noteq> req_id r" for x
    using gone [of x] r dist(2) set_unlink [of _ "requests (cache sr)"] sr1(1)
    by (metis subsetD inj_on_contraD distinct_map)
  then have d: "requests (cache (sr_arpreq_destroy sr2 (req_id r))) = requests (cache sr1)"
    using s(2) unlink_none [of "requests (cache sr1)" "\<lambda>x. req_id x = req_id r"]
    by (simp add: sr_arpreq_destroy_def)
  have run: "sr_handle_arp_packet sr packet len name = Inr (sr_arpreq_destroy sr2 (req_id r))"
    using len i op tip ins q s(1)
    by (simp add: sr_handle_arp_packet_def mem_simps)
  have w: "pending_message sr1 = pending_message sr" by (rule pending_message_cong) (rule sr1)
  have ents: "entries (cache (sr_arpreq_destroy sr2 (req_id r))) = entries (cache (arp_learn sr ?sha ?ip))"
    using s(2) ins by (simp add: sr_arpreq_destroy_def arp_learn_def)
  have "x \<in> set (requests (cache sr1))" if "x \<in> set (requests (cache sr))" "req_ip x \<noteq> ?ip" for x
    using unlink_keeps [OF that(1)] that(2) sr1(1) by simp
  then show ?thesis
    using run d w ents s(3) sr1(2) gone r(2) by (simp add: sr_arpreq_destroy_def)
qed

section \<open>ARP requests are answered\<close>

definition arp_reply_frame :: "bytes \<Rightarrow> bytes \<Rightarrow> sr_if \<Rightarrow> bytes" where
  "arp_reply_frame blk packet i = splices blk
     [(0, slice packet 6 6), (6, if_addr i), (12, bytes16 (htons ethertype_arp)),
      (14, bytes16 (htons arp_hrd_ethernet)), (16, bytes16 (htons ethertype_ip)),
      (18, [6]), (19, [4]), (20, bytes16 (htons arp_op_reply)),
      (22, if_addr i), (28, bytes32 (if_ip i)), (32, slice packet 22 6),
      (38, slice packet 28 4)]"

lemma arp_reply_frame_fields:
  assumes "42 \<le> length blk" and "42 \<le> length packet" and "length (if_addr i) = 6"
  shows "length (arp_reply_frame blk packet i) = length blk"
    and "ethernet_hdr_at (arp_reply_frame blk packet i) 0 =
      \<lparr>ether_dhost = ether_shost (ethernet_hdr_at packet 0), ether_shost = if_addr i,
       ether_type = htons ethertype_arp\<rparr>"
    and "arp_hdr_at (arp_reply_frame blk packet i) 14 =
      \<lparr>ar_hrd = htons arp_hrd_ethernet, ar_pro = htons ethertype_ip, ar_hln = 6, ar_pln = 4,
       ar_op = htons arp_op_reply, ar_sha = if_addr i, ar_sip = if_ip i,
       ar_tha = ar_sha (arp_hdr_at packet 14), ar_tip = ar_sip (arp_hdr_at packet 14)\<rparr>"
  using assms
  by (simp_all add: arp_reply_frame_def ethernet_hdr_at_def arp_hdr_at_def slice_splices nth_splices)

lemma send_arp_reply_emit:
  assumes inv: "router_inv sr" and len: "42 \<le> len" "len \<le> length packet"
    and i: "sr_get_interface sr name = Some i"
  shows "sr_send_arp_reply sr packet len name =
     Inr (emit (arp_reply_frame (fst (sr_malloc sr len)) packet i) name (snd (sr_malloc sr len)))"
proof -
  obtain blk sr1 where m: "sr_malloc sr len = (blk, sr1)" by fastforce
  then have l: "length blk = len" by (metis fst_conv length_sr_malloc)
  have a: "length (if_addr i) = 6" using inv_if_addr [OF inv i] .
  have n: "sr_get_interface sr1 name = Some i" using i m by (auto simp: sr_malloc_def)
  have "slice (arp_reply_frame blk packet i) 6 6 = if_addr i"
    "length (arp_reply_frame blk packet i) = len"
    using arp_reply_frame_fields(1,2) [of blk packet i] l len a by (simp_all add: ethernet_hdr_at_def)
  then have "send_ignoring sr1 (arp_reply_frame blk packet i) len name
             = Inr (emit (arp_reply_frame blk packet i) name sr1)"
    using send_ignoring_emit [OF n, of len] len by simp
  then show ?thesis
    using l len a i by (simp add: sr_send_arp_reply_def m mem_simps arp_reply_frame_def)
qed

section \<open>No faults\<close>

text \<open>No request has been sent five times: \<open>handle_arpreq\<close> will not recurse.\<close>

definition no_exhausted :: "sr_instance \<Rightarrow> bool" where
  "no_exhausted sr \<longleftrightarrow> (\<forall>r \<in> set (requests (cache sr)). req_times_sent r < 5)"

lemma forward_safe:
  assumes inv: "router_inv sr" and ne: "no_exhausted sr" and len: "42 \<le> len" "len \<le> length packet"
    and i: "sr_get_interface sr name = Some i"
  shows "safe (sr_forward_packet (Suc fuel) sr packet len name)"
proof (cases "packet ! 22 = 1")
  case True
  then show ?thesis
    using len send_error_safe [OF inv _ _ i] ne
    by (simp add: sr_forward_packet_def mem_simps icmp_wrappers no_exhausted_def)
next
  case False
  have l: "34 \<le> length packet" using len by simp
  have "safe (bindR (stores (forwarded packet) [(6, if_addr j), (0, ae_mac e)]) (\<lambda>p. send_ignoring sr p len (if_name j)))"
    if "sr_get_interface sr n = Some j" "sr_arpcache_lookup sr ip = Some e" for n j ip e
  proof -
    have a: "length (if_addr j) = 6" "length (ae_mac e) = 6"
      using inv_if_addr [OF inv that(1)] cache_hit_mac [OF inv that(2)] by auto
    have "slice (splices (forwarded packet) [(6, if_addr j), (0, ae_mac e)]) 6 6 = if_addr j"
      using addressed_slice(1) [OF a] len by simp
    then show ?thesis
      using send_ignoring_emit [OF get_own_name [OF that(1)], of len] len a by (simp add: mem_simps)
  qed
  then show ?thesis
    using send_error_safe [OF inv _ _ i, of "forwarded packet"] ne len
      miss_safe [OF inv, of len "forwarded packet"]
    by (simp add: forward_prefix [OF l False] icmp_wrappers no_exhausted_def split: option.splits)
qed

lemma icmp_safe:
  assumes inv: "router_inv sr" and ne: "no_exhausted sr" and len: "42 \<le> len" "len = length packet"
  shows "safe (sr_handle_icmp_packet (Suc fuel) sr packet len name)"
proof -
  obtain blk sr1 where m: "sr_malloc sr len = (blk, sr1)" by fastforce
  have inv1: "router_inv sr1" using inv router_inv_alloc(1) [of sr len] m by simp
  have ne1: "\<forall>r \<in> set (requests (cache sr1)). req_times_sent r < 5"
    using ne m by (auto simp: no_exhausted_def sr_malloc_def)
  have l: "length (echo_reply packet) = len" using len by simp
  have "safe (bindR (stores (echo_reply packet) [(6, if_addr j), (0, ae_mac e)]) (\<lambda>p. send_ignoring sr1 p len (if_name j)))"
    if "sr_get_interface sr1 n = Some j" "sr_arpcache_lookup sr1 ip = Some e" for n j ip e
  proof -
    have a: "length (if_addr j) = 6" "length (ae_mac e) = 6"
      using inv_if_addr [OF inv1 that(1)] cache_hit_mac [OF inv1 that(2)] by auto
    have "slice (splices (echo_reply packet) [(6, if_addr j), (0, ae_mac e)]) 6 6 = if_addr j"
      using addressed_slice(1) [OF a] len l by simp
    then show ?thesis
      using send_ignoring_emit [OF get_own_name [OF that(1)], of len] len a l by (simp add: mem_simps)
  qed
  then show ?thesis
    using len l miss_safe [OF inv1 ne1, of len "echo_reply packet"]
    by (simp add: sr_handle_icmp_packet_def m [unfolded len(2)] mem_simps echo_reply_Inr
        split: option.splits)
qed

lemma restore_same:
  assumes "26 \<le> length b"
  shows "splices b [(24, bytes16 0), (24, slice b 24 2)] = b"
  using assms
  by (intro nth_equalityI) (auto simp: splices_simps splice_nth slice_nth)

text \<open>The checksum test and the dispatch of an IP packet.\<close>

definition ip_sum_accepted :: "bytes \<Rightarrow> bool" where
  "ip_sum_accepted packet \<longleftrightarrow>
     le16 (slice packet 24 2) = cksum (slice (splices packet [(24, bytes16 0)]) 14 20)"

lemma handle_ip_dispatch:
  assumes "34 \<le> len" and "len \<le> length packet"
  shows "sr_handle_ip_packet fuel sr packet len name =
     (if \<not> ip_sum_accepted packet then Inr sr
      else if if_walk (\<lambda>i. if_ip i = le32 (slice packet 30 4)) (if_list sr) \<noteq> None
      then (if packet ! 23 = 1 then sr_handle_icmp_packet fuel sr packet len name
            else sr_send_error (handle_arpreq fuel) sr packet name 3 3)
      else sr_forward_packet fuel sr packet len name)"
proof -
  have l: "34 \<le> length packet" using assms by simp
  show ?thesis
  proof (cases "ip_sum_accepted packet")
    case True
    then have "bytes16 (cksum (slice (splices packet [(24, bytes16 0)]) 14 20)) = slice packet 24 2"
      using l bytes16_le16 [of "slice packet 24 2"] unfolding ip_sum_accepted_def by simp
    then have "splices packet [(24, bytes16 0),
        (24, bytes16 (cksum (slice (splices packet [(24, bytes16 0)]) 14 20)))] = packet"
      using l restore_same [of packet] by simp
    with True l assms show ?thesis
      by (simp add: sr_handle_ip_packet_def mem_simps ip_sum_accepted_def icmp_wrappers)
  next
    case False
    then show ?thesis
      using l assms by (simp add: sr_handle_ip_packet_def mem_simps ip_sum_accepted_def)
  qed
qed

lemma ip_safe:
  assumes inv: "router_inv sr" and ne: "no_exhausted sr" and len: "42 \<le> len" "len = length packet"
    and i: "sr_get_interface sr name = Some i"
  shows "safe (sr_handle_ip_packet (Suc fuel) sr packet len name)"
  using len ne forward_safe [OF inv ne, of len packet name i] icmp_safe [OF inv ne len]
    send_error_safe [OF inv _ _ i, of packet] i
  by (simp add: handle_ip_dispatch no_exhausted_def)

lemma arp_safe:
  assumes inv: "router_inv sr" and len: "42 \<le> len" "len \<le> length packet"
  shows "safe (sr_handle_arp_packet sr packet len name)"
proof (cases "sr_get_interface sr name")
  case None
  then show ?thesis by (simp add: sr_handle_arp_packet_def)
next
  case (Some i)
  let ?sha = "slice packet 22 6" and ?ip = "le32 (slice packet 28 4)"
  have lsha: "length ?sha = 6" using len by simp
  obtain q sr1 where ins: "sr_arpcache_insert sr ?sha ?ip = (q, sr1)" by fastforce
  have inv1: "router_inv sr1" using router_inv_insert [OF inv lsha, of ?ip] ins by simp
  have "safe (send_pending sr1 ?sha (req_packets r))" if "q = Some r" for r
  proof -
    have "r \<in> set (requests (cache sr))"
      using insert_fields(2) [of sr ?sha ?ip] ins that by (simp add: find_Some_set)
    then have "\<forall>p \<in> set (req_packets r). pkt_wf sr1 p"
      using inv insert_lookup_if [of sr ?sha ?ip] ins
      by (simp add: router_inv_def reqs_wf_def req_wf_def pkt_wf_def)
    then show ?thesis
      using send_pending_result [of sr1 ?sha "req_packets r"] inv1 lsha by (auto simp: router_inv_def)
  qed
  then show ?thesis
    using Some len ins send_arp_reply_emit [OF inv len Some]
    by (auto simp: sr_handle_arp_packet_def mem_simps intro!: safe_bindI split: option.splits)
qed

lemma handlepacket_safe:
  assumes "router_inv sr" and "no_exhausted sr" and "42 \<le> len" and "len = length packet"
    and "sr_get_interface sr name = Some i"
  shows "safe (sr_handlepacket (Suc fuel) sr packet len name)"
  using assms arp_safe [of sr len packet name] ip_safe [of sr len packet name i fuel]
  by (simp add: sr_handlepacket_def ethertype_def mem_simps)

section \<open>The sweep\<close>

text \<open>What one sweep does to a request that is not exhausted.\<close>

definition swept :: "sr_arpreq \<Rightarrow> sr_arpreq \<Rightarrow> bool" where
  "swept r r' \<longleftrightarrow> r' = r \<or>
     (\<exists>t. t - req_sent r > 1 \<and> r' = r\<lparr>req_sent := t, req_times_sent := req_times_sent r + 1\<rparr>)"

lemma map_update_unique:
  assumes "distinct (map req_id (xs @ r # ys))"
  shows "map (\<lambda>q. if req_id q = req_id r then f q else q) (xs @ r # ys) = xs @ f r # ys"
proof -
  have "map (\<lambda>q. if req_id q = req_id r then f q else q) zs = zs" if "req_id r \<notin> req_id ` set zs" for zs
    using that by (induction zs) auto
  then show ?thesis using assms by auto
qed

lemma next_req_append:
  "distinct (map req_id (xs @ r # ys)) \<Longrightarrow>
   next_req (req_id r) (xs @ r # ys) = (case ys of [] \<Rightarrow> None | q # _ \<Rightarrow> Some (req_id q))"
  by (induction xs) auto

lemma handle_one:
  assumes "router_inv sr" and "requests (cache sr) = xs @ r # ys" and "req_times_sent r < 5"
  obtains sr1 r' where "handle_arpreq (Suc fuel) sr (req_id r) = Inr sr1"
    and "requests (cache sr1) = xs @ r' # ys" and "swept r r'" and "router_inv sr1"
proof -
  have r: "r \<in> set (requests (cache sr))" using assms(2) by simp
  have dist: "distinct (map req_id (xs @ r # ys))"
    using assms(1,2) by (simp add: router_inv_def reqs_wf_def)
  from assms(1) r assms(3) show thesis
  proof (rule handle_arpreq_fresh [where fuel = fuel])
    assume h: "handle_arpreq (Suc fuel) sr (req_id r) = Inr (snd (sr_time sr))"
    show thesis
      by (rule that [OF h, of r]) (use assms in \<open>simp_all add: swept_def, simp add: sr_time_def\<close>)
  next
    fix p ps i
    assume due: "env_time (env sr) (ticks sr) - req_sent r > 1"
      and h: "handle_arpreq (Suc fuel) sr (req_id r) = Inr (resent sr r i)"
    let ?r = "r\<lparr>req_sent := env_time (env sr) (ticks sr), req_times_sent := req_times_sent r + 1\<rparr>"
    have "requests (cache (resent sr r i)) = xs @ ?r # ys"
      using assms(2) map_update_unique [OF dist]
      by (simp add: resent_def sr_time_def sr_malloc_def update_req_def)
    moreover have "swept r ?r" using due by (auto simp: swept_def)
    moreover have "router_inv (resent sr r i)" using req.handler_inv [OF assms(1) h] .
    ultimately show thesis using that h by blast
  qed
qed

lemma sweep_suffix:
  assumes "router_inv sr" and "requests (cache sr) = xs @ ys" and "\<forall>r \<in> set ys. req_times_sent r < 5"
  shows "\<exists>sr' ys'. sweep_loop (length ys) (Suc fuel) sr (case ys of [] \<Rightarrow> None | r # _ \<Rightarrow> Some (req_id r)) = Inr sr'
           \<and> requests (cache sr') = xs @ ys' \<and> list_all2 swept ys ys'"
  using assms
proof (induction ys arbitrary: sr xs)
  case (Cons r ys)
  have dist: "distinct (map req_id (xs @ r # ys))"
    using Cons.prems(1,2) by (simp add: router_inv_def reqs_wf_def)
  obtain sr1 r' where h: "handle_arpreq (Suc fuel) sr (req_id r) = Inr sr1"
    and reqs: "requests (cache sr1) = (xs @ [r']) @ ys" and sw: "swept r r'" and inv: "router_inv sr1"
    using handle_one [OF Cons.prems(1,2)] Cons.prems(3) by (metis append.assoc append_Cons append_Nil list.set_intros(1))
  obtain sr' ys' where IH: "sweep_loop (length ys) (Suc fuel) sr1
      (case ys of [] \<Rightarrow> None | r # _ \<Rightarrow> Some (req_id r)) = Inr sr'"
    "requests (cache sr') = (xs @ [r']) @ ys'" "list_all2 swept ys ys'"
    using Cons.IH [OF inv reqs] Cons.prems(3) by auto
  have d: "deref_req sr (req_id r) = Inr r" using deref_req_alive [OF Cons.prems(1)] Cons.prems(2) by simp
  show ?case
    using IH h sw d next_req_append [OF dist] Cons.prems(2)
    by (intro exI [of _ sr'] exI [of _ "r' # ys'"]) (simp del: handle_arpreq.simps)
qed simp

lemma sweep_result:
  assumes "router_inv sr" and "no_exhausted sr"
  shows "\<exists>sr'. sr_arpcache_sweepreqs (Suc fuel) sr = Inr sr'
           \<and> list_all2 swept (requests (cache sr)) (requests (cache sr'))"
  using sweep_suffix [of sr "[]" "requests (cache sr)" fuel] assms
  by (auto simp: sr_arpcache_sweepreqs_def no_exhausted_def)

section \<open>More stack never changes a result\<close>

lemma bindR_mono:
  "bindR m f = Inr y \<Longrightarrow> (\<And>x. f x = Inr y \<Longrightarrow> g x = Inr y) \<Longrightarrow> bindR m g = Inr y"
  by auto

lemma send_error_mono:
  assumes "\<And>sr a sr'. h sr a = Inr sr' \<Longrightarrow> h' sr a = Inr sr'"
    and "sr_send_error h sr packet name ty code = Inr sr'"
  shows "sr_send_error h' sr packet name ty code = Inr sr'"
  using assms(2) unfolding sr_send_error_def Let_def split_beta
  by (auto elim!: bindR_mono split: option.splits simp: assms(1))

lemma unreachable_loop_mono:
  assumes "\<And>sr a sr'. h sr a = Inr sr' \<Longrightarrow> h' sr a = Inr sr'"
  shows "host_unreachable_loop h sr a pkts = Inr sr' \<Longrightarrow> host_unreachable_loop h' sr a pkts = Inr sr'"
proof (induction pkts arbitrary: sr)
  case (Cons p pkts)
  have "sr_send_error h x b n t c = Inr y \<Longrightarrow> sr_send_error h' x b n t c = Inr y" for x b n t c y
    using send_error_mono [of h h'] assms by blast
  with Cons show ?case
    by (fastforce simp: sr_send_icmp_host_unreachable_def)
qed simp

lemma handle_arpreq_mono: "handle_arpreq n sr a = Inr sr' \<Longrightarrow> handle_arpreq (Suc n) sr a = Inr sr'"
proof (induction n arbitrary: sr a sr')
  case (Suc n)
  obtain now sr1 where t: "sr_time sr = (now, sr1)" by fastforce
  have loop: "host_unreachable_loop (handle_arpreq (Suc n)) x b pkts = Inr y"
    if "host_unreachable_loop (handle_arpreq n) x b pkts = Inr y" for x b pkts y
    using unreachable_loop_mono [of "handle_arpreq n" "handle_arpreq (Suc n)"] Suc.IH that by blast
  from Suc.prems have "handle_arpreq_body (handle_arpreq n) sr a = Inr sr'" by simp
  then have "handle_arpreq_body (handle_arpreq (Suc n)) sr a = Inr sr'"
    using t by (auto simp: handle_arpreq_body_def simp del: handle_arpreq.simps dest!: loop
        split: if_splits list.splits)
  then show ?case by simp
qed simp

section \<open>An exhausted request whose own gateway is the way back\<close>

text \<open>
  A request for \<open>ip\<close> that was sent five times and still holds a packet whose sender is reached
  through the same unresolved address: the host unreachable message for that packet is queued
  on the very request that is being destroyed, and handling it starts over.
\<close>

definition stuck :: "nat \<Rightarrow> u32 \<Rightarrow> sr_packet \<Rightarrow> sr_instance \<Rightarrow> bool" where
  "stuck a ip p sr \<longleftrightarrow> router_inv sr
     \<and> (\<exists>r \<in> set (requests (cache sr)). req_id r = a \<and> req_ip r = ip \<and> 5 \<le> req_times_sent r
          \<and> p \<in> set (req_packets r) \<and> (\<forall>t. env_time (env sr) t - req_sent r > 1))
     \<and> sr_arpcache_lookup sr ip = None
     \<and> (\<exists>rt out. sr_get_longest_prefix_match sr (le32 (slice (pkt_buf p) 26 4)) = Some rt
          \<and> rt_gw rt = ip \<and> sr_get_interface sr (rt_interface rt) = Some out)"

lemma stuck_cong:
  assumes "stuck a ip p sr" and "same_config sr sr'" and "router_inv sr'"
    and "entries (cache sr') = entries (cache sr)"
    and "\<And>r. r \<in> set (requests (cache sr)) \<Longrightarrow> req_id r = a \<Longrightarrow>
           \<exists>r' \<in> set (requests (cache sr')). req_id r' = a \<and> req_ip r' = req_ip r
             \<and> req_times_sent r' = req_times_sent r \<and> req_sent r' = req_sent r
             \<and> set (req_packets r) \<subseteq> set (req_packets r')"
  shows "stuck a ip p sr'"
proof -
  from assms(1) obtain r where r: "r \<in> set (requests (cache sr))" "req_id r = a" "req_ip r = ip"
    "5 \<le> req_times_sent r" "p \<in> set (req_packets r)" "\<forall>t. env_time (env sr) t - req_sent r > 1"
    by (auto simp: stuck_def)
  from assms(5) [OF r(1,2)] obtain r' where "r' \<in> set (requests (cache sr'))" "req_id r' = a"
    "req_ip r' = ip" "req_times_sent r' = req_times_sent r" "req_sent r' = req_sent r"
    "p \<in> set (req_packets r')" using r by auto
  moreover have "env sr' = env sr" using assms(2) by (simp add: same_config_def)
  ultimately have "\<exists>r \<in> set (requests (cache sr')). req_id r = a \<and> req_ip r = ip \<and> 5 \<le> req_times_sent r
          \<and> p \<in> set (req_packets r) \<and> (\<forall>t. env_time (env sr') t - req_sent r > 1)"
    using r by (intro bexI [of _ r']) auto
  then show ?thesis
    using assms(1,3,4) lpm_same_config [OF assms(2)] sr_get_interface_same_config [OF assms(2)]
    by (auto simp: stuck_def sr_arpcache_lookup_def)
qed

lemma stuck_inv: "stuck a ip p sr \<Longrightarrow> router_inv sr"
  by (simp add: stuck_def)

lemma stuck_same_cache:
  assumes "stuck a ip p sr" and "same_config sr sr'" and "cache sr' = cache sr"
    and "next_addr sr' = next_addr sr"
  shows "stuck a ip p sr'"
  by (rule stuck_cong [OF assms(1,2)])
     (use assms(3) router_inv_cong [OF assms(2-4)] stuck_inv [OF assms(1)] in auto)

lemma stuck_destroy:
  assumes "stuck a ip p sr" and "b \<noteq> a"
  shows "stuck a ip p (sr_arpreq_destroy sr b)"
proof (rule stuck_cong [OF assms(1)])
  show "router_inv (sr_arpreq_destroy sr b)" using router_inv_destroy stuck_inv [OF assms(1)] .
  fix r
  assume "r \<in> set (requests (cache sr))" "req_id r = a"
  then have "r \<in> set (requests (cache (sr_arpreq_destroy sr b)))"
    using assms(2) unlink_keeps [of r] by (simp add: sr_arpreq_destroy_def)
  then show "\<exists>r' \<in> set (requests (cache (sr_arpreq_destroy sr b))). req_id r' = a \<and> req_ip r' = req_ip r
      \<and> req_times_sent r' = req_times_sent r \<and> req_sent r' = req_sent r
      \<and> set (req_packets r) \<subseteq> set (req_packets r')"
    using \<open>req_id r = a\<close> by blast
qed (simp_all add: sr_arpreq_destroy_def)

lemma stuck_update:
  assumes "stuck a ip p sr" and "b \<noteq> a" and "router_inv (update_req b f sr)"
  shows "stuck a ip p (update_req b f sr)"
proof (rule stuck_cong [OF assms(1) _ assms(3)])
  fix r
  assume "r \<in> set (requests (cache sr))" "req_id r = a"
  then have "r \<in> set (requests (cache (update_req b f sr)))"
    using assms(2) by (auto simp: update_req_def)
  then show "\<exists>r' \<in> set (requests (cache (update_req b f sr))). req_id r' = a \<and> req_ip r' = req_ip r
      \<and> req_times_sent r' = req_times_sent r \<and> req_sent r' = req_sent r
      \<and> set (req_packets r) \<subseteq> set (req_packets r')"
    using \<open>req_id r = a\<close> by blast
qed (simp_all add: update_req_def)

lemma stuck_send: "stuck a ip p sr \<Longrightarrow> send_ignoring sr b n nm = Inr sr' \<Longrightarrow> stuck a ip p sr'"
  using send_ignoring_cases by (blast intro: stuck_same_cache)

lemma stuck_alloc:
  "stuck a ip p sr \<Longrightarrow> stuck a ip p (snd (sr_malloc sr n))"
  "stuck a ip p sr \<Longrightarrow> stuck a ip p (snd (sr_time sr))"
  by (rule stuck_same_cache; simp add: sr_malloc_def sr_time_def)+

lemma stuck_arp_request:
  assumes "stuck a ip p sr" and "sr_send_arp_request sr tip i = Inr sr'"
  shows "stuck a ip p sr'"
proof -
  obtain blk sr1 where m: "sr_malloc sr 42 = (blk, sr1)" by fastforce
  have "stuck a ip p sr1" using stuck_alloc(1) [OF assms(1), of 42] m by simp
  then show ?thesis
    using assms(2) m by (auto simp: sr_send_arp_request_def dest: stuck_send)
qed

lemma enqueued_keeps:
  assumes "r \<in> set (requests (cache sr))"
  shows "\<exists>r' \<in> set (enqueued sr ip q). req_id r' = req_id r \<and> req_ip r' = req_ip r
     \<and> req_times_sent r' = req_times_sent r \<and> req_sent r' = req_sent r
     \<and> set (req_packets r) \<subseteq> set (req_packets r')"
proof (cases "find (\<lambda>r. req_ip r = ip) (requests (cache sr))")
  case (Some s)
  let ?r = "if req_id r = req_id s then r\<lparr>req_packets := q # req_packets r\<rparr> else r"
  have "?r \<in> set (enqueued sr ip q)" using Some assms by (auto simp: enqueued_def)
  then show ?thesis by (rule bexI [rotated]) auto
qed (use assms in \<open>auto simp: enqueued_def\<close>)

lemma stuck_queuereq:
  assumes st: "stuck a ip p sr" and len: "14 \<le> len" "len \<le> length b"
    and i: "sr_get_interface sr n = Some i"
  obtains c sr' where "sr_arpcache_queuereq sr dst b len (if_name i) = Inr (c, sr')"
    and "stuck a ip p sr'" and "dst = ip \<Longrightarrow> c = a"
proof -
  let ?q = "\<lparr>pkt_buf = slice b 0 len, pkt_len = len, pkt_iface = strncpy 32 (if_name i)\<rparr>"
  have inv: "router_inv sr" using st by (simp add: stuck_def)
  obtain c sr' where q: "sr_arpcache_queuereq sr dst b len (if_name i) = Inr (c, sr')"
    and ext: "extends sr sr'" and inv': "router_inv sr'"
    and ents: "entries (cache sr') = entries (cache sr)"
    and reqs: "requests (cache sr') = enqueued sr dst ?q"
    and ex: "\<exists>r \<in> set (requests (cache sr')). req_id r = c \<and> req_ip r = dst \<and> ?q \<in> set (req_packets r)"
    by (rule queuereq_result [OF inv len get_own_name [OF i], of dst])
  have st': "stuck a ip p sr'"
    by (rule stuck_cong [OF st extends_same_config [OF ext] inv' ents])
       (use enqueued_keeps reqs in fastforce)
  have "c = a" if "dst = ip"
  proof -
    obtain r where r: "r \<in> set (requests (cache sr'))" "req_id r = a" "req_ip r = ip"
      using st' by (auto simp: stuck_def)
    have "distinct (map req_ip (requests (cache sr')))"
      using inv' by (simp add: router_inv_def reqs_wf_def)
    with r ex that show ?thesis by (metis distinct_map inj_on_contraD)
  qed
  with q st' show thesis by (rule that) 
qed

text \<open>The contract of a handler that never comes back from the stuck request.\<close>

locale stuck_handler =
  fixes handler :: "sr_instance \<Rightarrow> nat \<Rightarrow> fault + sr_instance"
    and a :: nat and ip :: u32 and p :: sr_packet
  assumes handler_stuck:
    "stuck a ip p sr \<Longrightarrow> handler sr b = Inr sr' \<Longrightarrow> stuck a ip p sr' \<and> b \<noteq> a"
begin

lemma send_error_stuck:
  assumes st: "stuck a ip p sr" and run: "sr_send_error handler sr packet name ty code = Inr sr'"
  shows "stuck a ip p sr'"
proof -
  have st1: "stuck a ip p (snd (sr_malloc sr 70))" using stuck_alloc(1) [OF st] .
  from run show ?thesis
  proof (cases rule: send_error_cases)
    case (queued m i dst b sr2 n)
    obtain c sr3 where "sr_arpcache_queuereq (snd (sr_malloc sr 70)) dst m 70 (if_name i) = Inr (c, sr3)"
      "stuck a ip p sr3"
      by (rule stuck_queuereq [OF st1 _ queuereq_length [OF queued(1)] queued(3)]) simp_all
    with queued show ?thesis using handler_stuck by auto
  qed (use st1 stuck_send in auto)
qed

lemma send_error_own:
  assumes st: "stuck a ip p sr"
  shows "sr_send_error handler sr (pkt_buf p) name ty code \<noteq> Inr sr'"
proof
  assume run: "sr_send_error handler sr (pkt_buf p) name ty code = Inr sr'"
  obtain blk sr1 where m: "sr_malloc sr 70 = (blk, sr1)" by fastforce
  have st1: "stuck a ip p sr1" using stuck_alloc(1) [OF st, of 70] m by simp
  then obtain rt out where rt: "sr_get_longest_prefix_match sr1 (le32 (slice (pkt_buf p) 26 4)) = Some rt"
    "rt_gw rt = ip" "sr_get_interface sr1 (rt_interface rt) = Some out" "sr_arpcache_lookup sr1 ip = None"
    by (auto simp: stuck_def)
  obtain src where src: "load32 (pkt_buf p) 26 = Inr src"
    using run by (auto simp: sr_send_error_def m)
  have "src = le32 (slice (pkt_buf p) 26 4)"
    using src by (auto simp: load32_def load_bytes_def split: if_splits)
  with run src rt m obtain b c sr2 where q: "sr_arpcache_queuereq sr1 ip b 70 (if_name out) = Inr (c, sr2)"
    and h: "handler sr2 c = Inr sr'"
    by (auto simp: sr_send_error_def)
  obtain d sr3 where "sr_arpcache_queuereq sr1 ip b 70 (if_name out) = Inr (d, sr3)"
    "stuck a ip p sr3" "ip = ip \<Longrightarrow> d = a"
    by (rule stuck_queuereq [OF st1 _ queuereq_length [OF q] rt(3), of ip]) simp_all
  with q h show False using handler_stuck by auto
qed

lemma loop_stuck:
  "stuck a ip p sr \<Longrightarrow> host_unreachable_loop handler sr b pkts = Inr sr' \<Longrightarrow>
   stuck a ip p sr' \<and> p \<notin> set pkts"
proof (induction pkts arbitrary: sr)
  case (Cons q pkts)
  from Cons.prems(2) obtain sr1 where e: "sr_send_error handler sr (pkt_buf q) (pkt_iface q) 3 1 = Inr sr1"
    and l: "host_unreachable_loop handler sr1 b pkts = Inr sr'"
    by (auto simp: sr_send_icmp_host_unreachable_def)
  have "q \<noteq> p" using send_error_own [OF Cons.prems(1)] e by auto
  with Cons.IH [OF send_error_stuck [OF Cons.prems(1) e] l] show ?case by simp
qed simp

lemma body_stuck:
  assumes st: "stuck a ip p sr" and run: "handle_arpreq_body handler sr b = Inr sr'"
  shows "stuck a ip p sr' \<and> b \<noteq> a"
proof -
  obtain now sr1 where t: "sr_time sr = (now, sr1)" by fastforce
  have st1: "stuck a ip p sr1" using stuck_alloc(2) [OF st] t by simp
  then obtain r where r: "r \<in> set (requests (cache sr1))" "req_id r = a" "5 \<le> req_times_sent r"
    "p \<in> set (req_packets r)" "now - req_sent r > 1" and inv: "router_inv sr1"
    using t by (auto simp: stuck_def sr_time_def)
  from run t obtain q where q: "deref_req sr1 b = Inr q" by (auto simp: handle_arpreq_body_def)
  have ba: "b \<noteq> a"
  proof
    assume "b = a"
    then have "q = r" using deref_req_alive [OF inv r(1)] q r(2) by simp
    with run t q r \<open>b = a\<close> loop_stuck [OF st1] show False by (auto simp: handle_arpreq_body_def)
  qed
  have "stuck a ip p sr'"
  proof (cases "now - req_sent q > 1 \<and> \<not> 5 \<le> req_times_sent q")
    case True
    then obtain sr2 tip i f where "sr_send_arp_request sr1 tip i = Inr sr2" and "sr' = update_req b f sr2"
      and "f = (\<lambda>r. r\<lparr>req_sent := now, req_times_sent := req_times_sent r + 1\<rparr>)"
      using run t q by (auto simp: handle_arpreq_body_def split: list.splits)
    moreover from this have "router_inv sr'"
      using arp_request_inv inv by (auto intro!: router_inv_update_req simp: req_wf_def)
    ultimately show ?thesis using stuck_update [OF stuck_arp_request [OF st1] ba] by blast
  next
    case False
    then show ?thesis
      using run t q st1 stuck_destroy [OF _ ba] loop_stuck [OF st1]
      by (auto simp: handle_arpreq_body_def split: if_splits)
  qed
  with ba show ?thesis by simp
qed

end

lemma handle_arpreq_stuck: "stuck_handler (handle_arpreq fuel) a ip p"
proof (induction fuel)
  case (Suc fuel)
  show ?case
    by unfold_locales (simp add: stuck_handler.body_stuck [OF Suc])
qed (unfold_locales, simp)

interpretation stuck_req: stuck_handler "handle_arpreq fuel" a ip p for fuel a ip p
  by (rule handle_arpreq_stuck)

lemma handle_arpreq_diverges: "stuck a ip p sr \<Longrightarrow> \<not> safe (handle_arpreq fuel sr a)"
  using stuck_req.handler_stuck by (fastforce simp: safe_def)

section \<open>Runs\<close>

text \<open>One event: a frame of any content on any interface, or a second of the cleanup thread.\<close>

inductive router_step :: "nat \<Rightarrow> sr_instance \<Rightarrow> sr_instance \<Rightarrow> bool" for fuel where
  frame: "sr_handlepacket fuel sr packet len name = Inr sr' \<Longrightarrow> router_step fuel sr sr'"
| second: "sr_arpcache_timeout_step fuel sr = Inr sr' \<Longrightarrow> router_step fuel sr sr'"

inductive_cases router_stepE: "router_step fuel sr sr'"

inductive router_run :: "nat \<Rightarrow> sr_instance \<Rightarrow> sr_instance \<Rightarrow> bool" for fuel where
  start: "router_run fuel sr sr"
| step: "router_run fuel sr sr' \<Longrightarrow> router_step fuel sr' sr'' \<Longrightarrow> router_run fuel sr sr''"

lemma keeps_step: "router_step fuel sr sr' \<Longrightarrow> keeps sr sr'"
  by (erule router_stepE) (auto intro: keeps_handlepacket keeps_timeout)

lemma keeps_run: "router_run fuel sr sr' \<Longrightarrow> keeps sr sr'"
  by (induction rule: router_run.induct) (auto intro: keeps_trans keeps_step)

end
