(* ===== verification/Sha1.thy ===== *)
theory Sha1
  imports Net_Prelude
begin

text \<open>
  The SHA-1 implementation of \<^verbatim>\<open>router/sha1.c\<close>, used to authenticate with the server: the
  context as a record, \<open>SHA1Reset\<close>, \<open>SHA1Input\<close>, \<open>SHA1PadMessage\<close>,
  \<open>SHA1ProcessMessageBlock\<close> and \<open>SHA1Result\<close> with their loops.  A write to
  \<open>Message_Block\<close> outside its 64 bytes is a fault.  The reference is the definition of FIPS
  180: word rotations, a recursive message schedule, \<open>Ch\<close> and \<open>Maj\<close> with exclusive or, and a
  padded message cut into blocks.
\<close>

section \<open>The implementation\<close>

record SHA1Context =
  Message_Digest :: "u32 list"
  Length_Low :: u32
  Length_High :: u32
  Message_Block :: bytes
  Message_Block_Index :: nat
  Computed :: bool
  Corrupted :: bool

definition SHA1CircularShift :: "nat \<Rightarrow> u32 \<Rightarrow> u32" where
  "SHA1CircularShift bits w = (push_bit bits w AND 0xFFFFFFFF) OR drop_bit (32 - bits) w"

definition SHA1Reset :: "SHA1Context \<Rightarrow> SHA1Context" where
  "SHA1Reset context = context\<lparr>Length_Low := 0, Length_High := 0, Message_Block_Index := 0,
     Message_Digest := [0x67452301, 0xEFCDAB89, 0x98BADCFE, 0x10325476, 0xC3D2E1F0],
     Computed := False, Corrupted := False\<rparr>"

text \<open>The 80 words: sixteen from the block, the others from the earlier ones.\<close>

definition sha1_W16 :: "bytes \<Rightarrow> u32 list" where
  "sha1_W16 block = map (\<lambda>t. push_bit 24 (ucast (block ! (t * 4)))
     OR push_bit 16 (ucast (block ! (t * 4 + 1))) OR push_bit 8 (ucast (block ! (t * 4 + 2)))
     OR ucast (block ! (t * 4 + 3))) [0..<16]"

definition sha1_W :: "bytes \<Rightarrow> u32 list" where
  "sha1_W block = foldl (\<lambda>W t. W @ [SHA1CircularShift 1
     (W ! (t - 3) XOR W ! (t - 8) XOR W ! (t - 14) XOR W ! (t - 16))]) (sha1_W16 block) [16..<80]"

type_synonym abcde = "u32 \<times> u32 \<times> u32 \<times> u32 \<times> u32"

text \<open>One loop of twenty rounds, with its function of \<open>B\<close>, \<open>C\<close>, \<open>D\<close> and its constant.\<close>

definition sha1_rounds ::
  "(u32 \<Rightarrow> u32 \<Rightarrow> u32 \<Rightarrow> u32) \<Rightarrow> u32 \<Rightarrow> u32 list \<Rightarrow> nat list \<Rightarrow> abcde \<Rightarrow> abcde" where
  "sha1_rounds f k W ts s = foldl (\<lambda>(A, B, C, D, E) t.
     let temp = SHA1CircularShift 5 A + f B C D + E + W ! t + k
     in (temp, A, SHA1CircularShift 30 B, C, D)) s ts"

definition SHA1ProcessMessageBlock :: "SHA1Context \<Rightarrow> SHA1Context" where
  "SHA1ProcessMessageBlock context =
     (let W = sha1_W (Message_Block context);
          H = Message_Digest context;
          s = (H ! 0, H ! 1, H ! 2, H ! 3, H ! 4);
          s = sha1_rounds (\<lambda>B C D. (B AND C) OR (NOT B AND D)) 0x5A827999 W [0..<20] s;
          s = sha1_rounds (\<lambda>B C D. B XOR C XOR D) 0x6ED9EBA1 W [20..<40] s;
          s = sha1_rounds (\<lambda>B C D. (B AND C) OR (B AND D) OR (C AND D)) 0x8F1BBCDC W [40..<60] s;
          (A, B, C, D, E) = sha1_rounds (\<lambda>B C D. B XOR C XOR D) 0xCA62C1D6 W [60..<80] s
      in context\<lparr>Message_Digest := [H ! 0 + A, H ! 1 + B, H ! 2 + C, H ! 3 + D, H ! 4 + E],
                 Message_Block_Index := 0\<rparr>)"

text \<open>\<open>Message_Block[Message_Block_Index++] = b\<close>.\<close>

definition put_byte :: "SHA1Context \<Rightarrow> u8 \<Rightarrow> fault + SHA1Context" where
  "put_byte context b =
     bindR (store8 (Message_Block context) (Message_Block_Index context) b) (\<lambda>block.
       Inr (context\<lparr>Message_Block := block, Message_Block_Index := Message_Block_Index context + 1\<rparr>))"

fun input_loop :: "SHA1Context \<Rightarrow> bytes \<Rightarrow> fault + SHA1Context" where
  "input_loop context [] = Inr context"
| "input_loop context (b # message_array) =
     (if Corrupted context then Inr context
      else bindR (put_byte context b) (\<lambda>context.
        let context = context\<lparr>Length_Low := Length_Low context + 8\<rparr>;
            context = (if Length_Low context = 0
                       then (let context = context\<lparr>Length_High := Length_High context + 1\<rparr>
                             in if Length_High context = 0 then context\<lparr>Corrupted := True\<rparr> else context)
                       else context);
            context = (if Message_Block_Index context = 64 then SHA1ProcessMessageBlock context else context)
        in input_loop context message_array))"

definition SHA1Input :: "SHA1Context \<Rightarrow> bytes \<Rightarrow> fault + SHA1Context" where
  "SHA1Input context message_array =
     (if message_array = [] then Inr context
      else if Computed context \<or> Corrupted context then Inr (context\<lparr>Corrupted := True\<rparr>)
      else input_loop context message_array)"

text \<open>\<open>while (Message_Block_Index < n) Message_Block[Message_Block_Index++] = 0\<close>.\<close>

function pad_zeros :: "nat \<Rightarrow> SHA1Context \<Rightarrow> fault + SHA1Context" where
  "pad_zeros n context =
     (if Message_Block_Index context < n
      then (case put_byte context 0 of Inl e \<Rightarrow> Inl e | Inr context \<Rightarrow> pad_zeros n context)
      else Inr context)"
  by pat_completeness auto
termination
proof (relation "measure (\<lambda>(n, c). n - Message_Block_Index c)")
  fix n :: nat and c c' :: SHA1Context
  assume "Message_Block_Index c < n" and "put_byte c 0 = Inr c'"
  then show "((n, c'), n, c) \<in> measure (\<lambda>(n, c). n - Message_Block_Index c)"
    by (auto simp: put_byte_def)
qed simp

declare pad_zeros.simps [simp del]

definition SHA1PadMessage :: "SHA1Context \<Rightarrow> fault + SHA1Context" where
  "SHA1PadMessage context =
     bindR (if Message_Block_Index context > 55
            then bindR (put_byte context 0x80) (\<lambda>context.
                 bindR (pad_zeros 64 context) (\<lambda>context.
                   pad_zeros 56 (SHA1ProcessMessageBlock context)))
            else bindR (put_byte context 0x80) (\<lambda>context. pad_zeros 56 context)) (\<lambda>context.
     bindR (stores (Message_Block context)
       [(56, [ucast (drop_bit 24 (Length_High context))]), (57, [ucast (drop_bit 16 (Length_High context))]),
        (58, [ucast (drop_bit 8 (Length_High context))]), (59, [ucast (Length_High context)]),
        (60, [ucast (drop_bit 24 (Length_Low context))]), (61, [ucast (drop_bit 16 (Length_Low context))]),
        (62, [ucast (drop_bit 8 (Length_Low context))]), (63, [ucast (Length_Low context)])]) (\<lambda>block.
       Inr (SHA1ProcessMessageBlock (context\<lparr>Message_Block := block\<rparr>))))"

definition SHA1Result :: "SHA1Context \<Rightarrow> fault + bool \<times> SHA1Context" where
  "SHA1Result context =
     (if Corrupted context then Inr (False, context)
      else if \<not> Computed context
      then bindR (SHA1PadMessage context) (\<lambda>context. Inr (True, context\<lparr>Computed := True\<rparr>))
      else Inr (True, context))"

section \<open>The reference\<close>

definition Ch :: "u32 \<Rightarrow> u32 \<Rightarrow> u32 \<Rightarrow> u32" where
  "Ch x y z = (x AND y) XOR (NOT x AND z)"

definition Parity :: "u32 \<Rightarrow> u32 \<Rightarrow> u32 \<Rightarrow> u32" where
  "Parity x y z = x XOR y XOR z"

definition Maj :: "u32 \<Rightarrow> u32 \<Rightarrow> u32 \<Rightarrow> u32" where
  "Maj x y z = (x AND y) XOR (x AND z) XOR (y AND z)"

text \<open>The words of a block: big-endian quadruples, then the schedule recurrence.\<close>

fun schedule :: "bytes \<Rightarrow> nat \<Rightarrow> u32" where
  "schedule block t =
     (if t < 16 then le32 (rev (slice block (4 * t) 4))
      else word_rotl 1 (schedule block (t - 3) XOR schedule block (t - 8)
             XOR schedule block (t - 14) XOR schedule block (t - 16)))"

declare schedule.simps [simp del]

definition f_t :: "nat \<Rightarrow> u32 \<Rightarrow> u32 \<Rightarrow> u32 \<Rightarrow> u32" where
  "f_t t = (if t < 20 then Ch else if t < 40 then Parity else if t < 60 then Maj else Parity)"

definition K_t :: "nat \<Rightarrow> u32" where
  "K_t t = (if t < 20 then 0x5A827999 else if t < 40 then 0x6ED9EBA1
            else if t < 60 then 0x8F1BBCDC else 0xCA62C1D6)"

primrec fips_rounds :: "nat \<Rightarrow> bytes \<Rightarrow> abcde \<Rightarrow> abcde" where
  "fips_rounds 0 block s = s"
| "fips_rounds (Suc t) block s =
     (case fips_rounds t block s of (a, b, c, d, e) \<Rightarrow>
        (word_rotl 5 a + f_t t b c d + e + K_t t + schedule block t, a, word_rotl 30 b, c, d))"

definition compress :: "u32 list \<Rightarrow> bytes \<Rightarrow> u32 list" where
  "compress H block =
     (case fips_rounds 80 block (H ! 0, H ! 1, H ! 2, H ! 3, H ! 4) of
        (a, b, c, d, e) \<Rightarrow> [a + H ! 0, b + H ! 1, c + H ! 2, d + H ! 3, e + H ! 4])"

fun blocks :: "bytes \<Rightarrow> bytes list" where
  "blocks bs = (if length bs < 64 then [] else take 64 bs # blocks (drop 64 bs))"

declare blocks.simps [simp del]

text \<open>The bit length as eight big-endian bytes.\<close>

definition length64 :: "nat \<Rightarrow> bytes" where
  "length64 n = rev (bytes32 (of_nat (8 * n div 2 ^ 32))) @ rev (bytes32 (of_nat (8 * n)))"

definition pad :: "bytes \<Rightarrow> bytes" where
  "pad msg = msg @ [0x80] @ replicate ((119 - length msg mod 64) mod 64) 0 @ length64 (length msg)"

definition sha1 :: "bytes \<Rightarrow> u32 list" where
  "sha1 msg = foldl compress [0x67452301, 0xEFCDAB89, 0x98BADCFE, 0x10325476, 0xC3D2E1F0] (blocks (pad msg))"

section \<open>One block\<close>

lemma circular_shift_rotl:
  assumes "0 < n" and "n < 32"
  shows "SHA1CircularShift n w = word_rotl n w"
proof (rule bit_word_eqI)
  fix k
  assume "k < LENGTH(32)"
  then have k: "k < 32" by simp
  have m: "(0xFFFFFFFF :: u32) = mask 32" by (simp add: mask_eq_exp_minus_1)
  have lhs: "bit (SHA1CircularShift n w) k \<longleftrightarrow> (n \<le> k \<and> bit w (k - n)) \<or> bit w (32 - n + k)"
    unfolding SHA1CircularShift_def m using k
    by (simp add: bit_or_iff bit_and_iff bit_push_bit_iff bit_mask_iff bit_drop_bit_eq)
  have rhs: "bit (word_rotl n w) k \<longleftrightarrow> bit w ((k + (32 - n)) mod 32)"
    using k assms by (simp add: bit_word_rotl_iff)
  show "bit (SHA1CircularShift n w) k \<longleftrightarrow> bit (word_rotl n w) k"
  proof (cases "k < n")
    case True
    then have "(k + (32 - n)) mod 32 = 32 - n + k" using assms by simp
    with True show ?thesis unfolding lhs rhs by simp
  next
    case False
    then have "k + (32 - n) = (k - n) + 32" using assms by simp
    then have "(k + (32 - n)) mod 32 = k - n"
      using k by (metis mod_add_self2 mod_less less_imp_diff_less)
    moreover have "\<not> bit w (32 - n + k)" using False assms by (auto dest: bit_imp_le_length)
    ultimately show ?thesis unfolding lhs rhs using False by simp
  qed
qed

lemma ch_code: "(B AND C) OR (NOT B AND D) = Ch B C D"
  by (rule bit_word_eqI) (auto simp: Ch_def bit_simps)

lemma maj_code: "(B AND C) OR (B AND D) OR (C AND D) = Maj B C D"
  by (rule bit_word_eqI) (auto simp: Maj_def bit_simps)

lemma be32_code:
  "push_bit 24 (ucast a) OR push_bit 16 (ucast b) OR push_bit 8 (ucast c) OR ucast d
   = le32 (rev [a, b, c, d])"
  by (simp add: le32_def or.commute or.left_commute or.assoc)

lemma W16_schedule:
  assumes "length block = 64"
  shows "sha1_W16 block = map (schedule block) [0..<16]"
proof -
  have "push_bit 24 (ucast (block ! (t * 4))) OR push_bit 16 (ucast (block ! (t * 4 + 1)))
      OR push_bit 8 (ucast (block ! (t * 4 + 2))) OR ucast (block ! (t * 4 + 3)) = schedule block t"
    if "t < 16" for t
  proof -
    have l: "length (slice block (4 * t) 4) = 4" using that assms by simp
    have "slice block (4 * t) 4 = [block ! (t * 4), block ! (t * 4 + 1), block ! (t * 4 + 2), block ! (t * 4 + 3)]"
      using list4_eq [OF l] that assms by (simp add: slice_nth mult.commute)
    then show ?thesis
      using that be32_code [of "block ! (t * 4)"] by (subst schedule.simps) simp
  qed
  then show ?thesis unfolding sha1_W16_def by (intro map_cong) auto
qed

lemma W_schedule:
  assumes "length block = 64"
  shows "sha1_W block = map (schedule block) [0..<80]"
proof -
  define st where "st = (\<lambda>W t. W @ [SHA1CircularShift 1
    (W ! (t - 3) XOR W ! (t - 8) XOR W ! (t - 14) XOR W ! (t - 16))])"
  have "foldl st (map (schedule block) [0..<16]) [16..<16 + n] = map (schedule block) [0..<16 + n]" for n
  proof (induction n)
    case (Suc n)
    let ?W = "map (schedule block) [0..<16 + n]"
    have u: "[a..<16 + Suc n] = [a..<16 + n] @ [16 + n]" if "a \<le> 16" for a
      using that by (simp only: add_Suc_right upt_Suc) simp
    have "SHA1CircularShift 1 (?W ! (16 + n - 3) XOR ?W ! (16 + n - 8) XOR ?W ! (16 + n - 14) XOR ?W ! (16 + n - 16))
          = schedule block (16 + n)"
      by (simp add: circular_shift_rotl schedule.simps [of block "16 + n"] del: upt_Suc)
    then have "st ?W (16 + n) = ?W @ [schedule block (16 + n)]" by (simp only: st_def)
    then show ?case by (simp only: u foldl_append foldl.simps Suc map_append list.map le_refl zero_le)
  qed simp
  from this [of 64] have "foldl st (map (schedule block) [0..<16]) [16..<80] = map (schedule block) [0..<80]"
    by (simp only: numeral_plus_numeral add_num_simps)
  then show ?thesis unfolding sha1_W_def W16_schedule [OF assms] st_def .
qed

text \<open>Each of the four loops performs its share of the eighty rounds.\<close>

lemma rounds_fips:
  assumes "\<And>t. lo \<le> t \<Longrightarrow> t < lo + n \<Longrightarrow> f_t t = f \<and> K_t t = k" and "lo + n \<le> 80"
  shows "sha1_rounds f k (map (schedule block) [0..<80]) [lo..<lo + n] (fips_rounds lo block s)
         = fips_rounds (lo + n) block s"
  using assms
proof (induction n)
  case (Suc n)
  obtain a b c d e where r: "fips_rounds (lo + n) block s = (a, b, c, d, e)"
    by (metis prod_cases5)
  have "sha1_rounds f k (map (schedule block) [0..<80]) [lo..<lo + n] (fips_rounds lo block s)
        = (a, b, c, d, e)"
    using Suc r by simp
  moreover have "f_t (lo + n) = f" "K_t (lo + n) = k" using Suc.prems(1) [of "lo + n"] by auto
  moreover have "map (schedule block) [0..<80] ! (lo + n) = schedule block (lo + n)"
    using Suc.prems(2) by (simp del: upt_Suc)
  ultimately show ?case
    using r by (simp add: sha1_rounds_def circular_shift_rotl Let_def add.commute)
qed (simp add: sha1_rounds_def)

lemma process_block:
  assumes "length (Message_Block c) = 64"
  shows "SHA1ProcessMessageBlock c =
     c\<lparr>Message_Digest := compress (Message_Digest c) (Message_Block c), Message_Block_Index := 0\<rparr>"
proof -
  let ?b = "Message_Block c" and ?W = "map (schedule (Message_Block c)) [0..<80]"
  let ?H = "Message_Digest c"
  let ?s = "(?H ! 0, ?H ! 1, ?H ! 2, ?H ! 3, ?H ! 4)"
  have 1: "sha1_rounds (\<lambda>B C D. (B AND C) OR (NOT B AND D)) 0x5A827999 ?W [0..<20] ?s = fips_rounds 20 ?b ?s"
    using rounds_fips [where lo = 0 and n = 20 and f = Ch and k = "0x5A827999" and block = ?b and s = ?s] by (simp add: f_t_def K_t_def ch_code)
  have 2: "sha1_rounds (\<lambda>B C D. B XOR C XOR D) 0x6ED9EBA1 ?W [20..<40] (fips_rounds 20 ?b ?s) = fips_rounds 40 ?b ?s"
    using rounds_fips [where lo = 20 and n = 20 and f = Parity and k = "0x6ED9EBA1" and block = ?b and s = ?s] by (simp add: f_t_def K_t_def Parity_def [abs_def])
  have 3: "sha1_rounds (\<lambda>B C D. (B AND C) OR (B AND D) OR (C AND D)) 0x8F1BBCDC ?W [40..<60] (fips_rounds 40 ?b ?s)
      = fips_rounds 60 ?b ?s"
    using rounds_fips [where lo = 40 and n = 20 and f = Maj and k = "0x8F1BBCDC" and block = ?b and s = ?s] by (simp add: f_t_def K_t_def maj_code)
  have 4: "sha1_rounds (\<lambda>B C D. B XOR C XOR D) 0xCA62C1D6 ?W [60..<80] (fips_rounds 60 ?b ?s) = fips_rounds 80 ?b ?s"
    using rounds_fips [where lo = 60 and n = 20 and f = Parity and k = "0xCA62C1D6" and block = ?b and s = ?s] by (simp add: f_t_def K_t_def Parity_def [abs_def])
  show ?thesis
    unfolding SHA1ProcessMessageBlock_def Let_def W_schedule [OF assms] 1 2 3 4 compress_def
    by (simp add: add.commute split: prod.splits)
qed

section \<open>Buffering\<close>

abbreviation (input) sha1_IV :: "u32 list" where
  "sha1_IV \<equiv> [0x67452301, 0xEFCDAB89, 0x98BADCFE, 0x10325476, 0xC3D2E1F0]"

lemma blocks_append: "64 dvd length xs \<Longrightarrow> blocks (xs @ ys) = blocks xs @ blocks ys"
proof (induction xs rule: blocks.induct)
  case (1 xs)
  show ?case
  proof (cases "length xs < 64")
    case True
    with 1(2) have "xs = []" by (auto elim!: dvdE)
    then show ?thesis by (simp add: blocks.simps [of "[]"])
  next
    case False
    have "64 dvd length (drop 64 xs)" using 1(2) False by (simp add: dvd_diff_nat)
    then have "blocks (drop 64 xs @ ys) = blocks (drop 64 xs) @ blocks ys"
      using 1(1) False by blast
    then show ?thesis
      using False blocks.simps [of "xs @ ys"] blocks.simps [of xs] by simp
  qed
qed

lemma blocks_single: "length x = 64 \<Longrightarrow> blocks x = [x]"
  by (simp add: blocks.simps [of x] blocks.simps [of "[]"])

text \<open>What the context holds after the bytes of \<open>msg\<close> have been fed in.\<close>

definition ctx_for :: "SHA1Context \<Rightarrow> bytes \<Rightarrow> bool" where
  "ctx_for c msg \<longleftrightarrow> \<not> Computed c \<and> \<not> Corrupted c \<and> length (Message_Block c) = 64
     \<and> Message_Block_Index c = length msg mod 64
     \<and> take (length msg mod 64) (Message_Block c) = drop (length msg - length msg mod 64) msg
     \<and> Message_Digest c = foldl compress sha1_IV (blocks (take (length msg - length msg mod 64) msg))
     \<and> Length_Low c = of_nat (8 * length msg) \<and> Length_High c = of_nat (8 * length msg div 2 ^ 32)"

lemma reset_ctx: "length (Message_Block c) = 64 \<Longrightarrow> ctx_for (SHA1Reset c) []"
  by (simp add: ctx_for_def SHA1Reset_def blocks.simps)

lemma put_byte_Inr:
  "Message_Block_Index c < length (Message_Block c) \<Longrightarrow> put_byte c b =
   Inr (c\<lparr>Message_Block := take (Message_Block_Index c) (Message_Block c) @ [b]
            @ drop (Suc (Message_Block_Index c)) (Message_Block c),
          Message_Block_Index := Suc (Message_Block_Index c)\<rparr>)"
  by (simp add: put_byte_def mem_simps splices_simps splice_def)

lemma carry32:
  fixes n :: nat
  shows "(8 * n + 8) div 2 ^ 32 = (if (8 * n + 8) mod 2 ^ 32 = 0 then 8 * n div 2 ^ 32 + 1 else 8 * n div 2 ^ 32)"
proof -
  have p: "(2::nat) ^ 32 = 8 * 2 ^ 29" by simp
  have "8 * n + 8 = 8 * Suc n" by simp
  then have "(8 * n + 8) div 2 ^ 32 = Suc n div 2 ^ 29" "(8 * n + 8) mod 2 ^ 32 = 8 * (Suc n mod 2 ^ 29)"
    unfolding p by (simp_all only: div_mult_mult1 mod_mult_mult1 zero_neq_numeral not_False_eq_True)
  moreover have "8 * n div 2 ^ 32 = n div 2 ^ 29" unfolding p by (rule div_mult_mult1) simp
  moreover have "Suc n div 2 ^ 29 = (if Suc n mod 2 ^ 29 = 0 then n div 2 ^ 29 + 1 else n div 2 ^ 29)"
    by (simp only: div_Suc mod_Suc) simp
  ultimately show ?thesis by simp
qed

lemma lengths_step:
  fixes lo hi :: u32 and n :: nat
  assumes "lo = of_nat (8 * n)" and "hi = of_nat (8 * n div 2 ^ 32)" and "n + 1 < 2 ^ 61"
  shows "lo + 8 = of_nat (8 * (n + 1))"
    and "lo + 8 = 0 \<Longrightarrow> hi + 1 = of_nat (8 * (n + 1) div 2 ^ 32) \<and> hi + 1 \<noteq> 0"
    and "lo + 8 \<noteq> 0 \<Longrightarrow> hi = of_nat (8 * (n + 1) div 2 ^ 32)"
proof -
  have e: "8 * (n + 1) = 8 * n + 8" by simp
  show lo: "lo + 8 = of_nat (8 * (n + 1))" using assms(1) by simp
  have z: "lo + 8 = 0 \<longleftrightarrow> (8 * n + 8) mod 2 ^ 32 = 0"
  proof -
    have "unat (lo + 8) = (8 * n + 8) mod 2 ^ 32"
      unfolding lo e unat_of_nat by simp
    then show ?thesis by (metis unat_eq_zero)
  qed
  show "hi = of_nat (8 * (n + 1) div 2 ^ 32)" if "lo + 8 \<noteq> 0"
    unfolding e using carry32 [of n] that z assms(2) by simp
  assume "lo + 8 = 0"
  then have h: "hi + 1 = of_nat ((8 * n + 8) div 2 ^ 32)" and d: "(8 * n + 8) div 2 ^ 32 > 0"
    using carry32 [of n] z assms(2) by simp_all
  have "(8 * n + 8) div 2 ^ 32 < 2 ^ 32" using assms(3) by (simp add: less_mult_imp_div_less)
  then have "unat (hi + 1) = (8 * n + 8) div 2 ^ 32"
    unfolding h by (simp add: unat_of_nat)
  with d h show "hi + 1 = of_nat (8 * (n + 1) div 2 ^ 32) \<and> hi + 1 \<noteq> 0"
    unfolding e by auto
qed

text \<open>The effect of one byte on the context, before a full block is processed.\<close>

definition count_byte :: "SHA1Context \<Rightarrow> SHA1Context" where
  "count_byte c =
     (let c = c\<lparr>Length_Low := Length_Low c + 8\<rparr>
      in if Length_Low c = 0
         then (let c = c\<lparr>Length_High := Length_High c + 1\<rparr>
               in if Length_High c = 0 then c\<lparr>Corrupted := True\<rparr> else c)
         else c)"

lemma count_byte_eq:
  assumes "Length_Low c + 8 = lo" and "lo = 0 \<Longrightarrow> Length_High c + 1 = hi \<and> hi \<noteq> 0"
    and "lo \<noteq> 0 \<Longrightarrow> Length_High c = hi"
  shows "count_byte c = c\<lparr>Length_Low := lo, Length_High := hi\<rparr>"
  using assms by (cases c; cases "lo = 0") (auto simp: count_byte_def Let_def)

lemma count_byte_ok:
  assumes "Length_Low c = of_nat (8 * n)" and "Length_High c = of_nat (8 * n div 2 ^ 32)"
    and "n + 1 < 2 ^ 61"
  shows "count_byte c = c\<lparr>Length_Low := of_nat (8 * (n + 1)), Length_High := of_nat (8 * (n + 1) div 2 ^ 32)\<rparr>"
  by (rule count_byte_eq) (use lengths_step [OF assms] in metis)+

lemma prefix_dvd: "64 dvd length (take (length msg - length msg mod 64) msg)"
proof -
  have "length (take (length msg - length msg mod 64) msg) = length msg - length msg mod 64" by simp
  then show ?thesis by (simp only: dvd_minus_mod)
qed

lemma input_loop_step:
  assumes "\<not> Corrupted c"
  shows "input_loop c (b # bs) = bindR (put_byte c b) (\<lambda>c.
     let c = count_byte c
     in input_loop (if Message_Block_Index c = 64 then SHA1ProcessMessageBlock c else c) bs)"
  using assms by (simp only: input_loop.simps count_byte_def Let_def if_False)

lemma mod64_Suc: "Suc n mod 64 = (if n mod 64 = 63 then 0 else Suc (n mod 64))"
  by (simp add: mod_Suc)

lemma input_byte:
  assumes c: "ctx_for c msg" and bound: "length msg + 1 < 2 ^ 61"
  shows "\<exists>c'. input_loop c (b # bs) = input_loop c' bs \<and> ctx_for c' (msg @ [b])"
proof -
  let ?n = "length msg" and ?i = "length msg mod 64"
  let ?blk = "take ?i (Message_Block c) @ [b] @ drop (Suc ?i) (Message_Block c)"
  let ?c = "c\<lparr>Message_Block := ?blk, Message_Block_Index := Suc ?i,
              Length_Low := of_nat (8 * (?n + 1)), Length_High := of_nat (8 * (?n + 1) div 2 ^ 32)\<rparr>"
  have i: "?i < 64" by simp
  have lb: "length (Message_Block c) = 64" and idx: "Message_Block_Index c = ?i"
    and tail: "take ?i (Message_Block c) = drop (?n - ?i) msg"
    and dig: "Message_Digest c = foldl compress sha1_IV (blocks (take (?n - ?i) msg))"
    using c by (auto simp: ctx_for_def)
  have "put_byte c b = Inr (c\<lparr>Message_Block := ?blk, Message_Block_Index := Suc ?i\<rparr>)"
    using put_byte_Inr [of c b] lb idx i by simp
  moreover have "count_byte (c\<lparr>Message_Block := ?blk, Message_Block_Index := Suc ?i\<rparr>) = ?c"
    using count_byte_ok [of "c\<lparr>Message_Block := ?blk, Message_Block_Index := Suc ?i\<rparr>" ?n] c bound
    by (simp add: ctx_for_def)
  moreover have "\<not> Corrupted c" using c by (simp add: ctx_for_def)
  ultimately have run: "input_loop c (b # bs) = input_loop (if Suc ?i = 64 then SHA1ProcessMessageBlock ?c else ?c) bs"
    by (simp add: input_loop_step del: input_loop.simps)
  have lblk: "length ?blk = 64" using lb i by simp
  have tk: "take (Suc ?i) ?blk = drop (?n - ?i) msg @ [b]"
    using tail lb i by (simp add: min_def)
  show ?thesis
  proof (cases "?i = 63")
    case True
    then have full: "?blk = drop (?n - ?i) msg @ [b]" using tk lblk by simp
    have d: "64 dvd length (take (?n - ?i) msg)" by (rule prefix_dvd)
    have z: "Suc ?n mod 64 = 0" using True by (simp add: mod64_Suc)
    have "blocks (msg @ [b]) = blocks (take (?n - ?i) msg @ ?blk)" 
      unfolding full by (simp only: append.assoc [symmetric] append_take_drop_id)
    also have "\<dots> = blocks (take (?n - ?i) msg) @ [?blk]"
      using blocks_append [OF d] blocks_single [OF lblk] by simp
    finally have bl: "blocks (msg @ [b]) = blocks (take (?n - ?i) msg) @ [?blk]" .
    have "ctx_for (SHA1ProcessMessageBlock ?c) (msg @ [b])"
      using process_block [of ?c] c lblk dig bl z
      by (simp add: ctx_for_def)
    then show ?thesis using run True by auto
  next
    case False
    then have m: "Suc ?n mod 64 = Suc ?i" by (simp add: mod64_Suc)
    have le: "?i \<le> ?n" by simp
    have e: "Suc ?n - Suc ?i = ?n - ?i" by simp
    have "ctx_for ?c (msg @ [b])"
      using c lblk tk dig m le by (simp add: ctx_for_def)
    then show ?thesis using run False by auto
  qed
qed

lemma input_loop_ctx:
  assumes "ctx_for c msg" and "length msg + length bs < 2 ^ 61"
  shows "\<exists>c'. input_loop c bs = Inr c' \<and> ctx_for c' (msg @ bs)"
  using assms
proof (induction bs arbitrary: c msg)
  case (Cons b bs)
  obtain c1 where c1: "input_loop c (b # bs) = input_loop c1 bs" "ctx_for c1 (msg @ [b])"
    using input_byte [OF Cons.prems(1)] Cons.prems(2) by auto
  then show ?case using Cons.IH [OF c1(2)] Cons.prems(2) by simp
qed simp

lemma SHA1Input_ctx:
  assumes "ctx_for c msg" and "length msg + length bs < 2 ^ 61"
  shows "\<exists>c'. SHA1Input c bs = Inr c' \<and> ctx_for c' (msg @ bs)"
proof (cases "bs = []")
  case False
  moreover have "\<not> Computed c" "\<not> Corrupted c" using assms(1) by (auto simp: ctx_for_def)
  ultimately show ?thesis using input_loop_ctx [OF assms] by (simp add: SHA1Input_def)
qed (use assms in \<open>simp add: SHA1Input_def\<close>)

section \<open>Padding\<close>

lemma pad_zeros_Inr:
  assumes "length (Message_Block c) = 64" and "Message_Block_Index c \<le> n" and "n \<le> 64"
  shows "pad_zeros n c = Inr (c\<lparr>Message_Block := take (Message_Block_Index c) (Message_Block c)
     @ replicate (n - Message_Block_Index c) 0 @ drop n (Message_Block c), Message_Block_Index := n\<rparr>)"
  using assms
proof (induction n c rule: pad_zeros.induct)
  case (1 n c)
  let ?i = "Message_Block_Index c" and ?b = "Message_Block c"
  let ?c = "c\<lparr>Message_Block := take ?i ?b @ [0] @ drop (Suc ?i) ?b, Message_Block_Index := Suc ?i\<rparr>"
  show ?case
  proof (cases "?i < n")
    case True
    then have p: "put_byte c 0 = Inr ?c" using put_byte_Inr [of c 0] "1.prems" by simp
    have IH: "pad_zeros n ?c = Inr (?c\<lparr>Message_Block := take (Suc ?i) (Message_Block ?c)
        @ replicate (n - Suc ?i) 0 @ drop n (Message_Block ?c), Message_Block_Index := n\<rparr>)"
      using "1.IH" [OF True p] "1.prems" True by simp
    have "take (Suc ?i) (Message_Block ?c) @ replicate (n - Suc ?i) 0 @ drop n (Message_Block ?c)
        = take ?i ?b @ replicate (n - ?i) 0 @ drop n ?b"
      using True "1.prems" replicate_Suc [of "n - Suc ?i" 0]
      by (simp add: min_def Suc_diff_Suc drop_Cons' flip: replicate_Suc)
    with IH p True show ?thesis by (subst pad_zeros.simps) simp
  next
    case False
    with "1.prems" have "?i = n" by simp
    then show ?thesis by (subst pad_zeros.simps) simp
  qed
qed

lemma list8_exists:
  assumes "length ys = 8"
  obtains y0 y1 y2 y3 y4 y5 y6 y7 where "ys = [y0, y1, y2, y3, y4, y5, y6, y7]"
  using assms by (auto simp: numeral_eq_Suc length_Suc_conv)

lemma stores_length64:
  assumes "length b = 64"
  shows "splices b [(56, [x0]), (57, [x1]), (58, [x2]), (59, [x3]), (60, [x4]), (61, [x5]), (62, [x6]), (63, [x7])]
         = take 56 b @ [x0, x1, x2, x3, x4, x5, x6, x7]"
proof -
  have "length (drop 56 b) = 8" using assms by simp
  then obtain y0 y1 y2 y3 y4 y5 y6 y7 where y: "drop 56 b = [y0, y1, y2, y3, y4, y5, y6, y7]"
    by (rule list8_exists)
  define u where "u = take 56 b"
  have lu: "length u = 56" using assms by (simp add: u_def)
  have "b = u @ [y0, y1, y2, y3, y4, y5, y6, y7]"
    using y append_take_drop_id [of 56 b] by (simp add: u_def)
  then show ?thesis
    unfolding u_def [symmetric] using lu by (simp add: splices_simps splice_def)
qed

text \<open>The last block: the length goes behind 56 bytes.\<close>

lemma finish_block:
  assumes "length (Message_Block c) = 64"
  shows "bindR (stores (Message_Block c)
       [(56, [ucast (drop_bit 24 (Length_High c))]), (57, [ucast (drop_bit 16 (Length_High c))]),
        (58, [ucast (drop_bit 8 (Length_High c))]), (59, [ucast (Length_High c)]),
        (60, [ucast (drop_bit 24 (Length_Low c))]), (61, [ucast (drop_bit 16 (Length_Low c))]),
        (62, [ucast (drop_bit 8 (Length_Low c))]), (63, [ucast (Length_Low c)])]) f
     = f (take 56 (Message_Block c) @ rev (bytes32 (Length_High c)) @ rev (bytes32 (Length_Low c)))"
  using assms by (simp add: mem_simps stores_length64 bytes32_def)

lemma pad_message:
  assumes c: "ctx_for c msg"
  shows "\<exists>c'. SHA1PadMessage c = Inr c' \<and> Message_Digest c' = sha1 msg"
proof -
  let ?i = "length msg mod 64" and ?b = "Message_Block c"
  let ?pre = "take (length msg - ?i) msg" and ?tail = "drop (length msg - ?i) msg"
  have lb: "length ?b = 64" and idx: "Message_Block_Index c = ?i" and tk: "take ?i ?b = ?tail"
    and dig: "Message_Digest c = foldl compress sha1_IV (blocks ?pre)"
    and len: "rev (bytes32 (Length_High c)) @ rev (bytes32 (Length_Low c)) = length64 (length msg)"
    using c by (auto simp: ctx_for_def length64_def)
  have i: "?i < 64" by simp
  have lt: "length ?tail = ?i" using lb tk i by (metis length_take min.absorb4 less_imp_le_nat min.absorb2)
  have dv: "64 dvd length ?pre" by (rule prefix_dvd)
  have ll: "length (length64 n) = 8" for n by (simp add: length64_def)
  let ?c1 = "c\<lparr>Message_Block := ?tail @ [0x80] @ drop (Suc ?i) ?b, Message_Block_Index := Suc ?i\<rparr>"
  have p1: "put_byte c 0x80 = Inr ?c1" using put_byte_Inr [of c] lb idx i tk by simp
  have l1: "length (Message_Block ?c1) = 64" using lb lt i by simp
  show ?thesis
  proof (cases "?i > 55")
    case False
    then have z: "(119 - ?i) mod 64 = 55 - ?i"
      using mod_add_self1 [of 64 "55 - ?i"] by simp
    let ?last = "?tail @ [0x80] @ replicate (55 - ?i) 0 @ length64 (length msg)"
    have p2: "pad_zeros 56 ?c1 = Inr (c\<lparr>Message_Block := ?tail @ [0x80] @ replicate (55 - ?i) 0 @ drop 56 ?b,
        Message_Block_Index := 56\<rparr>)"
      using pad_zeros_Inr [OF l1, of 56] False lt by (simp add: drop_Cons')
    have ll2: "length ?last = 64" using lt False ll by simp
    have "pad msg = ?pre @ ?last" using z by (simp add: pad_def)
    then have bl: "blocks (pad msg) = blocks ?pre @ [?last]"
      using blocks_append [OF dv] blocks_single [OF ll2] by simp
    let ?c2 = "c\<lparr>Message_Block := ?tail @ [0x80] @ replicate (55 - ?i) 0 @ drop 56 ?b, Message_Block_Index := 56\<rparr>"
    have l2: "length (Message_Block ?c2) = 64" using lt False lb by simp
    have "56 - ?i = Suc (55 - ?i)" using False by simp
    then have tk2: "take 56 (Message_Block ?c2) = ?tail @ [0x80] @ replicate (55 - ?i) 0"
      using lt False by simp
    have "SHA1PadMessage c = Inr (SHA1ProcessMessageBlock (?c2\<lparr>Message_Block := ?last\<rparr>))"
      unfolding SHA1PadMessage_def
      using idx False p1 p2 finish_block [OF l2] tk2 len by simp
    then show ?thesis
      using process_block [of "?c2\<lparr>Message_Block := ?last\<rparr>"] ll2 dig bl by (simp add: sha1_def)
  next
    case True
    then have z: "(119 - ?i) mod 64 = (63 - ?i) + 56" by simp
    let ?b1 = "?tail @ [0x80] @ replicate (63 - ?i) 0" and ?b2 = "replicate 56 0 @ length64 (length msg)"
    have lb1: "length ?b1 = 64" using lt i by simp
    have lb2: "length ?b2 = 64" using ll by simp
    let ?c2 = "c\<lparr>Message_Block := ?b1, Message_Block_Index := 64\<rparr>"
    have p2: "pad_zeros 64 ?c1 = Inr ?c2"
      using pad_zeros_Inr [OF l1, of 64] lt lb i by (simp add: drop_Cons')
    let ?c3 = "c\<lparr>Message_Block := ?b1, Message_Digest := compress (Message_Digest c) ?b1, Message_Block_Index := 0\<rparr>"
    have pb: "SHA1ProcessMessageBlock ?c2 = ?c3" using process_block [of ?c2] lb1 by simp
    let ?c4 = "?c3\<lparr>Message_Block := replicate 56 0 @ drop 56 ?b1, Message_Block_Index := 56\<rparr>"
    have p3: "pad_zeros 56 ?c3 = Inr ?c4" using pad_zeros_Inr [of ?c3 56] lb1 by simp
    have l4: "length (Message_Block ?c4) = 64" using lb1 by simp
    have "pad msg = ?pre @ ?b1 @ ?b2"
      unfolding pad_def z replicate_add by (simp only: append.assoc [symmetric] append_take_drop_id)
    then have bl: "blocks (pad msg) = blocks ?pre @ [?b1, ?b2]"
      using blocks_append [OF dv] blocks_append [of ?b1 ?b2] blocks_single [OF lb1] blocks_single [OF lb2] lb1
      by simp
    have "SHA1PadMessage c = Inr (SHA1ProcessMessageBlock (?c4\<lparr>Message_Block := ?b2\<rparr>))"
      unfolding SHA1PadMessage_def
      using idx True p1 p2 pb p3 finish_block [OF l4] len by simp
    then show ?thesis
      using process_block [of "?c4\<lparr>Message_Block := ?b2\<rparr>"] lb2 dig bl by (simp add: sha1_def)
  qed
qed

section \<open>Whole messages\<close>

text \<open>Feeding the message in any portions.\<close>

fun input_all :: "SHA1Context \<Rightarrow> bytes list \<Rightarrow> fault + SHA1Context" where
  "input_all c [] = Inr c"
| "input_all c (p # ps) = bindR (SHA1Input c p) (\<lambda>c. input_all c ps)"

lemma input_all_ctx:
  assumes "ctx_for c msg" and "length msg + length (concat ps) < 2 ^ 61"
  shows "\<exists>c'. input_all c ps = Inr c' \<and> ctx_for c' (msg @ concat ps)"
  using assms
proof (induction ps arbitrary: c msg)
  case (Cons p ps)
  obtain c1 where "SHA1Input c p = Inr c1" "ctx_for c1 (msg @ p)"
    using SHA1Input_ctx [OF Cons.prems(1), of p] Cons.prems(2) by auto
  then show ?case using Cons.IH [of c1 "msg @ p"] Cons.prems(2) by simp
qed simp

lemma sha1_portions:
  assumes "length (Message_Block c) = 64" and "length (concat ps) < 2 ^ 61"
  shows "\<exists>c'. bindR (input_all (SHA1Reset c) ps) SHA1Result = Inr (True, c')
           \<and> Message_Digest c' = sha1 (concat ps)"
proof -
  obtain c1 where c1: "input_all (SHA1Reset c) ps = Inr c1" "ctx_for c1 (concat ps)"
    using input_all_ctx [OF reset_ctx [OF assms(1)], of ps] assms(2) by auto
  obtain c2 where "SHA1PadMessage c1 = Inr c2" "Message_Digest c2 = sha1 (concat ps)"
    using pad_message [OF c1(2)] by blast
  with c1 show ?thesis by (auto simp: SHA1Result_def ctx_for_def)
qed

end
