(* ===== verification/Sr_Vns.thy ===== *)
theory Sr_Vns
  imports Sr_Router_Runs Sha1
begin

text \<open>
  The session with the virtual network server, \<^verbatim>\<open>router/sr_vns_comm.c\<close> over the messages of
  \<^verbatim>\<open>router/vnscommand.h\<close>: reading one command from the socket, hardware information, the
  filter for ARP requests, authentication and the opening messages, and the dispatch of a
  command.  What \<open>recv\<close> and \<open>read\<close> deliver is a list of results; a list that is used up
  means the call still waits.
\<close>

section \<open>Reading a command\<close>

datatype recv_result = Recv bytes | Recv_EINTR | Recv_error

datatype 'a recv_outcome = Waiting | Failed | Got 'a "recv_result list"

text \<open>
  The two read loops, \<open>n\<close> bytes still to come: an interrupted call is repeated, another error
  ends the loop, and a call that delivers nothing (end of file) goes around again.  \<open>recv\<close>
  never delivers more than it is asked for.
\<close>

fun recv_loop :: "nat \<Rightarrow> bytes \<Rightarrow> recv_result list \<Rightarrow> bytes recv_outcome" where
  "recv_loop n acc rs =
     (if n = 0 then Got acc rs
      else case rs of
             [] \<Rightarrow> Waiting
           | Recv_EINTR # rs \<Rightarrow> recv_loop n acc rs
           | Recv_error # rs \<Rightarrow> Failed
           | Recv bs # rs \<Rightarrow> recv_loop (n - length (take n bs)) (acc @ take n bs) rs)"

declare recv_loop.simps [simp del]

text \<open>
  The length, its check, the rest of the command.  \<open>malloc\<close> gives \<open>len\<close> bytes, and the length
  is stored into the first four before anything else is read.
\<close>

definition read_command :: "recv_result list \<Rightarrow> fault + bytes recv_outcome" where
  "read_command rs =
     (case recv_loop 4 [] rs of
        Waiting \<Rightarrow> Inr Waiting
      | Failed \<Rightarrow> Inr Failed
      | Got lenb rs \<Rightarrow>
          (let len = sint (ntohl (le32 lenb))
           in if len > 10000 \<or> len < 0 then Inr Failed
              else if len < 4 then Inl OutOfBounds
              else Inr (case recv_loop (nat len - 4) [] rs of
                          Waiting \<Rightarrow> Waiting
                        | Failed \<Rightarrow> Failed
                        | Got body rs \<Rightarrow> Got (lenb @ body) rs)))"

section \<open>Hardware information\<close>

abbreviation (input) HWINTERFACE :: u32 where "HWINTERFACE \<equiv> 1"
abbreviation (input) HWETHER :: u32 where "HWETHER \<equiv> 32"
abbreviation (input) HWETHIP :: u32 where "HWETHIP \<equiv> 64"
abbreviation (input) sizeof_c_hw_entry :: nat where "sizeof_c_hw_entry \<equiv> 36"

definition cstring :: "bytes \<Rightarrow> string" where
  "cstring bs = map (char_of \<circ> unat) (takeWhile (\<lambda>b. b \<noteq> 0) bs)"

text \<open>\<open>(ntohl(mLen) - 8) / sizeof(c_hw_entry)\<close> in 64-bit arithmetic, stored in an \<open>int\<close>.\<close>

definition hw_num_entries :: "u32 \<Rightarrow> int" where
  "hw_num_entries mLen = sint (ucast ((ucast (ntohl mLen) - 8 :: 64 word) div 36) :: 32 word)"

definition hw_entry :: "sr_instance \<Rightarrow> bytes \<Rightarrow> nat \<Rightarrow> fault + sr_instance" where
  "hw_entry sr hwinfo i =
     bindR (load32 hwinfo (8 + sizeof_c_hw_entry * i)) (\<lambda>key.
       if ntohl key = HWINTERFACE
       then bindR (load_bytes hwinfo (12 + sizeof_c_hw_entry * i) 32) (\<lambda>v.
              Inr (sr_add_interface sr (cstring v)))
       else if ntohl key = HWETHIP
       then bindR (load32 hwinfo (12 + sizeof_c_hw_entry * i)) (\<lambda>ip. sr_set_ether_ip sr ip)
       else if ntohl key = HWETHER
       then bindR (load_bytes hwinfo (12 + sizeof_c_hw_entry * i) 32) (\<lambda>v. sr_set_ether_addr sr v)
       else Inr sr)"

fun hw_loop :: "nat \<Rightarrow> nat \<Rightarrow> sr_instance \<Rightarrow> bytes \<Rightarrow> fault + sr_instance" where
  "hw_loop 0 i sr hwinfo = Inr sr"
| "hw_loop (Suc n) i sr hwinfo = bindR (hw_entry sr hwinfo i) (\<lambda>sr. hw_loop n (Suc i) sr hwinfo)"

definition sr_handle_hwinfo :: "sr_instance \<Rightarrow> bytes \<Rightarrow> fault + int \<times> sr_instance" where
  "sr_handle_hwinfo sr hwinfo =
     bindR (load32 hwinfo 0) (\<lambda>mLen.
       let num_entries = hw_num_entries mLen
       in bindR (hw_loop (nat num_entries) 0 sr hwinfo) (\<lambda>sr. Inr (num_entries, sr)))"

section \<open>The ARP filter\<close>

definition sr_arp_req_not_for_us :: "sr_instance \<Rightarrow> bytes \<Rightarrow> nat \<Rightarrow> string \<Rightarrow> fault + bool" where
  "sr_arp_req_not_for_us sr packet len interface =
     (let iface = sr_get_interface sr interface
      in if len < sizeof_ethernet_hdr + sizeof_arp_hdr then Inr False
         else bindR (assertR (iface \<noteq> None)) (\<lambda>_.
              bindR (deref iface) (\<lambda>iface.
              bindR (load16 packet 12) (\<lambda>ety.
                if ety \<noteq> htons ethertype_arp then Inr False
                else bindR (load16 packet 20) (\<lambda>op.
                     if op \<noteq> htons arp_op_request then Inr False
                     else bindR (load32 packet 38) (\<lambda>tip. Inr (tip \<noteq> if_ip iface)))))))"

section \<open>Opening and authentication\<close>

abbreviation (input) VNSOPEN :: u32 where "VNSOPEN \<equiv> 1"
abbreviation (input) VNSCLOSE :: u32 where "VNSCLOSE \<equiv> 2"
abbreviation (input) VNSBANNER :: u32 where "VNSBANNER \<equiv> 8"
abbreviation (input) VNSHWINFO :: u32 where "VNSHWINFO \<equiv> 16"
abbreviation (input) VNS_RTABLE :: u32 where "VNS_RTABLE \<equiv> 32"
abbreviation (input) VNS_OPEN_TEMPLATE :: u32 where "VNS_OPEN_TEMPLATE \<equiv> 64"
abbreviation (input) VNS_AUTH_REQUEST :: u32 where "VNS_AUTH_REQUEST \<equiv> 128"
abbreviation (input) VNS_AUTH_REPLY :: u32 where "VNS_AUTH_REPLY \<equiv> 256"
abbreviation (input) VNS_AUTH_STATUS :: u32 where "VNS_AUTH_STATUS \<equiv> 512"

text \<open>The message \<open>sr_connect_to_server\<close> opens the session with.\<close>

definition open_message :: "sr_instance \<Rightarrow> bytes" where
  "open_message sr =
     (if length (template sr) > 0
      then bytes32 (htonl 70) @ bytes32 (htonl VNS_OPEN_TEMPLATE)
           @ strncpy_bytes 30 (template sr) @ strncpy_bytes 32 (host sr)
      else bytes32 (htonl 108) @ bytes32 (htonl VNSOPEN) @ bytes16 (htons (topo_id sr)) @ bytes16 0
           @ strncpy_bytes 32 (host sr) @ strncpy_bytes 32 (user sr) @ replicate 32 0)"

text \<open>
  \<open>auth_key\<close> is the array after \<open>fgets\<close>, none if the file cannot be read.  The reply is sent
  on the server socket; its result is the next one of the environment.
\<close>

definition fresh_context :: SHA1Context where
  "fresh_context = \<lparr>Message_Digest = replicate 5 0, Length_Low = 0, Length_High = 0,
     Message_Block = replicate 64 0, Message_Block_Index = 0, Computed = False, Corrupted = False\<rparr>"

definition sr_handle_auth_request ::
  "sr_instance \<Rightarrow> bytes option \<Rightarrow> bytes \<Rightarrow> fault + bool \<times> sr_instance" where
  "sr_handle_auth_request sr auth_key req =
     (case auth_key of
        None \<Rightarrow> Inr (False, sr)
      | Some key \<Rightarrow>
          bindR (load32 req 0) (\<lambda>mLen.
          bindR (load_bytes req 8 (unat (ntohl mLen - 8))) (\<lambda>salt.
          bindR (SHA1Input (SHA1Reset fresh_context) salt) (\<lambda>sha.
          bindR (load_bytes key 0 64) (\<lambda>k.
          bindR (SHA1Input sha k) (\<lambda>sha.
          bindR (SHA1Result sha) (\<lambda>(ok, sha).
            if \<not> ok then Inr (False, sr)
            else
              (let len_username = length (user sr);
                   len = 12 + len_username + 20;
                   buf = bytes32 (htonl (of_nat len)) @ bytes32 (htonl VNS_AUTH_REPLY)
                         @ bytes32 (htonl (of_nat len_username)) @ map char_byte (user sr)
                         @ concat (map (\<lambda>w. bytes32 (htonl w)) (Message_Digest sha));
                   ret = env_write (env sr) (ticks sr);
                   sr = sr\<lparr>ticks := Suc (ticks sr), wire := wire sr @ [buf]\<rparr>
               in Inr (ret = int len, sr)))))))))"

definition sr_handle_auth_status :: "bytes \<Rightarrow> fault + bool" where
  "sr_handle_auth_status status = bindR (load8 status 8) (\<lambda>ok. Inr (ok \<noteq> 0))"

text \<open>
  A routing table the server sends is stored in a file named after the virtual host; \<open>opened\<close> is
  the result of \<open>fopen\<close>.  The name is copied into an array of 40 characters.
\<close>

definition sr_handle_rtable :: "sr_instance \<Rightarrow> bool \<Rightarrow> bytes \<Rightarrow> fault + bool \<times> sr_instance" where
  "sr_handle_rtable sr opened rtable =
     (let name = cstring (drop 8 rtable)
      in if 0 \<notin> set (drop 8 rtable) \<or> 7 + length name + 1 > 40 then Inl OutOfBounds
         else if \<not> opened then Inr (False, sr)
         else bindR (load32 rtable 0) (\<lambda>mLen.
              bindR (load_bytes rtable 40 (unat (ntohl mLen - 8 - 32))) (\<lambda>contents.
                Inr (True, sr\<lparr>saved_files := (saved_files sr)(''rtable.'' @ name \<mapsto> map (char_of \<circ> unat) contents)\<rparr>))))"

section \<open>Dispatch\<close>

text \<open>
  What the command \<open>buf\<close> does, after the type has been brought to host order in place (\<open>expected\<close>
  is zero for the main loop).  \<open>rtable_ok\<close> says whether the routing table file can be
  opened for writing.  The first component is the value returned: 1 to go on, 0 when the server closed
  the session, -1 on an error.  A failed read returns -1 as well.
\<close>

definition dispatch_packet :: "nat \<Rightarrow> sr_instance \<Rightarrow> bytes \<Rightarrow> fault + sr_instance" where
  "dispatch_packet fuel sr buf =
     (let len = unat (of_nat (length buf) - 38 + 14 :: u32);
          packet = drop 24 buf;
          name = cstring (drop 8 buf)
      in bindR (sr_arp_req_not_for_us sr packet len name) (\<lambda>drop_it.
           if drop_it then Inr sr else sr_handlepacket fuel sr packet len name))"

definition handle_command ::
  "nat \<Rightarrow> bytes option \<Rightarrow> bool \<Rightarrow> u32 \<Rightarrow> sr_instance \<Rightarrow> bytes \<Rightarrow> fault + int \<times> sr_instance" where
  "handle_command fuel auth_key rtable_ok expected sr buf =
     bindR (load32 buf 4) (\<lambda>t.
       let command = ntohl t
       in bindR (store32 buf 4 command) (\<lambda>buf.
          if expected \<noteq> 0 \<and> command \<noteq> expected \<and> command \<noteq> VNSCLOSE then Inr (-1, sr)
          else if command = VNSPACKET
          then bindR (dispatch_packet fuel sr buf) (\<lambda>sr. Inr (1, sr))
          else if command = VNSCLOSE then Inr (0, sr)
          else if command = VNSHWINFO
          then bindR (sr_handle_hwinfo sr buf) (\<lambda>(_, sr).
                 if sr_verify_routing_table sr \<noteq> 0 then Inr (-1, sr) else Inr (1, sr))
          else if command = VNS_RTABLE
          then bindR (sr_handle_rtable sr rtable_ok buf) (\<lambda>(ok, sr). Inr (if ok then 1 else -1, sr))
          else if command = VNS_AUTH_REQUEST
          then bindR (sr_handle_auth_request sr auth_key buf) (\<lambda>(ok, sr).
                 Inr (if ok then 1 else -1, sr))
          else if command = VNS_AUTH_STATUS
          then bindR (sr_handle_auth_status buf) (\<lambda>ok. Inr (if ok then 1 else -1, sr))
          else Inr (1, sr)))"

definition sr_read_from_server_expect ::
  "nat \<Rightarrow> bytes option \<Rightarrow> bool \<Rightarrow> u32 \<Rightarrow> sr_instance \<Rightarrow> recv_result list
   \<Rightarrow> fault + (int \<times> sr_instance) recv_outcome" where
  "sr_read_from_server_expect fuel auth_key rtable_ok expected sr rs =
     bindR (read_command rs) (\<lambda>r.
       case r of
         Waiting \<Rightarrow> Inr Waiting
       | Failed \<Rightarrow> Inr Failed
       | Got buf rs \<Rightarrow> bindR (handle_command fuel auth_key rtable_ok expected sr buf) (\<lambda>x. Inr (Got x rs)))"

section \<open>Lemmas: reading\<close>

text \<open>The bytes a list of results delivers, and lists that deliver without an error and stop with data.\<close>

fun payload :: "recv_result list \<Rightarrow> bytes" where
  "payload [] = []"
| "payload (Recv bs # rs) = bs @ payload rs"
| "payload (_ # rs) = payload rs"

definition delivers :: "recv_result list \<Rightarrow> bytes \<Rightarrow> bool" where
  "delivers rs data \<longleftrightarrow> payload rs = data \<and> Recv_error \<notin> set rs
     \<and> (rs = [] \<or> (\<exists>bs. last rs = Recv bs \<and> bs \<noteq> []))"

lemma payload_last: "rs \<noteq> [] \<Longrightarrow> last rs = Recv bs \<Longrightarrow> bs \<noteq> [] \<Longrightarrow> payload rs \<noteq> []"
  by (induction rs rule: payload.induct) (auto split: if_splits)

lemma recv_loop_delivers:
  assumes "delivers rs1 data"
  shows "recv_loop (length data) acc (rs1 @ rs) = Got (acc @ data) rs"
  using assms
proof (induction rs1 arbitrary: data acc)
  case Nil
  then show ?case by (simp add: delivers_def recv_loop.simps)
next
  case (Cons r rs1)
  then have data: "data = payload (r # rs1)" and ne: "length data \<noteq> 0"
    using payload_last [of "r # rs1"] by (auto simp: delivers_def)
  show ?case
  proof (cases r)
    case (Recv bs)
    have d: "delivers rs1 (payload rs1)"
      using Cons.prems Recv by (cases "rs1 = []") (auto simp: delivers_def)
    have "recv_loop (length data) acc ((r # rs1) @ rs)
        = recv_loop (length (payload rs1)) (acc @ bs) (rs1 @ rs)"
      using ne data Recv by (subst recv_loop.simps) auto
    then show ?thesis using Cons.IH [OF d] data Recv by simp
  next
    case Recv_EINTR
    have d: "delivers rs1 data"
      using Cons.prems Recv_EINTR by (cases "rs1 = []") (auto simp: delivers_def)
    have "recv_loop (length data) acc ((r # rs1) @ rs) = recv_loop (length data) acc (rs1 @ rs)"
      using ne Recv_EINTR by (subst recv_loop.simps) simp
    then show ?thesis using Cons.IH [OF d] by simp
  next
    case Recv_error
    then show ?thesis using Cons.prems by (simp add: delivers_def)
  qed
qed

lemma sint_of_nat_small: "n < 2 ^ 31 \<Longrightarrow> sint (of_nat n :: u32) = int n"
  by (simp add: signed_of_nat signed_take_bit_int_eq_self)

lemma read_command_delivers:
  assumes len: "8 \<le> length cmd" "length cmd \<le> 10000"
    and hdr: "take 4 cmd = bytes32 (htonl (of_nat (length cmd)))"
    and d1: "delivers rs1 (take 4 cmd)" and d2: "delivers rs2 (drop 4 cmd)"
  shows "read_command (rs1 @ rs2 @ rs) = Inr (Got cmd rs)"
proof -
  have r1: "recv_loop 4 [] (rs1 @ rs2 @ rs) = Got (take 4 cmd) (rs2 @ rs)"
    using recv_loop_delivers [OF d1, of "[]" "rs2 @ rs"] len by simp
  have "sint (of_nat (length cmd) :: u32) = int (length cmd)"
    using len by (intro sint_of_nat_small) simp
  then have n: "sint (ntohl (le32 (take 4 cmd))) = int (length cmd)" by (simp add: hdr)
  have "recv_loop (length cmd - 4) [] (rs2 @ rs) = Got (drop 4 cmd) rs"
    using recv_loop_delivers [OF d2, of "[]" rs] by simp
  then show ?thesis using r1 n len by (simp add: read_command_def)
qed

text \<open>A closed connection makes the loop spin: no number of empty reads ends it.\<close>

lemma recv_loop_eof: "0 < n \<Longrightarrow> recv_loop n acc (replicate k (Recv [])) = Waiting"
  by (induction k) (simp_all add: recv_loop.simps)

section \<open>Lemmas: hardware information\<close>

lemma hw_num_entries_value:
  assumes "8 \<le> n" and "n \<le> 10000"
  shows "hw_num_entries (htonl (of_nat n)) = int ((n - 8) div 36)"
proof -
  let ?w = "ucast (of_nat n :: u32) :: 64 word"
  have u: "unat (of_nat n :: u32) = n" using assms by (simp add: unat_of_nat)
  then have w: "unat ?w = n"
    using assms by (simp add: unsigned_ucast_eq take_bit_nat_eq_self)
  then have "8 \<le> ?w" using assms by (simp add: word_le_nat_alt)
  then have "unat (?w - 8) = n - 8" using w by (simp add: unat_sub)
  then have d: "unat ((?w - 8) div 36) = (n - 8) div 36" by (simp add: unat_div)
  have small: "(n - 8) div 36 < 2 ^ 31"
    using assms by (intro le_less_trans [OF div_le_dividend]) simp
  have "unat (ucast ((?w - 8) div 36) :: u32) = (n - 8) div 36"
    using d small by (simp add: unsigned_ucast_eq take_bit_nat_eq_self)
  then have "ucast ((?w - 8) div 36) = (of_nat ((n - 8) div 36) :: u32)"
    by (metis of_nat_unat ucast_id)
  then show ?thesis
    using sint_of_nat_small [OF small] by (simp add: hw_num_entries_def)
qed

lemma hw_entry_wf: "hw_entry sr h i = Inr sr' \<Longrightarrow> ifs_wf sr \<Longrightarrow> ifs_wf sr'"
  unfolding hw_entry_def
  by (elim bindR_InrE)
     (auto split: if_splits intro: sr_add_interface_wf sr_set_ether_addr_wf sr_set_ether_ip_wf)

lemma hw_loop_wf: "hw_loop n i sr h = Inr sr' \<Longrightarrow> ifs_wf sr \<Longrightarrow> ifs_wf sr'"
  by (induction n i sr h rule: hw_loop.induct) (auto dest: hw_entry_wf)

lemma handle_hwinfo_wf: "sr_handle_hwinfo sr h = Inr (n, sr') \<Longrightarrow> ifs_wf sr \<Longrightarrow> ifs_wf sr'"
  by (auto simp: sr_handle_hwinfo_def Let_def dest: hw_loop_wf)

section \<open>Lemmas: frames from the server\<close>

lemma frame_length:
  assumes "24 \<le> n" and "n \<le> 10000"
  shows "unat (of_nat n - 38 + 14 :: u32) = n - 24"
proof -
  have "of_nat n - 38 + 14 = (of_nat (n - 24) :: u32)" using assms by simp
  moreover have "unat (of_nat (n - 24) :: u32) = n - 24"
    using assms(2) unfolding unat_of_nat by simp
  ultimately show ?thesis by metis
qed

lemma keeps_dispatch: "dispatch_packet fuel sr buf = Inr sr' \<Longrightarrow> keeps sr sr'"
  by (auto simp: dispatch_packet_def Let_def split: if_splits dest: keeps_handlepacket)

text \<open>The filter, on a frame that holds an ARP header.\<close>

lemma arp_filter:
  assumes "42 \<le> len" and "len \<le> length packet" and "sr_get_interface sr name = Some i"
  shows "sr_arp_req_not_for_us sr packet len name =
     Inr (ether_type (ethernet_hdr_at packet 0) = htons ethertype_arp
          \<and> ar_op (arp_hdr_at packet 14) = htons arp_op_request
          \<and> ar_tip (arp_hdr_at packet 14) \<noteq> if_ip i)"
  using assms
  by (simp add: sr_arp_req_not_for_us_def mem_simps ethernet_hdr_at_def arp_hdr_at_def)

lemma dispatch_frame:
  assumes "66 \<le> length buf" and "length buf \<le> 10000"
    and "sr_get_interface sr (cstring (drop 8 buf)) = Some i"
  shows "dispatch_packet fuel sr buf =
     (let packet = drop 24 buf
      in if ether_type (ethernet_hdr_at packet 0) = htons ethertype_arp
            \<and> ar_op (arp_hdr_at packet 14) = htons arp_op_request
            \<and> ar_tip (arp_hdr_at packet 14) \<noteq> if_ip i
         then Inr sr
         else sr_handlepacket fuel sr packet (length packet) (cstring (drop 8 buf)))"
  using assms arp_filter [of "length buf - 24" "drop 24 buf" sr "cstring (drop 8 buf)" i]
    frame_length [of "length buf"]
  by (simp add: dispatch_packet_def Let_def)

lemma dispatch_safe:
  assumes "66 \<le> length buf" and "length buf \<le> 10000"
    and "sr_get_interface sr (cstring (drop 8 buf)) = Some i"
    and "router_inv sr" and "no_exhausted sr"
  shows "safe (dispatch_packet (Suc fuel) sr buf)"
proof -
  have "safe (sr_handlepacket (Suc fuel) sr (drop 24 buf) (length (drop 24 buf)) (cstring (drop 8 buf)))"
    by (rule handlepacket_safe [OF assms(4,5) _ refl assms(3)]) (use assms(1) in simp)
  then show ?thesis
    unfolding dispatch_frame [OF assms(1-3)] Let_def by (simp only: if_split safe_simps) simp
qed

section \<open>Lemmas: authentication\<close>

definition auth_reply :: "string \<Rightarrow> bytes \<Rightarrow> bytes" where
  "auth_reply name secret =
     bytes32 (htonl (of_nat (32 + length name))) @ bytes32 (htonl VNS_AUTH_REPLY)
     @ bytes32 (htonl (of_nat (length name))) @ map char_byte name
     @ concat (map (\<lambda>w. bytes32 (htonl w)) (sha1 secret))"

lemma auth_request_reply:
  assumes "length salt \<le> 10000" and "64 \<le> length key"
    and "req = bytes32 (htonl (of_nat (8 + length salt))) @ t @ salt" and "length t = 4"
  shows "sr_handle_auth_request sr (Some key) req =
     Inr (env_write (env sr) (ticks sr) = int (32 + length (user sr)),
          sr\<lparr>ticks := Suc (ticks sr), wire := wire sr @ [auth_reply (user sr) (salt @ take 64 key)]\<rparr>)"
proof -
  have m: "load32 req 0 = Inr (htonl (of_nat (8 + length salt)))"
    using assms by (simp add: mem_simps) (simp add: slice_def)
  have "(of_nat (8 + length salt) - 8 :: u32) = of_nat (length salt)" by simp
  then have n: "unat (of_nat (8 + length salt) - 8 :: u32) = length salt"
    using assms(1) by (simp add: unat_of_nat)
  have l: "load_bytes req 8 (length salt) = Inr salt"
    using assms by (simp add: load_bytes_def slice_def)
  have k: "load_bytes key 0 64 = Inr (take 64 key)"
    using assms(2) by (simp add: load_bytes_def slice_def)
  have "length (concat [salt, take 64 key]) < 2 ^ 61" using assms(1) by simp
  then obtain c where "bindR (input_all (SHA1Reset fresh_context) [salt, take 64 key]) SHA1Result = Inr (True, c)"
    and dig: "Message_Digest c = sha1 (salt @ take 64 key)"
    using sha1_portions [of fresh_context "[salt, take 64 key]"] by (auto simp: fresh_context_def)
  then obtain s1 s2 where "SHA1Input (SHA1Reset fresh_context) salt = Inr s1"
    "SHA1Input s1 (take 64 key) = Inr s2" "SHA1Result s2 = Inr (True, c)" by auto
  then show ?thesis
    using n by (simp add: sr_handle_auth_request_def m l k Let_def dig auth_reply_def)
qed

end
