(* ===== verification/Sr_Lab.thy ===== *)
theory Sr_Lab
  imports Sr_Vns
begin

text \<open>
  A concrete router for the worked instances of the theorems: two interfaces, three routes,
  one neighbour already resolved, and frames of the addresses of that network.  Every fact about
  it is evaluated.
\<close>

definition ipaddr :: "u8 \<Rightarrow> u8 \<Rightarrow> u8 \<Rightarrow> u8 \<Rightarrow> u32" where
  "ipaddr a b c d = le32 [a, b, c, d]"

definition lab_eth1 :: sr_if where
  "lab_eth1 = \<lparr>if_name = ''eth1'', if_addr = [2, 0, 0, 0, 0, 1], if_ip = ipaddr 10 0 1 1, if_speed = 0\<rparr>"

definition lab_eth2 :: sr_if where
  "lab_eth2 = \<lparr>if_name = ''eth2'', if_addr = [2, 0, 0, 0, 0, 2], if_ip = ipaddr 172 16 0 1, if_speed = 0\<rparr>"

definition lab_client :: sr_rt where
  "lab_client = \<lparr>rt_dest = ipaddr 10 0 1 0, rt_gw = ipaddr 10 0 1 100, rt_mask = ipaddr 255 255 255 0,
     rt_interface = ''eth1''\<rparr>"

definition lab_campus :: sr_rt where
  "lab_campus = \<lparr>rt_dest = ipaddr 10 0 0 0, rt_gw = ipaddr 172 16 0 2, rt_mask = ipaddr 255 0 0 0,
     rt_interface = ''eth2''\<rparr>"

definition lab_default :: sr_rt where
  "lab_default = \<lparr>rt_dest = 0, rt_gw = ipaddr 172 16 0 2, rt_mask = 0, rt_interface = ''eth2''\<rparr>"

definition lab_neighbour :: sr_arpentry where
  "lab_neighbour = \<lparr>ae_mac = [2, 0, 0, 0, 0, 100], ae_ip = ipaddr 10 0 1 100, ae_added = 95, ae_valid = True\<rparr>"

definition lab_unused :: sr_arpentry where
  "lab_unused = \<lparr>ae_mac = replicate 6 0, ae_ip = 0, ae_added = 0, ae_valid = False\<rparr>"

definition lab_env :: sr_env where
  "lab_env = \<lparr>env_time = (\<lambda>_. 100), env_mem = (\<lambda>_ _. 0), env_write = (\<lambda>_. 10000)\<rparr>"

definition lab_router :: sr_instance where
  "lab_router = \<lparr>sockfd = 3, user = ''lab'', host = ''router'', template = [], topo_id = 0,
     if_list = [lab_eth1, lab_eth2], routing_table = [lab_client, lab_campus, lab_default],
     cache = \<lparr>entries = lab_neighbour # replicate 99 lab_unused, requests = []\<rparr>,
     env = lab_env, ticks = 0, next_addr = 1, wire = [], saved_files = Map.empty\<rparr>"

text \<open>An IP frame with a valid header checksum; \<open>src\<close> and \<open>dst\<close> are the four address bytes.\<close>

definition lab_ip :: "u8 \<Rightarrow> u8 \<Rightarrow> bytes \<Rightarrow> bytes \<Rightarrow> bytes \<Rightarrow> bytes" where
  "lab_ip ttl proto src dst body =
     with_cksum ([2, 0, 0, 0, 0, 1] @ [2, 0, 0, 0, 0, 100] @ [8, 0]
        @ [0x45, 0, 0, of_nat (20 + length body), 0, 0, 0, 0, ttl, proto, 0, 0] @ src @ dst @ body) 24 14 20"

definition lab_arp :: "u8 \<Rightarrow> bytes \<Rightarrow> bytes \<Rightarrow> bytes \<Rightarrow> bytes" where
  "lab_arp op sha sip tip = replicate 6 0xff @ sha @ [8, 6] @ [0, 1, 8, 0, 6, 4, 0, op] @ sha @ sip
     @ replicate 6 0 @ tip"

lemmas lab_defs = lab_router_def lab_eth1_def lab_eth2_def lab_client_def lab_campus_def
  lab_default_def lab_neighbour_def lab_unused_def lab_env_def

section \<open>Evaluation\<close>

lemma ball_replicate: "(\<forall>x \<in> set (replicate n y). P x) \<longleftrightarrow> n = 0 \<or> P y"
  by auto

lemma lab_inv: "router_inv lab_router"
  by (simp add: router_inv_defs ifs_wf_def if_wf_def lab_defs)

lemma lab_interfaces:
  "sr_get_interface lab_router ''eth1'' = Some lab_eth1"
  "sr_get_interface lab_router ''eth2'' = Some lab_eth2"
  by (simp_all add: sr_get_interface_def strncmp_eq_def lab_defs)

lemma lab_routes:
  "sr_get_longest_prefix_match lab_router (ipaddr 10 0 1 77) = Some lab_client"
  "sr_get_longest_prefix_match lab_router (ipaddr 10 0 1 100) = Some lab_client"
  "sr_get_longest_prefix_match lab_router (ipaddr 10 9 9 9) = Some lab_campus"
  "sr_get_longest_prefix_match lab_router (ipaddr 8 8 8 8) = Some lab_default"
  by (simp_all add: sr_get_longest_prefix_match_def lab_defs ipaddr_def le32_def)

lemma lookup_unused [simp]: "lookup_walk ip (replicate n lab_unused) e = e"
  by (induction n arbitrary: e) (simp_all add: lab_unused_def)

lemma lab_lookup:
  "sr_arpcache_lookup lab_router ip = (if ip = ipaddr 10 0 1 100 then Some lab_neighbour else None)"
  by (simp add: sr_arpcache_lookup_def lab_router_def) (auto simp: lab_neighbour_def)

lemma lab_own_addresses: "if_ip ` set (if_list lab_router) = {ipaddr 10 0 1 1, ipaddr 172 16 0 1}"
  by (simp add: lab_router_def lab_eth1_def lab_eth2_def)

lemma lab_prefix_masks: "prefix_masks (routing_table lab_router)"
proof -
  have "netmask 24 = ipaddr 255 255 255 0" "netmask 8 = ipaddr 255 0 0 0" "netmask 0 = 0"
    by code_simp+
  then show ?thesis
    by (auto simp: prefix_masks_def lab_router_def lab_client_def lab_campus_def lab_default_def
        intro: exI [of _ 24] exI [of _ 8] exI [of _ 0])
qed

lemma length_lab_ip [simp]:
  "length src = 4 \<Longrightarrow> length dst = 4 \<Longrightarrow> length (lab_ip ttl proto src dst body) = 34 + length body"
  by (simp add: lab_ip_def)

end
