(* ===== verification/Router_Claims.thy ===== *)
theory Router_Claims
  imports Sr_Lab
begin

text \<open>
  The properties of the router, each with an instance on the concrete router of \<open>Sr_Lab\<close>:
  what happens to a frame from the moment \<open>sr_handlepacket\<close> gets it, what the cache promises,
  and what every run keeps.
\<close>

section \<open>From frames to handlers\<close>

lemma hdr_fields:
  "ip_dst (ip_hdr_at b 14) = le32 (slice b 30 4)" "ip_src (ip_hdr_at b 14) = le32 (slice b 26 4)"
  "ip_ttl (ip_hdr_at b 14) = b ! 22" "ip_p (ip_hdr_at b 14) = b ! 23"
  "ip_sum (ip_hdr_at b 14) = le16 (slice b 24 2)"
  "ether_type (ethernet_hdr_at b 0) = le16 (slice b 12 2)"
  "ar_op (arp_hdr_at b 14) = le16 (slice b 20 2)" "ar_tip (arp_hdr_at b 14) = le32 (slice b 38 4)"
  "ar_sha (arp_hdr_at b 14) = slice b 22 6" "ar_sip (arp_hdr_at b 14) = le32 (slice b 28 4)"
  by (simp_all add: ip_hdr_at_def ethernet_hdr_at_def arp_hdr_at_def)

lemma handlepacket_ip:
  assumes "34 \<le> length packet" and "ether_type (ethernet_hdr_at packet 0) = htons ethertype_ip"
  shows "sr_handlepacket fuel sr packet len name = sr_handle_ip_packet fuel sr packet len name"
  using assms by (simp add: sr_handlepacket_def ethertype_def mem_simps hdr_fields)

lemma handlepacket_arp:
  assumes "14 \<le> length packet" and "ether_type (ethernet_hdr_at packet 0) = htons ethertype_arp"
  shows "sr_handlepacket fuel sr packet len name = sr_handle_arp_packet sr packet len name"
  using assms by (simp add: sr_handlepacket_def ethertype_def mem_simps hdr_fields)

text \<open>A packet in transit: a valid header whose destination is no interface of the router.\<close>

definition in_transit :: "sr_instance \<Rightarrow> bytes \<Rightarrow> bool" where
  "in_transit sr packet \<longleftrightarrow> 34 \<le> length packet
     \<and> ether_type (ethernet_hdr_at packet 0) = htons ethertype_ip \<and> ip_sum_accepted packet
     \<and> (\<forall>i \<in> set (if_list sr). if_ip i \<noteq> ip_dst (ip_hdr_at packet 14))"

definition for_router :: "sr_instance \<Rightarrow> bytes \<Rightarrow> bool" where
  "for_router sr packet \<longleftrightarrow> 34 \<le> length packet
     \<and> ether_type (ethernet_hdr_at packet 0) = htons ethertype_ip \<and> ip_sum_accepted packet
     \<and> (\<exists>i \<in> set (if_list sr). if_ip i = ip_dst (ip_hdr_at packet 14))"

lemma handlepacket_transit:
  assumes "in_transit sr packet"
  shows "sr_handlepacket fuel sr packet (length packet) name = sr_forward_packet fuel sr packet (length packet) name"
  using assms
  by (simp add: in_transit_def handlepacket_ip handle_ip_dispatch if_walk_None hdr_fields)

lemma handlepacket_local:
  assumes "for_router sr packet"
  shows "sr_handlepacket fuel sr packet (length packet) name =
     (if packet ! 23 = 1 then sr_handle_icmp_packet fuel sr packet (length packet) name
      else sr_send_error (handle_arpreq fuel) sr packet name 3 3)"
  using assms
  by (auto simp: for_router_def handlepacket_ip handle_ip_dispatch if_walk_None hdr_fields)

lemma drop_nth_eq:
  assumes "length a = length b" and "\<And>k. n \<le> k \<Longrightarrow> k < length b \<Longrightarrow> a ! k = b ! k"
  shows "drop n a = drop n b"
  by (rule nth_equalityI) (use assms in auto)

lemma ip_hdr_at_forwarded_frame:
  assumes "34 \<le> length packet" and "length (if_addr i) = 6" and "length (ae_mac e) = 6"
  defines "f \<equiv> forwarded_frame packet (length packet) i e"
  shows "ip_hdr_at f 14 = (ip_hdr_at packet 14)\<lparr>ip_ttl := packet ! 22 - 1, ip_sum := ip_sum (ip_hdr_at f 14)\<rparr>"
    and "ether_type (ethernet_hdr_at f 0) = ether_type (ethernet_hdr_at packet 0)"
    and "drop 34 f = drop 34 packet" and "length f = length packet"
proof -
  have n: "f ! k = forwarded packet ! k" if "12 \<le> k" "k < length packet" for k
    using assms(1-3) that by (simp add: f_def forwarded_frame_nth)
  have len: "length f = length packet" using assms by (simp add: f_def forwarded_frame_def)
  have o: "f ! k = packet ! k" if "12 \<le> k" "k < length packet" "k \<notin> {22, 24, 25}" for k
    using n [OF that(1,2)] forwarded_other [OF assms(1) that(2,3)] by simp
  have s: "slice f p m = slice packet p m" if "12 \<le> p" "p + m \<le> 22 \<or> 26 \<le> p" "p + m \<le> length packet" for p m
    by (rule nth_equalityI) (use that len in \<open>auto simp: slice_nth o\<close>)
  show "ip_hdr_at f 14 = (ip_hdr_at packet 14)\<lparr>ip_ttl := packet ! 22 - 1, ip_sum := ip_sum (ip_hdr_at f 14)\<rparr>"
    using assms(1) n [of 22] forwarded_ttl [OF assms(1)]
    by (simp add: ip_hdr_at_def o s)
  show "ether_type (ethernet_hdr_at f 0) = ether_type (ethernet_hdr_at packet 0)"
    using assms(1) by (simp add: s hdr_fields)
  show "drop 34 f = drop 34 packet" by (rule drop_nth_eq) (use len in \<open>auto simp: o\<close>)
  show "length f = length packet" by (rule len)
qed

text \<open>
  What forwarding does to a packet behind its Ethernet header: TTL less one, a right checksum,
  nothing else.
\<close>

definition aged :: "bytes \<Rightarrow> bytes \<Rightarrow> bool" where
  "aged packet f \<longleftrightarrow> length f = length packet
     \<and> ip_hdr_at f 14 = (ip_hdr_at packet 14)\<lparr>ip_ttl := ip_ttl (ip_hdr_at packet 14) - 1,
                            ip_sum := ip_sum (ip_hdr_at f 14)\<rparr>
     \<and> cksum_ok f 14 20 \<and> drop 34 f = drop 34 packet"

lemma aged_forwarded:
  assumes "34 \<le> length packet"
  shows "aged packet (forwarded packet)" and "take 14 (forwarded packet) = take 14 packet"
proof -
  have o: "forwarded packet ! k = packet ! k" if "k < length packet" "k \<notin> {22, 24, 25}" for k
    using forwarded_other [OF assms that] .
  have "ip_hdr_at (forwarded packet) 14 = (ip_hdr_at packet 14)
      \<lparr>ip_ttl := packet ! 22 - 1, ip_sum := ip_sum (ip_hdr_at (forwarded packet) 14)\<rparr>"
    using assms forwarded_ttl [OF assms] by (simp add: ip_hdr_at_def o forwarded_slice)
  moreover have "drop 34 (forwarded packet) = drop 34 packet"
    by (rule drop_nth_eq) (use assms in \<open>auto simp: o\<close>)
  ultimately show "aged packet (forwarded packet)"
    using assms forwarded_cksum [OF assms] by (simp add: aged_def hdr_fields)
  show "take 14 (forwarded packet) = take 14 packet"
    by (rule nth_equalityI) (use assms in \<open>auto simp: o\<close>)
qed

lemma aged_forwarded_frame:
  assumes "34 \<le> length packet" and "length (if_addr i) = 6" and "length (ae_mac e) = 6"
  shows "aged packet (forwarded_frame packet (length packet) i e)"
proof -
  have "cksum_ok (forwarded_frame packet (length packet) i e) 14 20"
    using forwarded_frame_slice(3) [OF assms(1) _ assms(2,3)] forwarded_cksum [OF assms(1)]
    by (simp add: cksum_ok_def)
  then show ?thesis
    using ip_hdr_at_forwarded_frame(1,3,4) [OF assms] by (simp add: aged_def hdr_fields)
qed

section \<open>Forwarding\<close>

text \<open>
  C1: A packet in transit whose TTL is at least 2 and whose next hop is in the ARP cache leaves at
  once, through the interface of its longest matching route: the Ethernet source is that
  interface's address and the destination the cached one, the TTL is one less, the header
  checksum is right, and everything else, the payload included, is unchanged; nothing but the
  wire and the environment counter changes in the router.
\<close>

theorem packet_forwarded:
  assumes "router_inv sr" and "in_transit sr packet" and "2 \<le> ip_ttl (ip_hdr_at packet 14)"
    and "sr_get_longest_prefix_match sr (ip_dst (ip_hdr_at packet 14)) = Some rt"
    and "sr_get_interface sr (rt_interface rt) = Some i"
    and "sr_arpcache_lookup sr (rt_gw rt) = Some e"
  shows "\<exists>f. sr_handlepacket fuel sr packet (length packet) name = Inr (emit f (if_name i) sr)
     \<and> ethernet_hdr_at f 0 = \<lparr>ether_dhost = ae_mac e, ether_shost = if_addr i, ether_type = htons ethertype_ip\<rparr>
     \<and> aged packet f"
proof -
  let ?f = "forwarded_frame packet (length packet) i e"
  have len: "34 \<le> length packet" and ety: "ether_type (ethernet_hdr_at packet 0) = htons ethertype_ip"
    using assms(2) by (simp_all add: in_transit_def)
  have l: "length (if_addr i) = 6" "length (ae_mac e) = 6"
    using inv_if_addr [OF assms(1,5)] cache_hit_mac [OF assms(1,6)] by auto
  have "packet ! 22 \<noteq> 1" using assms(3) by (auto simp: hdr_fields word_le_nat_alt)
  then have run: "sr_handlepacket fuel sr packet (length packet) name = Inr (emit ?f (if_name i) sr)"
    using forward_hit [OF assms(1) len _ _ _ assms(5,6)] assms(4)
    by (simp add: handlepacket_transit [OF assms(2)] hdr_fields)
  have "ethernet_hdr_at ?f 0 = \<lparr>ether_dhost = ae_mac e, ether_shost = if_addr i, ether_type = htons ethertype_ip\<rparr>"
    using forwarded_frame_slice(1,2) [OF len _ l] ip_hdr_at_forwarded_frame(2) [OF len l] ety
    by (simp add: ethernet_hdr_at_def)
  with run aged_forwarded_frame [OF len l] show ?thesis by blast
qed

theorem packet_forwarded_witness:
  "\<exists>f. sr_handlepacket 1 lab_router (lab_ip 64 17 [8, 8, 8, 8] [10, 0, 1, 77] [1, 2, 3, 4, 5, 6, 7, 8]) 42 ''eth2''
        = Inr (emit f ''eth1'' lab_router)
     \<and> ether_dhost (ethernet_hdr_at f 0) = [2, 0, 0, 0, 0, 100]
     \<and> aged (lab_ip 64 17 [8, 8, 8, 8] [10, 0, 1, 77] [1, 2, 3, 4, 5, 6, 7, 8]) f"
proof -
  let ?p = "lab_ip 64 17 [8, 8, 8, 8] [10, 0, 1, 77] [1, 2, 3, 4, 5, 6, 7, 8]"
  have f: "ip_dst (ip_hdr_at ?p 14) = ipaddr 10 0 1 77" "ip_ttl (ip_hdr_at ?p 14) = 64"
    by code_simp+
  have t: "in_transit lab_router ?p" by code_simp
  have g: "sr_get_interface lab_router (rt_interface lab_client) = Some lab_eth1"
    "sr_arpcache_lookup lab_router (rt_gw lab_client) = Some lab_neighbour"
    using lab_interfaces by (simp_all add: lab_client_def lab_lookup)
  obtain f where "sr_handlepacket 1 lab_router ?p (length ?p) ''eth2'' = Inr (emit f (if_name lab_eth1) lab_router)"
    "ethernet_hdr_at f 0 = \<lparr>ether_dhost = ae_mac lab_neighbour, ether_shost = if_addr lab_eth1,
       ether_type = htons ethertype_ip\<rparr>" "aged ?p f"
    using packet_forwarded [OF lab_inv t _ _ g, of 1 "''eth2''"] f lab_routes(1) by auto
  then show ?thesis
    by (intro exI [of _ f]) (simp add: lab_eth1_def lab_neighbour_def)
qed

text \<open>A packet whose next hop is not resolved waits in a new request.\<close>

lemma packet_waits:
  assumes "router_inv sr" and "in_transit sr packet" and "2 \<le> ip_ttl (ip_hdr_at packet 14)"
    and "sr_get_longest_prefix_match sr (ip_dst (ip_hdr_at packet 14)) = Some rt"
    and "sr_get_interface sr (rt_interface rt) = Some i"
    and "sr_arpcache_lookup sr (rt_gw rt) = None"
    and "\<forall>r \<in> set (requests (cache sr)). req_ip r \<noteq> rt_gw rt"
    and "env_time (env sr) (ticks sr) > 1"
  shows "\<exists>sr' f g. sr_handlepacket (Suc fuel) sr packet (length packet) name = Inr sr'
     \<and> requests (cache sr') = \<lparr>req_id = next_addr sr, req_ip = rt_gw rt,
           req_sent = env_time (env sr) (ticks sr), req_times_sent = 1,
           req_packets = [\<lparr>pkt_buf = f, pkt_len = length packet, pkt_iface = take 32 (if_name i)\<rparr>]\<rparr>
         # requests (cache sr)
     \<and> f = forwarded packet \<and> aged packet f \<and> take 14 f = take 14 packet
     \<and> wire sr' = wire sr @ [vns_message g (if_name i)]
     \<and> ethernet_hdr_at g 0 = \<lparr>ether_dhost = replicate 6 0xff, ether_shost = if_addr i, ether_type = htons ethertype_arp\<rparr>
     \<and> arp_hdr_at g 14 = \<lparr>ar_hrd = htons arp_hrd_ethernet, ar_pro = htons ethertype_ip, ar_hln = 6, ar_pln = 4,
           ar_op = htons arp_op_request, ar_sha = if_addr i, ar_sip = if_ip i,
           ar_tha = replicate 6 0, ar_tip = rt_gw rt\<rparr>"
proof -
  have len: "34 \<le> length packet" using assms(2) by (simp add: in_transit_def)
  have l: "length (if_addr i) = 6" using inv_if_addr [OF assms(1,5)] .
  have "packet ! 22 \<noteq> 1" using assms(3) by (auto simp: hdr_fields word_le_nat_alt)
  then have run: "sr_handlepacket (Suc fuel) sr packet (length packet) name =
      bindR (sr_arpcache_queuereq sr (rt_gw rt) (forwarded packet) (length packet) (if_name i))
        (\<lambda>(a, sr). handle_arpreq (Suc fuel) sr a)"
    using assms(4-6) len
    by (simp add: handlepacket_transit [OF assms(2)] forward_prefix hdr_fields del: handle_arpreq.simps)
  have lp: "14 \<le> length packet" "length packet \<le> length (forwarded packet)" using len by auto
  show ?thesis
  proof (rule miss_new [OF assms(1) lp assms(5,7,8), of fuel])
    fix sr' blk
    assume "bindR (sr_arpcache_queuereq sr (rt_gw rt) (forwarded packet) (length packet) (if_name i))
        (\<lambda>(a, sr). handle_arpreq (Suc fuel) sr a) = Inr sr'"
      and "requests (cache sr') = \<lparr>req_id = next_addr sr, req_ip = rt_gw rt,
        req_sent = env_time (env sr) (ticks sr), req_times_sent = 1,
        req_packets = [\<lparr>pkt_buf = take (length packet) (forwarded packet), pkt_len = length packet,
          pkt_iface = take 32 (if_name i)\<rparr>]\<rparr> # requests (cache sr)"
      and "wire sr' = wire sr @ [vns_message (arp_request_frame blk i (rt_gw rt)) (if_name i)]"
      and "length blk = 42"
    then show ?thesis
      using run aged_forwarded [OF len] arp_request_frame_fields(2,3) [OF \<open>length blk = 42\<close> l] len
      by (intro exI [of _ sr'] exI [of _ "forwarded packet"] exI [of _ "arp_request_frame blk i (rt_gw rt)"])
         (simp del: handle_arpreq.simps)
  qed
qed

section \<open>ICMP errors\<close>

text \<open>
  The frame \<open>f\<close> is an ICMP error of the given type and code about \<open>packet\<close>, from the address of
  \<open>iface\<close> to the packet's sender, addressed from \<open>out\<close> to the hardware address of \<open>e\<close>.
\<close>

definition is_icmp_error :: "bytes \<Rightarrow> bytes \<Rightarrow> sr_if \<Rightarrow> sr_if \<Rightarrow> sr_arpentry \<Rightarrow> u8 \<Rightarrow> u8 \<Rightarrow> bool" where
  "is_icmp_error f packet iface out e ty code \<longleftrightarrow> length f = 70
     \<and> ethernet_hdr_at f 0 = \<lparr>ether_dhost = ae_mac e, ether_shost = if_addr out, ether_type = htons ethertype_ip\<rparr>
     \<and> ip_hdr_at f 14 = \<lparr>ip_hl = 5, ip_v = 4, ip_tos = 0, ip_len = htons 56, ip_id = htons 0,
          ip_off = htons IP_DF, ip_ttl = 64, ip_p = ip_protocol_icmp, ip_sum = ip_sum (ip_hdr_at f 14),
          ip_src = if_ip iface, ip_dst = ip_src (ip_hdr_at packet 14)\<rparr>
     \<and> icmp_t3_hdr_at f 34 = \<lparr>icmp_type = ty, icmp_code = code, icmp_sum = icmp_sum (icmp_t3_hdr_at f 34),
          icmp_unused = 0, icmp_next_mtu = 0, icmp_data = slice packet 14 28\<rparr>
     \<and> cksum_ok f 14 20 \<and> cksum_ok f 34 36"

lemma send_error_is_icmp_error:
  assumes "router_inv sr" and "42 \<le> length packet" and "sr_get_interface sr name = Some iface"
    and "sr_get_longest_prefix_match sr (ip_src (ip_hdr_at packet 14)) = Some rt"
    and "sr_get_interface sr (rt_interface rt) = Some out"
    and "sr_arpcache_lookup sr (rt_gw rt) = Some e"
  shows "\<exists>f. sr_send_error h sr packet name ty code = Inr (emit f (if_name out) (snd (sr_malloc sr 70)))
     \<and> is_icmp_error f packet iface out e ty code"
proof -
  let ?f = "addressed_error (fst (sr_malloc sr 70)) packet iface (le32 (slice packet 26 4)) ty code out e"
  have l: "length (if_addr out) = 6" "length (ae_mac e) = 6"
    using inv_if_addr [OF assms(1,5)] cache_hit_mac [OF assms(1,6)] by auto
  have "is_icmp_error ?f packet iface out e ty code"
    unfolding is_icmp_error_def hdr_fields(2)
    using addressed_error_fields [OF length_sr_malloc assms(2) l, of sr iface "le32 (slice packet 26 4)" ty code]
    by blast
  moreover have "sr_send_error h sr packet name ty code = Inr (emit ?f (if_name out) (snd (sr_malloc sr 70)))"
    by (rule send_error_hit [OF assms(1-3) _ assms(5,6)]) (use assms(4) in \<open>simp add: hdr_fields\<close>)
  ultimately show ?thesis by blast
qed

text \<open>
  C24: A packet in transit with TTL 1 is not forwarded: its sender gets an ICMP time exceeded message
  (type 11, code 0) from the interface the packet came in on, with right checksums and the
  packet's own IP header and first eight bytes, the TTL in it already decremented to 0.
\<close>

theorem ttl_expired:
  assumes "router_inv sr" and "in_transit sr packet" and "42 \<le> length packet"
    and "ip_ttl (ip_hdr_at packet 14) = 1"
    and "sr_get_interface sr name = Some iface"
    and "sr_get_longest_prefix_match sr (ip_src (ip_hdr_at packet 14)) = Some rt"
    and "sr_get_interface sr (rt_interface rt) = Some out"
    and "sr_arpcache_lookup sr (rt_gw rt) = Some e"
  shows "\<exists>f. sr_handlepacket fuel sr packet (length packet) name = Inr (emit f (if_name out) (snd (sr_malloc sr 70)))
     \<and> is_icmp_error f (packet[22 := 0]) iface out e 11 0"
proof -
  have u: "splices packet [(22, [0])] = packet[22 := 0]"
    using assms(3) by (simp add: splices_simps splice_def upd_conv_take_nth_drop)
  have s: "ip_src (ip_hdr_at (packet[22 := 0]) 14) = ip_src (ip_hdr_at packet 14)"
    by (simp add: hdr_fields slice_def)
  have run: "sr_handlepacket fuel sr packet (length packet) name
      = sr_send_error (handle_arpreq fuel) sr (packet[22 := 0]) name 11 0"
    using assms(3,4)
    by (simp add: handlepacket_transit [OF assms(2)] sr_forward_packet_def mem_simps hdr_fields
        sr_send_icmp_time_exceeded_def u)
  show ?thesis
    unfolding run
    by (rule send_error_is_icmp_error [OF assms(1) _ assms(5) _ assms(7,8)]) (use assms(3,6) s in simp_all)
qed

theorem ttl_expired_witness:
  "\<exists>f. sr_handlepacket 1 lab_router (lab_ip 1 17 [10, 0, 1, 100] [8, 8, 8, 8] [1, 2, 3, 4, 5, 6, 7, 8]) 42 ''eth1''
        = Inr (emit f ''eth1'' (snd (sr_malloc lab_router 70)))
     \<and> is_icmp_error f ((lab_ip 1 17 [10, 0, 1, 100] [8, 8, 8, 8] [1, 2, 3, 4, 5, 6, 7, 8])[22 := 0])
         lab_eth1 lab_eth1 lab_neighbour 11 0"
proof -
  let ?p = "lab_ip 1 17 [10, 0, 1, 100] [8, 8, 8, 8] [1, 2, 3, 4, 5, 6, 7, 8]"
  have f: "ip_src (ip_hdr_at ?p 14) = ipaddr 10 0 1 100" "ip_ttl (ip_hdr_at ?p 14) = 1" by code_simp+
  have t: "in_transit lab_router ?p" by code_simp
  have g: "sr_get_interface lab_router (rt_interface lab_client) = Some lab_eth1"
    "sr_arpcache_lookup lab_router (rt_gw lab_client) = Some lab_neighbour"
    using lab_interfaces by (simp_all add: lab_client_def lab_lookup)
  have n: "if_name lab_eth1 = ''eth1''" by (simp add: lab_eth1_def)
  show ?thesis
    using ttl_expired [OF lab_inv t _ _ lab_interfaces(1) _ g, of 1] f lab_routes(2)
    unfolding n by simp
qed

text \<open>
  A packet in transit with no matching route is not forwarded: its sender gets an ICMP net
  unreachable message (type 3, code 0) that quotes the aged packet.
\<close>

theorem no_route_reported:
  assumes "router_inv sr" and "in_transit sr packet" and "42 \<le> length packet"
    and "2 \<le> ip_ttl (ip_hdr_at packet 14)"
    and "\<forall>r \<in> set (routing_table sr). \<not> rt_matches (ip_dst (ip_hdr_at packet 14)) r"
    and "sr_get_interface sr name = Some iface"
    and "sr_get_longest_prefix_match sr (ip_src (ip_hdr_at packet 14)) = Some rt"
    and "sr_get_interface sr (rt_interface rt) = Some out"
    and "sr_arpcache_lookup sr (rt_gw rt) = Some e"
  shows "\<exists>f q. sr_handlepacket fuel sr packet (length packet) name = Inr (emit f (if_name out) (snd (sr_malloc sr 70)))
     \<and> aged packet q \<and> is_icmp_error f q iface out e 3 0"
proof -
  have len: "34 \<le> length packet" using assms(3) by simp
  have "packet ! 22 \<noteq> 1" using assms(4) by (auto simp: hdr_fields word_le_nat_alt)
  moreover have "sr_get_longest_prefix_match sr (le32 (slice packet 30 4)) = None"
    using assms(5) by (simp add: sr_get_longest_prefix_match_None hdr_fields)
  ultimately have run: "sr_handlepacket fuel sr packet (length packet) name
      = sr_send_error (handle_arpreq fuel) sr (forwarded packet) name 3 0"
    using len
    by (simp add: handlepacket_transit [OF assms(2)] forward_prefix sr_send_icmp_net_unreachable_def)
  have s: "ip_src (ip_hdr_at (forwarded packet) 14) = ip_src (ip_hdr_at packet 14)"
    using assms(3) by (simp add: hdr_fields forwarded_slice)
  have "\<exists>f. sr_send_error (handle_arpreq fuel) sr (forwarded packet) name 3 0
        = Inr (emit f (if_name out) (snd (sr_malloc sr 70))) \<and> is_icmp_error f (forwarded packet) iface out e 3 0"
    by (rule send_error_is_icmp_error [OF assms(1) _ assms(6) _ assms(8,9)]) (use assms(3,7) s in simp_all)
  with run aged_forwarded(1) [OF len] show ?thesis by metis
qed

definition lab_island :: sr_instance where
  "lab_island = lab_router\<lparr>routing_table := [lab_client]\<rparr>"

theorem no_route_reported_witness:
  "\<exists>f q. sr_handlepacket 1 lab_island (lab_ip 64 17 [10, 0, 1, 100] [8, 8, 8, 8] [1, 2, 3, 4, 5, 6, 7, 8]) 42 ''eth1''
        = Inr (emit f ''eth1'' (snd (sr_malloc lab_island 70)))
     \<and> is_icmp_error f q lab_eth1 lab_eth1 lab_neighbour 3 0"
proof -
  let ?p = "lab_ip 64 17 [10, 0, 1, 100] [8, 8, 8, 8] [1, 2, 3, 4, 5, 6, 7, 8]"
  have f: "ip_src (ip_hdr_at ?p 14) = ipaddr 10 0 1 100" "ip_ttl (ip_hdr_at ?p 14) = 64" by code_simp+
  have t: "in_transit lab_island ?p" by code_simp
  have inv: "router_inv lab_island"
    by (simp add: router_inv_defs ifs_wf_def if_wf_def lab_defs lab_island_def)
  have r: "\<forall>r \<in> set (routing_table lab_island). \<not> rt_matches (ip_dst (ip_hdr_at ?p 14)) r"
    "sr_get_longest_prefix_match lab_island (ipaddr 10 0 1 100) = Some lab_client"
    "sr_get_interface lab_island ''eth1'' = Some lab_eth1"
    "sr_get_interface lab_island (rt_interface lab_client) = Some lab_eth1"
    by code_simp+
  have a: "sr_arpcache_lookup lab_island (rt_gw lab_client) = Some lab_neighbour"
    using lab_lookup by (simp add: lab_client_def lab_island_def sr_arpcache_lookup_def)
  have n: "if_name lab_eth1 = ''eth1''" by (simp add: lab_eth1_def)
  show ?thesis
    using no_route_reported [OF inv t _ _ r(1) r(3) _ r(4) a, of 1] f r(2) unfolding n by auto
qed

text \<open>
  A packet for one of the router's own addresses whose protocol is not ICMP is answered with an
  ICMP port unreachable message (type 3, code 3) to its sender.
\<close>

theorem port_unreachable:
  assumes "router_inv sr" and "for_router sr packet" and "42 \<le> length packet"
    and "ip_p (ip_hdr_at packet 14) \<noteq> ip_protocol_icmp"
    and "sr_get_interface sr name = Some iface"
    and "sr_get_longest_prefix_match sr (ip_src (ip_hdr_at packet 14)) = Some rt"
    and "sr_get_interface sr (rt_interface rt) = Some out"
    and "sr_arpcache_lookup sr (rt_gw rt) = Some e"
  shows "\<exists>f. sr_handlepacket fuel sr packet (length packet) name = Inr (emit f (if_name out) (snd (sr_malloc sr 70)))
     \<and> is_icmp_error f packet iface out e 3 3"
proof -
  have run: "sr_handlepacket fuel sr packet (length packet) name = sr_send_error (handle_arpreq fuel) sr packet name 3 3"
    using assms(4) by (simp add: handlepacket_local [OF assms(2)] hdr_fields)
  show ?thesis
    unfolding run by (rule send_error_is_icmp_error [OF assms(1,3,5-8)])
qed

theorem port_unreachable_witness:
  "\<exists>f. sr_handlepacket 1 lab_router (lab_ip 64 17 [10, 0, 1, 100] [172, 16, 0, 1] [1, 2, 3, 4, 5, 6, 7, 8]) 42 ''eth1''
        = Inr (emit f ''eth1'' (snd (sr_malloc lab_router 70)))
     \<and> is_icmp_error f (lab_ip 64 17 [10, 0, 1, 100] [172, 16, 0, 1] [1, 2, 3, 4, 5, 6, 7, 8])
         lab_eth1 lab_eth1 lab_neighbour 3 3"
proof -
  let ?p = "lab_ip 64 17 [10, 0, 1, 100] [172, 16, 0, 1] [1, 2, 3, 4, 5, 6, 7, 8]"
  have f: "ip_src (ip_hdr_at ?p 14) = ipaddr 10 0 1 100" "ip_p (ip_hdr_at ?p 14) = 17" by code_simp+
  have t: "for_router lab_router ?p" by code_simp
  have g: "sr_get_interface lab_router (rt_interface lab_client) = Some lab_eth1"
    "sr_arpcache_lookup lab_router (rt_gw lab_client) = Some lab_neighbour"
    using lab_interfaces by (simp_all add: lab_client_def lab_lookup)
  have n: "if_name lab_eth1 = ''eth1''" by (simp add: lab_eth1_def)
  show ?thesis
    using port_unreachable [OF lab_inv t _ _ lab_interfaces(1) _ g, of 1] f lab_routes(2)
    unfolding n by simp
qed

section \<open>Echo requests and ARP\<close>

lemma echo_hit:
  assumes "router_inv sr" and "42 \<le> length packet" and "packet ! 34 = 8"
    and "sr_get_longest_prefix_match sr (le32 (slice packet 26 4)) = Some rt"
    and "sr_get_interface sr (rt_interface rt) = Some out"
    and "sr_arpcache_lookup sr (rt_gw rt) = Some e"
  defines "f \<equiv> splices (echo_reply packet) [(6, if_addr out), (0, ae_mac e)]"
  shows "sr_handle_icmp_packet fuel sr packet (length packet) name
     = Inr (emit f (if_name out) (snd (sr_malloc sr (length packet))))"
proof -
  obtain blk sr1 where m: "sr_malloc sr (length packet) = (blk, sr1)" by fastforce
  have sr1: "sr1 = sr\<lparr>ticks := Suc (ticks sr)\<rparr>" using m by (simp add: sr_malloc_def)
  have a: "length (if_addr out) = 6" "length (ae_mac e) = 6"
    using inv_if_addr [OF assms(1,5)] cache_hit_mac [OF assms(1,6)] by auto
  have l: "length (echo_reply packet) = length packet" "length f = length packet"
    using assms(2) a by (simp_all add: f_def)
  have "slice f 6 6 = if_addr out" using addressed_slice(1) [OF a] assms(2) l by (simp add: f_def)
  then have s: "send_ignoring sr1 f (length packet) (if_name out) = Inr (emit f (if_name out) sr1)"
    using send_ignoring_emit [of sr1 "if_name out" out "length packet" f] get_own_name [OF assms(5)] l assms(2)
    by (simp add: sr1)
  have lk: "sr_arpcache_lookup sr1 (rt_gw rt) = Some e"
    using assms(6) by (simp add: sr1 sr_arpcache_lookup_def)
  have "stores (echo_reply packet) [(6, if_addr out), (0, ae_mac e)] = Inr f"
    using a l assms(2) by (simp add: mem_simps f_def)
  with s lk show ?thesis
    using assms(2-5) echo_reply_Inr [of packet]
    by (simp add: sr_handle_icmp_packet_def m mem_simps)
       (simp add: sr1)
qed



text \<open>
  An ARP request for the address of the interface it arrives on is answered through that
  interface, to the asker, with the interface's hardware address.
\<close>

theorem arp_request_answered:
  assumes "router_inv sr" and "42 \<le> length packet"
    and "ether_type (ethernet_hdr_at packet 0) = htons ethertype_arp"
    and "ar_op (arp_hdr_at packet 14) = htons arp_op_request"
    and "sr_get_interface sr name = Some i" and "ar_tip (arp_hdr_at packet 14) = if_ip i"
  shows "\<exists>f. sr_handlepacket fuel sr packet (length packet) name
           = Inr (emit f name (snd (sr_malloc sr (length packet))))
     \<and> ethernet_hdr_at f 0 = \<lparr>ether_dhost = ether_shost (ethernet_hdr_at packet 0), ether_shost = if_addr i,
          ether_type = htons ethertype_arp\<rparr>
     \<and> arp_hdr_at f 14 = \<lparr>ar_hrd = htons arp_hrd_ethernet, ar_pro = htons ethertype_ip, ar_hln = 6, ar_pln = 4,
          ar_op = htons arp_op_reply, ar_sha = if_addr i, ar_sip = if_ip i,
          ar_tha = ar_sha (arp_hdr_at packet 14), ar_tip = ar_sip (arp_hdr_at packet 14)\<rparr>"
proof -
  let ?f = "arp_reply_frame (fst (sr_malloc sr (length packet))) packet i"
  have a: "length (if_addr i) = 6" using inv_if_addr [OF assms(1,5)] .
  have "sr_handlepacket fuel sr packet (length packet) name = sr_send_arp_reply sr packet (length packet) name"
    using assms(2-6) handlepacket_arp [of packet fuel sr "length packet" name]
    by (simp add: hdr_fields sr_handle_arp_packet_def mem_simps)
  also have "\<dots> = Inr (emit ?f name (snd (sr_malloc sr (length packet))))"
    by (rule send_arp_reply_emit [OF assms(1,2) _ assms(5)]) simp
  finally show ?thesis
    using arp_reply_frame_fields(2,3) [of "fst (sr_malloc sr (length packet))" packet i] a assms(2)
    by (intro exI [of _ ?f]) simp
qed

theorem arp_request_answered_witness:
  "\<exists>f. sr_handlepacket 1 lab_router (lab_arp 1 [2, 0, 0, 0, 0, 77] [10, 0, 1, 77] [10, 0, 1, 1]) 42 ''eth1''
        = Inr (emit f ''eth1'' (snd (sr_malloc lab_router 42)))
     \<and> ar_sha (arp_hdr_at f 14) = [2, 0, 0, 0, 0, 1] \<and> ar_tip (arp_hdr_at f 14) = ipaddr 10 0 1 77"
proof -
  let ?p = "lab_arp 1 [2, 0, 0, 0, 0, 77] [10, 0, 1, 77] [10, 0, 1, 1]"
  have f: "ether_type (ethernet_hdr_at ?p 0) = htons ethertype_arp" "ar_op (arp_hdr_at ?p 14) = htons arp_op_request"
    "ar_tip (arp_hdr_at ?p 14) = if_ip lab_eth1" "length ?p = 42" "ar_sip (arp_hdr_at ?p 14) = ipaddr 10 0 1 77"
    by code_simp+
  have l: "42 \<le> length ?p" using f(4) by simp
  obtain f where "sr_handlepacket 1 lab_router ?p 42 ''eth1'' = Inr (emit f ''eth1'' (snd (sr_malloc lab_router 42)))"
    "ar_sha (arp_hdr_at f 14) = if_addr lab_eth1" "ar_tip (arp_hdr_at f 14) = ipaddr 10 0 1 77"
    using arp_request_answered [OF lab_inv l f(1,2) lab_interfaces(1) f(3), of 1] f(5)
    unfolding f(4) by auto
  then show ?thesis by (intro exI [of _ f]) (simp add: lab_eth1_def)
qed

text \<open>
  C3: An ARP reply to the router for an address with a pending request releases that request: every
  packet that waited for it is sent, in the order of the queue, to the resolved hardware
  address and from the address of its own interface; the mapping is in the cache, the request is
  gone, and no other request is touched.
\<close>

theorem arp_reply_releases_packets:
  assumes "router_inv sr" and "42 \<le> length packet"
    and "ether_type (ethernet_hdr_at packet 0) = htons ethertype_arp"
    and "ar_op (arp_hdr_at packet 14) = htons arp_op_reply"
    and "sr_get_interface sr name = Some i" and "ar_tip (arp_hdr_at packet 14) = if_ip i"
    and "r \<in> set (requests (cache sr))" and "req_ip r = ar_sip (arp_hdr_at packet 14)"
    and "sr_arpcache_lookup sr (req_ip r) = None" and "0 < arp_room sr"
  shows "\<exists>sr'. sr_handlepacket fuel sr packet (length packet) name = Inr sr'
     \<and> wire sr' = wire sr @ map (pending_message sr (ar_sha (arp_hdr_at packet 14))) (req_packets r)
     \<and> arp_lookup sr' (req_ip r) = Some (ar_sha (arp_hdr_at packet 14))
     \<and> (\<forall>q \<in> set (requests (cache sr')). req_ip q \<noteq> req_ip r)
     \<and> (\<forall>q \<in> set (requests (cache sr)). req_ip q \<noteq> req_ip r \<longrightarrow> q \<in> set (requests (cache sr')))"
proof -
  have run: "sr_handlepacket fuel sr packet (length packet) name = sr_handle_arp_packet sr packet (length packet) name"
    using assms(2,3) by (intro handlepacket_arp) auto
  have "\<exists>sr'. sr_handle_arp_packet sr packet (length packet) name = Inr sr'
     \<and> wire sr' = wire sr @ map (pending_message sr (slice packet 22 6)) (req_packets r)
     \<and> entries (cache sr') = entries (cache (arp_learn sr (slice packet 22 6) (req_ip r)))
     \<and> (\<forall>q \<in> set (requests (cache sr')). req_ip q \<noteq> req_ip r)
     \<and> (\<forall>q \<in> set (requests (cache sr)). req_ip q \<noteq> req_ip r \<longrightarrow> q \<in> set (requests (cache sr')))"
    by (rule arp_reply_releases [OF assms(1,2) order_refl assms(5) _ _ assms(7)])
       (use assms(4,6,8) in \<open>simp_all add: hdr_fields\<close>)
  then obtain sr' where sr': "sr_handle_arp_packet sr packet (length packet) name = Inr sr'"
    "wire sr' = wire sr @ map (pending_message sr (slice packet 22 6)) (req_packets r)"
    and ent: "entries (cache sr') = entries (cache (arp_learn sr (slice packet 22 6) (req_ip r)))"
    and rest: "\<forall>q \<in> set (requests (cache sr')). req_ip q \<noteq> req_ip r"
      "\<forall>q \<in> set (requests (cache sr)). req_ip q \<noteq> req_ip r \<longrightarrow> q \<in> set (requests (cache sr'))"
    by blast
  have "arp_lookup (arp_learn sr (slice packet 22 6) (req_ip r)) (req_ip r) = Some (slice packet 22 6)"
    using assms(1,9,10) by (intro arp.lookup_learn_same) (simp_all add: router_inv_def arp_lookup_def)
  then have "arp_lookup sr' (req_ip r) = Some (slice packet 22 6)"
    using ent by (simp add: arp_lookup_def sr_arpcache_lookup_def)
  with run sr' rest show ?thesis by (simp add: hdr_fields)
qed

definition lab_waiting :: sr_instance where
  "lab_waiting = lab_router\<lparr>next_addr := 2, cache := (cache lab_router)\<lparr>requests :=
     [\<lparr>req_id = 1, req_ip = ipaddr 172 16 0 2, req_sent = 99, req_times_sent = 1,
       req_packets = [\<lparr>pkt_buf = lab_ip 63 17 [10, 0, 1, 100] [8, 8, 8, 8] [1, 2, 3, 4, 5, 6, 7, 8], pkt_len = 42,
                       pkt_iface = ''eth2''\<rparr>]\<rparr>]\<rparr>\<rparr>"

lemma lab_waiting_facts:
  "router_inv lab_waiting" "no_exhausted lab_waiting" "sr_get_interface lab_waiting ''eth2'' = Some lab_eth2"
  "sr_arpcache_lookup lab_waiting (ipaddr 172 16 0 2) = None" "0 < arp_room lab_waiting"
proof -
  have g: "sr_get_interface lab_waiting = sr_get_interface lab_router" by (simp add: lab_waiting_def)
  show "sr_get_interface lab_waiting ''eth2'' = Some lab_eth2" using lab_interfaces g by simp
  then show "router_inv lab_waiting"
    using lab_inv by (simp add: router_inv_defs ifs_wf_def lab_waiting_def)
  show "no_exhausted lab_waiting" by (simp add: no_exhausted_def lab_waiting_def)
  have "ipaddr 172 16 0 2 \<noteq> ipaddr 10 0 1 100" by code_simp
  then show "sr_arpcache_lookup lab_waiting (ipaddr 172 16 0 2) = None"
    using lab_lookup by (simp add: lab_waiting_def sr_arpcache_lookup_def)
  show "0 < arp_room lab_waiting"
    by (simp add: arp_room_def lab_waiting_def lab_router_def lab_unused_def)
qed

theorem arp_reply_releases_packets_witness:
  "\<exists>sr'. sr_handlepacket 1 lab_waiting (lab_arp 2 [2, 0, 0, 0, 0, 99] [172, 16, 0, 2] [172, 16, 0, 1]) 42 ''eth2'' = Inr sr'
     \<and> length (wire sr') = 1 \<and> ipaddr 172 16 0 2 \<notin> req_ip ` set (requests (cache sr'))
     \<and> arp_lookup sr' (ipaddr 172 16 0 2) = Some [2, 0, 0, 0, 0, 99]"
proof -
  let ?p = "lab_arp 2 [2, 0, 0, 0, 0, 99] [172, 16, 0, 2] [172, 16, 0, 1]"
  let ?r = "hd (requests (cache lab_waiting))"
  have f: "ether_type (ethernet_hdr_at ?p 0) = htons ethertype_arp" "ar_op (arp_hdr_at ?p 14) = htons arp_op_reply"
    "ar_tip (arp_hdr_at ?p 14) = if_ip lab_eth2" "length ?p = 42"
    "ar_sip (arp_hdr_at ?p 14) = ipaddr 172 16 0 2" "ar_sha (arp_hdr_at ?p 14) = [2, 0, 0, 0, 0, 99]"
    by code_simp+
  have l: "42 \<le> length ?p" using f(4) by simp
  have r: "?r \<in> set (requests (cache lab_waiting))" "req_ip ?r = ipaddr 172 16 0 2" "length (req_packets ?r) = 1"
    "wire lab_waiting = []"
    by (simp_all add: lab_waiting_def lab_router_def)
  obtain sr' where s: "sr_handlepacket 1 lab_waiting ?p 42 ''eth2'' = Inr sr'"
    "wire sr' = map (pending_message lab_waiting [2, 0, 0, 0, 0, 99]) (req_packets ?r)"
    "arp_lookup sr' (ipaddr 172 16 0 2) = Some [2, 0, 0, 0, 0, 99]"
    "\<forall>q \<in> set (requests (cache sr')). req_ip q \<noteq> ipaddr 172 16 0 2"
    using arp_reply_releases_packets [OF lab_waiting_facts(1) l f(1,2) lab_waiting_facts(3) f(3) r(1), of 1]
      lab_waiting_facts(4,5) f(5,6) r(2,4) unfolding f(4) by auto
  then show ?thesis using r(3) by (intro exI [of _ sr']) auto
qed

end
