(* ===== verification/Sr_Hwinfo.thy ===== *)
theory Sr_Hwinfo
  imports Sr_Vns
begin

text \<open>
  Hardware information: the message that describes a list of interfaces, what handling it does to
  the list, and what it leaves alone.
\<close>

section \<open>The message\<close>

text \<open>The message that describes a list of interfaces, three entries each.\<close>

definition hw_encode_entry :: "u32 \<Rightarrow> bytes \<Rightarrow> bytes" where
  "hw_encode_entry key v = bytes32 (htonl key) @ v @ replicate (32 - length v) 0"

definition hw_encode_if :: "string \<times> bytes \<times> u32 \<Rightarrow> bytes list" where
  "hw_encode_if = (\<lambda>(name, mac, ip). [hw_encode_entry HWINTERFACE (map char_byte name),
     hw_encode_entry HWETHER mac, hw_encode_entry HWETHIP (bytes32 ip)])"

definition hw_encode :: "(string \<times> bytes \<times> u32) list \<Rightarrow> bytes" where
  "hw_encode is = bytes32 (htonl (of_nat (8 + 108 * length is))) @ bytes32 (htonl 16)
     @ concat (concat (map hw_encode_if is))"

definition hw_describable :: "string \<times> bytes \<times> u32 \<Rightarrow> bool" where
  "hw_describable = (\<lambda>(name, mac, ip). length name \<le> 32 \<and> CHR 0x00 \<notin> set name \<and> length mac = 6)"

definition if_description :: "sr_if \<Rightarrow> string \<times> bytes \<times> u32" where
  "if_description i = (if_name i, if_addr i, if_ip i)"

lemma slice_blocks:
  assumes "\<forall>e \<in> set es. length e = 36" and "i < length es" and "j + m \<le> 36"
  shows "slice (concat es) (36 * i + j) m = slice (es ! i) j m"
  using assms
proof (induction es arbitrary: i)
  case (Cons e es)
  show ?case
  proof (cases i)
    case 0
    then show ?thesis using Cons.prems by (simp add: slice_def)
  next
    case (Suc k)
    then show ?thesis using Cons.prems Cons.IH [of k] by (simp add: slice_def)
  qed
qed simp

lemma load_blocks:
  assumes "\<forall>e \<in> set es. length e = 36" and "i < length es" and "j + m \<le> 36" and "length h = 8"
  shows "load_bytes (h @ concat es) (8 + j + 36 * i) m = load_bytes (replicate 8 0 @ es ! i) (8 + j) m"
proof -
  have "length (concat es) = 36 * length es"
    using assms(1) by (induction es) auto
  then have "8 + j + 36 * i + m \<le> length (h @ concat es)" using assms(2-4) by simp
  moreover have "8 + j + m \<le> length (replicate 8 0 @ es ! i)" using assms(1-3) by simp
  moreover have "slice (h @ concat es) (8 + j + 36 * i) m = slice (concat es) (36 * i + j) m"
    using assms(4) by (simp add: slice_def add.commute add.left_commute)
  moreover have "slice (replicate 8 0 @ es ! i) (8 + j) m = slice (es ! i) j m"
    by (simp add: slice_def)
  ultimately show ?thesis using slice_blocks [OF assms(1-3)] by (simp add: load_bytes_def)
qed

lemma hw_entry_block:
  assumes "\<forall>e \<in> set es. length e = 36" and "i < length es" and "length h = 8"
  shows "hw_entry sr (h @ concat es) i = hw_entry sr (replicate 8 0 @ es ! i) 0"
  using load_blocks [OF assms(1,2) _ assms(3), of 0 4] load_blocks [OF assms(1,2) _ assms(3), of 4 4]
    load_blocks [OF assms(1,2) _ assms(3), of 4 32]
  by (simp add: hw_entry_def load32_def cong: if_cong)

fun hw_run :: "sr_instance \<Rightarrow> bytes list \<Rightarrow> fault + sr_instance" where
  "hw_run sr [] = Inr sr"
| "hw_run sr (e # es) = bindR (hw_entry sr (replicate 8 0 @ e) 0) (\<lambda>sr. hw_run sr es)"

lemma hw_loop_run:
  assumes "\<forall>e \<in> set es. length e = 36" and "length h = 8" and "i + n = length es"
  shows "hw_loop n i sr (h @ concat es) = hw_run sr (drop i es)"
  using assms(3)
proof (induction n arbitrary: i sr)
  case (Suc n)
  then have "drop i es = es ! i # drop (Suc i) es" by (simp add: Cons_nth_drop_Suc)
  moreover have "hw_entry sr (h @ concat es) i = hw_entry sr (replicate 8 0 @ es ! i) 0"
    using Suc.prems by (intro hw_entry_block assms(1,2)) simp
  moreover have "hw_loop n (Suc i) x (h @ concat es) = hw_run x (drop (Suc i) es)" for x
    using Suc by simp
  ultimately show ?case by simp
qed simp

lemma hw_run_append: "hw_run sr (xs @ ys) = bindR (hw_run sr xs) (\<lambda>sr. hw_run sr ys)"
  by (induction xs arbitrary: sr) (simp_all add: bindR_assoc)

lemma length_hw_encode_entry [simp]: "length v \<le> 32 \<Longrightarrow> length (hw_encode_entry k v) = 36"
  by (simp add: hw_encode_entry_def)

lemma cstring_padded:
  assumes "CHR 0x00 \<notin> set name"
  shows "cstring (map char_byte name @ replicate n 0) = name"
proof -
  have "takeWhile (\<lambda>b. b \<noteq> 0) (map char_byte name @ replicate n 0) = map char_byte name"
    using assms by (subst takeWhile_append2) (auto simp: takeWhile_eq_Nil_iff)
  then show ?thesis by (simp add: cstring_def comp_def)
qed

lemma hw_entry_key:
  assumes "length v \<le> 32"
  shows "load32 (replicate 8 0 @ hw_encode_entry k v) 8 = Inr (htonl k)"
    and "load_bytes (replicate 8 0 @ hw_encode_entry k v) 12 32 = Inr (v @ replicate (32 - length v) 0)"
  using assms by (simp_all add: load32_def load_bytes_def hw_encode_entry_def slice_def)

lemma hw_run_if:
  assumes "hw_describable d"
  shows "\<exists>sr' i. hw_run sr (hw_encode_if d) = Inr sr' \<and> if_list sr' = if_list sr @ [i] \<and> if_description i = d"
proof -
  obtain name mac ip where d: "d = (name, mac, ip)" by (cases d)
  have n: "length (map char_byte name) \<le> 32" "CHR 0x00 \<notin> set name" "length mac \<le> 32" "length mac = 6"
    using assms by (simp_all add: d hw_describable_def)
  let ?sr = "sr_add_interface sr name"
  obtain b sr1 where m: "sr_malloc sr 56 = (b, sr1)" by fastforce
  then have l: "if_list sr1 = if_list sr" by (auto simp: sr_malloc_def)
  have a: "if_list ?sr = if_list sr @ [sr_if_of_block b name]"
    using m l by (simp add: sr_add_interface_def)
  have e1: "hw_entry sr (replicate 8 0 @ hw_encode_entry HWINTERFACE (map char_byte name)) 0 = Inr ?sr"
    using hw_entry_key [OF n(1), of HWINTERFACE] n(2) by (simp add: hw_entry_def cstring_padded del: length_map)
  have e2: "hw_entry ?sr (replicate 8 0 @ hw_encode_entry HWETHER mac) 0
      = Inr (?sr\<lparr>if_list := if_list sr @ [(sr_if_of_block b name)\<lparr>if_addr := mac\<rparr>]\<rparr>)"
    using hw_entry_key [OF n(3), of HWETHER] n(4)
    by (simp add: hw_entry_def sr_set_ether_addr_def a load_bytes_def slice_def)
  let ?sr2 = "?sr\<lparr>if_list := if_list sr @ [(sr_if_of_block b name)\<lparr>if_addr := mac\<rparr>]\<rparr>"
  have "load32 (replicate 8 0 @ hw_encode_entry HWETHIP (bytes32 ip)) 12 = Inr ip"
    by (simp add: load32_def load_bytes_def hw_encode_entry_def slice_def)
  then have e3: "hw_entry ?sr2 (replicate 8 0 @ hw_encode_entry HWETHIP (bytes32 ip)) 0
      = Inr (?sr2\<lparr>if_list := if_list sr @ [(sr_if_of_block b name)\<lparr>if_addr := mac, if_ip := ip\<rparr>]\<rparr>)"
    using hw_entry_key(1) [of "bytes32 ip" HWETHIP] by (simp add: hw_entry_def sr_set_ether_ip_def)
  show ?thesis
    using e1 e2 e3 n(1)
    by (simp add: d hw_encode_if_def if_description_def sr_if_of_block_def strncpy_def)
qed

lemma hw_run_ifs:
  assumes "\<forall>d \<in> set is. hw_describable d"
  shows "\<exists>sr'. hw_run sr (concat (map hw_encode_if is)) = Inr sr'
           \<and> map if_description (if_list sr') = map if_description (if_list sr) @ is"
  using assms
proof (induction "is" arbitrary: sr)
  case (Cons d "is")
  obtain sr1 i where 1: "hw_run sr (hw_encode_if d) = Inr sr1" "if_list sr1 = if_list sr @ [i]" "if_description i = d"
    using hw_run_if Cons.prems by (meson list.set_intros(1))
  obtain sr' where "hw_run sr1 (concat (map hw_encode_if is)) = Inr sr'"
    "map if_description (if_list sr') = map if_description (if_list sr1) @ is"
    using Cons by (metis list.set_intros(2))
  with 1 show ?case by (simp add: hw_run_append)
qed simp

text \<open>The message whose type has any value, as the handler sees it.\<close>

definition hw_message :: "bytes \<Rightarrow> (string \<times> bytes \<times> u32) list \<Rightarrow> bytes" where
  "hw_message t is = bytes32 (htonl (of_nat (8 + 108 * length is))) @ t @ concat (concat (map hw_encode_if is))"

lemma handle_hwinfo_ifs:
  assumes "list_all hw_describable is" and "length is \<le> 92" and "length t = 4"
  shows "\<exists>sr'. sr_handle_hwinfo sr (hw_message t is) = Inr (int (3 * length is), sr')
     \<and> map if_description (if_list sr') = map if_description (if_list sr) @ is"
proof -
  let ?h = "bytes32 (htonl (of_nat (8 + 108 * length is))) @ t"
  let ?es = "concat (map hw_encode_if is)"
  have d: "\<forall>d \<in> set is. hw_describable d" using assms(1) by (simp add: list_all_iff)
  have len: "\<forall>e \<in> set ?es. length e = 36"
    using d by (auto simp: hw_encode_if_def hw_describable_def)
  have n: "length ?es = 3 * length is" by (induction "is") (auto simp: hw_encode_if_def)
  have k: "hw_num_entries (htonl (of_nat (8 + 108 * length is))) = int (3 * length is)"
    using hw_num_entries_value [of "8 + 108 * length is"] assms(2) by simp
  have m: "load32 (?h @ concat ?es) 0 = Inr (htonl (of_nat (8 + 108 * length is)))"
    using assms(3) by (simp add: load32_def load_bytes_def slice_def)
  obtain sr' where "hw_run sr ?es = Inr sr'"
    "map if_description (if_list sr') = map if_description (if_list sr) @ is"
    using hw_run_ifs [OF d] by blast
  then show ?thesis
    using hw_loop_run [OF len, of ?h 0 "3 * length is" sr] n k m assms(3)
    by (simp add: sr_handle_hwinfo_def hw_message_def nat_mult_distrib)
qed

section \<open>What hardware information leaves alone\<close>

definition same_but_ifs :: "sr_instance \<Rightarrow> sr_instance \<Rightarrow> bool" where
  "same_but_ifs sr sr' \<longleftrightarrow> sr'\<lparr>if_list := [], ticks := 0\<rparr> = sr\<lparr>if_list := [], ticks := 0\<rparr>
     \<and> (\<exists>names. map if_name (if_list sr') = map if_name (if_list sr) @ names)"

lemma same_but_ifs_refl [simp]: "same_but_ifs sr sr"
  by (simp add: same_but_ifs_def)

lemma same_but_ifs_trans: "same_but_ifs a b \<Longrightarrow> same_but_ifs b c \<Longrightarrow> same_but_ifs a c"
  by (auto simp: same_but_ifs_def)

lemma same_but_ifs_fields:
  assumes "same_but_ifs sr sr'"
  shows "routing_table sr' = routing_table sr" "cache sr' = cache sr" "wire sr' = wire sr" "next_addr sr' = next_addr sr"
    "user sr' = user sr" "host sr' = host sr" "env sr' = env sr" "saved_files sr' = saved_files sr"
  using assms unfolding same_but_ifs_def by (auto dest: arg_cong [of _ _ routing_table] arg_cong [of _ _ cache]
      arg_cong [of _ _ wire] arg_cong [of _ _ next_addr] arg_cong [of _ _ user] arg_cong [of _ _ host]
      arg_cong [of _ _ env] arg_cong [of _ _ saved_files])

lemma sr_get_interface_names:
  "sr_get_interface sr name \<noteq> None \<longleftrightarrow> (\<exists>n \<in> set (map if_name (if_list sr)). strncmp_eq sr_IFACE_NAMELEN n name)"
  by (auto simp: sr_get_interface_def if_walk_None)

lemma same_but_ifs_found:
  assumes "same_but_ifs sr sr'" and "sr_get_interface sr name \<noteq> None"
  shows "sr_get_interface sr' name \<noteq> None"
proof -
  obtain names where "map if_name (if_list sr') = map if_name (if_list sr) @ names"
    using assms(1) by (auto simp: same_but_ifs_def)
  with assms(2) show ?thesis unfolding sr_get_interface_names by auto
qed

lemma update_last_names: "map if_name (update_last (\<lambda>i. i\<lparr>if_addr := a\<rparr>) is) = map if_name is"
  "map if_name (update_last (\<lambda>i. i\<lparr>if_ip := p\<rparr>) is) = map if_name is"
  by (cases "is" rule: rev_cases; simp)+

lemma hw_entry_same:
  assumes "hw_entry sr hwinfo i = Inr sr'"
  shows "same_but_ifs sr sr'" and "ifs_wf sr \<Longrightarrow> ifs_wf sr'"
proof -
  show "same_but_ifs sr sr'"
    using assms
    by (auto simp: hw_entry_def same_but_ifs_def sr_add_interface_def sr_malloc_def sr_set_ether_addr_def
        sr_set_ether_ip_def update_last_names Let_def split: if_splits)
  show "ifs_wf sr \<Longrightarrow> ifs_wf sr'"
    using assms unfolding hw_entry_def
    by (auto split: if_splits intro: sr_add_interface_wf sr_set_ether_addr_wf sr_set_ether_ip_wf)
qed

lemma hw_loop_same:
  "hw_loop n i sr hwinfo = Inr sr' \<Longrightarrow> same_but_ifs sr sr' \<and> (ifs_wf sr \<longrightarrow> ifs_wf sr')"
proof (induction n arbitrary: i sr)
  case (Suc n)
  then obtain sr1 where "hw_entry sr hwinfo i = Inr sr1" "hw_loop n (Suc i) sr1 hwinfo = Inr sr'" by auto
  then show ?case using Suc.IH [of "Suc i" sr1] hw_entry_same [of sr hwinfo i sr1] same_but_ifs_trans by blast
qed simp

lemma handle_hwinfo_same:
  "sr_handle_hwinfo sr hwinfo = Inr (n, sr') \<Longrightarrow> same_but_ifs sr sr' \<and> (ifs_wf sr \<longrightarrow> ifs_wf sr')"
  by (auto simp: sr_handle_hwinfo_def Let_def dest: hw_loop_same)

text \<open>New interfaces do not disturb the invariant.\<close>

lemma router_inv_hwinfo:
  assumes "sr_handle_hwinfo sr hwinfo = Inr (n, sr')" and "router_inv sr"
  shows "router_inv sr'"
proof -
  have s: "same_but_ifs sr sr'" and w: "ifs_wf sr'"
    using handle_hwinfo_same [OF assms(1)] assms(2) by (auto simp: router_inv_def)
  note f = same_but_ifs_fields [OF s]
  have "pkt_wf sr p \<Longrightarrow> pkt_wf sr' p" for p using same_but_ifs_found [OF s] by (simp add: pkt_wf_def)
  then have "reqs_wf sr'" using assms(2) by (auto simp: router_inv_def reqs_wf_def req_wf_def f)
  then show ?thesis using assms(2) w by (simp add: router_inv_def arp_wf_def macs_wf_def f)
qed

end
