(* ===== verification/Sr_Load.thy ===== *)
theory Sr_Load
  imports Sr_Rt C_Text
begin

text \<open>
  The routing table file: \<open>sr_load_rt\<close> of \<^verbatim>\<open>router/sr_rt.c\<close>.  A file is its characters, or none if
  it cannot be read.  The four buffers \<open>sscanf\<close> fills keep their contents from one line to the
  next and start with whatever is on the stack.
\<close>

abbreviation (input) BUFSIZ :: nat where "BUFSIZ \<equiv> 8192"

section \<open>Loading\<close>

record scan_buffers =
  sb_dest :: string
  sb_gw :: string
  sb_mask :: string
  sb_iface :: string

text \<open>\<open>sscanf(line, "%s %s %s %s", dest, gw, mask, iface)\<close>; each buffer has 32 characters.\<close>

definition scan_line :: "scan_buffers \<Rightarrow> string \<Rightarrow> fault + scan_buffers" where
  "scan_line sb line =
     (let ws = scan_words 4 (takeWhile (\<lambda>c. c \<noteq> NUL) line)
      in if \<exists>w \<in> set ws. 32 \<le> length w then Inl OutOfBounds
         else Inr \<lparr>sb_dest = (if length ws > 0 then ws ! 0 else sb_dest sb),
                   sb_gw = (if length ws > 1 then ws ! 1 else sb_gw sb),
                   sb_mask = (if length ws > 2 then ws ! 2 else sb_mask sb),
                   sb_iface = (if length ws > 3 then ws ! 3 else sb_iface sb)\<rparr>)"

text \<open>
  One line: none if an address cannot be converted.  \<open>cleared\<close> tells whether the old table has
  been dropped, which happens at the first line that can be converted.
\<close>

definition load_line :: "scan_buffers \<Rightarrow> bool \<Rightarrow> sr_instance \<Rightarrow> sr_instance option" where
  "load_line sb cleared sr =
     (case inet_aton (sb_dest sb) of
        None \<Rightarrow> None
      | Some dest_addr \<Rightarrow>
          (case inet_aton (sb_gw sb) of
             None \<Rightarrow> None
           | Some gw_addr \<Rightarrow>
               (case inet_aton (sb_mask sb) of
                  None \<Rightarrow> None
                | Some mask_addr \<Rightarrow>
                    (let sr = (if cleared then sr else sr\<lparr>routing_table := []\<rparr>)
                     in Some (sr_add_rt_entry sr dest_addr gw_addr mask_addr (sb_iface sb))))))"

function load_lines :: "scan_buffers \<Rightarrow> bool \<Rightarrow> sr_instance \<Rightarrow> string \<Rightarrow> fault + int \<times> sr_instance" where
  "load_lines sb cleared sr contents =
     (case fgets BUFSIZ contents of
        None \<Rightarrow> Inr (0, sr)
      | Some (line, rest) \<Rightarrow>
          (case scan_line sb line of
             Inl e \<Rightarrow> Inl e
           | Inr sb \<Rightarrow>
               (case load_line sb cleared sr of
                  None \<Rightarrow> Inr (-1, sr)
                | Some sr \<Rightarrow> load_lines sb True sr rest)))"
  by pat_completeness auto
termination
  by (relation "measure (\<lambda>(_, _, _, contents). length contents)") (auto dest: fgets_shrinks)

declare load_lines.simps [simp del]

definition sr_load_rt :: "scan_buffers \<Rightarrow> sr_instance \<Rightarrow> string option \<Rightarrow> fault + int \<times> sr_instance" where
  "sr_load_rt sb sr contents = (case contents of None \<Rightarrow> Inr (-1, sr) | Some text \<Rightarrow> load_lines sb False sr text)"

section \<open>Tables as text\<close>

definition rt_line :: "sr_rt \<Rightarrow> string" where
  "rt_line r = dotted (rt_dest r) @ '' '' @ dotted (rt_gw r) @ '' '' @ dotted (rt_mask r) @ '' '' @ rt_interface r @ [LF]"

definition rt_text :: "sr_rt list \<Rightarrow> string" where
  "rt_text rs = concat (map rt_line rs)"

text \<open>Entries that can be written: an interface name that is a word of at most 31 characters.\<close>

definition rt_printable :: "sr_rt \<Rightarrow> bool" where
  "rt_printable r \<longleftrightarrow> word_ok (rt_interface r) \<and> length (rt_interface r) < 32"

definition buffers_of :: "sr_rt \<Rightarrow> scan_buffers" where
  "buffers_of r = \<lparr>sb_dest = dotted (rt_dest r), sb_gw = dotted (rt_gw r), sb_mask = dotted (rt_mask r), sb_iface = rt_interface r\<rparr>"

lemma word_chars: "word_ok w \<Longrightarrow> NUL \<notin> set w \<and> LF \<notin> set w"
  using is_space_simps(2) unfolding word_ok_def by blast

lemma takeWhile_not_nul: "NUL \<notin> set s \<Longrightarrow> takeWhile (\<lambda>c. c \<noteq> NUL) s = s"
  by (induction s) auto

text \<open>Fields may be separated by any blanks.\<close>

definition blank :: "string \<Rightarrow> bool" where
  "blank s \<longleftrightarrow> s \<noteq> [] \<and> length s \<le> 100 \<and> (\<forall>c \<in> set s. is_space c \<and> c \<noteq> LF)"

definition line_of :: "string \<Rightarrow> sr_rt \<Rightarrow> bool" where
  "line_of l r \<longleftrightarrow> rt_printable r \<and> (\<exists>s1 s2 s3. blank s1 \<and> blank s2 \<and> blank s3
     \<and> l = dotted (rt_dest r) @ s1 @ dotted (rt_gw r) @ s2 @ dotted (rt_mask r) @ s3 @ rt_interface r @ [LF])"

lemma blank_SP: "blank '' ''"
  by (simp add: blank_def)

lemma line_of_rt_line: "rt_printable r \<Longrightarrow> line_of (rt_line r) r"
  unfolding line_of_def rt_line_def using blank_SP by blast

lemma scan_words_blank: "blank s \<Longrightarrow> scan_words n (s @ t) = scan_words n t"
proof -
  have "\<forall>c \<in> set s. is_space c \<Longrightarrow> scan_words n (s @ t) = scan_words n t"
    by (induction s) (simp_all add: scan_words_space)
  then show "blank s \<Longrightarrow> ?thesis" by (simp add: blank_def)
qed

lemma blank_hd: "blank s \<Longrightarrow> is_space (hd (s @ t))"
  by (cases s) (simp_all add: blank_def)

lemma not_space_NUL: "\<not> is_space NUL"
  by (simp add: is_space_def)

lemma blank_chars: "blank s \<Longrightarrow> NUL \<notin> set s \<and> LF \<notin> set s"
  using not_space_NUL unfolding blank_def by blast

lemma scan_rt_line:
  assumes "line_of l r"
  shows "scan_line sb l = Inr (buffers_of r)"
proof -
  from assms obtain s1 s2 s3 where s: "blank s1" "blank s2" "blank s3" and i: "word_ok (rt_interface r)" "length (rt_interface r) < 32"
    and l: "l = dotted (rt_dest r) @ s1 @ dotted (rt_gw r) @ s2 @ dotted (rt_mask r) @ s3 @ rt_interface r @ [LF]"
    by (auto simp: line_of_def rt_printable_def)
  note w = dotted_word [of "rt_dest r"] dotted_word [of "rt_gw r"] dotted_word [of "rt_mask r"]
  have n: "takeWhile (\<lambda>c. c \<noteq> NUL) l = l"
    using w [THEN word_chars] word_chars [OF i(1)] s [THEN blank_chars] by (intro takeWhile_not_nul) (simp add: l)
  have f: "scan_words (Suc n) (w @ b @ t) = w # scan_words n t" if "word_ok w" "blank b" for n w b t
    using scan_word_first [OF that(1), of "b @ t"] blank_hd [OF that(2)] scan_words_blank [OF that(2)] by simp
  have "scan_words (Suc 0) (rt_interface r @ [LF]) = [rt_interface r]"
    using scan_word_first [OF i(1), of "[LF]" 0] by simp
  then have "scan_words (Suc (Suc (Suc (Suc 0)))) l = [dotted (rt_dest r), dotted (rt_gw r), dotted (rt_mask r), rt_interface r]"
    unfolding l f [OF w(1) s(1)] f [OF w(2) s(2)] f [OF w(3) s(3)] by simp
  then have "scan_words 4 l = [dotted (rt_dest r), dotted (rt_gw r), dotted (rt_mask r), rt_interface r]"
    by (simp only: eval_nat_numeral BitM.simps One_nat_def numeral_3_eq_3)
  then show ?thesis using dotted_length i(2) by (simp add: scan_line_def n buffers_of_def Let_def not_le)
qed

lemma fgets_rt_line:
  assumes "line_of l r"
  shows "fgets BUFSIZ (l @ rest) = Some (l, rest)"
proof -
  from assms obtain s1 s2 s3 where s: "blank s1" "blank s2" "blank s3" and i: "word_ok (rt_interface r)" "length (rt_interface r) < 32"
    and l: "l = (dotted (rt_dest r) @ s1 @ dotted (rt_gw r) @ s2 @ dotted (rt_mask r) @ s3 @ rt_interface r) @ [LF]"
    by (auto simp: line_of_def rt_printable_def)
  let ?l = "dotted (rt_dest r) @ s1 @ dotted (rt_gw r) @ s2 @ dotted (rt_mask r) @ s3 @ rt_interface r"
  have "LF \<notin> set ?l" using word_chars [OF dotted_word] word_chars [OF i(1)] s [THEN blank_chars] by auto
  moreover have "length ?l + 1 < BUFSIZ"
    using dotted_length [of "rt_dest r"] dotted_length [of "rt_gw r"] dotted_length [of "rt_mask r"] i(2) s
    by (simp add: blank_def)
  ultimately show ?thesis using fgets_line [of ?l BUFSIZ rest] by (simp add: l)
qed

lemma load_buffers_of:
  assumes "rt_printable r"
  shows "load_line (buffers_of r) cleared sr =
    Some (sr\<lparr>routing_table := (if cleared then routing_table sr else []) @ [r]\<rparr>)"
  using assms by (simp add: load_line_def buffers_of_def inet_aton_dotted sr_add_rt_entry_def rt_printable_def strncpy_def)

text \<open>The lines of a table, one after the other, whatever follows them.\<close>

lemma load_rt_lines:
  assumes "list_all2 line_of (l # ls) (r # rs)"
  shows "load_lines sb cleared sr (concat (l # ls) @ rest) =
    load_lines (buffers_of (last (r # rs))) True
      (sr\<lparr>routing_table := (if cleared then routing_table sr else []) @ r # rs\<rparr>) rest"
  using assms
proof (induction rs arbitrary: l ls r sb cleared sr)
  case Nil
  then have l: "line_of l r" "ls = []" "rt_printable r" by (simp_all add: line_of_def)
  then show ?case
    by (subst load_lines.simps) (simp add: fgets_rt_line [OF l(1)] scan_rt_line [OF l(1)] load_buffers_of)
next
  case (Cons r' rs)
  from Cons.prems obtain l' ls' where ls: "ls = l' # ls'" "list_all2 line_of (l' # ls') (r' # rs)" and l: "line_of l r"
    by (auto simp: list_all2_Cons2)
  then have p: "rt_printable r" by (simp add: line_of_def)
  have "load_lines sb cleared sr (concat (l # ls) @ rest) =
      load_lines (buffers_of r) True (sr\<lparr>routing_table := (if cleared then routing_table sr else []) @ [r]\<rparr>) (concat (l' # ls') @ rest)"
    using fgets_rt_line [OF l, of "concat (l' # ls') @ rest"]
    by (subst load_lines.simps) (simp add: ls(1) scan_rt_line [OF l] load_buffers_of [OF p])
  then show ?case using Cons.IH [OF ls(2), of "buffers_of r" True] by simp
qed

lemma load_rt_text:
  assumes "list_all rt_printable (r # rs)"
  shows "load_lines sb cleared sr (rt_text (r # rs) @ rest) =
    load_lines (buffers_of (last (r # rs))) True
      (sr\<lparr>routing_table := (if cleared then routing_table sr else []) @ r # rs\<rparr>) rest"
proof -
  have "list_all rt_printable xs \<Longrightarrow> list_all2 line_of (map rt_line xs) xs" for xs
    by (induction xs) (simp_all add: line_of_rt_line)
  then have "list_all2 line_of (map rt_line (r # rs)) (r # rs)" using assms by blast
  then show ?thesis using load_rt_lines [of "rt_line r" "map rt_line rs"] by (simp add: rt_text_def)
qed

lemma load_lines_end [simp]: "load_lines sb cleared sr [] = Inr (0, sr)"
  by (simp add: load_lines.simps fgets_def)

text \<open>A line without words repeats the entry of the line before it.\<close>

lemma load_blank_line:
  assumes "rt_printable r"
  shows "load_lines (buffers_of r) True sr (LF # rest) =
    load_lines (buffers_of r) True (sr\<lparr>routing_table := routing_table sr @ [r]\<rparr>) rest"
proof -
  have "fgets BUFSIZ (LF # rest) = Some ([LF], rest)" using fgets_line [of "[]" BUFSIZ rest] by simp
  moreover have "scan_line (buffers_of r) [LF] = Inr (buffers_of r)"
    by (simp add: scan_line_def numeral_eq_Suc scan_words_space) 
  ultimately show ?thesis
    by (subst load_lines.simps) (simp add: load_buffers_of [OF assms])
qed

text \<open>Whatever the contents holds, only the routing table changes.\<close>

lemma load_lines_frame:
  "load_lines sb cleared sr contents = Inr (rc, sr') \<Longrightarrow> \<exists>rs. sr' = sr\<lparr>routing_table := rs\<rparr>"
proof (induction sb cleared sr contents arbitrary: sr' rule: load_lines.induct)
  case (1 sb cleared sr contents)
  have same: "\<exists>rs. sr = sr\<lparr>routing_table := rs\<rparr>" by (rule exI [of _ "routing_table sr"]) simp
  show ?case
  proof (cases "fgets BUFSIZ contents")
    case None
    then show ?thesis using 1(2) same by (subst (asm) load_lines.simps) auto
  next
    case (Some p)
    obtain line rest where p: "p = (line, rest)" by (cases p)
    show ?thesis
    proof (cases "scan_line sb line")
      case (Inr sb')
      show ?thesis
      proof (cases "load_line sb' cleared sr")
        case None
        then show ?thesis using 1(2) same Some p Inr by (subst (asm) load_lines.simps) auto
      next
        case (Some sr1)
        then have "\<exists>rs. sr1 = sr\<lparr>routing_table := rs\<rparr>"
          by (auto simp: load_line_def sr_add_rt_entry_def Let_def split: option.splits)
        moreover have "load_lines sb' True sr1 rest = Inr (rc, sr')"
          using 1(2) \<open>fgets BUFSIZ contents = Some p\<close> p Inr Some by (subst (asm) load_lines.simps) simp
        ultimately show ?thesis using 1(1) [OF \<open>fgets BUFSIZ contents = Some p\<close> p [symmetric] Inr Some] by force
      qed
    qed (use 1(2) Some p in \<open>subst (asm) load_lines.simps, auto\<close>)
  qed
qed

end
