(* ===== verification/Sr_Main.thy ===== *)
theory Sr_Main
  imports Sr_Hwinfo Sr_Load
begin

text \<open>
  The program of the router, \<^verbatim>\<open>router/sr_main.c\<close> with \<open>sr_connect_to_server\<close> of
  \<^verbatim>\<open>router/sr_vns_comm.c\<close>: options, start-up, the loop over the commands of the server.  What the
  operating system does is a record; what the server sends is the list of results of \<open>recv\<close>.  A
  list that is used up means that the program waits.
\<close>

section \<open>Options\<close>

record main_options =
  opt_host :: string
  opt_user :: "string option"
  opt_server :: string
  opt_rtable :: string
  opt_template :: "string option"
  opt_port :: u32
  opt_topo :: u32
  opt_logfile :: "string option"

definition default_options :: main_options where
  "default_options = \<lparr>opt_host = ''vrhost'', opt_user = None, opt_server = ''localhost'', opt_rtable = ''rtable'',
     opt_template = None, opt_port = 8888, opt_topo = 0, opt_logfile = None\<rparr>"

text \<open>
  The loop over the results of \<open>getopt\<close>, an option and its argument each.  None: the program prints
  its usage and exits.  Other results, such as that of an unknown option, are ignored.
\<close>

fun parse_options :: "main_options \<Rightarrow> (char \<times> string) list \<Rightarrow> main_options option" where
  "parse_options opts [] = Some opts"
| "parse_options opts ((c, optarg) # cs) =
     (if c = CHR ''h'' then None
      else parse_options
        (if c = CHR ''p'' then opts\<lparr>opt_port := of_int (strtol optarg)\<rparr>
         else if c = CHR ''t'' then opts\<lparr>opt_topo := of_int (strtol optarg)\<rparr>
         else if c = CHR ''v'' then opts\<lparr>opt_host := optarg\<rparr>
         else if c = CHR ''u'' then opts\<lparr>opt_user := Some optarg\<rparr>
         else if c = CHR ''s'' then opts\<lparr>opt_server := optarg\<rparr>
         else if c = CHR ''l'' then opts\<lparr>opt_logfile := Some optarg\<rparr>
         else if c = CHR ''r'' then opts\<lparr>opt_rtable := optarg\<rparr>
         else if c = CHR ''T'' then opts\<lparr>opt_template := Some optarg\<rparr>
         else opts) cs)"

section \<open>The environment of the program\<close>

text \<open>
  The user of the process, whether the log file can be opened, the results of the calls that
  connect to the server and send the opening message, the key file, whether files can be
  written, the files on disk and what the buffers of \<open>sscanf\<close> hold at first.
\<close>

record main_env =
  me_user :: "string option"
  me_log_ok :: bool
  me_resolves :: bool
  me_socket :: int
  me_connects :: bool
  me_sends :: bool
  me_key :: "bytes option"
  me_writable :: bool
  me_files :: "string \<rightharpoonup> string"
  me_stack :: scan_buffers

text \<open>A file the router has written itself hides the one on disk.\<close>

definition file_contents :: "main_env \<Rightarrow> sr_instance \<Rightarrow> string \<Rightarrow> string option" where
  "file_contents me sr name = (case saved_files sr name of None \<Rightarrow> me_files me name | Some t \<Rightarrow> Some t)"

section \<open>Start-up\<close>

text \<open>The template, the cache and the rest of the struct keep what is in memory.\<close>

definition sr_init_instance :: "sr_instance \<Rightarrow> sr_instance" where
  "sr_init_instance sr =
     sr\<lparr>sockfd := -1, user := [], host := [], topo_id := 0, if_list := [], routing_table := []\<rparr>"

definition sr_set_user :: "main_env \<Rightarrow> sr_instance \<Rightarrow> sr_instance" where
  "sr_set_user me sr =
     (case me_user me of
        None \<Rightarrow> sr\<lparr>user := strncpy 32 ''something_silly''\<rparr>
      | Some pw_name \<Rightarrow> sr\<lparr>user := strncpy 32 pw_name\<rparr>)"

text \<open>
  Reading one command: the value returned, the router and what is left to receive, or none while
  it waits.  After an error the connection is given up.
\<close>

definition read_server ::
  "nat \<Rightarrow> main_env \<Rightarrow> u32 \<Rightarrow> sr_instance \<Rightarrow> recv_result list
   \<Rightarrow> fault + (int \<times> sr_instance \<times> recv_result list) option" where
  "read_server fuel me expected sr rs =
     bindR (sr_read_from_server_expect fuel (me_key me) (me_writable me) expected sr rs) (\<lambda>r.
       Inr (case r of
              Waiting \<Rightarrow> None
            | Failed \<Rightarrow> Some (-1, sr, [])
            | Got (rc, sr) rs \<Rightarrow> Some (rc, sr, rs)))"

definition sr_connect_to_server ::
  "nat \<Rightarrow> main_env \<Rightarrow> sr_instance \<Rightarrow> recv_result list
   \<Rightarrow> fault + (int \<times> sr_instance \<times> recv_result list) option" where
  "sr_connect_to_server fuel me sr rs =
     (if \<not> me_resolves me then Inr (Some (-1, sr, rs))
      else let sr = sr\<lparr>sockfd := me_socket me\<rparr>
           in if me_socket me < 0 \<or> \<not> me_connects me then Inr (Some (-1, sr, rs))
              else bindR (read_server fuel me VNS_AUTH_REQUEST sr rs) (\<lambda>r.
                     case r of
                       None \<Rightarrow> Inr None
                     | Some (rc, sr, rs) \<Rightarrow>
                         if rc \<noteq> 1 then Inr (Some (-1, sr, rs))
                         else bindR (read_server fuel me VNS_AUTH_STATUS sr rs) (\<lambda>r.
                                case r of
                                  None \<Rightarrow> Inr None
                                | Some (rc, sr, rs) \<Rightarrow>
                                    if rc \<noteq> 1 then Inr (Some (-1, sr, rs))
                                    else let sr = sr\<lparr>wire := wire sr @ [open_message sr]\<rparr>
                                         in if \<not> me_sends me then Inr (Some (-1, sr, rs))
                                            else if template sr = [] then Inr (Some (0, sr, rs))
                                            else bindR (read_server fuel me VNS_RTABLE sr rs) (\<lambda>r.
                                                   case r of
                                                     None \<Rightarrow> Inr None
                                                   | Some (rc, sr, rs) \<Rightarrow>
                                                       Inr (Some (if rc \<noteq> 1 then -1 else 0, sr, rs))))))"

section \<open>The loop over the commands\<close>

lemma recv_loop_shorter: "recv_loop n acc rs = Got bs rs' \<Longrightarrow> length rs' \<le> length rs \<and> (0 < n \<longrightarrow> length rs' < length rs)"
proof (induction rs arbitrary: n acc)
  case Nil
  then show ?case by (cases "n = 0") (simp_all add: recv_loop.simps)
next
  case (Cons r rs)
  show ?case
  proof (cases "n = 0")
    case False
    show ?thesis
    proof (cases r)
      case (Recv bs')
      have "recv_loop (n - length (take n bs')) (acc @ take n bs') rs = Got bs rs'"
        using Cons.prems False Recv by (simp add: Recv recv_loop.simps [of n acc "Recv bs' # rs"])
      then show ?thesis using Cons.IH by fastforce
    next
      case Recv_EINTR
      have "recv_loop n acc rs = Got bs rs'"
        using Cons.prems False by (simp add: Recv_EINTR recv_loop.simps [of n acc "Recv_EINTR # rs"])
      then show ?thesis using Cons.IH by fastforce
    next
      case Recv_error
      then show ?thesis using Cons.prems False by (simp add: recv_loop.simps [of n acc "Recv_error # rs"])
    qed
  qed (use Cons.prems in \<open>simp add: recv_loop.simps\<close>)
qed

lemma read_command_shorter: "read_command rs = Inr (Got cmd rs') \<Longrightarrow> length rs' < length rs"
  by (auto simp: read_command_def Let_def split: recv_outcome.splits if_splits dest!: recv_loop_shorter)

lemma read_server_shorter:
  "read_server fuel me expected sr rs = Inr (Some (1, sr', rs')) \<Longrightarrow> length rs' < length rs"
  by (auto simp: read_server_def sr_read_from_server_expect_def split: recv_outcome.splits dest: read_command_shorter)

text \<open>Where the program is: it has exited with a status, or it waits for the server in some state.\<close>

datatype main_outcome = Exited int | Running sr_instance

function main_loop :: "nat \<Rightarrow> main_env \<Rightarrow> sr_instance \<Rightarrow> recv_result list \<Rightarrow> fault + main_outcome" where
  "main_loop fuel me sr rs =
     (case read_server fuel me 0 sr rs of
        Inl e \<Rightarrow> Inl e
      | Inr None \<Rightarrow> Inr (Running sr)
      | Inr (Some (rc, sr, rs)) \<Rightarrow> if rc = 1 then main_loop fuel me sr rs else Inr (Exited 0))"
  by pat_completeness auto
termination
  by (relation "measure (\<lambda>(_, _, _, rs). length rs)") (auto dest: read_server_shorter)

declare main_loop.simps [simp del]

definition load_table :: "main_env \<Rightarrow> sr_instance \<Rightarrow> string \<Rightarrow> fault + int \<times> sr_instance" where
  "load_table me sr rtable = sr_load_rt (me_stack me) sr (file_contents me sr rtable)"

text \<open>Before the connection: none if the table or the log file cannot be opened.\<close>

definition main_setup :: "main_env \<Rightarrow> main_options \<Rightarrow> sr_instance \<Rightarrow> fault + sr_instance option" where
  "main_setup me opts sr =
     (let sr = sr_init_instance sr
      in bindR (case opt_template opts of
                  None \<Rightarrow> load_table me (sr\<lparr>template := []\<rparr>) (opt_rtable opts)
                | Some t \<Rightarrow> Inr (0, sr\<lparr>template := strncpy 30 t\<rparr>)) (\<lambda>(rc, sr).
           if rc \<noteq> 0 then Inr None
           else let sr = sr\<lparr>topo_id := ucast (opt_topo opts), host := strncpy 32 (opt_host opts)\<rparr>;
                    sr = (case opt_user opts of None \<Rightarrow> sr_set_user me sr | Some u \<Rightarrow> sr\<lparr>user := strncpy 32 u\<rparr>)
                in Inr (if opt_logfile opts \<noteq> None \<and> \<not> me_log_ok me then None else Some sr)))"

text \<open>The second time the table is loaded, from the file the server has sent if there is one.\<close>

definition main_reload :: "main_env \<Rightarrow> main_options \<Rightarrow> sr_instance \<Rightarrow> fault + int \<times> sr_instance" where
  "main_reload me opts sr =
     (if opt_template opts \<noteq> None \<and> opt_rtable opts = ''rtable.vrhost'' then load_table me sr ''rtable.vrhost''
      else load_table me sr (opt_rtable opts))"

text \<open>Up to the main loop: how the program ends, or the router and what is left to receive.\<close>

definition main_start ::
  "nat \<Rightarrow> main_env \<Rightarrow> (char \<times> string) list \<Rightarrow> sr_instance \<Rightarrow> recv_result list
   \<Rightarrow> fault + (main_outcome + sr_instance \<times> recv_result list)" where
  "main_start fuel me argv sr rs =
     (case parse_options default_options argv of
        None \<Rightarrow> Inr (Inl (Exited 0))
      | Some opts \<Rightarrow>
          bindR (main_setup me opts sr) (\<lambda>r.
            case r of
              None \<Rightarrow> Inr (Inl (Exited 1))
            | Some sr \<Rightarrow>
                bindR (sr_connect_to_server fuel me sr rs) (\<lambda>r.
                  case r of
                    None \<Rightarrow> Inr (Inl (Running sr))
                  | Some (rc, sr, rs) \<Rightarrow>
                      if rc = -1 then Inr (Inl (Exited 1))
                      else bindR (main_reload me opts sr) (\<lambda>(rc, sr).
                             if rc \<noteq> 0 then Inr (Inl (Exited 1)) else Inr (Inr (sr_init sr, rs))))))"

definition sr_main ::
  "nat \<Rightarrow> main_env \<Rightarrow> (char \<times> string) list \<Rightarrow> sr_instance \<Rightarrow> recv_result list \<Rightarrow> fault + main_outcome" where
  "sr_main fuel me argv sr rs =
     bindR (main_start fuel me argv sr rs) (\<lambda>r.
       case r of Inl out \<Rightarrow> Inr out | Inr (sr, rs) \<Rightarrow> main_loop fuel me sr rs)"

section \<open>The invariant\<close>

lemma router_inv_outside [simp]:
  "router_inv (sr\<lparr>wire := w\<rparr>) = router_inv sr"
  "router_inv (sr\<lparr>ticks := k\<rparr>) = router_inv sr"
  "router_inv (sr\<lparr>saved_files := f\<rparr>) = router_inv sr"
  by (simp_all add: router_inv_defs ifs_wf_def sr_get_interface_def)

lemma auth_request_frame:
  "sr_handle_auth_request sr key req = Inr (ok, sr') \<Longrightarrow> sr'\<lparr>ticks := ticks sr, wire := wire sr\<rparr> = sr"
  by (auto simp: sr_handle_auth_request_def Let_def split: option.splits if_splits)

lemma rtable_frame:
  "sr_handle_rtable sr opened buf = Inr (ok, sr') \<Longrightarrow> sr'\<lparr>saved_files := saved_files sr\<rparr> = sr"
  by (auto simp: sr_handle_rtable_def Let_def split: if_splits)

lemma router_inv_dispatch: "dispatch_packet fuel sr buf = Inr sr' \<Longrightarrow> router_inv sr \<Longrightarrow> router_inv sr'"
  using keeps_handlepacket unfolding keeps_def dispatch_packet_def Let_def by (auto split: if_splits)

text \<open>Whatever command the server sends, at whatever time, the invariant holds after it.\<close>

lemma router_inv_command:
  assumes "handle_command fuel key ok expected sr buf = Inr (rc, sr')" and "router_inv sr"
  shows "router_inv sr'"
proof -
  have a: "router_inv s" if "sr_handle_auth_request sr k b = Inr (r, s)" for k b r s
    using auth_request_frame [OF that] assms(2) by (metis router_inv_outside(1,2))
  have r: "router_inv s" if "sr_handle_rtable sr k b = Inr (r, s)" for k b r s
    using rtable_frame [OF that] assms(2) by (metis router_inv_outside(3))
  have d: "router_inv s" if "dispatch_packet fuel sr b = Inr s" for b s using router_inv_dispatch [OF that assms(2)] .
  have h: "router_inv s" if "sr_handle_hwinfo sr b = Inr (n, s)" for b n s using router_inv_hwinfo [OF that assms(2)] .
  show ?thesis
    using assms unfolding handle_command_def Let_def
    by (auto split: if_splits) (erule d | erule h | erule a | erule r)+
qed

lemma router_inv_read:
  assumes "read_server fuel me expected sr rs = Inr (Some (rc, sr', rs'))" and "router_inv sr"
  shows "router_inv sr'"
  using assms router_inv_command
  by (auto simp: read_server_def sr_read_from_server_expect_def split: recv_outcome.splits)

text \<open>No interface is known before the main loop: until then only commands without hardware information are accepted.\<close>

lemma command_no_ifs:
  assumes "handle_command fuel key ok expected sr buf = Inr (rc, sr')"
    and "expected = VNS_AUTH_REQUEST \<or> expected = VNS_AUTH_STATUS \<or> expected = VNS_RTABLE"
  shows "if_list sr' = if_list sr"
proof -
  have a: "if_list s = if_list sr" if "sr_handle_auth_request sr k b = Inr (r, s)" for k b r s
    using arg_cong [OF auth_request_frame [OF that], of if_list] by simp
  have r: "if_list s = if_list sr" if "sr_handle_rtable sr k b = Inr (r, s)" for k b r s
    using arg_cong [OF rtable_frame [OF that], of if_list] by simp
  show ?thesis
    using assms unfolding handle_command_def Let_def by (auto split: if_splits) (erule a | erule r)+
qed

lemma read_no_ifs:
  assumes "read_server fuel me expected sr rs = Inr (Some (rc, sr', rs'))"
    and "expected = VNS_AUTH_REQUEST \<or> expected = VNS_AUTH_STATUS \<or> expected = VNS_RTABLE"
  shows "if_list sr' = if_list sr"
  using assms(1) command_no_ifs [OF _ assms(2)]
  by (auto simp: read_server_def sr_read_from_server_expect_def split: recv_outcome.splits)

lemma connect_no_ifs:
  assumes "sr_connect_to_server fuel me sr rs = Inr (Some (rc, sr', rs'))"
  shows "if_list sr' = if_list sr"
  using assms unfolding sr_connect_to_server_def Let_def
  by (auto split: if_splits option.splits dest!: read_no_ifs)

lemma load_no_ifs: "load_table me sr f = Inr (rc, sr') \<Longrightarrow> if_list sr' = if_list sr"
  by (auto simp: load_table_def sr_load_rt_def split: option.splits dest!: load_lines_frame)

lemma setup_no_ifs: "main_setup me opts sr = Inr (Some sr') \<Longrightarrow> if_list sr' = []"
  unfolding main_setup_def Let_def sr_init_instance_def sr_set_user_def
  by (auto split: option.splits if_splits dest!: load_no_ifs)

lemma start_inv:
  assumes "main_start fuel me argv sr rs = Inr (Inr (sr', rs'))"
  shows "router_inv sr'" and "if_list sr' = []"
proof -
  obtain opts sr1 rc2 sr2 sr3 where 1: "main_setup me opts sr = Inr (Some sr1)"
    "sr_connect_to_server fuel me sr1 rs = Inr (Some (rc2, sr2, rs'))" "main_reload me opts sr2 = Inr (0, sr3)"
    "sr' = sr_init sr3"
    using assms unfolding main_start_def by (auto split: option.splits if_splits)
  have "if_list sr3 = if_list sr2" using 1(3) by (auto simp: main_reload_def split: if_splits dest: load_no_ifs)
  then have n: "if_list sr3 = []" using setup_no_ifs [OF 1(1)] connect_no_ifs [OF 1(2)] by simp
  then show "router_inv sr'" using router_inv_init [of sr3] 1(4) by (simp add: ifs_wf_def)
  show "if_list sr' = []" using n 1(4) by (simp add: sr_init_def sr_arpcache_init_def sr_time_def)
qed

section \<open>Runs of the program\<close>

text \<open>
  The main loop and the cleanup thread, in any order: a command of the server is handled, or a
  second passes.
\<close>

inductive program_run :: "nat \<Rightarrow> main_env \<Rightarrow> sr_instance \<times> recv_result list \<Rightarrow> sr_instance \<times> recv_result list \<Rightarrow> bool"
  for fuel me s0 where
  start: "program_run fuel me s0 s0"
| command: "program_run fuel me s0 (sr, rs) \<Longrightarrow> read_server fuel me 0 sr rs = Inr (Some (1, sr', rs'))
    \<Longrightarrow> program_run fuel me s0 (sr', rs')"
| second: "program_run fuel me s0 (sr, rs) \<Longrightarrow> sr_arpcache_timeout_step fuel sr = Inr sr'
    \<Longrightarrow> program_run fuel me s0 (sr', rs)"

lemma program_run_inv: "program_run fuel me s0 s \<Longrightarrow> router_inv (fst s0) \<Longrightarrow> router_inv (fst s)"
proof (induction rule: program_run.induct)
  case (second sr rs sr')
  then show ?case using keeps_timeout by (auto simp: keeps_def)
qed (auto dest: router_inv_read)

text \<open>The routing table stays as it was loaded.\<close>

lemma table_command:
  assumes "handle_command fuel key ok expected sr buf = Inr (rc, sr')"
  shows "routing_table sr' = routing_table sr"
proof -
  have a: "routing_table s = routing_table sr" if "sr_handle_auth_request sr k b = Inr (r, s)" for k b r s
    using arg_cong [OF auth_request_frame [OF that], of routing_table] by simp
  have r: "routing_table s = routing_table sr" if "sr_handle_rtable sr k b = Inr (r, s)" for k b r s
    using arg_cong [OF rtable_frame [OF that], of routing_table] by simp
  have h: "routing_table s = routing_table sr" if "sr_handle_hwinfo sr b = Inr (n, s)" for b n s
    using same_but_ifs_fields(1) handle_hwinfo_same [OF that] by blast
  have d: "routing_table s = routing_table sr" if "dispatch_packet fuel sr b = Inr s" for b s
    using that keeps_handlepacket unfolding dispatch_packet_def Let_def keeps_def extends_def same_config_def
    by (auto split: if_splits)
  show ?thesis
    using assms unfolding handle_command_def Let_def by (auto split: if_splits) (erule d | erule h | erule a | erule r)+
qed

lemma program_run_table: "program_run fuel me s0 s \<Longrightarrow> routing_table (fst s) = routing_table (fst s0)"
proof (induction rule: program_run.induct)
  case (command sr rs sr' rs')
  then show ?case
    using table_command by (auto simp: read_server_def sr_read_from_server_expect_def split: recv_outcome.splits)
next
  case (second sr rs sr')
  then show ?case using keeps_timeout by (auto simp: keeps_def extends_def same_config_def)
qed simp

text \<open>The main loop by itself is such a run.\<close>

lemma main_loop_run:
  "main_loop fuel me sr rs = Inr (Running sr') \<Longrightarrow> program_run fuel me s0 (sr, rs) \<Longrightarrow> \<exists>rs'. program_run fuel me s0 (sr', rs')"
proof (induction fuel me sr rs rule: main_loop.induct)
  case (1 fuel me sr rs)
  show ?case
  proof (cases "read_server fuel me 0 sr rs")
    case (Inr r)
    show ?thesis
    proof (cases r)
      case None
      then show ?thesis using 1(2,3) Inr by (subst (asm) main_loop.simps) auto
    next
      case (Some p)
      obtain rc sr1 rs1 where p: "p = (rc, sr1, rs1)" by (cases p)
      show ?thesis
      proof (cases "rc = 1")
        case True
        have "main_loop fuel me sr1 rs1 = Inr (Running sr')"
          using 1(2) Inr Some p True by (subst (asm) main_loop.simps) simp
        moreover have "program_run fuel me s0 (sr1, rs1)" using program_run.command [OF 1(3)] Inr Some p True by simp
        ultimately show ?thesis using 1(1) [OF Inr Some p [symmetric] refl True] by simp
      qed (use 1(2) Inr Some p in \<open>subst (asm) main_loop.simps, simp\<close>)
    qed
  qed (use 1(2) in \<open>subst (asm) main_loop.simps, simp\<close>)
qed

end
