(* ===== verification/Sr_Boot.thy ===== *)
theory Sr_Boot
  imports Sr_Main
begin

text \<open>
  The router from its start to the main loop: what the commands of a session do, one after the
  other, for a server that asks for authentication, accepts it and describes the hardware.
\<close>

section \<open>Commands of the server\<close>

text \<open>The socket delivers a command, the length and the rest in any pieces.\<close>

definition sends :: "recv_result list \<Rightarrow> bytes \<Rightarrow> bool" where
  "sends rs cmd \<longleftrightarrow> (\<exists>rs1 rs2. rs = rs1 @ rs2 \<and> delivers rs1 (take 4 cmd) \<and> delivers rs2 (drop 4 cmd))"

definition command :: "u32 \<Rightarrow> bytes \<Rightarrow> bytes" where
  "command t body = bytes32 (htonl (of_nat (8 + length body))) @ bytes32 (htonl t) @ body"

lemma read_command_sends:
  assumes "sends rs (command t body)" and "length body \<le> 9992"
  shows "read_command (rs @ rest) = Inr (Got (command t body) rest)"
proof -
  obtain rs1 rs2 where "rs = rs1 @ rs2" "delivers rs1 (take 4 (command t body))" "delivers rs2 (drop 4 (command t body))"
    using assms(1) by (auto simp: sends_def)
  then show ?thesis
    using read_command_delivers [of "command t body" rs1 rs2 rest] assms(2) by (simp add: command_def)
qed

lemma load_command_type: "load32 (command t body) 4 = Inr (htonl t)"
  "store32 (command t body) 4 t = Inr (bytes32 (htonl (of_nat (8 + length body))) @ bytes32 t @ body)"
  by (simp_all add: load32_def load_bytes_def slice_def command_def store32_def store_bytes_def splice_def)

lemma read_server_sends:
  assumes "sends rs (command t body)" and "length body \<le> 9992"
  shows "read_server fuel me expected sr (rs @ rest) =
    bindR (handle_command fuel (me_key me) (me_writable me) expected sr (command t body)) (\<lambda>(rc, sr). Inr (Some (rc, sr, rest)))"
  unfolding read_server_def sr_read_from_server_expect_def read_command_sends [OF assms]
  by (simp add: bindR_assoc)  (simp add: case_prod_beta')

lemma command_auth_request:
  assumes "length salt \<le> 9992" and "64 \<le> length key"
    and "env_write (env sr) (ticks sr) = int (32 + length (user sr))"
  shows "handle_command fuel (Some key) ok VNS_AUTH_REQUEST sr (command VNS_AUTH_REQUEST salt) =
    Inr (1, sr\<lparr>ticks := Suc (ticks sr), wire := wire sr @ [auth_reply (user sr) (salt @ take 64 key)]\<rparr>)"
proof -
  let ?b = "bytes32 (htonl (of_nat (8 + length salt))) @ bytes32 VNS_AUTH_REQUEST @ salt"
  have a: "sr_handle_auth_request sr (Some key) ?b =
      Inr (True, sr\<lparr>ticks := Suc (ticks sr), wire := wire sr @ [auth_reply (user sr) (salt @ take 64 key)]\<rparr>)"
    using auth_request_reply [OF _ assms(2), of salt ?b "bytes32 VNS_AUTH_REQUEST" sr] assms(1,3) by simp
  show ?thesis
    unfolding handle_command_def load_command_type bindR_simps Let_def swap32_swap32 using a by simp
qed

lemma command_auth_status:
  "ok' \<noteq> 0 \<Longrightarrow> handle_command fuel key ok VNS_AUTH_STATUS sr (command VNS_AUTH_STATUS (ok' # msg)) = Inr (1, sr)"
  unfolding handle_command_def load_command_type bindR_simps Let_def swap32_swap32
  by (simp add: sr_handle_auth_status_def load8_def load_bytes_def slice_def)

lemma length_hw_body:
  "list_all hw_describable is \<Longrightarrow> length (concat (concat (map hw_encode_if is))) = 108 * length is"
  by (induction "is") (auto simp: hw_encode_if_def hw_describable_def)

lemma command_hwinfo:
  assumes "list_all hw_describable is" and "length is \<le> 92" and "is \<noteq> []" and "if_list sr = []" and "routing_table sr \<noteq> []"
    and "\<And>r. r \<in> set (routing_table sr) \<Longrightarrow> \<exists>n \<in> fst ` set is. strncmp_eq sr_IFACE_NAMELEN n (rt_interface r)"
  shows "\<exists>sr'. handle_command fuel key ok 0 sr (command VNSHWINFO (concat (concat (map hw_encode_if is)))) = Inr (1, sr')
    \<and> map if_description (if_list sr') = is \<and> same_but_ifs sr sr'"
proof -
  let ?body = "concat (concat (map hw_encode_if is))"
  have m: "bytes32 (htonl (of_nat (8 + length ?body))) @ bytes32 VNSHWINFO @ ?body = hw_message (bytes32 VNSHWINFO) is"
    using length_hw_body [OF assms(1)] by (simp add: hw_message_def)
  obtain sr' n where h: "sr_handle_hwinfo sr (hw_message (bytes32 VNSHWINFO) is) = Inr (n, sr')"
    "map if_description (if_list sr') = is"
    using handle_hwinfo_ifs [OF assms(1,2), of "bytes32 VNSHWINFO" sr] assms(4) by auto
  have s: "same_but_ifs sr sr'" using handle_hwinfo_same [OF h(1)] by simp
  have names: "map if_name (if_list sr') = map fst is"
    using arg_cong [OF h(2), of "map fst"] by (simp add: if_description_def comp_def)
  have "sr_get_interface sr' (rt_interface r) \<noteq> None" if "r \<in> set (routing_table sr')" for r
    using assms(6) [of r] that unfolding sr_get_interface_names names same_but_ifs_fields(1) [OF s] by simp
  then have "sr_verify_routing_table sr' = 0"
    using assms(3,5) h(2) unfolding verify_routing_table_ok same_but_ifs_fields(1) [OF s] by auto
  then show ?thesis
    unfolding handle_command_def load_command_type bindR_simps Let_def swap32_swap32 m using h s by simp
qed

section \<open>Start-up\<close>

text \<open>The identity of the router after the options have been read.\<close>

definition user_name :: "main_env \<Rightarrow> main_options \<Rightarrow> string" where
  "user_name me opts = strncpy 32 (case opt_user opts of
     Some u \<Rightarrow> u | None \<Rightarrow> (case me_user me of None \<Rightarrow> ''something_silly'' | Some u \<Rightarrow> u))"

lemma load_table_text:
  assumes "file_contents me sr f = Some (rt_text table)" and "table \<noteq> []" and "list_all rt_printable table"
  shows "load_table me sr f = Inr (0, sr\<lparr>routing_table := table\<rparr>)"
proof -
  obtain r rs where t: "table = r # rs" using assms(2) by (cases table) auto
  show ?thesis
    using load_rt_text [of r rs "me_stack me" False sr "[]"] assms(1,3) by (simp add: load_table_def sr_load_rt_def t)
qed

text \<open>What the session needs of the operating system.\<close>

definition env_ready :: "main_env \<Rightarrow> main_options \<Rightarrow> bytes \<Rightarrow> bool" where
  "env_ready me opts key \<longleftrightarrow> me_resolves me \<and> 0 \<le> me_socket me \<and> me_connects me \<and> me_sends me \<and> me_key me = Some key
     \<and> 64 \<le> length key \<and> (opt_logfile opts = None \<or> me_log_ok me)"

definition configured :: "main_env \<Rightarrow> main_options \<Rightarrow> sr_instance \<Rightarrow> sr_rt list \<Rightarrow> sr_instance" where
  "configured me opts sr table = sr\<lparr>sockfd := -1, user := user_name me opts, host := strncpy 32 (opt_host opts),
     template := [], topo_id := ucast (opt_topo opts), if_list := [], routing_table := table\<rparr>"

lemma main_setup_ok:
  assumes "opt_template opts = None" and "opt_logfile opts = None \<or> me_log_ok me"
    and "saved_files sr = Map.empty" and "me_files me (opt_rtable opts) = Some (rt_text table)"
    and "table \<noteq> []" and "list_all rt_printable table"
  shows "main_setup me opts sr = Inr (Some (configured me opts sr table))"
proof -
  let ?sr = "sr_init_instance sr\<lparr>template := []\<rparr>"
  have "file_contents me ?sr (opt_rtable opts) = Some (rt_text table)"
    using assms(3,4) by (simp add: file_contents_def sr_init_instance_def)
  note l = load_table_text [OF this assms(5,6)]
  show ?thesis
    using assms(2) unfolding main_setup_def Let_def assms(1) option.case l bindR_simps prod.case
    by (auto simp: configured_def user_name_def sr_set_user_def sr_init_instance_def split: option.splits)
qed

lemma connect_ok:
  assumes "env_ready me opts key" and "template sr = []" and "length salt \<le> 9992" and "length msg \<le> 9991" and "ok \<noteq> 0"
    and "env_write (env sr) (ticks sr) = int (32 + length (user sr))"
    and "sends rs1 (command VNS_AUTH_REQUEST salt)" and "sends rs2 (command VNS_AUTH_STATUS (ok # msg))"
  shows "\<exists>sr'. sr_connect_to_server fuel me sr (rs1 @ rs2 @ rest) = Inr (Some (0, sr', rest))
    \<and> sr' = sr\<lparr>sockfd := me_socket me, ticks := Suc (ticks sr),
          wire := wire sr @ [auth_reply (user sr) (salt @ take 64 key), open_message sr]\<rparr>"
proof -
  let ?s = "sr\<lparr>sockfd := me_socket me\<rparr>"
  let ?s1 = "?s\<lparr>ticks := Suc (ticks sr), wire := wire sr @ [auth_reply (user sr) (salt @ take 64 key)]\<rparr>"
  have e: "me_resolves me" "\<not> (me_socket me < 0 \<or> \<not> me_connects me)" "me_sends me" "me_key me = Some key" "64 \<le> length key"
    using assms(1) by (auto simp: env_ready_def)
  have 1: "read_server fuel me VNS_AUTH_REQUEST ?s (rs1 @ rs2 @ rest) = Inr (Some (1, ?s1, rs2 @ rest))"
    using command_auth_request [OF assms(3) e(5), of ?s fuel "me_writable me"] assms(6)
    unfolding read_server_sends [OF assms(7,3)] e(4) by simp
  have 2: "read_server fuel me VNS_AUTH_STATUS ?s1 (rs2 @ rest) = Inr (Some (1, ?s1, rest))"
    using read_server_sends [OF assms(8)] assms(4) command_auth_status [OF assms(5)] by simp
  have o: "open_message ?s1 = open_message sr" by (simp add: open_message_def)
  show ?thesis
    unfolding sr_connect_to_server_def Let_def if_not_P [OF e(2)] 1 bindR_simps option.case prod.case 2
    using e(1,3) assms(2) o by simp
qed

text \<open>The router when the connection is made.\<close>

definition started :: "main_env \<Rightarrow> main_options \<Rightarrow> sr_instance \<Rightarrow> sr_rt list \<Rightarrow> bytes \<Rightarrow> bytes \<Rightarrow> sr_instance" where
  "started me opts sr table key salt = (configured me opts sr table)\<lparr>sockfd := me_socket me, ticks := Suc (ticks sr),
     wire := wire sr @ [auth_reply (user_name me opts) (salt @ take 64 key), open_message (configured me opts sr table)]\<rparr>"

lemma main_start_ok:
  assumes "parse_options default_options argv = Some opts" and "opt_template opts = None" and "env_ready me opts key"
    and "saved_files sr = Map.empty" and "me_files me (opt_rtable opts) = Some (rt_text table)"
    and "table \<noteq> []" and "list_all rt_printable table"
    and "env_write (env sr) (ticks sr) = int (32 + length (user_name me opts))"
    and "length salt \<le> 9992" and "length msg \<le> 9991" and "ok \<noteq> 0"
    and "sends rs1 (command VNS_AUTH_REQUEST salt)" and "sends rs2 (command VNS_AUTH_STATUS (ok # msg))"
  shows "main_start fuel me argv sr (rs1 @ rs2 @ rest) = Inr (Inr (sr_init (started me opts sr table key salt), rest))"
proof -
  let ?c = "configured me opts sr table" and ?s = "started me opts sr table key salt"
  have log: "opt_logfile opts = None \<or> me_log_ok me" using assms(3) by (simp add: env_ready_def)
  note su = main_setup_ok [OF assms(2) log assms(4-7)]
  have c: "template ?c = []" "env_write (env ?c) (ticks ?c) = int (32 + length (user ?c))"
    using assms(8) by (simp_all add: configured_def)
  have conn: "sr_connect_to_server fuel me ?c (rs1 @ rs2 @ rest) = Inr (Some (0, ?s, rest))"
    using connect_ok [OF assms(3) c(1) assms(9-11) c(2) assms(12,13), of fuel rest]
    by (simp add: started_def configured_def)
  have "file_contents me ?s (opt_rtable opts) = Some (rt_text table)"
    using assms(4,5) by (simp add: file_contents_def configured_def started_def)
  from load_table_text [OF this assms(6,7)] have reload: "main_reload me opts ?s = Inr (0, ?s)"
    by (simp add: main_reload_def assms(2) configured_def started_def)
  show ?thesis
    unfolding main_start_def assms(1) option.case su bindR_simps conn prod.case reload by simp
qed

end
