(* ===== verification/Sr_Delivery.thy ===== *)
theory Sr_Delivery
  imports Router_Claims Sr_Boot
begin

text \<open>
  The way of a frame through the whole router: from the command of the server to the handlers, and
  the two commands that deliver a packet whose next hop has to be resolved first.
\<close>

section \<open>Frames in commands\<close>

text \<open>The command with which the server hands over a frame that arrived on an interface.\<close>

definition packet_command :: "string \<Rightarrow> bytes \<Rightarrow> bytes" where
  "packet_command name packet = bytes32 (htonl (of_nat (24 + length packet))) @ bytes32 (htonl VNSPACKET)
     @ strncpy_bytes 16 name @ packet"

lemma length_packet_command [simp]: "length (packet_command name packet) = 24 + length packet"
  by (simp add: packet_command_def)

lemma cstring_field:
  assumes "length name < 16" and "CHR 0x00 \<notin> set name"
  shows "cstring (strncpy_bytes 16 name @ rest) = name"
proof -
  have "16 - length name = Suc (15 - length name)" using assms(1) by simp
  then have "takeWhile (\<lambda>b. b \<noteq> 0) (strncpy_bytes 16 name @ rest) = map char_byte name"
    using assms by (subst strncpy_bytes_def) (subst append_assoc, subst takeWhile_append2, auto)
  then show ?thesis by (simp add: cstring_def comp_def)
qed

lemma handle_packet_command:
  assumes "length name < 16" and "CHR 0x00 \<notin> set name" and "42 \<le> length packet" and "length packet \<le> 9000"
    and "sr_get_interface sr name = Some j"
    and "ether_type (ethernet_hdr_at packet 0) \<noteq> htons ethertype_arp \<or> ar_op (arp_hdr_at packet 14) \<noteq> htons arp_op_request"
  shows "handle_command fuel key ok 0 sr (packet_command name packet) =
     bindR (sr_handlepacket fuel sr packet (length packet) name) (\<lambda>sr. Inr (1, sr))"
proof -
  let ?cmd = "packet_command name packet" and ?b = "splices (packet_command name packet) [(4, bytes32 VNSPACKET)]"
  have l: "load32 ?cmd 4 = Inr (htonl VNSPACKET)"
    by (simp add: load32_def load_bytes_def slice_def packet_command_def)
  have b: "drop 24 ?b = packet" "drop 8 ?b = strncpy_bytes 16 name @ packet" "length ?b = 24 + length packet"
    by (simp_all add: splices_simps splice_def packet_command_def)
  have "dispatch_packet fuel sr ?b = sr_handlepacket fuel sr packet (length packet) name"
    using dispatch_frame [of ?b sr j fuel] assms cstring_field [OF assms(1,2)] b by (auto simp: Let_def)
  then show ?thesis
    using l by (simp add: handle_command_def store32_Inr)
qed

lemma packet_is_command: "packet_command name packet = command VNSPACKET (strncpy_bytes 16 name @ packet)"
  by (simp add: packet_command_def command_def)

text \<open>One round of the main loop.\<close>

lemma main_loop_packet:
  assumes "length name < 16" and "CHR 0x00 \<notin> set name" and "42 \<le> length packet" and "length packet \<le> 9000"
    and "sr_get_interface sr name = Some j"
    and "ether_type (ethernet_hdr_at packet 0) \<noteq> htons ethertype_arp \<or> ar_op (arp_hdr_at packet 14) \<noteq> htons arp_op_request"
    and "sends rs (packet_command name packet)" and "sr_handlepacket fuel sr packet (length packet) name = Inr sr'"
  shows "main_loop fuel me sr (rs @ rest) = main_loop fuel me sr' rest"
proof -
  have "length (strncpy_bytes 16 name @ packet) \<le> 9992" using assms(4) by simp
  note read = read_server_sends [OF assms(7) [unfolded packet_is_command] this, folded packet_is_command]
  have "read_server fuel me 0 sr (rs @ rest) = Inr (Some (1, sr', rest))"
    unfolding read handle_packet_command [OF assms(1-6)] assms(8) by simp
  then show ?thesis by (subst main_loop.simps) simp
qed

section \<open>A packet that waits for its next hop\<close>

lemma splices_swap:
  assumes "length a = 6" "length b = 6" "14 \<le> length buf"
  shows "splices buf [(0, a), (6, b)] = splices buf [(6, b), (0, a)]"
  using assms by (simp add: splices_simps splice_def min_def)

text \<open>The frame that leaves when the address of the next hop is known.\<close>

lemma pending_frame:
  assumes "router_inv sr" and "34 \<le> length packet" and "sr_get_interface sr n = Some i" and "length mac = 6"
    and "length (if_name i) < 16"
  obtains f where "pending_message sr mac \<lparr>pkt_buf = forwarded packet, pkt_len = length packet, pkt_iface = take 32 (if_name i)\<rparr>
      = vns_message f (if_name i)"
    and "ether_dhost (ethernet_hdr_at f 0) = mac" "ether_shost (ethernet_hdr_at f 0) = if_addr i" "aged packet f"
proof -
  let ?e = "\<lparr>ae_mac = mac, ae_ip = 0, ae_added = 0, ae_valid = True\<rparr> :: sr_arpentry"
  let ?f = "forwarded_frame packet (length packet) i ?e"
  have l: "length (if_addr i) = 6" "length (ae_mac ?e) = 6" using inv_if_addr [OF assms(1,3)] assms(4) by simp_all
  have n: "take 32 (if_name i) = if_name i" using assms(5) by simp
  have "14 \<le> length (forwarded packet)" using assms(2) by simp
  from splices_swap [OF assms(4) l(1) this]
  have "pending_message sr mac \<lparr>pkt_buf = forwarded packet, pkt_len = length packet, pkt_iface = take 32 (if_name i)\<rparr> = vns_message ?f (if_name i)"
    using get_own_name [OF assms(3)] by (simp add: pending_message_def n forwarded_frame_def)
  then show ?thesis
    using that [of ?f] forwarded_frame_slice(1,2) [OF assms(2) _ l] aged_forwarded_frame [OF assms(2) l]
    by (simp add: ethernet_hdr_at_def)
qed

end
