(* ===== verification/Sr_Dumper.thy ===== *)
theory Sr_Dumper
  imports Net_Prelude
begin

text \<open>
  The packet log, \<^verbatim>\<open>router/sr_dumper.c\<close> and \<open>sr_log_packet\<close> of \<^verbatim>\<open>router/sr_vns_comm.c\<close>: a file in
  the format of tcpdump.  A file is the bytes written to it; a log that is not kept is none.
\<close>

abbreviation (input) TCPDUMP_MAGIC :: u32 where "TCPDUMP_MAGIC \<equiv> 0xa1b2c3d4"
abbreviation (input) PCAP_VERSION_MAJOR :: u16 where "PCAP_VERSION_MAJOR \<equiv> 2"
abbreviation (input) PCAP_VERSION_MINOR :: u16 where "PCAP_VERSION_MINOR \<equiv> 4"
abbreviation (input) LINKTYPE_ETHERNET :: u32 where "LINKTYPE_ETHERNET \<equiv> 1"
abbreviation (input) PACKET_DUMP_SIZE :: int where "PACKET_DUMP_SIZE \<equiv> 1024"

section \<open>Writing\<close>

definition sf_write_header :: "bytes \<Rightarrow> u32 \<Rightarrow> u32 \<Rightarrow> u32 \<Rightarrow> bytes" where
  "sf_write_header fp linktype thiszone snaplen =
     fp @ bytes32 TCPDUMP_MAGIC @ bytes16 PCAP_VERSION_MAJOR @ bytes16 PCAP_VERSION_MINOR
        @ bytes32 thiszone @ bytes32 0 @ bytes32 snaplen @ bytes32 linktype"

text \<open>\<open>opened\<close> is the result of \<open>fopen\<close>, \<open>stdout\<close> what has gone to the standard output before.\<close>

definition sr_dump_open :: "bytes option \<Rightarrow> bytes \<Rightarrow> string \<Rightarrow> u32 \<Rightarrow> u32 \<Rightarrow> bytes option" where
  "sr_dump_open opened stdout fname thiszone snaplen =
     (if fname = ''-'' then Some (sf_write_header stdout LINKTYPE_ETHERNET thiszone snaplen)
      else case opened of
             None \<Rightarrow> None
           | Some fp \<Rightarrow> Some (sf_write_header fp LINKTYPE_ETHERNET thiszone snaplen))"

record pcap_pkthdr =
  tv_sec :: u32
  tv_usec :: u32
  caplen :: u32
  pcap_len :: u32

definition sr_dump :: "bytes \<Rightarrow> pcap_pkthdr \<Rightarrow> bytes \<Rightarrow> fault + bytes" where
  "sr_dump fp h sp =
     bindR (load_bytes sp 0 (unat (caplen h))) (\<lambda>data.
       Inr (fp @ bytes32 (tv_sec h) @ bytes32 (tv_usec h) @ bytes32 (caplen h) @ bytes32 (pcap_len h) @ data))"

text \<open>The log after a packet of \<open>len\<close> bytes; \<open>sec\<close> and \<open>usec\<close> are the time of day.\<close>

definition sr_log_packet :: "bytes option \<Rightarrow> u32 \<Rightarrow> u32 \<Rightarrow> bytes \<Rightarrow> int \<Rightarrow> fault + bytes option" where
  "sr_log_packet logfile sec usec pkt len =
     (case logfile of
        None \<Rightarrow> Inr None
      | Some fp \<Rightarrow>
          (let size' = min PACKET_DUMP_SIZE len;
               h = \<lparr>tv_sec = sec, tv_usec = usec, caplen = of_int size',
                    pcap_len = of_int (if size' < PACKET_DUMP_SIZE then size' else PACKET_DUMP_SIZE)\<rparr>
           in bindR (sr_dump fp h pkt) (\<lambda>fp. Inr (Some fp))))"

section \<open>Reading a log\<close>

text \<open>A reader of the format: the records of a file after its header, as long as they are complete.\<close>

function read_records :: "bytes \<Rightarrow> (pcap_pkthdr \<times> bytes) list option" where
  "read_records bs =
     (if bs = [] then Some []
      else if length bs < 16 then None
      else let h = \<lparr>tv_sec = le32 (slice bs 0 4), tv_usec = le32 (slice bs 4 4), caplen = le32 (slice bs 8 4),
                    pcap_len = le32 (slice bs 12 4)\<rparr>;
               n = unat (caplen h)
           in if length bs < 16 + n then None
              else map_option ((#) (h, slice bs 16 n)) (read_records (drop (16 + n) bs)))"
  by pat_completeness auto
termination
  by (relation "measure length") auto

declare read_records.simps [simp del]

definition read_log :: "bytes \<Rightarrow> (u32 \<times> (pcap_pkthdr \<times> bytes) list) option" where
  "read_log bs =
     (if length bs < 24 \<or> le32 (slice bs 0 4) \<noteq> TCPDUMP_MAGIC \<or> slice bs 4 4 \<noteq> bytes16 2 @ bytes16 4
         \<or> le32 (slice bs 20 4) \<noteq> LINKTYPE_ETHERNET
      then None
      else map_option (Pair (le32 (slice bs 16 4))) (read_records (drop 24 bs)))"

section \<open>What is logged can be read\<close>

definition record_bytes :: "pcap_pkthdr \<times> bytes \<Rightarrow> bytes" where
  "record_bytes r = bytes32 (tv_sec (fst r)) @ bytes32 (tv_usec (fst r)) @ bytes32 (caplen (fst r))
     @ bytes32 (pcap_len (fst r)) @ snd r"

definition record_ok :: "pcap_pkthdr \<times> bytes \<Rightarrow> bool" where
  "record_ok r \<longleftrightarrow> length (snd r) = unat (caplen (fst r))"

lemma slice_append_skip: "length xs \<le> off \<Longrightarrow> slice (xs @ ys) off n = slice ys (off - length xs) n"
  by (simp add: slice_def)

lemma slice_append_here: "length xs = n \<Longrightarrow> slice (xs @ ys) 0 n = xs"
  by (simp add: slice_def)

lemma read_records_step:
  assumes "record_ok r"
  shows "read_records (record_bytes r @ rest) = map_option ((#) r) (read_records rest)"
proof -
  let ?b = "record_bytes r @ rest"
  have l: "length (record_bytes r) = 16 + length (snd r)" by (simp add: record_bytes_def)
  have s: "slice ?b 0 4 = bytes32 (tv_sec (fst r))" "slice ?b 4 4 = bytes32 (tv_usec (fst r))"
    "slice ?b 8 4 = bytes32 (caplen (fst r))" "slice ?b 12 4 = bytes32 (pcap_len (fst r))"
    "slice ?b 16 (length (snd r)) = snd r"
    by (simp_all add: record_bytes_def slice_append_skip slice_append_here)
  have e: "\<lparr>tv_sec = tv_sec h, tv_usec = tv_usec h, caplen = caplen h, pcap_len = pcap_len h\<rparr> = h" for h by (cases h) simp
  have n: "?b \<noteq> []" "\<not> length ?b < 16" "\<not> length ?b < 16 + length (snd r)" using l by auto
  have d: "drop (16 + length (snd r)) ?b = rest" by (simp add: l [symmetric])
  show ?thesis
    using n assms
    by (simp only: read_records.simps [of ?b] if_False Let_def s(1-4) le32_bytes32 pcap_pkthdr.simps record_ok_def
        s(5) d flip: assms [unfolded record_ok_def]) (simp only: e prod.collapse)
qed

lemma read_records_all:
  "list_all record_ok rs \<Longrightarrow> read_records (concat (map record_bytes rs)) = Some rs"
  by (induction rs) (simp_all add: read_records_step, simp add: read_records.simps)

text \<open>Packets logged one after the other.\<close>

fun log_all :: "bytes option \<Rightarrow> (u32 \<times> u32 \<times> bytes) list \<Rightarrow> fault + bytes option" where
  "log_all logfile [] = Inr logfile"
| "log_all logfile ((sec, usec, pkt) # ps) =
     bindR (sr_log_packet logfile sec usec pkt (int (length pkt))) (\<lambda>logfile. log_all logfile ps)"

definition logged :: "u32 \<times> u32 \<times> bytes \<Rightarrow> pcap_pkthdr \<times> bytes" where
  "logged p = (case p of (sec, usec, pkt) \<Rightarrow>
     (\<lparr>tv_sec = sec, tv_usec = usec, caplen = of_nat (min 1024 (length pkt)), pcap_len = of_nat (min 1024 (length pkt))\<rparr>,
      take 1024 pkt))"

lemma unat_caplen: "unat (of_nat (min 1024 n) :: u32) = min 1024 n"
  by (simp add: unat_of_nat min_def)

lemma logged_ok: "record_ok (logged p)"
  by (cases p) (unfold record_ok_def logged_def, simp only: prod.case fst_conv snd_conv pcap_pkthdr.simps unat_caplen, simp add: min.commute)

lemma log_packet_record:
  "sr_log_packet (Some fp) sec usec pkt (int (length pkt)) = Inr (Some (fp @ record_bytes (logged (sec, usec, pkt))))"
proof -
  have i: "of_int (min 1024 (int (length pkt))) = (of_nat (min 1024 (length pkt)) :: u32)"
    by (simp add: min_def)
  have m: "(if min PACKET_DUMP_SIZE (int (length pkt)) < PACKET_DUMP_SIZE then min PACKET_DUMP_SIZE (int (length pkt))
     else PACKET_DUMP_SIZE) = min 1024 (int (length pkt))" by simp
  have t: "0 + min 1024 (length pkt) \<le> length pkt" "slice pkt 0 (min 1024 (length pkt)) = take 1024 pkt"
    by (simp_all add: slice_def min_def)
  show ?thesis
    unfolding sr_log_packet_def sr_dump_def Let_def option.case load_bytes_def m i pcap_pkthdr.simps unat_caplen if_P [OF t(1)] t(2)
    by (simp only: bindR_simps record_bytes_def logged_def prod.case fst_conv snd_conv pcap_pkthdr.simps)
qed

lemma log_all_records:
  "log_all (Some fp) ps = Inr (Some (fp @ concat (map (record_bytes \<circ> logged) ps)))"
  by (induction ps arbitrary: fp) (auto simp: log_packet_record)

lemma read_header:
  "read_log (sf_write_header [] LINKTYPE_ETHERNET z n @ rest) = map_option (Pair n) (read_records rest)"
  by (simp add: read_log_def sf_write_header_def slice_append_skip slice_append_here bytes16_def slice_def)

end
