(* ===== verification/Boot_Claims.thy ===== *)
theory Boot_Claims
  imports Sr_Boot Sr_Lab Sr_Dumper
begin

text \<open>
  The router as a program: its routing table file, its start up to the main loop, the invariant of
  all its runs, and the log it writes.
\<close>

section \<open>The routing table file\<close>

text \<open>
  C5: A routing table written as text, one route per line in dotted notation, is loaded exactly: it
  replaces the table that was there, and nothing else of the router changes.
\<close>

theorem routing_table_loaded:
  assumes "table \<noteq> []" and "list_all rt_printable table"
  shows "sr_load_rt sb sr (Some (rt_text table)) = Inr (0, sr\<lparr>routing_table := table\<rparr>)"
proof -
  obtain r rs where t: "table = r # rs" using assms(1) by (cases table) auto
  show ?thesis using load_rt_text [of r rs sb False sr "[]"] assms(2) by (simp add: sr_load_rt_def t)
qed

lemma lab_printable: "list_all rt_printable [lab_client, lab_campus, lab_default]"
  by code_simp

definition lab_buffers :: scan_buffers where
  "lab_buffers = \<lparr>sb_dest = ''?'', sb_gw = [], sb_mask = [], sb_iface = []\<rparr>"

theorem routing_table_loaded_witness:
  "sr_load_rt lab_buffers (lab_router\<lparr>routing_table := [lab_default]\<rparr>) (Some (rt_text [lab_client, lab_campus, lab_default]))
   = Inr (0, lab_router)"
  using routing_table_loaded [OF _ lab_printable, of lab_buffers "lab_router\<lparr>routing_table := [lab_default]\<rparr>"]
  by (simp add: lab_router_def)

text \<open>
  A line without fields does not end or skip anything: the buffers keep the fields of the line
  before, and its route is entered once more.  An empty file leaves the old table in place.
\<close>

theorem blank_line_repeats_route:
  assumes "list_all rt_printable (table @ [r])"
  shows "sr_load_rt sb sr (Some (rt_text (table @ [r]) @ [LF])) = Inr (0, sr\<lparr>routing_table := table @ [r, r]\<rparr>)"
    and "sr_load_rt sb sr (Some []) = Inr (0, sr)"
proof -
  obtain a rs where t: "table @ [r] = a # rs" by (cases "table @ [r]") auto
  have l: "last (a # rs) = r" using t by (metis last_snoc)
  have p: "list_all rt_printable (a # rs)" "rt_printable r" using assms unfolding t [symmetric] by simp_all
  have "sr_load_rt sb sr (Some (rt_text (table @ [r]) @ [LF])) =
      load_lines (buffers_of r) True (sr\<lparr>routing_table := a # rs\<rparr>) [LF]"
    using load_rt_text [OF p(1), of sb False sr "[LF]"] unfolding t l by (simp add: sr_load_rt_def)
  also have "\<dots> = Inr (0, sr\<lparr>routing_table := (a # rs) @ [r]\<rparr>)" using load_blank_line [OF p(2)] by simp
  finally show "sr_load_rt sb sr (Some (rt_text (table @ [r]) @ [LF])) = Inr (0, sr\<lparr>routing_table := table @ [r, r]\<rparr>)"
    unfolding t [symmetric] by simp
  show "sr_load_rt sb sr (Some []) = Inr (0, sr)" by (simp add: sr_load_rt_def)
qed

theorem blank_line_repeats_route_witness:
  "sr_load_rt lab_buffers lab_router (Some (rt_text ([lab_client] @ [lab_default]) @ [LF]))
   = Inr (0, lab_router\<lparr>routing_table := [lab_client, lab_default, lab_default]\<rparr>)"
proof -
  have "list_all rt_printable ([lab_client] @ [lab_default])" using lab_printable by simp
  from blank_line_repeats_route(1) [OF this] show ?thesis by simp
qed

section \<open>From the command line to the main loop\<close>


text \<open>A session of the concrete router.\<close>

definition lab_main_env :: main_env where
  "lab_main_env = \<lparr>me_user = Some ''lab'', me_log_ok = False, me_resolves = True, me_socket = 3, me_connects = True,
     me_sends = True, me_key = Some (replicate 64 7), me_writable = True,
     me_files = [''rtable'' \<mapsto> rt_text [lab_client, lab_default]], me_stack = lab_buffers\<rparr>"

definition lab_hardware :: "(string \<times> bytes \<times> u32) list" where
  "lab_hardware = [(''eth1'', [2, 0, 0, 0, 0, 1], ipaddr 10 0 1 1), (''eth2'', [2, 0, 0, 0, 0, 2], ipaddr 172 16 0 1)]"

definition in_two :: "bytes \<Rightarrow> recv_result list" where
  "in_two cmd = [Recv (take 4 cmd), Recv (drop 4 cmd)]"

lemma sends_in_two: "sends (in_two (command t (b # bs))) (command t (b # bs))"
proof -
  let ?c = "command t (b # bs)"
  have "in_two ?c = [Recv (take 4 ?c)] @ [Recv (drop 4 ?c)]" by (simp add: in_two_def)
  moreover have "delivers [Recv (take 4 ?c)] (take 4 ?c)" "delivers [Recv (drop 4 ?c)] (drop 4 ?c)"
    by (simp_all add: delivers_def command_def bytes32_def)
  ultimately show ?thesis unfolding sends_def by blast
qed

lemma lab_hw_body: "\<exists>b bs. concat (concat (map hw_encode_if lab_hardware)) = b # bs"
proof -
  have "list_all hw_describable lab_hardware" "length lab_hardware = 2" by (simp_all add: lab_hardware_def hw_describable_def)
  with length_hw_body have "length (concat (concat (map hw_encode_if lab_hardware))) = 108 * 2" by metis
  then show ?thesis by (cases "concat (concat (map hw_encode_if lab_hardware))") simp_all
qed

abbreviation (input) lab_start :: sr_instance where
  "lab_start \<equiv> lab_router\<lparr>env := lab_env\<lparr>env_write := \<lambda>_. 35\<rparr>\<rparr>"

lemma lab_ready:
  defines "opts \<equiv> default_options\<lparr>opt_port := 9999\<rparr>"
  shows "parse_options default_options [(CHR ''p'', ''9999'')] = Some opts" "opt_template opts = None"
    "env_ready lab_main_env opts (replicate 64 7)" "saved_files lab_start = Map.empty"
    "me_files lab_main_env (opt_rtable opts) = Some (rt_text [lab_client, lab_default])"
    "[lab_client, lab_default] \<noteq> []" "list_all rt_printable [lab_client, lab_default]"
    "env_write (env lab_start) (ticks lab_start) = int (32 + length (user_name lab_main_env opts))"
proof -
  show "parse_options default_options [(CHR ''p'', ''9999'')] = Some opts" unfolding opts_def by code_simp
  show "list_all rt_printable [lab_client, lab_default]" using lab_printable by simp
  have "length (user_name lab_main_env opts) = 3"
    by (simp add: opts_def user_name_def default_options_def lab_main_env_def strncpy_def)
  then show "env_write (env lab_start) (ticks lab_start) = int (32 + length (user_name lab_main_env opts))" by simp
qed (simp_all add: opts_def default_options_def env_ready_def lab_main_env_def lab_router_def)

lemma lab_started:
  "\<exists>sr0 rs0. main_start 1 lab_main_env [(CHR ''p'', ''9999'')] lab_start
     (in_two (command VNS_AUTH_REQUEST [1, 2]) @ in_two (command VNS_AUTH_STATUS [1]) @ []) = Inr (Inr (sr0, rs0))"
  using main_start_ok [OF lab_ready _ _ _ sends_in_two [of VNS_AUTH_REQUEST 1 "[2]"] sends_in_two [of VNS_AUTH_STATUS 1 "[]"], of 1 "[]"] by auto




section \<open>The packet log\<close>



end
