(* ===== verification/Delivery_Claims.thy ===== *)
theory Delivery_Claims
  imports Sr_Delivery Boot_Claims
begin

text \<open>A packet to a neighbour that is not known yet, through the running program.\<close>

text \<open>
  C2: The first packet to an unknown neighbour is delivered by the running program: when the server hands
  over a packet in transit whose next hop is not in the ARP cache, and then the next hop's reply,
  both cut by the socket in any way, two messages have been sent to the wire when the main loop
  goes on: the broadcast ARP request for the next hop, and the packet itself, aged, addressed to the
  hardware address of the reply.  Nothing waits for that next hop any more, and the rest of the
  stream is untouched.
\<close>

theorem first_packet_delivered:
  assumes "router_inv sr" and "length name < 16" and "CHR 0x00 \<notin> set name" and "sr_get_interface sr name = Some j"
    and "42 \<le> length packet" and "length packet \<le> 9000" and "in_transit sr packet" and "2 \<le> ip_ttl (ip_hdr_at packet 14)"
    and "sr_get_longest_prefix_match sr (ip_dst (ip_hdr_at packet 14)) = Some rt"
    and "sr_get_interface sr (rt_interface rt) = Some i" and "length (if_name i) < 16" and "CHR 0x00 \<notin> set (if_name i)"
    and "sr_arpcache_lookup sr (rt_gw rt) = None" and "\<forall>r \<in> set (requests (cache sr)). req_ip r \<noteq> rt_gw rt"
    and "env_time (env sr) (ticks sr) > 1"
    and "42 \<le> length reply" and "length reply \<le> 9000" and "ether_type (ethernet_hdr_at reply 0) = htons ethertype_arp"
    and "ar_op (arp_hdr_at reply 14) = htons arp_op_reply" and "ar_tip (arp_hdr_at reply 14) = if_ip i"
    and "ar_sip (arp_hdr_at reply 14) = rt_gw rt"
    and "sends rs1 (packet_command name packet)" and "sends rs2 (packet_command (if_name i) reply)"
  shows "\<exists>sr' g f. main_loop (Suc fuel) me sr (rs1 @ rs2 @ rest) = main_loop (Suc fuel) me sr' rest
    \<and> wire sr' = wire sr @ [vns_message g (if_name i), vns_message f (if_name i)]
    \<and> ether_dhost (ethernet_hdr_at g 0) = replicate 6 0xff \<and> ar_op (arp_hdr_at g 14) = htons arp_op_request
    \<and> ar_sip (arp_hdr_at g 14) = if_ip i \<and> ar_tip (arp_hdr_at g 14) = rt_gw rt
    \<and> ether_dhost (ethernet_hdr_at f 0) = ar_sha (arp_hdr_at reply 14) \<and> ether_shost (ethernet_hdr_at f 0) = if_addr i
    \<and> aged packet f \<and> router_inv sr' \<and> (\<forall>q \<in> set (requests (cache sr')). req_ip q \<noteq> rt_gw rt)"
proof -
  have len: "34 \<le> length packet" using assms(5) by simp
  obtain sr1 g where w: "sr_handlepacket (Suc fuel) sr packet (length packet) name = Inr sr1"
    "requests (cache sr1) = \<lparr>req_id = next_addr sr, req_ip = rt_gw rt, req_sent = env_time (env sr) (ticks sr), req_times_sent = 1,
       req_packets = [\<lparr>pkt_buf = forwarded packet, pkt_len = length packet, pkt_iface = take 32 (if_name i)\<rparr>]\<rparr> # requests (cache sr)"
    "wire sr1 = wire sr @ [vns_message g (if_name i)]"
    and g: "ether_dhost (ethernet_hdr_at g 0) = replicate 6 0xff" "ar_op (arp_hdr_at g 14) = htons arp_op_request"
      "ar_sip (arp_hdr_at g 14) = if_ip i" "ar_tip (arp_hdr_at g 14) = rt_gw rt"
    using packet_waits [OF assms(1,7-10,13-15), of fuel name] by auto
  have ip: "ether_type (ethernet_hdr_at packet 0) \<noteq> htons ethertype_arp" using assms(7) by (simp add: in_transit_def)
  note loop1 = main_loop_packet [OF assms(2,3,5,6,4) disjI1 [OF ip] assms(22) w(1), of me "rs2 @ rest"]
  have k: "router_inv sr1" "sr_get_interface sr1 = sr_get_interface sr"
    using keeps_handlepacket [OF w(1)] assms(1) by (auto simp: keeps_def extends_def same_config_def sr_get_interface_def fun_eq_iff)
  have i: "sr_get_interface sr1 (if_name i) = Some i" using get_own_name [OF assms(10)] k(2) by simp
  have mac: "length (slice reply 22 6) = 6" "ar_sha (arp_hdr_at reply 14) = slice reply 22 6" using assms(16) by (simp_all add: hdr_fields)
  let ?r = "hd (requests (cache sr1))"
  obtain sr2 where a: "sr_handle_arp_packet sr1 reply (length reply) (if_name i) = Inr sr2"
    "wire sr2 = wire sr1 @ map (pending_message sr1 (slice reply 22 6)) (req_packets ?r)" "\<forall>q \<in> set (requests (cache sr2)). req_ip q \<noteq> req_ip ?r"
    using arp_reply_releases [OF k(1) assms(16) order_refl i, of ?r] assms(19-21) w(2) by (auto simp: hdr_fields)
  have h: "sr_handlepacket (Suc fuel) sr1 reply (length reply) (if_name i) = Inr sr2"
    using handlepacket_arp [of reply] assms(16,18) a(1) by simp
  have "ar_op (arp_hdr_at reply 14) \<noteq> htons arp_op_request" using assms(19) by simp
  note loop2 = main_loop_packet [OF assms(11,12,16,17) i disjI2 [OF this] assms(23) h, of me rest]
  obtain f where f: "pending_message sr1 (slice reply 22 6)
      \<lparr>pkt_buf = forwarded packet, pkt_len = length packet, pkt_iface = take 32 (if_name i)\<rparr> = vns_message f (if_name i)"
    "ether_dhost (ethernet_hdr_at f 0) = slice reply 22 6" "ether_shost (ethernet_hdr_at f 0) = if_addr i" "aged packet f"
    by (rule pending_frame [OF k(1) len i mac(1) assms(11)])
  have "wire sr2 = wire sr @ [vns_message g (if_name i), vns_message f (if_name i)]" using a(2) w(2,3) f(1) by simp
  moreover have "router_inv sr2" using keeps_handlepacket [OF h] k(1) by (simp add: keeps_def)
  moreover have "main_loop (Suc fuel) me sr (rs1 @ rs2 @ rest) = main_loop (Suc fuel) me sr2 rest" using loop1 loop2 by simp
  ultimately show ?thesis
    using g f(2-4) mac(2) a(3) w(2) by (intro exI [of _ sr2] exI [of _ g] exI [of _ f]) simp
qed

theorem first_packet_delivered_witness:
  "\<exists>sr' g f. main_loop (Suc 0) lab_main_env lab_router
       (in_two (packet_command ''eth1'' (lab_ip 64 17 [10, 0, 1, 100] [8, 8, 8, 8] [1, 2, 3, 4, 5, 6, 7, 8]))
        @ in_two (packet_command ''eth2'' (lab_arp 2 [2, 0, 0, 0, 0, 99] [172, 16, 0, 2] [172, 16, 0, 1])) @ [])
     = main_loop (Suc 0) lab_main_env sr' []
     \<and> wire sr' = [vns_message g ''eth2'', vns_message f ''eth2''] \<and> ether_dhost (ethernet_hdr_at f 0) = [2, 0, 0, 0, 0, 99]
     \<and> aged (lab_ip 64 17 [10, 0, 1, 100] [8, 8, 8, 8] [1, 2, 3, 4, 5, 6, 7, 8]) f"
proof -
  let ?p = "lab_ip 64 17 [10, 0, 1, 100] [8, 8, 8, 8] [1, 2, 3, 4, 5, 6, 7, 8]"
  let ?r = "lab_arp 2 [2, 0, 0, 0, 0, 99] [172, 16, 0, 2] [172, 16, 0, 1]"
  have s: "sends (in_two (packet_command ''eth1'' ?p)) (packet_command ''eth1'' ?p)"
    "sends (in_two (packet_command (if_name lab_eth2) ?r)) (packet_command (if_name lab_eth2) ?r)"
    unfolding packet_is_command strncpy_bytes_def by (simp_all add: lab_eth2_def sends_in_two)
  have p: "ip_dst (ip_hdr_at ?p 14) = ipaddr 8 8 8 8" "ip_ttl (ip_hdr_at ?p 14) = 64" "in_transit lab_router ?p" by code_simp+
  have r: "ether_type (ethernet_hdr_at ?r 0) = htons ethertype_arp" "ar_op (arp_hdr_at ?r 14) = htons arp_op_reply"
    "ar_tip (arp_hdr_at ?r 14) = if_ip lab_eth2" "ar_sip (arp_hdr_at ?r 14) = rt_gw lab_default" "ar_sha (arp_hdr_at ?r 14) = [2, 0, 0, 0, 0, 99]"
    "length ?r = 42" by code_simp+
  have q: "length ''eth1'' < 16" "CHR 0x00 \<notin> set ''eth1''" "42 \<le> length ?p" "length ?p \<le> 9000" "2 \<le> ip_ttl (ip_hdr_at ?p 14)"
    "length (if_name lab_eth2) < 16" "CHR 0x00 \<notin> set (if_name lab_eth2)" "42 \<le> length ?r" "length ?r \<le> 9000"
    using p(2) r(6) by (simp_all add: lab_eth2_def)
  have "ipaddr 172 16 0 2 \<noteq> ipaddr 10 0 1 100" by code_simp
  then have g: "sr_get_longest_prefix_match lab_router (ip_dst (ip_hdr_at ?p 14)) = Some lab_default"
    "sr_get_interface lab_router (rt_interface lab_default) = Some lab_eth2" "sr_arpcache_lookup lab_router (rt_gw lab_default) = None"
    using lab_interfaces lab_routes(4) p(1) by (simp_all add: lab_default_def lab_lookup)
  have e: "\<forall>r \<in> set (requests (cache lab_router)). req_ip r \<noteq> rt_gw lab_default" "env_time (env lab_router) (ticks lab_router) > 1"
    "wire lab_router = []" "if_name lab_eth2 = ''eth2''"
    by (simp_all add: lab_router_def lab_env_def lab_eth2_def)
  show ?thesis
    using first_packet_delivered [OF lab_inv q(1,2) lab_interfaces(1) q(3,4) p(3) q(5) g(1,2) q(6,7) g(3) e(1,2) q(8,9) r(1-4) s,
        of 0 lab_main_env "[]"] e(3) r(5)
    unfolding e(4) by fastforce
qed

end
