(* ===== verification/Router_Run_Claims.thy ===== *)
theory Router_Run_Claims
  imports Router_Claims
begin

text \<open>
  Routes, checksums, the ARP table and whole runs of the router: the properties that are not about
  one frame.
\<close>

section \<open>Routes\<close>

text \<open>A route covers an address if the two agree, in host order, on the bits of its prefix.\<close>

definition covers :: "sr_rt \<Rightarrow> u32 \<Rightarrow> bool" where
  "covers r ip \<longleftrightarrow> drop_bit (32 - mask_len (rt_mask r)) (ntohl ip)
                   = drop_bit (32 - mask_len (rt_mask r)) (ntohl (rt_dest r))"

lemma le32_and:
  "length a = 4 \<Longrightarrow> length b = 4 \<Longrightarrow> le32 (map2 (AND) a b) = le32 a AND le32 b"
proof (rule bit_word_eqI)
  fix n :: nat
  assume l: "length a = 4" "length b = 4" and "n < LENGTH(32)"
  then consider "n < 8" | "8 \<le> n" "n < 16" | "16 \<le> n" "n < 24" | "24 \<le> n" "n < 32" by force
  then show "bit (le32 (map2 (AND) a b)) n \<longleftrightarrow> bit (le32 a AND le32 b) n"
    using l by cases (simp_all add: le32_def bit_simps; auto dest: bit_imp_le_length)+
qed

lemma bytes32_and: "bytes32 (a AND b) = map2 (AND) (bytes32 a) (bytes32 b)"
  by (simp add: bytes32_def)
     (intro conjI; rule bit_word_eqI; simp add: bit_simps)

lemma swap32_and: "swap32 (a AND b) = swap32 a AND swap32 b"
proof -
  have "rev (bytes32 (a AND b)) = map2 (AND) (rev (bytes32 a)) (rev (bytes32 b))"
    by (simp only: bytes32_and) (simp add: bytes32_def)
  then show ?thesis unfolding swap32_def by (simp only: le32_and length_rev length_bytes32)
qed

lemma and_not_mask_eq_iff:
  "(a AND NOT (mask k) = b AND NOT (mask k)) \<longleftrightarrow> drop_bit k a = drop_bit k (b :: u32)"
proof
  assume h: "a AND NOT (mask k) = b AND NOT (mask k)"
  have "bit a (k + n) = bit b (k + n)" if "n < 32" for n
  proof -
    have "bit (a AND NOT (mask k)) (k + n) = bit (b AND NOT (mask k)) (k + n)" using h by simp
    then show ?thesis
      by (cases "k + n < 32") (auto simp: bit_simps dest: bit_imp_le_length)
  qed
  then show "drop_bit k a = drop_bit k b" by (intro bit_word_eqI) (simp add: bit_simps)
next
  assume h: "drop_bit k a = drop_bit k b"
  have "bit a (k + n) = bit b (k + n)" for n
    using arg_cong [OF h, of "\<lambda>w. bit w n"] by (simp add: bit_simps)
  then have "k \<le> n \<Longrightarrow> bit a n = bit b n" for n by (metis le_add_diff_inverse)
  then show "a AND NOT (mask k) = b AND NOT (mask k)"
    by (intro bit_word_eqI) (auto simp: bit_simps not_less)
qed

lemma rt_matches_covers:
  assumes "n \<le> 32" and "rt_mask r = netmask n"
  shows "rt_matches ip r \<longleftrightarrow> covers r ip"
proof -
  have "rt_matches ip r \<longleftrightarrow> ntohl (ip AND rt_mask r) = ntohl (rt_dest r AND rt_mask r)"
    by (simp add: rt_matches_def)
  then show ?thesis
    using assms by (simp add: swap32_and netmask_def and_not_mask_eq_iff covers_def)
       (simp add: netmask_def [symmetric])
qed

text \<open>
  C4: With a table of prefix masks, the route chosen for an address covers it and has the longest
  prefix of all routes that do; no route is chosen exactly when none covers the address.  The code
  compares masks as little-endian integers although they are in network byte order.
\<close>

theorem longest_prefix_match:
  assumes "prefix_masks (routing_table sr)"
  shows "case sr_get_longest_prefix_match sr ip of
           None \<Rightarrow> \<forall>r \<in> set (routing_table sr). \<not> covers r ip
         | Some e \<Rightarrow> e \<in> set (routing_table sr) \<and> covers e ip
             \<and> (\<forall>r \<in> set (routing_table sr). covers r ip \<longrightarrow> mask_len (rt_mask r) \<le> mask_len (rt_mask e))"
proof -
  have m: "rt_matches ip r \<longleftrightarrow> covers r ip" if "r \<in> set (routing_table sr)" for r
    using assms that rt_matches_covers by (fastforce simp: prefix_masks_def)
  have le: "mask_len (rt_mask r) \<le> mask_len (rt_mask e)"
    if mem: "r \<in> set (routing_table sr)" "e \<in> set (routing_table sr)" and less: "rt_mask r \<le> rt_mask e" for r e
  proof -
    obtain m n where "m \<le> 32" "rt_mask r = netmask m" "n \<le> 32" "rt_mask e = netmask n"
      using assms mem unfolding prefix_masks_def by meson
    then show ?thesis using less mask_len_mono [of m n] by simp
  qed
  show ?thesis
  proof (cases "sr_get_longest_prefix_match sr ip")
    case None
    moreover from None have "\<forall>r \<in> set (routing_table sr). \<not> rt_matches ip r"
      by (simp only: sr_get_longest_prefix_match_None)
    ultimately show ?thesis using m by simp
  next
    case (Some e)
    then show ?thesis using sr_get_longest_prefix_match_Some [OF Some] m le by auto
  qed
qed

theorem longest_prefix_match_witness:
  "covers lab_campus (ipaddr 10 9 9 9) \<and> mask_len (rt_mask lab_default) \<le> mask_len (rt_mask lab_campus)"
proof -
  have "covers lab_default (ipaddr 10 9 9 9)" by code_simp
  then show ?thesis
    using longest_prefix_match [OF lab_prefix_masks, of "ipaddr 10 9 9 9"] lab_routes(3)
    by (simp add: lab_router_def)
qed

section \<open>Checksums\<close>

lemma sum16_zeroed:
  assumes "34 \<le> length packet"
  shows "sum16 (slice packet 14 20)
         = sum16 (slice (splices packet [(24, bytes16 0)]) 14 20) + unat (ntohs (le16 (slice packet 24 2)))"
proof -
  let ?h = "slice packet 14 20" and ?f = "slice packet 24 2"
  have z: "slice (splices packet [(24, bytes16 0)]) 14 20 = splice ?h 10 (bytes16 0)"
    using assms by (simp add: splices_simps slice_splice_inside)
  have "sum16 (splice ?h 10 (bytes16 0)) + sum16 ?f = sum16 ?h + unat (ntohs 0)"
    using sum16_splice [of 10 ?h 0] assms by simp
  moreover have "bytes16 (le16 ?f) = ?f" using assms by simp
  then have "sum16 ?f = unat (ntohs (le16 ?f))" using sum16_bytes16 [of "le16 ?f"] by simp
  moreover have "swap16 0 = 0" by simp
  ultimately show ?thesis using z by (metis add.right_neutral unsigned_0)
qed

lemma complement_unique:
  fixes f c k :: nat
  assumes "f \<le> 65535" and "c \<le> 65535" and "k = (if f = 65535 then 65535 else 65535 - f)"
    and "s mod 65535 = f mod 65535"
  shows "c = k \<longleftrightarrow> (s + c) mod 65535 = 0 \<and> c \<noteq> 0"
proof -
  have "(s + c) mod 65535 = (f + c) mod 65535" using assms(4) by (metis mod_add_left_eq)
  moreover have "(f + c) mod 65535 =
      (if f + c < 65535 then f + c else if f + c < 131070 then f + c - 65535 else 0)"
    using assms(1,2) by (simp add: mod_if)
  ultimately show ?thesis using assms(1-3) by (auto split: if_splits)
qed

lemma ip_sum_accepted_iff:
  assumes "34 \<le> length packet"
  shows "ip_sum_accepted packet \<longleftrightarrow> cksum_ok packet 14 20 \<and> ip_sum (ip_hdr_at packet 14) \<noteq> 0"
proof -
  let ?z = "slice (splices packet [(24, bytes16 0)]) 14 20" and ?c = "le16 (slice packet 24 2)"
  let ?f = "unat (cksum_fold (cksum_sum 0 ?z))"
  have lz: "length ?z \<le> 131070" using assms by simp
  have "ip_sum_accepted packet \<longleftrightarrow> ntohs ?c = ntohs (cksum ?z)" by (simp add: ip_sum_accepted_def)
  also have "\<dots> \<longleftrightarrow> unat (ntohs ?c) = unat (ntohs (cksum ?z))" by (simp add: word_unat_eq_iff)
  also have "\<dots> \<longleftrightarrow> (sum16 ?z + unat (ntohs ?c)) mod 65535 = 0 \<and> unat (ntohs ?c) \<noteq> 0"
    by (rule complement_unique [of ?f])
       (use cksum_fold_spec [of "cksum_sum 0 ?z"] cksum_sum_exact [OF lz] unat_ntohs_cksum [of ?z]
          unat_le_width(2) in auto)
  finally show ?thesis
    using sum16_zeroed [OF assms] by (simp add: cksum_ok_def hdr_fields unat_eq_0)
qed



text \<open>
  C27: The checksum routine computes the Internet checksum: added to the 16-bit one's complement sum
  of the data it gives zero, for data of any length up to 131070 bytes, odd lengths included,
  without overflow of its 32-bit accumulator.
\<close>

theorem cksum_internet:
  assumes "length data \<le> 131070"
  shows "unat (cksum_sum 0 data) = sum16 data
     \<and> (sum16 data + unat (ntohs (cksum data))) mod 65535 = 0"
  using cksum_sum_exact [OF assms] cksum_complements [OF assms] by simp

theorem cksum_internet_witness:
  "(sum16 [0x45, 0, 0, 0x1c] + unat (ntohs (cksum [0x45, 0, 0, 0x1c]))) mod 65535 = 0"
  by (rule conjunct2 [OF cksum_internet]) simp

section \<open>Faults and divergence\<close>

text \<open>
  A packet in transit with TTL 0 is forwarded, as a packet with TTL 255: the decrement wraps
  around before the test.
\<close>

theorem ttl_zero_forwarded:
  assumes "router_inv sr" and "in_transit sr packet" and "ip_ttl (ip_hdr_at packet 14) = 0"
    and "sr_get_longest_prefix_match sr (ip_dst (ip_hdr_at packet 14)) = Some rt"
    and "sr_get_interface sr (rt_interface rt) = Some i"
    and "sr_arpcache_lookup sr (rt_gw rt) = Some e"
  shows "\<exists>f. sr_handlepacket fuel sr packet (length packet) name = Inr (emit f (if_name i) sr)
     \<and> ip_ttl (ip_hdr_at f 14) = 255"
proof -
  let ?f = "forwarded_frame packet (length packet) i e"
  have len: "34 \<le> length packet" using assms(2) by (simp add: in_transit_def)
  have l: "length (if_addr i) = 6" "length (ae_mac e) = 6"
    using inv_if_addr [OF assms(1,5)] cache_hit_mac [OF assms(1,6)] by auto
  have z: "packet ! 22 = 0" using assms(3) by (simp add: hdr_fields)
  then have "sr_handlepacket fuel sr packet (length packet) name = Inr (emit ?f (if_name i) sr)"
    using forward_hit [OF assms(1) len _ _ _ assms(5,6)] assms(4)
    by (simp add: handlepacket_transit [OF assms(2)] hdr_fields)
  moreover have "?f ! 22 = 255"
    using forwarded_frame_nth [OF len order_refl l, where k = 22] forwarded_ttl [OF len] z len by simp
  ultimately show ?thesis by (auto simp: hdr_fields)
qed

theorem ttl_zero_forwarded_witness:
  "\<exists>f. sr_handlepacket 1 lab_router (lab_ip 0 17 [8, 8, 8, 8] [10, 0, 1, 77] []) 34 ''eth2''
        = Inr (emit f ''eth1'' lab_router) \<and> ip_ttl (ip_hdr_at f 14) = 255"
proof -
  let ?p = "lab_ip 0 17 [8, 8, 8, 8] [10, 0, 1, 77] []"
  have f: "ip_dst (ip_hdr_at ?p 14) = ipaddr 10 0 1 77" "ip_ttl (ip_hdr_at ?p 14) = 0" by code_simp+
  have t: "in_transit lab_router ?p" by code_simp
  have g: "sr_get_interface lab_router (rt_interface lab_client) = Some lab_eth1"
    "sr_arpcache_lookup lab_router (rt_gw lab_client) = Some lab_neighbour"
    using lab_interfaces by (simp_all add: lab_client_def lab_lookup)
  have n: "if_name lab_eth1 = ''eth1''" by (simp add: lab_eth1_def)
  show ?thesis
    using ttl_zero_forwarded [OF lab_inv t _ _ g, of 1 "''eth2''"] f lab_routes(1) unfolding n by simp
qed

text \<open>
  C22: Whatever the contents of a frame, if it has at least 42 bytes and arrives on an interface of
  the router, and no pending request has been sent five times, handling it reads and writes only
  inside its buffers, dereferences no null or freed pointer, and needs one stack frame of the
  request handler.
\<close>

theorem no_fault_on_frames:
  assumes "router_inv sr" and "no_exhausted sr" and "42 \<le> length packet"
    and "sr_get_interface sr name = Some i"
  shows "safe (sr_handlepacket (Suc fuel) sr packet (length packet) name)"
  using handlepacket_safe [OF assms(1-3) refl assms(4)] .

theorem no_fault_on_frames_witness: "safe (sr_handlepacket 1 lab_waiting (replicate 60 0) 60 ''eth2'')"
  using no_fault_on_frames [OF lab_waiting_facts(1,2) _ lab_waiting_facts(3), of "replicate 60 0" 0] by simp







text \<open>
  A request that was sent five times and holds a packet whose sender is routed through the very
  address that does not answer makes \<open>handle_arpreq\<close> recurse without end: the host unreachable
  message for that packet is queued on the request itself, which is then handled again.  No
  stack is deep enough.
\<close>

theorem unreachable_gateway_loops:
  "stuck a ip p sr \<Longrightarrow> \<not> safe (handle_arpreq fuel sr a)"
  by (rule handle_arpreq_diverges)

definition lab_stuck_packet :: sr_packet where
  "lab_stuck_packet = \<lparr>pkt_buf = lab_ip 63 17 [9, 9, 9, 9] [8, 8, 8, 8] [1, 2, 3, 4, 5, 6, 7, 8], pkt_len = 42,
     pkt_iface = ''eth2''\<rparr>"

definition lab_stuck :: sr_instance where
  "lab_stuck = lab_router\<lparr>next_addr := 2, cache := (cache lab_router)\<lparr>requests :=
     [\<lparr>req_id = 1, req_ip = ipaddr 172 16 0 2, req_sent = 90, req_times_sent = 5, req_packets = [lab_stuck_packet]\<rparr>]\<rparr>\<rparr>"

theorem unreachable_gateway_loops_witness: "\<not> safe (handle_arpreq 1000 lab_stuck 1)"
proof (rule unreachable_gateway_loops [of 1 "ipaddr 172 16 0 2" lab_stuck_packet])
  have g: "sr_get_interface lab_stuck = sr_get_interface lab_router"
    "sr_get_longest_prefix_match lab_stuck = sr_get_longest_prefix_match lab_router"
    by (simp_all add: lab_stuck_def)
  have inv: "router_inv lab_stuck"
    using lab_inv lab_interfaces(2) g(1)
    by (simp add: router_inv_defs ifs_wf_def lab_stuck_def lab_stuck_packet_def)
  have "ipaddr 172 16 0 2 \<noteq> ipaddr 10 0 1 100" by code_simp
  then have l: "sr_arpcache_lookup lab_stuck (ipaddr 172 16 0 2) = None"
    using lab_lookup by (simp add: lab_stuck_def sr_arpcache_lookup_def)
  have "sr_get_longest_prefix_match lab_router (le32 (slice (pkt_buf lab_stuck_packet) 26 4)) = Some lab_default"
    by code_simp
  then show "stuck 1 (ipaddr 172 16 0 2) lab_stuck_packet lab_stuck"
    using inv l lab_interfaces(2)
    by (simp add: stuck_def g) (simp add: lab_stuck_def lab_router_def lab_env_def lab_default_def)
qed

section \<open>The ARP table\<close>

text \<open>
  C28: The cache is a table of up to a hundred neighbours: learning a list of new addresses one after
  the other, as long as there are that many free entries, makes lookups answer with exactly
  those hardware addresses and leaves every other lookup as it was.
\<close>

theorem arp_cache_learns:
  assumes "arp_wf sr" and "length bs \<le> arp_room sr" and "distinct (map fst bs)"
    and "\<forall>ip \<in> fst ` set bs. sr_arpcache_lookup sr ip = None"
  shows "arp_lookup (fold (\<lambda>(ip, mac) sr. snd (sr_arpcache_insert sr mac ip)) bs sr) ip
     = (case map_of bs ip of None \<Rightarrow> arp_lookup sr ip | Some mac \<Rightarrow> Some mac)"
  using arp.learn_all_lookup [of sr bs ip] assms
  by (simp add: arp.learn_all_def arp_learn_def arp_lookup_def)

theorem arp_cache_learns_witness:
  "arp_lookup (fold (\<lambda>(ip, mac) sr. snd (sr_arpcache_insert sr mac ip))
      [(ipaddr 172 16 0 2, [2, 0, 0, 0, 0, 9]), (ipaddr 172 16 0 3, [2, 0, 0, 0, 0, 8])] lab_router) (ipaddr 10 0 1 100)
   = Some [2, 0, 0, 0, 0, 100]"
proof -
  let ?bs = "[(ipaddr 172 16 0 2, [2, 0, 0, 0, 0, 9]), (ipaddr 172 16 0 3, [2, 0, 0, 0, 0, 8])] :: (u32 \<times> bytes) list"
  have ne: "ipaddr 172 16 0 2 \<noteq> ipaddr 10 0 1 100" "ipaddr 172 16 0 3 \<noteq> ipaddr 10 0 1 100"
    "ipaddr 172 16 0 2 \<noteq> ipaddr 172 16 0 3" by code_simp+
  have r: "length ?bs \<le> arp_room lab_router" by (simp add: arp_room_def lab_router_def lab_unused_def)
  show ?thesis
    using arp_cache_learns [of lab_router ?bs "ipaddr 10 0 1 100"] lab_inv r ne
    by (simp add: router_inv_def lab_lookup arp_lookup_def) (simp add: lab_neighbour_def)
qed

text \<open>
  Every second the cleanup thread forgets exactly the neighbours learned more than fifteen
  seconds before: afterwards a lookup answers as if only the younger entries had been there.
\<close>

theorem arp_cache_expires:
  "sr_arpcache_lookup (expire_entries sr) ip = lookup_walk ip
     (filter (\<lambda>e. env_time (env sr) (ticks sr) - ae_added e \<le> 15) (entries (cache sr))) None"
  by (simp add: sr_arpcache_lookup_def expire_entries_def sr_time_def lookup_walk_expire)

end
