(* ===== verification/Session_Claims.thy ===== *)
theory Session_Claims
  imports Sr_Lab Sr_Hwinfo
begin

text \<open>
  The session with the virtual network server: commands are reassembled from whatever pieces the
  socket delivers, hardware information installs the interfaces it describes, and authentication
  answers with the SHA-1 digest of the salt and the key.
\<close>

section \<open>Hardware information\<close>

text \<open>
  Hardware information is installed as described: the message for a list of interfaces (at most
  92, which is what fits in a command) appends exactly these interfaces, in order, with their
  names, hardware addresses and IP addresses.
\<close>

theorem hwinfo_installs:
  assumes "list_all hw_describable is" and "length is \<le> 92"
  shows "\<exists>sr'. sr_handle_hwinfo sr (hw_encode is) = Inr (int (3 * length is), sr')
     \<and> map if_description (if_list sr') = map if_description (if_list sr) @ is"
  using handle_hwinfo_ifs [OF assms, of "bytes32 (htonl 16)"] by (simp add: hw_message_def hw_encode_def)

theorem hwinfo_installs_witness:
  "\<exists>sr'. sr_handle_hwinfo (lab_router\<lparr>if_list := []\<rparr>)
       (hw_encode [(''eth1'', [2, 0, 0, 0, 0, 1], ipaddr 10 0 1 1), (''eth2'', [2, 0, 0, 0, 0, 2], ipaddr 172 16 0 1)])
     = Inr (6, sr')
     \<and> map if_name (if_list sr') = [''eth1'', ''eth2'']"
proof -
  let ?is = "[(''eth1'', [2, 0, 0, 0, 0, 1], ipaddr 10 0 1 1), (''eth2'', [2, 0, 0, 0, 0, 2], ipaddr 172 16 0 1)]"
  have d: "list_all hw_describable ?is" by (simp add: hw_describable_def)
  obtain sr' where 1: "sr_handle_hwinfo (lab_router\<lparr>if_list := []\<rparr>) (hw_encode ?is) = Inr (int (3 * length ?is), sr')"
    "map if_description (if_list sr') = map if_description [] @ ?is"
    using hwinfo_installs [OF d, of "lab_router\<lparr>if_list := []\<rparr>"] by auto
  from arg_cong [OF 1(2), of "map fst"] have "map if_name (if_list sr') = [''eth1'', ''eth2'']"
    by (simp add: if_description_def comp_def)
  with 1(1) show ?thesis by simp
qed

section \<open>Reading commands\<close>

text \<open>
  A command is read whole however the socket delivers it: cut into any pieces, with empty reads
  and interrupted calls in between, as long as no call fails and the length and the rest are not
  delivered in one piece (the code asks for the four length bytes first).
\<close>

theorem command_reassembled:
  assumes "8 \<le> length cmd" and "length cmd \<le> 10000"
    and "take 4 cmd = bytes32 (htonl (of_nat (length cmd)))"
    and "delivers rs1 (take 4 cmd)" and "delivers rs2 (drop 4 cmd)"
  shows "read_command (rs1 @ rs2 @ rs) = Inr (Got cmd rs)"
  using read_command_delivers [OF assms] .

theorem command_reassembled_witness:
  "read_command ([Recv [0, 0], Recv_EINTR, Recv [], Recv [0, 9]] @ [Recv [0], Recv [0, 0, 2, 7]] @ [])
   = Inr (Got [0, 0, 0, 9, 0, 0, 0, 2, 7] [])"
proof -
  have "bytes32 (htonl 9) = [0, 0, 0, 9]" by code_simp
  then show ?thesis
    by (intro command_reassembled) (simp_all add: delivers_def)
qed

text \<open>
  When the server closes the connection the router never notices: however often \<open>recv\<close> reports
  the end of the stream, the read is still waiting.
\<close>

theorem closed_connection_spins:
  "sr_read_from_server_expect fuel key ok expected sr (replicate k (Recv [])) = Inr Waiting"
  by (simp add: sr_read_from_server_expect_def read_command_def recv_loop_eof)

section \<open>Authentication\<close>

text \<open>
  C32: The SHA-1 implementation computes the function of FIPS 180: a message given in any portions, up
  to \<open>2^61 - 1\<close> bytes in all, is digested without a fault and without being flagged corrupted,
  and the digest is that of the whole message.
\<close>

theorem sha1_digest:
  assumes "length (Message_Block c) = 64" and "length (concat ps) < 2 ^ 61"
  shows "\<exists>c'. bindR (input_all (SHA1Reset c) ps) SHA1Result = Inr (True, c')
     \<and> Message_Digest c' = sha1 (concat ps)"
  using sha1_portions [OF assms] .

theorem sha1_digest_witness:
  "\<exists>c'. bindR (input_all (SHA1Reset fresh_context) [[97], [98, 99]]) SHA1Result = Inr (True, c')
     \<and> Message_Digest c' = sha1 [97, 98, 99]"
  using sha1_digest [of fresh_context "[[97], [98, 99]]"] by (simp add: fresh_context_def)

text \<open>
  An authentication request is answered with the user name and the SHA-1 digest of the salt
  followed by the 64-byte key, in the layout of the reply message; it counts as a success exactly
  if the whole reply was written.
\<close>

theorem authentication_reply:
  assumes "length salt \<le> 10000" and "64 \<le> length key"
    and "req = bytes32 (htonl (of_nat (8 + length salt))) @ t @ salt" and "length t = 4"
  shows "sr_handle_auth_request sr (Some key) req =
     Inr (env_write (env sr) (ticks sr) = int (32 + length (user sr)),
          sr\<lparr>ticks := Suc (ticks sr), wire := wire sr @ [auth_reply (user sr) (salt @ take 64 key)]\<rparr>)"
  using auth_request_reply [OF assms] .

theorem authentication_reply_witness:
  "sr_handle_auth_request lab_router (Some (replicate 64 1)) (bytes32 (htonl 10) @ [0, 0, 0, 128] @ [5, 6])
   = Inr (False, lab_router\<lparr>ticks := 1, wire := [auth_reply ''lab'' ([5, 6] @ replicate 64 1)]\<rparr>)"
  using authentication_reply [of "[5, 6]" "replicate 64 1" _ "[0, 0, 0, 128]" lab_router]
  by (simp add: lab_router_def lab_env_def)

end
