(* ===== verification/Sr_Print.thy ===== *)
theory Sr_Print
  imports Sr_Utils Sr_Load
begin

text \<open>
  What the router prints: headers (\<^verbatim>\<open>router/sr_utils.c\<close>), the routing table (\<^verbatim>\<open>router/sr_rt.c\<close>), the
  interfaces (\<^verbatim>\<open>router/sr_if.c\<close>) and the ARP cache (\<^verbatim>\<open>router/sr_arpcache.c\<close>).  A function that
  prints returns the text; one that reads a buffer can fault.
\<close>

abbreviation (input) TAB :: char where "TAB \<equiv> CHR 0x09"

section \<open>Numbers in base 16\<close>

definition hex_digit :: "nat \<Rightarrow> char" where
  "hex_digit k = char_of (if k < 10 then 48 + k else 87 + k)"

definition hex_digit_upper :: "nat \<Rightarrow> char" where
  "hex_digit_upper k = char_of (if k < 10 then 48 + k else 55 + k)"

text \<open>\<open>%x\<close>, and \<open>%.nx\<close> with at least \<open>n\<close> digits; \<open>%02X\<close> and \<open>%02x\<close> of a byte.\<close>

fun show_hex :: "nat \<Rightarrow> string" where
  "show_hex n = (if n < 16 then [hex_digit n] else show_hex (n div 16) @ [hex_digit (n mod 16)])"

declare show_hex.simps [simp del]

definition show_hex_pad :: "nat \<Rightarrow> nat \<Rightarrow> string" where
  "show_hex_pad k n = (let ds = show_hex n in replicate (k - length ds) CHR ''0'' @ ds)"

definition byte_upper :: "u8 \<Rightarrow> string" where
  "byte_upper b = [hex_digit_upper (unat b div 16), hex_digit_upper (unat b mod 16)]"

definition byte_lower :: "u8 \<Rightarrow> string" where
  "byte_lower b = [hex_digit (unat b div 16), hex_digit (unat b mod 16)]"

section \<open>Addresses\<close>

text \<open>The loop of \<open>print_addr_eth\<close>; \<open>pos\<close> counts up to six.\<close>

function eth_loop :: "bytes \<Rightarrow> nat \<Rightarrow> fault + string" where
  "eth_loop addr pos =
     (if pos < ETHER_ADDR_LEN
      then bindR (load8 addr pos) (\<lambda>cur.
           bindR (eth_loop addr (pos + 1)) (\<lambda>rest.
             Inr ((if pos > 0 then '':'' else []) @ byte_upper cur @ rest)))
      else Inr [])"
  by pat_completeness auto
termination by (relation "measure (\<lambda>(_, pos). 6 - pos)") auto

declare eth_loop.simps [simp del]

definition print_addr_eth :: "bytes \<Rightarrow> fault + string" where
  "print_addr_eth addr = bindR (eth_loop addr 0) (\<lambda>text. Inr (text @ [LF]))"

text \<open>\<open>inet_ntop\<close> does not fail with a buffer it is told to have 100 bytes.\<close>

definition print_addr_ip :: "u32 \<Rightarrow> string" where
  "print_addr_ip address = dotted address @ [LF]"

definition print_addr_ip_int :: "u32 \<Rightarrow> string" where
  "print_addr_ip_int ip =
     show_nat (unat (drop_bit 24 ip)) @ ''.'' @ show_nat (unat (drop_bit 24 (push_bit 8 ip))) @ ''.''
     @ show_nat (unat (drop_bit 24 (push_bit 16 ip))) @ ''.'' @ show_nat (unat (drop_bit 24 (push_bit 24 ip))) @ [LF]"

section \<open>Headers\<close>

definition field :: "string \<Rightarrow> nat \<Rightarrow> string" where
  "field name v = [TAB] @ name @ '': '' @ show_nat v @ [LF]"

definition print_hdr_eth :: "bytes \<Rightarrow> fault + string" where
  "print_hdr_eth buf =
     bindR (load_bytes buf 0 sizeof_ethernet_hdr) (\<lambda>b.
       let ehdr = ethernet_hdr_at b 0
       in bindR (print_addr_eth (ether_dhost ehdr)) (\<lambda>d.
          bindR (print_addr_eth (ether_shost ehdr)) (\<lambda>s.
            Inr (''ETHERNET header:'' @ [LF, TAB] @ ''destination: '' @ d @ [TAB] @ ''source: '' @ s
                 @ field ''type'' (unat (ntohs (ether_type ehdr)))))))"

abbreviation (input) IP_RF :: u16 where "IP_RF \<equiv> 0x8000"
abbreviation (input) IP_MF :: u16 where "IP_MF \<equiv> 0x2000"
abbreviation (input) IP_OFFMASK :: u16 where "IP_OFFMASK \<equiv> 0x1fff"

definition print_hdr_ip :: "bytes \<Rightarrow> fault + string" where
  "print_hdr_ip buf =
     bindR (load_bytes buf 0 sizeof_ip_hdr) (\<lambda>b.
       let iphdr = ip_hdr_at b 0; off = ntohs (ip_off iphdr)
       in Inr (''IP header:'' @ [LF] @ field ''version'' (unat (ip_v iphdr)) @ field ''header length'' (unat (ip_hl iphdr))
               @ field ''type of service'' (unat (ip_tos iphdr)) @ field ''length'' (unat (ntohs (ip_len iphdr)))
               @ field ''id'' (unat (ntohs (ip_id iphdr)))
               @ (if off AND IP_DF \<noteq> 0 then [TAB] @ ''fragment flag: DF'' @ [LF]
                  else if off AND IP_MF \<noteq> 0 then [TAB] @ ''fragment flag: MF'' @ [LF]
                  else if off AND IP_RF \<noteq> 0 then [TAB] @ ''fragment flag: R'' @ [LF]
                  else [])
               @ field ''fragment offset'' (unat (off AND IP_OFFMASK)) @ field ''TTL'' (unat (ip_ttl iphdr))
               @ field ''protocol'' (unat (ip_p iphdr)) @ field ''checksum'' (unat (ip_sum iphdr))
               @ [TAB] @ ''source: '' @ print_addr_ip_int (ntohl (ip_src iphdr))
               @ [TAB] @ ''destination: '' @ print_addr_ip_int (ntohl (ip_dst iphdr))))"

definition print_hdr_icmp :: "bytes \<Rightarrow> fault + string" where
  "print_hdr_icmp buf =
     bindR (load8 buf 0) (\<lambda>t. bindR (load8 buf 1) (\<lambda>c. bindR (load16 buf 2) (\<lambda>s.
       Inr (''ICMP header:'' @ [LF] @ field ''type'' (unat t) @ field ''code'' (unat c) @ field ''checksum'' (unat s)))))"

definition print_hdr_arp :: "bytes \<Rightarrow> fault + string" where
  "print_hdr_arp buf =
     bindR (load_bytes buf 0 sizeof_arp_hdr) (\<lambda>b.
       let arp_hdr = arp_hdr_at b 0
       in bindR (print_addr_eth (ar_sha arp_hdr)) (\<lambda>s.
          bindR (print_addr_eth (ar_tha arp_hdr)) (\<lambda>t.
            Inr (''ARP header'' @ [LF] @ field ''hardware type'' (unat (ntohs (ar_hrd arp_hdr)))
                 @ field ''protocol type'' (unat (ntohs (ar_pro arp_hdr)))
                 @ field ''hardware address length'' (unat (ar_hln arp_hdr))
                 @ field ''protocol address length'' (unat (ar_pln arp_hdr))
                 @ field ''opcode'' (unat (ntohs (ar_op arp_hdr)))
                 @ [TAB] @ ''sender hardware address: '' @ s
                 @ [TAB] @ ''sender ip address: '' @ print_addr_ip_int (ntohl (ar_sip arp_hdr))
                 @ [TAB] @ ''target hardware address: '' @ t
                 @ [TAB] @ ''target ip address: '' @ print_addr_ip_int (ntohl (ar_tip arp_hdr))))))"

text \<open>The struct of an ICMP header includes 28 bytes of data here: 36 bytes.\<close>

abbreviation (input) sizeof_icmp_hdr :: nat where "sizeof_icmp_hdr \<equiv> 36"

definition print_hdrs :: "bytes \<Rightarrow> nat \<Rightarrow> fault + string" where
  "print_hdrs buf len =
     (if len < sizeof_ethernet_hdr then Inr (''Failed to print ETHERNET header, insufficient length'' @ [LF])
      else bindR (ethertype buf) (\<lambda>ethtype. bindR (print_hdr_eth buf) (\<lambda>eth.
        if ethtype = ethertype_ip
        then (if len < sizeof_ethernet_hdr + sizeof_ip_hdr
              then Inr (eth @ ''Failed to print IP header, insufficient length'' @ [LF])
              else bindR (print_hdr_ip (drop sizeof_ethernet_hdr buf)) (\<lambda>ip.
                   bindR (ip_protocol (drop sizeof_ethernet_hdr buf)) (\<lambda>ip_proto.
                     if ip_proto = ip_protocol_icmp
                     then (if len < sizeof_ethernet_hdr + sizeof_ip_hdr + sizeof_icmp_hdr
                           then Inr (eth @ ip @ ''Failed to print ICMP header, insufficient length'' @ [LF])
                           else bindR (print_hdr_icmp (drop (sizeof_ethernet_hdr + sizeof_ip_hdr) buf)) (\<lambda>icmp.
                                  Inr (eth @ ip @ icmp)))
                     else Inr (eth @ ip))))
        else if ethtype = ethertype_arp
        then (if len < sizeof_ethernet_hdr + sizeof_arp_hdr
              then Inr (eth @ ''Failed to print ARP header, insufficient length'' @ [LF])
              else bindR (print_hdr_arp (drop sizeof_ethernet_hdr buf)) (\<lambda>arp. Inr (eth @ arp)))
        else Inr (eth @ ''Unrecognized Ethernet Type: '' @ show_nat (unat ethtype) @ [LF]))))"

section \<open>Tables\<close>

definition sr_print_routing_entry :: "sr_rt \<Rightarrow> string" where
  "sr_print_routing_entry entry =
     dotted (rt_dest entry) @ [TAB, TAB] @ dotted (rt_gw entry) @ [TAB] @ dotted (rt_mask entry) @ [TAB]
     @ rt_interface entry @ [LF]"

definition sr_print_routing_table :: "sr_instance \<Rightarrow> string" where
  "sr_print_routing_table sr =
     (if routing_table sr = [] then '' *warning* Routing table empty '' @ [LF]
      else ''Destination'' @ [TAB] @ ''Gateway'' @ [TAB, TAB] @ ''Mask'' @ [TAB] @ ''Iface'' @ [LF]
           @ concat (map sr_print_routing_entry (routing_table sr)))"

text \<open>The interfaces, as printed when the program is built with debugging output.\<close>

fun mac_lower :: "bytes \<Rightarrow> string" where
  "mac_lower [] = []"
| "mac_lower [b] = byte_lower b"
| "mac_lower (b # bs) = byte_lower b @ '':'' @ mac_lower bs"

definition sr_print_if :: "sr_if \<Rightarrow> string" where
  "sr_print_if iface =
     if_name iface @ [TAB] @ ''HWaddr'' @ mac_lower (if_addr iface) @ [LF, TAB] @ ''inet addr '' @ dotted (if_ip iface) @ [LF]"

definition sr_print_if_list :: "sr_instance \<Rightarrow> string" where
  "sr_print_if_list sr =
     (if if_list sr = [] then '' Interface list empty '' @ [LF] else concat (map sr_print_if (if_list sr)))"

text \<open>The ARP cache; \<open>ctime\<close> is the text of a time.\<close>

definition dump_entry :: "(int \<Rightarrow> string) \<Rightarrow> sr_arpentry \<Rightarrow> string" where
  "dump_entry ctime cur =
     concat (map (\<lambda>b. show_hex_pad 1 (unat b)) (ae_mac cur)) @ ''   '' @ show_hex_pad 8 (unat (ntohl (ae_ip cur)))
     @ ''   '' @ take 24 (ctime (ae_added cur)) @ ''   '' @ (if ae_valid cur then ''1'' else ''0'') @ [LF]"

definition sr_arpcache_dump :: "(int \<Rightarrow> string) \<Rightarrow> sr_arpcache \<Rightarrow> string" where
  "sr_arpcache_dump ctime c =
     [LF] @ ''MAC            IP         ADDED                      VALID'' @ [LF]
     @ ''-----------------------------------------------------------'' @ [LF]
     @ concat (map (dump_entry ctime) (entries c)) @ [LF]"

section \<open>Printing headers stays within the frame\<close>

lemma load_bytes_take: "off + n \<le> k \<Longrightarrow> k \<le> length buf \<Longrightarrow> load_bytes (take k buf) off n = load_bytes buf off n"
  by (simp add: load_bytes_def slice_def drop_take min_absorb1)

lemma eth_loop_safe: "length addr = 6 \<Longrightarrow> safe (eth_loop addr pos)"
proof (induction addr pos rule: eth_loop.induct)
  case (1 addr pos)
  show ?case
  proof (cases "pos < 6")
    case True
    then have "load8 addr pos = Inr (slice addr pos 1 ! 0)" using 1(2) by (simp add: load8_def load_bytes_def)
    with 1 True show ?thesis by (subst eth_loop.simps) (auto simp: safe_def)
  qed (subst eth_loop.simps, simp)
qed

lemma print_addr_eth_safe: "length addr = 6 \<Longrightarrow> safe (print_addr_eth addr)"
  using eth_loop_safe [of addr 0] by (auto simp: print_addr_eth_def safe_def)

lemma safe_bind_const: "safe m \<Longrightarrow> (\<And>x. safe (f x)) \<Longrightarrow> safe (bindR m f)"
  by (auto simp: safe_def)

lemma safe_load_bytes: "off + n \<le> length buf \<Longrightarrow> safe (load_bytes buf off n)"
  by (simp add: load_bytes_def)

lemma safe_loads: "off + 1 \<le> length buf \<Longrightarrow> safe (load8 buf off)" "off + 2 \<le> length buf \<Longrightarrow> safe (load16 buf off)"
  by (simp_all add: load8_def load16_def load_bytes_def)

lemma print_hdr_safe:
  "14 \<le> length buf \<Longrightarrow> safe (print_hdr_eth buf)" "20 \<le> length buf \<Longrightarrow> safe (print_hdr_ip buf)"
  "4 \<le> length buf \<Longrightarrow> safe (print_hdr_icmp buf)" "28 \<le> length buf \<Longrightarrow> safe (print_hdr_arp buf)"
proof -
  show "safe (print_hdr_eth buf)" if "14 \<le> length buf"
  proof -
    have "length (ether_dhost (ethernet_hdr_at (slice buf 0 14) 0)) = 6" "length (ether_shost (ethernet_hdr_at (slice buf 0 14) 0)) = 6"
      using that by (simp_all add: ethernet_hdr_at_def slice_def)
    then show ?thesis using that unfolding print_hdr_eth_def Let_def
      by (simp add: load_bytes_def) (intro safe_bind_const print_addr_eth_safe safe_simps; assumption)
  qed
  show "safe (print_hdr_ip buf)" if "20 \<le> length buf" using that by (simp add: print_hdr_ip_def load_bytes_def Let_def)
  show "safe (print_hdr_icmp buf)" if "4 \<le> length buf"
    using that unfolding print_hdr_icmp_def by (intro safe_bind_const safe_loads safe_simps) simp_all
  show "safe (print_hdr_arp buf)" if "28 \<le> length buf"
  proof -
    have "length (ar_sha (arp_hdr_at (slice buf 0 28) 0)) = 6" "length (ar_tha (arp_hdr_at (slice buf 0 28) 0)) = 6"
      using that by (simp_all add: arp_hdr_at_def slice_def)
    then show ?thesis using that unfolding print_hdr_arp_def Let_def
      by (simp add: load_bytes_def) (intro safe_bind_const print_addr_eth_safe safe_simps; assumption)
  qed
qed

lemma print_hdrs_safe:
  assumes "len \<le> length buf"
  shows "safe (print_hdrs buf len)"
proof -
  have e: "safe (ethertype buf)" if "14 \<le> len" using that assms by (simp add: ethertype_def load16_def load_bytes_def)
  have i: "safe (ip_protocol (drop 14 buf))" if "34 \<le> len" using that assms by (simp add: ip_protocol_def safe_loads)
  show ?thesis
    using assms e i print_hdr_safe(1) [of buf] print_hdr_safe(2) [of "drop 14 buf"] print_hdr_safe(3) [of "drop 34 buf"]
      print_hdr_safe(4) [of "drop 14 buf"]
    unfolding print_hdrs_def by (auto intro!: safe_bind_const)
qed

text \<open>Only what lies within \<open>len\<close> matters.\<close>

lemma print_hdr_take:
  "14 \<le> k \<Longrightarrow> k \<le> length buf \<Longrightarrow> print_hdr_eth (take k buf) = print_hdr_eth buf"
  "20 \<le> k \<Longrightarrow> k \<le> length buf \<Longrightarrow> print_hdr_ip (take k buf) = print_hdr_ip buf"
  "4 \<le> k \<Longrightarrow> k \<le> length buf \<Longrightarrow> print_hdr_icmp (take k buf) = print_hdr_icmp buf"
  "28 \<le> k \<Longrightarrow> k \<le> length buf \<Longrightarrow> print_hdr_arp (take k buf) = print_hdr_arp buf"
  "14 \<le> k \<Longrightarrow> k \<le> length buf \<Longrightarrow> ethertype (take k buf) = ethertype buf"
  "20 \<le> k \<Longrightarrow> k \<le> length buf \<Longrightarrow> ip_protocol (take k buf) = ip_protocol buf"
  by (simp_all add: print_hdr_eth_def print_hdr_ip_def print_hdr_icmp_def print_hdr_arp_def ethertype_def ip_protocol_def
      load8_def load16_def load_bytes_take)

lemma print_hdrs_take:
  assumes "len \<le> length buf"
  shows "print_hdrs (take len buf) len = print_hdrs buf len"
proof -
  have d: "drop k (take len buf) = take (len - k) (drop k buf)" for k by (simp add: drop_take)
  have t: "14 \<le> len \<Longrightarrow> print_hdr_eth (take len buf) = print_hdr_eth buf" "14 \<le> len \<Longrightarrow> ethertype (take len buf) = ethertype buf"
    "34 \<le> len \<Longrightarrow> print_hdr_ip (take (len - 14) (drop 14 buf)) = print_hdr_ip (drop 14 buf)"
    "34 \<le> len \<Longrightarrow> ip_protocol (take (len - 14) (drop 14 buf)) = ip_protocol (drop 14 buf)"
    "70 \<le> len \<Longrightarrow> print_hdr_icmp (take (len - 34) (drop 34 buf)) = print_hdr_icmp (drop 34 buf)"
    "42 \<le> len \<Longrightarrow> print_hdr_arp (take (len - 14) (drop 14 buf)) = print_hdr_arp (drop 14 buf)"
    using assms by (auto intro!: print_hdr_take)
  show ?thesis
    unfolding print_hdrs_def d using t by (auto intro!: bindR_cong)
qed

section \<open>Printed tables can be read\<close>

text \<open>The octets taken with shifts are the bytes of the address in memory.\<close>

lemma octet: "n \<in> {0, 8, 16, 24} \<Longrightarrow> drop_bit 24 (push_bit n b) = (ucast (ucast (drop_bit (24 - n) b) :: u8) :: u32)"
  by (rule bit_word_eqI) (auto simp: bit_simps dest: bit_imp_le_length)

lemma print_addr_ip_int_dotted: "print_addr_ip_int (ntohl a) = print_addr_ip a"
proof -
  have "map (\<lambda>n. unat (drop_bit 24 (push_bit n b))) [0, 8, 16, 24] = map unat (rev (bytes32 b))" for b :: u32
    by (simp only: list.map octet insert_iff empty_iff simp_thms unat_ucast_up bytes32_def rev.simps append.simps) simp
  from this [of "ntohl a"] have "map (\<lambda>n. unat (drop_bit 24 (push_bit n (ntohl a)))) [0, 8, 16, 24] = map unat (bytes32 a)"
    by (simp only: bytes32_swap32 rev_rev_ident)
  then show ?thesis
    unfolding print_addr_ip_int_def print_addr_ip_def dotted_def by (auto split: list.splits)
qed

lemma line_of_printed: "rt_printable r \<Longrightarrow> line_of (sr_print_routing_entry r) r"
proof -
  have "blank [TAB, TAB]" "blank [TAB]" by (simp_all add: blank_def is_space_def)
  then show "rt_printable r \<Longrightarrow> ?thesis" unfolding line_of_def sr_print_routing_entry_def by blast
qed

lemma load_printed:
  assumes "table \<noteq> []" and "list_all rt_printable table"
  shows "sr_load_rt sb sr (Some (concat (map sr_print_routing_entry table))) = Inr (0, sr\<lparr>routing_table := table\<rparr>)"
proof -
  obtain r rs where t: "table = r # rs" using assms(1) by (cases table) auto
  have "list_all rt_printable xs \<Longrightarrow> list_all2 line_of (map sr_print_routing_entry xs) xs" for xs
    by (induction xs) (simp_all add: line_of_printed)
  from this [OF assms(2)] have "list_all2 line_of (sr_print_routing_entry r # map sr_print_routing_entry rs) (r # rs)" by (simp add: t)
  from load_rt_lines [OF this, of sb False sr "[]"] show ?thesis by (simp add: t sr_load_rt_def)
qed

text \<open>The digits of an Ethernet address are not padded in the dump, so two addresses can look alike.\<close>

lemma dump_ambiguous:
  "dump_entry ctime \<lparr>ae_mac = [0x01, 0x23, 0, 0, 0, 0], ae_ip = ip, ae_added = t, ae_valid = v\<rparr> =
   dump_entry ctime \<lparr>ae_mac = [0x12, 0x03, 0, 0, 0, 0], ae_ip = ip, ae_added = t, ae_valid = v\<rparr>"
proof -
  have "concat (map (\<lambda>b. show_hex_pad 1 (unat b)) [0x01, 0x23, 0, 0, 0, 0 :: u8])
      = concat (map (\<lambda>b. show_hex_pad 1 (unat b)) [0x12, 0x03, 0, 0, 0, 0 :: u8])"
    by code_simp
  then show ?thesis by (simp add: dump_entry_def)
qed

end
