(* ===== verification/Print_Claims.thy ===== *)
theory Print_Claims
  imports Sr_Print Sr_Lab
begin

text \<open>What the router prints: it can be read back, and printing a frame reads nothing outside it.\<close>

section \<open>The printed routing table\<close>

text \<open>
  The routing table that the router prints is one it can load: the lines under the heading, saved
  as a file, give exactly the same table, although columns are separated by tabs.
\<close>

theorem printed_table_loads:
  assumes "routing_table sr \<noteq> []" and "list_all rt_printable (routing_table sr)"
  shows "\<exists>heading file. sr_print_routing_table sr = heading @ LF # file \<and> LF \<notin> set heading
    \<and> sr_load_rt sb sr0 (Some file) = Inr (0, sr0\<lparr>routing_table := routing_table sr\<rparr>)"
proof (intro exI conjI)
  show "sr_print_routing_table sr = (''Destination'' @ [TAB] @ ''Gateway'' @ [TAB, TAB] @ ''Mask'' @ [TAB] @ ''Iface'')
      @ LF # concat (map sr_print_routing_entry (routing_table sr))"
    using assms(1) by (simp add: sr_print_routing_table_def)
qed (simp_all add: load_printed [OF assms])

theorem printed_table_loads_witness:
  "\<exists>heading file. sr_print_routing_table lab_router = heading @ LF # file
    \<and> sr_load_rt \<lparr>sb_dest = [], sb_gw = [], sb_mask = [], sb_iface = []\<rparr> (lab_router\<lparr>routing_table := []\<rparr>) (Some file) = Inr (0, lab_router)"
proof -
  have "routing_table lab_router \<noteq> []" "list_all rt_printable (routing_table lab_router)" by code_simp+
  from printed_table_loads [OF this, of "\<lparr>sb_dest = [], sb_gw = [], sb_mask = [], sb_iface = []\<rparr>" "lab_router\<lparr>routing_table := []\<rparr>"]
  show ?thesis by (auto simp: lab_router_def)
qed

section \<open>Printed headers\<close>

text \<open>
  C31: Printing the headers of a frame is safe for every content of the frame: with a length that does
  not exceed the buffer no byte outside is read, and no byte behind that length changes what is
  printed.
\<close>

theorem print_hdrs_bounded:
  assumes "len \<le> length buf"
  shows "safe (print_hdrs buf len) \<and> print_hdrs (take len buf) len = print_hdrs buf len"
  using assms by (simp add: print_hdrs_safe print_hdrs_take)

theorem print_hdrs_bounded_witness:
  "safe (print_hdrs (lab_ip 64 1 [8, 8, 8, 8] [10, 0, 1, 77] (replicate 36 0)) 60)
   \<and> print_hdrs (take 60 (lab_ip 64 1 [8, 8, 8, 8] [10, 0, 1, 77] (replicate 36 0))) 60
     = print_hdrs (lab_ip 64 1 [8, 8, 8, 8] [10, 0, 1, 77] (replicate 36 0)) 60"
  by (rule print_hdrs_bounded) simp

end
