(* ===== verification/Stcp_Sum.thy ===== *)
theory Stcp_Sum
  imports Sr_Utils
begin

text \<open>
  The STCP segment header of \<^verbatim>\<open>transport.h\<close> and the TCP checksum of \<^verbatim>\<open>tcp_sum.c\<close>.  The sum is a
  signed 32-bit integer, so an addition that leaves its range is a fault.  The addresses of a
  connection are those of the network layer; the local one is what \<open>_network_get_local_addr\<close>
  returns.
\<close>

section \<open>Data\<close>

text \<open>The part of the state that belongs to the TCP instantiation of the network layer.\<close>

record network_context_socket_tcp =
  recv_thread_started :: bool
  socket :: int
  new_socket :: int
  connected :: bool

record network_context =
  local_addr :: u32
  local_port :: u16
  peer_addr :: u32
  peer_port :: u16
  peer_is_inet :: bool
  peer_addr_len :: nat
  peer_addr_valid :: bool
  impl_data :: network_context_socket_tcp

record tcphdr =
  th_sport :: u16
  th_dport :: u16
  th_seq :: u32
  th_ack :: u32
  th_x2 :: u8
  th_off :: u8
  th_flags :: u8
  th_win :: u16
  th_sum :: u16
  th_urp :: u16

text \<open>Multi-byte fields as loaded on the little-endian host, in network byte order.\<close>

definition tcphdr_at :: "bytes \<Rightarrow> tcphdr" where
  "tcphdr_at b = \<lparr>th_sport = le16 (slice b 0 2), th_dport = le16 (slice b 2 2),
     th_seq = le32 (slice b 4 4), th_ack = le32 (slice b 8 4),
     th_x2 = b ! 12 AND 0x0f, th_off = drop_bit 4 (b ! 12), th_flags = b ! 13,
     th_win = le16 (slice b 14 2), th_sum = le16 (slice b 16 2), th_urp = le16 (slice b 18 2)\<rparr>"

abbreviation (input) sizeof_tcphdr :: nat where "sizeof_tcphdr \<equiv> 20"
abbreviation (input) STCP_MSS :: nat where "STCP_MSS \<equiv> 536"
abbreviation (input) MAX_IP_PAYLOAD_LEN :: nat where "MAX_IP_PAYLOAD_LEN \<equiv> 1500"
abbreviation (input) TH_FIN :: u8 where "TH_FIN \<equiv> 1"
abbreviation (input) TH_SYN :: u8 where "TH_SYN \<equiv> 2"
abbreviation (input) TH_ACK :: u8 where "TH_ACK \<equiv> 16"
abbreviation (input) IPPROTO_TCP :: u8 where "IPPROTO_TCP \<equiv> 6"

text \<open>The macro \<open>TCP_DATA_START\<close>.\<close>

definition tcp_data_start :: "bytes \<Rightarrow> nat" where
  "tcp_data_start p = unat (th_off (tcphdr_at p)) * 4"

section \<open>The checksum\<close>

text \<open>One addition to the \<open>int32_t\<close> sum, which is never negative here.\<close>

definition add32 :: "nat \<Rightarrow> u16 \<Rightarrow> fault + nat" where
  "add32 s w = (if s + unat w < 2 ^ 31 then Inr (s + unat w) else Inl SignedOverflow)"

text \<open>Adding the 16-bit words of a buffer from word \<open>k\<close> on; the word with index \<open>skip\<close> is left out.\<close>

fun add_words :: "nat option \<Rightarrow> nat \<Rightarrow> nat \<Rightarrow> bytes \<Rightarrow> fault + nat" where
  "add_words skip k s (a # b # data) =
     bindR (if skip = Some k then Inr s else add32 s (le16 [a, b])) (\<lambda>s. add_words skip (Suc k) s data)"
| "add_words skip k s [a] = add32 s (le16 [a, 0])"
| "add_words skip k s [] = Inr s"

definition pseudo_header :: "u32 \<Rightarrow> u32 \<Rightarrow> nat \<Rightarrow> bytes" where
  "pseudo_header src dst len = bytes32 src @ bytes32 dst @ [0, IPPROTO_TCP] @ bytes16 (htons (of_nat len))"

definition fold_sum :: "nat \<Rightarrow> u16" where
  "fold_sum s = (let s = s div 65536 + s mod 65536; s = s + s div 65536 in NOT (of_nat s))"

definition mysock_tcp_checksum :: "u32 \<Rightarrow> u32 \<Rightarrow> bytes \<Rightarrow> fault + u16" where
  "mysock_tcp_checksum src_addr dst_addr packet =
     bindR (assertR (length packet \<ge> sizeof_tcphdr)) (\<lambda>_.
     bindR (assertR (src_addr > 0)) (\<lambda>_.
     bindR (assertR (dst_addr > 0)) (\<lambda>_.
     bindR (add_words None 0 0 (pseudo_header src_addr dst_addr (length packet))) (\<lambda>s.
     bindR (add_words (Some 8) 0 s packet) (\<lambda>s. Inr (fold_sum s))))))"

text \<open>
  \<^verbatim>\<open>network_io.c\<close>: the address of the interface that leads to the peer, \<open>local_addr\<close> in the
  model, once the peer is known.
\<close>

definition network_get_local_addr :: "network_context \<Rightarrow> fault + u32" where
  "network_get_local_addr net =
     bindR (assertR (peer_addr_valid net)) (\<lambda>_.
     bindR (assertR (peer_addr_len net > 0)) (\<lambda>_.
     bindR (assertR (peer_is_inet net)) (\<lambda>_. Inr (local_addr net))))"

definition mysock_set_checksum :: "network_context \<Rightarrow> bytes \<Rightarrow> fault + bytes" where
  "mysock_set_checksum net packet =
     bindR (assertR (length packet \<ge> sizeof_tcphdr)) (\<lambda>_.
     bindR (assertR (peer_is_inet net)) (\<lambda>_.
     bindR (network_get_local_addr net) (\<lambda>src.
     bindR (mysock_tcp_checksum src (peer_addr net) packet) (\<lambda>s.
       store16 packet 16 s))))"

definition mysock_verify_checksum :: "network_context \<Rightarrow> bytes \<Rightarrow> fault + bool" where
  "mysock_verify_checksum net packet =
     bindR (assertR (length packet \<ge> sizeof_tcphdr)) (\<lambda>_.
     bindR (assertR (peer_is_inet net)) (\<lambda>_.
     bindR (network_get_local_addr net) (\<lambda>dst.
     bindR (mysock_tcp_checksum (peer_addr net) dst packet) (\<lambda>my_sum.
     bindR (load16 packet 16) (\<lambda>s. Inr (my_sum = s))))))"

section \<open>Lemmas\<close>

text \<open>The little-endian sum of the words of a buffer.\<close>

fun lsum :: "bytes \<Rightarrow> nat" where
  "lsum (a # b # data) = unat a + 256 * unat b + lsum data"
| "lsum [a] = unat a"
| "lsum [] = 0"

lemma lsum_bound: "lsum data \<le> 65535 * ((length data + 1) div 2)"
proof (induction data rule: lsum.induct)
  case (1 a b data)
  then show ?case using unat_le_width(1) [of a] unat_le_width(1) [of b] by simp
next
  case (2 a)
  then show ?case using unat_le_width(1) [of a] by simp
qed simp

lemma lsum_append: "even (length xs) \<Longrightarrow> lsum (xs @ ys) = lsum xs + lsum ys"
  by (induction xs rule: lsum.induct) auto

lemma le16_pad: "unat (le16 [a, 0]) = unat a"
  by (simp add: unat_le16)

lemma add_words_None:
  "s + lsum data < 2 ^ 31 \<Longrightarrow> add_words None k s data = Inr (s + lsum data)"
  by (induction "None :: nat option" k s data rule: add_words.induct)
     (simp_all add: add32_def unat_le16 del: power_numeral)

lemma add_words_skip_past:
  "j < k \<Longrightarrow> add_words (Some j) k s data = add_words None k s data"
  by (induction "Some j" k s data rule: add_words.induct) simp_all

lemma add_words_skip:
  assumes "s + lsum (splice data (2 * j) [0, 0]) < 2 ^ 31" and "2 * j + 2 \<le> length data"
  shows "add_words (Some (k + j)) k s data = Inr (s + lsum (splice data (2 * j) [0, 0]))"
  using assms
proof (induction j arbitrary: k s data)
  case 0
  then obtain a b rest where d: "data = a # b # rest"
    by (metis One_nat_def add_leD2 length_Cons list.exhaust list.size(3) not_less_eq_eq numeral_2_eq_2 zero_le)
  then show ?case
    using 0 by (simp add: add_words_skip_past add_words_None splice_def)
next
  case (Suc j)
  then obtain a b rest where d: "data = a # b # rest"
    by (cases data; cases "tl data") auto
  have sp: "splice data (2 * Suc j) [0, 0] = a # b # splice rest (2 * j) [0, 0]"
    by (simp add: d splice_def)
  have "add_words (Some (Suc k + j)) (Suc k) (s + (unat a + 256 * unat b)) rest
      = Inr (s + (unat a + 256 * unat b) + lsum (splice rest (2 * j) [0, 0]))"
    by (rule Suc.IH) (use Suc.prems sp d in auto)
  moreover have "add32 s (le16 [a, b]) = Inr (s + (unat a + 256 * unat b))"
    using Suc.prems sp by (simp add: add32_def unat_le16)
  ultimately show ?case by (simp add: d sp) (simp add: splice_def)
qed

lemma lsum_zeroed:
  assumes "even off" and "off + 2 \<le> length data"
  shows "lsum data = lsum (splice data off [0, 0]) + unat (le16 (slice data off 2))"
proof -
  have l: "length (slice data off 2) = 2" using assms(2) by simp
  have "data = take off data @ slice data off 2 @ drop (off + 2) data"
    unfolding slice_def by (metis append_take_drop_id drop_drop add.commute)
  then have "lsum data = lsum (take off data) + (lsum (slice data off 2) + lsum (drop (off + 2) data))"
    using assms l by (metis (no_types, lifting) add_leD1 even_numeral length_take lsum_append min.absorb2)
  moreover have "lsum (splice data off [0, 0]) = lsum (take off data) + lsum (drop (off + 2) data)"
    using assms by (simp add: splice_def lsum_append)
  moreover have "lsum (slice data off 2) = unat (le16 (slice data off 2))"
    by (subst (1 2) list2_eq [OF l]) (simp add: unat_le16)
  ultimately show ?thesis by simp
qed

lemma lsum_sum16: "\<exists>m. 256 * sum16 data = lsum data + 65535 * m"
proof (induction data rule: sum16.induct)
  case (1 a b data)
  then obtain m where "256 * sum16 data = lsum data + 65535 * m" by blast
  then show ?case by (intro exI [of _ "m + unat a"]) simp
next
  case (2 a)
  then show ?case by (intro exI [of _ "unat a"]) simp
qed simp

lemma lsum_zero_iff: "lsum data mod 65535 = 0 \<longleftrightarrow> sum16 data mod 65535 = 0"
proof -
  have c: "coprime (256 :: nat) 65535" by (simp add: coprime_iff_gcd_eq_1 gcd_nat.simps)
  have "lsum data mod 65535 = 0 \<longleftrightarrow> 65535 dvd 256 * sum16 data"
    using lsum_sum16 [of data] by (metis dvd_eq_mod_eq_0 mod_mult_self2)
  also have "\<dots> \<longleftrightarrow> 65535 dvd sum16 data"
    using c by (metis coprime_commute coprime_dvd_mult_right_iff)
  finally show ?thesis by (simp add: dvd_eq_mod_eq_0)
qed

lemma fold_sum_spec:
  assumes "0 < s" and "s < 2 ^ 31"
  obtains f where "unat (fold_sum s) = 65535 - f" and "0 < f" and "f \<le> 65535" and "f mod 65535 = s mod 65535"
proof -
  define q r where "q = s div 65536" and "r = s mod 65536"
  have s: "s = 65536 * q + r" by (simp add: q_def r_def)
  have "q < 32768" unfolding q_def using assms(2) by (simp add: less_mult_imp_div_less)
  moreover have "r < 65536" by (simp add: r_def)
  ultimately have t: "q + r < 2 * 65536" "0 < q + r" using assms(1) s by auto
  have m: "(q + r) mod 65535 = s mod 65535"
  proof -
    have "s = (q + r) + 65535 * q" using s by simp
    then show ?thesis by (metis mod_mult_self2)
  qed
  define u where "u = q + r + (q + r) div 65536"
  have "fold_sum s = NOT (of_nat u)" by (simp add: fold_sum_def u_def q_def r_def Let_def)
  then have fs: "unat (fold_sum s) = 65535 - u mod 65536"
    by (simp add: unat_complement16 unat_of_nat)
  show thesis
  proof (cases "q + r < 65536")
    case True
    then have "u mod 65536 = q + r" by (simp add: u_def)
    then show ?thesis using that [of "q + r"] fs t m True by simp
  next
    case False
    then have d: "(q + r) div 65536 = 1" using t(1) by (simp add: div_nat_eqI)
    then have "u mod 65536 = q + r - 65535" using False t(1) \<open>q < 32768\<close> \<open>r < 65536\<close>
      by (simp add: u_def mod_if)
    moreover have "(q + r - 65535) mod 65535 = s mod 65535" using m False by (simp add: mod_if)
    ultimately show ?thesis
      using that [of "q + r - 65535"] fs False \<open>q < 32768\<close> \<open>r < 65536\<close> by simp
  qed
qed

text \<open>What the routine returns, and when the receiver accepts a segment.\<close>

definition seg_sum :: "u32 \<Rightarrow> u32 \<Rightarrow> bytes \<Rightarrow> nat" where
  "seg_sum src dst packet = lsum (pseudo_header src dst (length packet)) + lsum (splice packet 16 [0, 0])"

lemma length_pseudo_header [simp]: "length (pseudo_header src dst n) = 12"
  by (simp add: pseudo_header_def)

lemma seg_sum_bound:
  assumes "20 \<le> length packet" and "length packet \<le> 65000"
  shows "seg_sum src dst packet < 2 ^ 31" and "0 < seg_sum src dst packet"
proof -
  have "(length packet + 1) div 2 \<le> 32500" using assms by simp
  then have "65535 * ((length packet + 1) div 2) \<le> 65535 * 32500" by (rule mult_le_mono2)
  moreover have "length (splice packet 16 [0, 0]) = length packet" using assms by simp
  ultimately have "lsum (splice packet 16 [0, 0]) \<le> 65535 * 32500"
    using lsum_bound [of "splice packet 16 [0, 0]"] by simp
  then show "seg_sum src dst packet < 2 ^ 31"
    using lsum_bound [of "pseudo_header src dst (length packet)"] by (simp add: seg_sum_def)
  show "0 < seg_sum src dst packet"
    by (simp add: seg_sum_def pseudo_header_def lsum_append)
qed

lemma seg_sum_commute: "seg_sum src dst packet = seg_sum dst src packet"
  by (simp add: seg_sum_def pseudo_header_def lsum_append)

lemma tcp_checksum_value:
  assumes "20 \<le> length packet" and "length packet \<le> 65000" and "0 < src" and "0 < dst"
  shows "mysock_tcp_checksum src dst packet = Inr (fold_sum (seg_sum src dst packet))"
proof -
  let ?h = "pseudo_header src dst (length packet)"
  have b: "lsum ?h + lsum (splice packet (2 * 8) [0, 0]) < 2 ^ 31"
    using seg_sum_bound(1) [OF assms(1,2), of src dst] by (simp add: seg_sum_def)
  have "add_words None 0 0 ?h = Inr (0 + lsum ?h)"
    by (rule add_words_None) (use b in linarith)
  moreover have "add_words (Some (0 + 8)) 0 (lsum ?h) packet = Inr (lsum ?h + lsum (splice packet (2 * 8) [0, 0]))"
    by (rule add_words_skip [OF b]) (use assms(1) in simp)
  ultimately show ?thesis
    using assms by (simp add: mysock_tcp_checksum_def seg_sum_def)
qed

text \<open>A context whose peer is known, with real addresses.\<close>

definition net_wf :: "network_context \<Rightarrow> bool" where
  "net_wf net \<longleftrightarrow> 0 < local_addr net \<and> 0 < peer_addr net \<and> 0 < peer_port net
     \<and> peer_is_inet net \<and> peer_addr_valid net \<and> 0 < peer_addr_len net"

lemma local_addr_known [simp]: "net_wf net \<Longrightarrow> network_get_local_addr net = Inr (local_addr net)"
  by (simp add: network_get_local_addr_def net_wf_def)

text \<open>RFC 793: pseudo header and segment sum to zero in one's complement arithmetic.\<close>

definition tcp_sum_ok :: "u32 \<Rightarrow> u32 \<Rightarrow> bytes \<Rightarrow> bool" where
  "tcp_sum_ok src dst packet \<longleftrightarrow> sum16 (pseudo_header src dst (length packet) @ packet) mod 65535 = 0"

lemma fold_sum_iff:
  assumes "0 < s" and "s < 2 ^ 31"
  shows "fold_sum s = c \<longleftrightarrow> (s + unat c) mod 65535 = 0 \<and> c \<noteq> 0xffff"
proof -
  obtain f where f: "unat (fold_sum s) = 65535 - f" "0 < f" "f \<le> 65535" "f mod 65535 = s mod 65535"
    using fold_sum_spec [OF assms] .
  have c: "unat c \<le> 65535" "c = 0xffff \<longleftrightarrow> unat c = 65535"
    using unat_le_width(2) [of c] by (auto simp: word_unat_eq_iff)
  have "(s + unat c) mod 65535 = (f + unat c) mod 65535" using f(4) by (metis mod_add_left_eq)
  moreover have "(f + unat c) mod 65535 =
      (if f + unat c < 65535 then f + unat c else if f + unat c < 131070 then f + unat c - 65535 else 0)"
    using f(3) c(1) by (simp add: mod_if)
  moreover have "fold_sum s = c \<longleftrightarrow> 65535 - f = unat c" using f(1) by (auto simp: word_unat_eq_iff)
  ultimately show ?thesis using f(2,3) c by (auto split: if_splits)
qed

lemma tcp_sum_ok_iff:
  assumes "20 \<le> length packet"
  shows "tcp_sum_ok src dst packet \<longleftrightarrow> (seg_sum src dst packet + unat (le16 (slice packet 16 2))) mod 65535 = 0"
  using lsum_zeroed [of 16 packet] assms
  by (simp add: tcp_sum_ok_def seg_sum_def lsum_zero_iff [symmetric] lsum_append add.assoc)

lemma verify_checksum_iff:
  assumes "20 \<le> length packet" and "length packet \<le> 65000" and "net_wf net"
  shows "mysock_verify_checksum net packet
         = Inr (tcp_sum_ok (peer_addr net) (local_addr net) packet \<and> th_sum (tcphdr_at packet) \<noteq> 0xffff)"
proof -
  have "fold_sum (seg_sum (peer_addr net) (local_addr net) packet) = le16 (slice packet 16 2)
      \<longleftrightarrow> tcp_sum_ok (peer_addr net) (local_addr net) packet \<and> le16 (slice packet 16 2) \<noteq> 0xffff"
    unfolding tcp_sum_ok_iff [OF assms(1)] by (rule fold_sum_iff) (use seg_sum_bound assms in blast)+
  then show ?thesis
    using assms tcp_checksum_value [OF assms(1,2), of "peer_addr net" "local_addr net"]
    by (simp add: mysock_verify_checksum_def load16_Inr tcphdr_at_def) (simp add: net_wf_def)
qed

definition summed :: "network_context \<Rightarrow> bytes \<Rightarrow> bytes" where
  "summed net packet = splice packet 16 (bytes16 (fold_sum (seg_sum (local_addr net) (peer_addr net) packet)))"

lemma length_summed [simp]: "18 \<le> length packet \<Longrightarrow> length (summed net packet) = length packet"
  by (simp add: summed_def)

lemma set_checksum_value:
  assumes "20 \<le> length packet" and "length packet \<le> 65000" and "net_wf net"
  shows "mysock_set_checksum net packet = Inr (summed net packet)"
  using assms tcp_checksum_value [OF assms(1,2), of "local_addr net" "peer_addr net"]
  by (simp add: mysock_set_checksum_def summed_def store16_def store_bytes_def) (simp add: net_wf_def)

text \<open>The two ends of a connection.\<close>

definition peers :: "network_context \<Rightarrow> network_context \<Rightarrow> bool" where
  "peers a b \<longleftrightarrow> local_addr b = peer_addr a \<and> peer_addr b = local_addr a
     \<and> net_wf a \<and> net_wf b"

lemma splice_splice_same:
  assumes "off + length a \<le> length buf" and "length a = length b"
  shows "splice (splice buf off a) off b = splice buf off b"
  using assms by (simp add: splice_def)

lemma seg_sum_summed:
  assumes "20 \<le> length packet"
  shows "seg_sum src dst (summed net packet) = seg_sum src dst packet"
  using assms by (simp add: seg_sum_def summed_def splice_splice_same)

lemma verify_summed:
  assumes "20 \<le> length packet" and "length packet \<le> 65000" and "peers a b"
  shows "mysock_verify_checksum b (summed a packet) = Inr True"
proof -
  have "le16 (slice (summed a packet) 16 2) = fold_sum (seg_sum (local_addr a) (peer_addr a) packet)"
    using assms(1) by (simp add: summed_def)
  then show ?thesis
    using assms tcp_checksum_value [of "summed a packet" "peer_addr b" "local_addr b"]
    by (simp add: mysock_verify_checksum_def load16_Inr peers_def seg_sum_summed) (simp add: net_wf_def)
qed

end
