(* ===== verification/Mysock.thy ===== *)
theory Mysock
  imports Stcp_Sum
begin

text \<open>
  The mysocket layer of \<^verbatim>\<open>mysock.c\<close>, \<^verbatim>\<open>mysock_api.c\<close>, \<^verbatim>\<open>network.c\<close> and \<^verbatim>\<open>stcp_api.c\<close>: the packet
  queues between application, transport layer and network, the context of a connection, the
  calls of the application and of the transport layer on it, and the descriptor table.  Each
  call holds the lock of the data it touches, so a call is one atomic step; a call that would
  wait on a condition variable returns none.
\<close>

section \<open>Packet queues\<close>

type_synonym packet_queue = "bytes list"

definition mysock_enqueue_buffer :: "packet_queue \<Rightarrow> bytes \<Rightarrow> packet_queue" where
  "mysock_enqueue_buffer pq packet = pq @ [packet]"

text \<open>
  The result is the value returned, the bytes stored at \<open>dst\<close> and the queue.  The rest of a
  partially removed packet is moved to the front of its buffer with \<open>memcpy\<close>, which is undefined
  if the two regions overlap.
\<close>

definition mysock_dequeue_buffer ::
  "packet_queue \<Rightarrow> nat \<Rightarrow> bool \<Rightarrow> fault + (nat \<times> bytes \<times> packet_queue) option" where
  "mysock_dequeue_buffer pq max_len remove_partial =
     (case pq of
        [] \<Rightarrow> Inr None
      | data # rest \<Rightarrow>
          if length data > max_len \<and> remove_partial
          then (if length data - max_len > max_len then Inl OverlappingCopy
                else Inr (Some (max_len, take max_len data, drop max_len data # rest)))
          else Inr (Some (length data, take (min max_len (length data)) data, rest)))"

definition mysock_free_queue :: "packet_queue \<Rightarrow> bool \<times> packet_queue" where
  "mysock_free_queue pq = (foldl (\<lambda>result data. if length data > 0 then True else result) (pq \<noteq> []) pq, [])"

section \<open>Contexts\<close>

record mysock_context =
  is_active :: bool
  network_state :: network_context
  bound :: bool
  listening :: bool
  my_sd :: int
  listen_sd :: int
  blocking :: bool
  stcp_errno :: int
  transport_thread_started :: bool
  close_requested :: bool
  eof :: bool
  network_recv_queue :: packet_queue
  app_send_queue :: packet_queue
  app_recv_queue :: packet_queue
  net_sent :: "bytes list"

text \<open>\<open>net_sent\<close> is the sequence of packets handed to \<open>_network_send_packet\<close>.\<close>

abbreviation (input) APP_DATA :: u32 where "APP_DATA \<equiv> 1"
abbreviation (input) NETWORK_DATA :: u32 where "NETWORK_DATA \<equiv> 2"
abbreviation (input) APP_CLOSE_REQUESTED :: u32 where "APP_CLOSE_REQUESTED \<equiv> 4"
abbreviation (input) ANY_EVENT :: u32 where "ANY_EVENT \<equiv> 7"
abbreviation (input) EINTR :: int where "EINTR \<equiv> 4"
abbreviation (input) EINVAL :: int where "EINVAL \<equiv> 22"
abbreviation (input) EMFILE :: int where "EMFILE \<equiv> 24"
abbreviation (input) ECONNREFUSED :: int where "ECONNREFUSED \<equiv> 111"

section \<open>Calls of the transport layer\<close>

text \<open>
  One pass of the loop of \<open>stcp_wait_for_event\<close> (without a timeout, as the transport layer calls
  it); none if it would wait.  The close event is reported whatever the flags are, and once.
\<close>

definition stcp_wait_for_event :: "mysock_context \<Rightarrow> u32 \<Rightarrow> (u32 \<times> mysock_context) option" where
  "stcp_wait_for_event ctx flags =
     (let rc = (if flags AND APP_DATA \<noteq> 0 \<and> app_recv_queue ctx \<noteq> [] then APP_DATA else 0);
          rc = (if flags AND NETWORK_DATA \<noteq> 0 \<and> network_recv_queue ctx \<noteq> [] then rc OR NETWORK_DATA else rc);
          (rc, ctx) = (if close_requested ctx \<and> app_recv_queue ctx = []
                       then (rc OR APP_CLOSE_REQUESTED, ctx\<lparr>close_requested := False\<rparr>) else (rc, ctx))
      in if rc \<noteq> 0 then Some (rc, ctx) else None)"

definition stcp_unblock_application :: "mysock_context \<Rightarrow> int \<Rightarrow> fault + mysock_context" where
  "stcp_unblock_application ctx err =
     bindR (assertR (blocking ctx)) (\<lambda>_.
       Inr (ctx\<lparr>blocking := False, stcp_errno := (if err = EINTR then 0 else err)\<rparr>))"

text \<open>
  A packet from the network: the length returned and the bytes at \<open>dst\<close>.  The whole packet is
  verified, so one longer than the buffer is read past its end.
\<close>

definition stcp_network_recv ::
  "mysock_context \<Rightarrow> nat \<Rightarrow> fault + (nat \<times> bytes \<times> mysock_context) option" where
  "stcp_network_recv ctx max_len =
     bindR (mysock_dequeue_buffer (network_recv_queue ctx) max_len False) (\<lambda>r.
       case r of
         None \<Rightarrow> Inr None
       | Some (len, dst, q) \<Rightarrow>
           (let ctx = ctx\<lparr>network_recv_queue := q\<rparr>
            in if len = 0 then Inr (Some (len, dst, ctx))
               else if len > max_len then Inl OutOfBounds
               else bindR (mysock_verify_checksum (network_state ctx) dst) (\<lambda>ok.
                    bindR (assertR ok) (\<lambda>_. Inr (Some (len, dst, ctx))))))"

definition stcp_network_send :: "mysock_context \<Rightarrow> bytes \<Rightarrow> fault + mysock_context" where
  "stcp_network_send ctx src =
     bindR (assertR (length src \<le> MAX_IP_PAYLOAD_LEN)) (\<lambda>_.
     bindR (assertR (length src \<ge> sizeof_tcphdr)) (\<lambda>_.
     bindR (assertR (peer_is_inet (network_state ctx))) (\<lambda>_.
     bindR (assertR (peer_port (network_state ctx) > 0)) (\<lambda>_.
     bindR (stores src [(0, bytes16 (local_port (network_state ctx))),
                        (2, bytes16 (peer_port (network_state ctx))),
                        (16, bytes16 0), (18, bytes16 0)]) (\<lambda>packet.
     bindR (mysock_set_checksum (network_state ctx) packet) (\<lambda>packet.
       Inr (ctx\<lparr>net_sent := net_sent ctx @ [packet]\<rparr>)))))))"

definition stcp_app_recv ::
  "mysock_context \<Rightarrow> nat \<Rightarrow> fault + (nat \<times> bytes \<times> mysock_context) option" where
  "stcp_app_recv ctx max_len =
     bindR (mysock_dequeue_buffer (app_recv_queue ctx) max_len True) (\<lambda>r.
       Inr (map_option (\<lambda>(len, dst, q). (len, dst, ctx\<lparr>app_recv_queue := q\<rparr>)) r))"

definition stcp_app_send :: "mysock_context \<Rightarrow> bytes \<Rightarrow> mysock_context" where
  "stcp_app_send ctx src =
     (if length src > 0
      then ctx\<lparr>app_send_queue := mysock_enqueue_buffer (app_send_queue ctx) src\<rparr> else ctx)"

definition stcp_fin_received :: "mysock_context \<Rightarrow> mysock_context" where
  "stcp_fin_received ctx = ctx\<lparr>app_send_queue := mysock_enqueue_buffer (app_send_queue ctx) []\<rparr>"

section \<open>Calls of the application\<close>

text \<open>The value returned, with \<open>errno\<close> in the error case; none while \<open>myread\<close> would wait.\<close>

definition mywrite :: "mysock_context \<Rightarrow> bytes \<Rightarrow> fault + (int + int) \<times> mysock_context" where
  "mywrite ctx buf =
     (if listening ctx then Inr (Inl EINVAL, ctx)
      else bindR (assertR (\<not> close_requested ctx)) (\<lambda>_.
             Inr (Inr (int (length buf)),
                  ctx\<lparr>app_recv_queue := mysock_enqueue_buffer (app_recv_queue ctx) buf\<rparr>)))"

definition myread :: "mysock_context \<Rightarrow> nat \<Rightarrow> fault + ((int + nat \<times> bytes) \<times> mysock_context) option" where
  "myread ctx buf_len =
     (if listening ctx then Inr (Some (Inl EINVAL, ctx))
      else bindR (assertR (\<not> close_requested ctx)) (\<lambda>_.
           if eof ctx then Inr (Some (Inr (0, []), ctx))
           else bindR (mysock_dequeue_buffer (app_send_queue ctx) buf_len True) (\<lambda>r.
                  Inr (map_option (\<lambda>(len, dst, q).
                         (let ctx = ctx\<lparr>app_send_queue := q\<rparr>
                          in (Inr (len, dst), if len = 0 then ctx\<lparr>eof := True\<rparr> else ctx))) r))))"

text \<open>The request part of \<open>myclose\<close>; the transport thread acts on it.\<close>

definition myclose_request :: "mysock_context \<Rightarrow> mysock_context" where
  "myclose_request ctx = ctx\<lparr>close_requested := True\<rparr>"

section \<open>The descriptor table\<close>

abbreviation (input) MAX_NUM_CONNECTIONS :: nat where "MAX_NUM_CONNECTIONS \<equiv> 64"

type_synonym descriptors = "mysock_context option list"

text \<open>A zeroed context; \<open>net\<close> is the state \<open>_network_init\<close> leaves.\<close>

definition mysock_allocate_context :: "network_context \<Rightarrow> mysock_context" where
  "mysock_allocate_context net =
     \<lparr>is_active = False, network_state = net, bound = False, listening = False, my_sd = 0,
      listen_sd = -1, blocking = True, stcp_errno = 0, transport_thread_started = False,
      close_requested = False, eof = False, network_recv_queue = [], app_send_queue = [],
      app_recv_queue = [], net_sent = []\<rparr>"

text \<open>The first free entry, the length of the table if there is none.\<close>

fun free_descriptor :: "descriptors \<Rightarrow> nat" where
  "free_descriptor [] = 0"
| "free_descriptor (c # cs) = (case c of None \<Rightarrow> 0 | Some _ \<Rightarrow> Suc (free_descriptor cs))"

definition mysock_new_mysocket :: "descriptors \<Rightarrow> network_context \<Rightarrow> (int + int) \<times> descriptors" where
  "mysock_new_mysocket tbl net =
     (let k = free_descriptor tbl
      in if k < length tbl
         then (Inr (int k), tbl[k := Some ((mysock_allocate_context net)\<lparr>my_sd := int k\<rparr>)])
         else (Inl EMFILE, tbl))"

text \<open>The descriptor is verified by assertions before the range check, which then always holds.\<close>

definition mysock_get_context :: "descriptors \<Rightarrow> int \<Rightarrow> fault + mysock_context" where
  "mysock_get_context tbl sd =
     bindR (assertR (0 \<le> sd \<and> sd < int (length tbl))) (\<lambda>_.
       case tbl ! nat sd of
         None \<Rightarrow> Inl AssertFail
       | Some ctx \<Rightarrow> bindR (assertR (my_sd ctx = sd)) (\<lambda>_. Inr ctx))"

text \<open>The queues are dropped and the entry is cleared.\<close>

definition mysock_free_context :: "descriptors \<Rightarrow> int \<Rightarrow> descriptors" where
  "mysock_free_context tbl sd =
     (if 0 \<le> sd \<and> sd < int (length tbl) then tbl[nat sd := None] else tbl)"

section \<open>Queues as byte streams\<close>

text \<open>
  What the layers rely on: a queue holds a stream of bytes; what is put goes to its end, and
  what a bounded read gets comes from its front.
\<close>

datatype queue_op = Put bytes | Get nat

locale byte_queue =
  fixes put :: "'q \<Rightarrow> bytes \<Rightarrow> 'q"
    and get :: "'q \<Rightarrow> nat \<Rightarrow> (bytes \<times> 'q) option"
    and content :: "'q \<Rightarrow> bytes"
  assumes content_put: "content (put q bs) = content q @ bs"
    and content_get: "get q n = Some (bs, q') \<Longrightarrow> content q = bs @ content q'"
    and get_length: "get q n = Some (bs, q') \<Longrightarrow> length bs \<le> n"
begin

text \<open>A run of operations; a read that gets nothing ends it.\<close>

fun run :: "'q \<Rightarrow> queue_op list \<Rightarrow> (bytes \<times> 'q) option" where
  "run q [] = Some ([], q)"
| "run q (Put bs # ops) = run (put q bs) ops"
| "run q (Get n # ops) =
     (case get q n of
        None \<Rightarrow> None
      | Some (bs, q) \<Rightarrow> (case run q ops of None \<Rightarrow> None | Some (out, q) \<Rightarrow> Some (bs @ out, q)))"

fun puts :: "queue_op list \<Rightarrow> bytes" where
  "puts [] = []"
| "puts (Put bs # ops) = bs @ puts ops"
| "puts (Get n # ops) = puts ops"

text \<open>First in, first out: whatever the interleaving, the bytes read are those written, in order.\<close>

lemma run_fifo: "run q ops = Some (out, q') \<Longrightarrow> content q @ puts ops = out @ content q'"
proof (induction q ops arbitrary: out rule: run.induct)
  case (3 q n ops)
  then obtain bs q1 out1 where g: "get q n = Some (bs, q1)" and r: "run q1 ops = Some (out1, q')"
    and out: "out = bs @ out1"
    by (auto split: option.splits)
  have "content q1 @ puts ops = out1 @ content q'" using "3.IH" [OF g refl r] .
  with content_get [OF g] out show ?case by simp
qed (auto simp: content_put)

end

definition queue_get :: "packet_queue \<Rightarrow> nat \<Rightarrow> (bytes \<times> packet_queue) option" where
  "queue_get q n =
     (case mysock_dequeue_buffer q n True of Inr (Some (_, bs, q)) \<Rightarrow> Some (bs, q) | _ \<Rightarrow> None)"

lemma dequeue_partial:
  "mysock_dequeue_buffer q n True = Inr (Some (len, bs, q')) \<longleftrightarrow>
   (\<exists>d rest. q = d # rest \<and> len = length bs
      \<and> (length d \<le> n \<and> bs = d \<and> q' = rest
         \<or> n < length d \<and> length d - n \<le> n \<and> bs = take n d \<and> q' = drop n d # rest))"
  by (auto simp: mysock_dequeue_buffer_def split: list.splits if_splits)

interpretation mq: byte_queue mysock_enqueue_buffer queue_get concat
proof
  fix q :: packet_queue and n bs q'
  show "concat (mysock_enqueue_buffer q bs) = concat q @ bs" for bs
    by (simp add: mysock_enqueue_buffer_def)
  assume "queue_get q n = Some (bs, q')"
  then obtain len where "mysock_dequeue_buffer q n True = Inr (Some (len, bs, q'))"
    by (auto simp: queue_get_def split: sum.splits option.splits)
  then show "concat q = bs @ concat q'" "length bs \<le> n"
    by (auto simp: dequeue_partial)
qed

text \<open>When a bounded read returns: some packet is there and it is at most twice the bound.\<close>

lemma queue_get_Some:
  "queue_get (d # q) n = (if length d \<le> n then Some (d, q)
     else if length d \<le> 2 * n then Some (take n d, drop n d # q) else None)"
  by (auto simp: queue_get_def mysock_dequeue_buffer_def)

section \<open>Descriptors\<close>

definition descriptors_wf :: "descriptors \<Rightarrow> bool" where
  "descriptors_wf tbl \<longleftrightarrow> length tbl = MAX_NUM_CONNECTIONS
     \<and> (\<forall>k < length tbl. \<forall>ctx. tbl ! k = Some ctx \<longrightarrow> my_sd ctx = int k)"

lemma free_descriptor_le: "free_descriptor tbl \<le> length tbl"
  by (induction tbl) (auto split: option.splits)

lemma free_descriptor_None: "free_descriptor tbl < length tbl \<Longrightarrow> tbl ! free_descriptor tbl = None"
  by (induction tbl) (auto split: option.splits)

lemma free_descriptor_full: "free_descriptor tbl = length tbl \<longleftrightarrow> None \<notin> set tbl"
  by (induction tbl) (auto split: option.splits)

lemma new_mysocket_wf: "descriptors_wf tbl \<Longrightarrow> descriptors_wf (snd (mysock_new_mysocket tbl net))"
  by (auto simp: descriptors_wf_def mysock_new_mysocket_def Let_def nth_list_update split: if_splits)

lemma free_context_wf: "descriptors_wf tbl \<Longrightarrow> descriptors_wf (mysock_free_context tbl sd)"
  by (auto simp: descriptors_wf_def mysock_free_context_def nth_list_update split: if_splits)

lemma get_context_iff:
  assumes "descriptors_wf tbl"
  shows "mysock_get_context tbl sd = Inr ctx \<longleftrightarrow> 0 \<le> sd \<and> sd < 64 \<and> tbl ! nat sd = Some ctx"
proof -
  have "my_sd ctx = sd" if "tbl ! nat sd = Some ctx" "0 \<le> sd" "sd < 64"
  proof -
    from that(2) obtain k where "sd = int k" using zero_le_imp_eq_int by blast
    with assms that show ?thesis by (simp add: descriptors_wf_def)
  qed
  then show ?thesis
    using assms by (auto simp: mysock_get_context_def descriptors_wf_def split: option.splits)
qed

text \<open>A new descriptor is fresh, names a blocked empty context, and disturbs no other.\<close>

lemma new_mysocket_spec:
  assumes "descriptors_wf tbl" and "mysock_new_mysocket tbl net = (Inr sd, tbl')"
  shows "\<not> safe (mysock_get_context tbl sd)"
    and "mysock_get_context tbl' sd = Inr ((mysock_allocate_context net)\<lparr>my_sd := sd\<rparr>)"
    and "sd' \<noteq> sd \<Longrightarrow> mysock_get_context tbl' sd' = mysock_get_context tbl sd'"
proof -
  from assms(2) have k: "sd = int (free_descriptor tbl)" "free_descriptor tbl < length tbl"
    and t: "tbl' = tbl[free_descriptor tbl := Some ((mysock_allocate_context net)\<lparr>my_sd := sd\<rparr>)]"
    by (auto simp: mysock_new_mysocket_def Let_def split: if_splits)
  show "\<not> safe (mysock_get_context tbl sd)"
    using k free_descriptor_None [OF k(2)] by (simp add: mysock_get_context_def)
  show "mysock_get_context tbl' sd = Inr ((mysock_allocate_context net)\<lparr>my_sd := sd\<rparr>)"
    using k by (simp add: mysock_get_context_def t)
  show "mysock_get_context tbl' sd' = mysock_get_context tbl sd'" if "sd' \<noteq> sd"
    using that k by (cases "0 \<le> sd'") (auto simp: mysock_get_context_def t nth_list_update)
qed

end
