(* ===== verification/Stcp_Transport.thy ===== *)
theory Stcp_Transport
  imports Mysock
begin

text \<open>
  The STCP transport layer of \<^verbatim>\<open>transport.c\<close>: connection set-up, data transfer and tear-down.  The
  transport thread is a state machine whose program counter is the call it waits in; one step
  runs from one wait to the next.  A step returns none while the wait would block.
\<close>

section \<open>State\<close>

datatype cstate = CSTATE_CLOSED | CSTATE_SYN_SENT | CSTATE_SYN_RCVD | CSTATE_ESTABLISHED
  | CSTATE_FIN_WAIT_1 | CSTATE_FIN_WAIT_2 | CSTATE_CLOSING | CSTATE_CLOSE_WAIT | CSTATE_LAST_ACK

record context_t =
  conn_done :: bool
  connection_state :: cstate
  initial_sequence_num :: u32
  sequence_num :: u32
  ack_num :: u32
  fin_sent :: bool
  fin_received :: bool
  fin_acked :: bool
  recv_window_size :: u16
  recv_buffer_used :: u16
  next_seq_expected :: u32
  peer_window_size :: u16
  last_ack_received :: u32
  last_byte_sent :: u32

datatype thread_pc = Await_SYN_ACK | Await_SYN | Await_ACK | Control_loop | Returned

record stcp_thread =
  pc :: thread_pc
  tctx :: context_t
  msock :: mysock_context
  thread_errno :: int

abbreviation (input) RECEIVER_WINDOW_SIZE :: u16 where "RECEIVER_WINDOW_SIZE \<equiv> 3072"

text \<open>Sequencing of computations that may fault or wait.\<close>

definition bindB :: "fault + 'a option \<Rightarrow> ('a \<Rightarrow> fault + 'b option) \<Rightarrow> fault + 'b option" where
  "bindB m f = bindR m (\<lambda>r. case r of None \<Rightarrow> Inr None | Some x \<Rightarrow> f x)"

lemma bindB_simps [simp]:
  "bindB (Inl e) f = Inl e" "bindB (Inr None) f = Inr None" "bindB (Inr (Some x)) f = f x"
  by (simp_all add: bindB_def)

section \<open>Sending\<close>

definition send_packet :: "stcp_thread \<Rightarrow> bytes \<Rightarrow> u8 \<Rightarrow> fault + stcp_thread" where
  "send_packet t data flags =
     bindR (assertR (length data \<le> STCP_MSS)) (\<lambda>_.
     bindR (stores (replicate sizeof_tcphdr 0)
              [(4, bytes32 (htonl (sequence_num (tctx t)))), (8, bytes32 (htonl (ack_num (tctx t)))),
               (12, [0x50]), (13, [flags]),
               (14, bytes16 (htons (recv_window_size (tctx t) - recv_buffer_used (tctx t))))]) (\<lambda>header.
     bindR (stcp_network_send (msock t) (header @ data)) (\<lambda>ms. Inr (t\<lparr>msock := ms\<rparr>))))"

section \<open>Connection set-up\<close>

text \<open>The context \<open>transport_init\<close> allocates; \<open>isn\<close> is what \<open>generate_initial_seq_num\<close> chooses.\<close>

definition generate_initial_seq_num :: "u32 \<Rightarrow> u32" where
  "generate_initial_seq_num rand = rand mod 256"

definition initial_context :: "u32 \<Rightarrow> context_t" where
  "initial_context isn =
     \<lparr>conn_done = False, connection_state = CSTATE_CLOSED, initial_sequence_num = isn, sequence_num = isn,
      ack_num = 0, fin_sent = False, fin_received = False, fin_acked = False,
      recv_window_size = RECEIVER_WINDOW_SIZE, recv_buffer_used = 0, next_seq_expected = 0,
      peer_window_size = RECEIVER_WINDOW_SIZE, last_ack_received = isn, last_byte_sent = isn\<rparr>"

definition transport_init :: "mysock_context \<Rightarrow> u32 \<Rightarrow> bool \<Rightarrow> fault + stcp_thread" where
  "transport_init ms rand active =
     (let t = \<lparr>pc = Await_SYN, tctx = initial_context (generate_initial_seq_num rand), msock = ms, thread_errno = 0\<rparr>
      in if active
         then (let t = t\<lparr>tctx := (tctx t)\<lparr>connection_state := CSTATE_SYN_SENT\<rparr>\<rparr>
               in bindR (send_packet t [] TH_SYN) (\<lambda>t.
                    Inr (t\<lparr>pc := Await_SYN_ACK, tctx := (tctx t)\<lparr>sequence_num := sequence_num (tctx t) + 1\<rparr>\<rparr>)))
         else Inr t)"

text \<open>
  The end of the thread: when \<open>transport_init\<close> returns, \<open>transport_thread_func\<close> puts a final empty
  buffer up to the application.
\<close>

definition thread_exit :: "stcp_thread \<Rightarrow> stcp_thread" where
  "thread_exit t = t\<lparr>pc := Returned, msock := stcp_fin_received (msock t)\<rparr>"

definition refuse :: "stcp_thread \<Rightarrow> fault + stcp_thread" where
  "refuse t = bindR (stcp_unblock_application (msock t) ECONNREFUSED) (\<lambda>ms.
     Inr (thread_exit (t\<lparr>msock := ms, thread_errno := ECONNREFUSED\<rparr>)))"

definition established :: "stcp_thread \<Rightarrow> fault + stcp_thread" where
  "established t = bindR (stcp_unblock_application (msock t) (thread_errno t)) (\<lambda>ms.
     Inr (t\<lparr>pc := Control_loop, msock := ms\<rparr>))"

text \<open>Waiting for a header during set-up: the header, or none if the connection is refused.\<close>

definition await_header :: "stcp_thread \<Rightarrow> fault + (bytes option \<times> stcp_thread) option" where
  "await_header t =
     (case stcp_wait_for_event (msock t) NETWORK_DATA of
        None \<Rightarrow> Inr None
      | Some (event, ms) \<Rightarrow>
          if event AND NETWORK_DATA \<noteq> 0
          then bindB (stcp_network_recv ms sizeof_tcphdr) (\<lambda>(recv_len, buf, ms).
                 Inr (Some (if recv_len < sizeof_tcphdr then None else Some buf, t\<lparr>msock := ms\<rparr>)))
          else Inr (Some (None, t\<lparr>msock := ms\<rparr>)))"

definition syn_ack_step :: "stcp_thread \<Rightarrow> bytes \<Rightarrow> fault + stcp_thread" where
  "syn_ack_step t buf =
     (let h = tcphdr_at buf
      in if th_flags h AND (TH_SYN OR TH_ACK) = (TH_SYN OR TH_ACK)
            \<and> ntohl (th_ack h) = sequence_num (tctx t)
         then bindR (send_packet (t\<lparr>tctx := (tctx t)\<lparr>ack_num := ntohl (th_seq h) + 1,
                        peer_window_size := ntohs (th_win h), next_seq_expected := ntohl (th_seq h) + 1\<rparr>\<rparr>) [] TH_ACK)
                (\<lambda>t. established (t\<lparr>tctx := (tctx t)\<lparr>connection_state := CSTATE_ESTABLISHED\<rparr>\<rparr>))
         else refuse t)"

definition syn_step :: "stcp_thread \<Rightarrow> bytes \<Rightarrow> fault + stcp_thread" where
  "syn_step t buf =
     (let h = tcphdr_at buf
      in if th_flags h AND TH_SYN \<noteq> 0
         then bindR (send_packet (t\<lparr>tctx := (tctx t)\<lparr>ack_num := ntohl (th_seq h) + 1,
                        connection_state := CSTATE_SYN_RCVD, next_seq_expected := ntohl (th_seq h) + 1,
                        peer_window_size := ntohs (th_win h)\<rparr>\<rparr>) [] (TH_SYN OR TH_ACK))
                (\<lambda>t. Inr (t\<lparr>pc := Await_ACK, tctx := (tctx t)\<lparr>sequence_num := sequence_num (tctx t) + 1\<rparr>\<rparr>))
         else refuse t)"

definition ack_step :: "stcp_thread \<Rightarrow> bytes \<Rightarrow> fault + stcp_thread" where
  "ack_step t buf =
     (let h = tcphdr_at buf
      in if th_flags h AND TH_ACK \<noteq> 0 \<and> ntohl (th_ack h) = sequence_num (tctx t)
         then established (t\<lparr>tctx := (tctx t)\<lparr>peer_window_size := ntohs (th_win h),
                connection_state := CSTATE_ESTABLISHED\<rparr>\<rparr>)
         else refuse t)"

definition setup_step :: "(stcp_thread \<Rightarrow> bytes \<Rightarrow> fault + stcp_thread) \<Rightarrow> stcp_thread \<Rightarrow> fault + stcp_thread option" where
  "setup_step f t = bindB (await_header t) (\<lambda>(r, t).
     bindR (case r of None \<Rightarrow> refuse t | Some buf \<Rightarrow> f t buf) (\<lambda>t. Inr (Some t)))"

section \<open>The control loop\<close>

text \<open>\<open>peer_window_size - (last_byte_sent - last_ack_received)\<close> in unsigned arithmetic.\<close>

definition max_to_send :: "context_t \<Rightarrow> nat" where
  "max_to_send c =
     (let n = unat (ucast (peer_window_size c) - (last_byte_sent c - last_ack_received c) :: u32)
      in if n > STCP_MSS then STCP_MSS else n)"

definition handle_app_data :: "stcp_thread \<Rightarrow> fault + stcp_thread option" where
  "handle_app_data t =
     (if max_to_send (tctx t) > 0
      then bindB (stcp_app_recv (msock t) (max_to_send (tctx t))) (\<lambda>(bytes_read, app_buf, ms).
             (let t = t\<lparr>msock := ms\<rparr>
              in if bytes_read > 0
                 then bindR (send_packet t app_buf TH_ACK) (\<lambda>t.
                        Inr (Some (t\<lparr>tctx := (tctx t)\<lparr>sequence_num := sequence_num (tctx t) + of_nat bytes_read\<rparr>\<rparr>)))
                 else Inr (Some t)))
      else Inr (Some t))"

definition handle_fin :: "stcp_thread \<Rightarrow> u32 \<Rightarrow> fault + stcp_thread" where
  "handle_fin t recv_seq =
     bindR (send_packet (t\<lparr>tctx := (tctx t)\<lparr>fin_received := True, ack_num := recv_seq + 1\<rparr>\<rparr>) [] TH_ACK) (\<lambda>t.
       let t = t\<lparr>msock := stcp_fin_received (msock t)\<rparr>
       in Inr (case connection_state (tctx t) of
                 CSTATE_ESTABLISHED \<Rightarrow> t\<lparr>tctx := (tctx t)\<lparr>connection_state := CSTATE_CLOSE_WAIT\<rparr>\<rparr>
               | CSTATE_FIN_WAIT_1 \<Rightarrow> t\<lparr>tctx := (tctx t)\<lparr>connection_state := CSTATE_CLOSING\<rparr>\<rparr>
               | CSTATE_FIN_WAIT_2 \<Rightarrow> t\<lparr>tctx := (tctx t)\<lparr>conn_done := True\<rparr>\<rparr>
               | _ \<Rightarrow> t))"

definition handle_ack :: "context_t \<Rightarrow> u32 \<Rightarrow> context_t" where
  "handle_ack c recv_ack =
     (if connection_state c = CSTATE_FIN_WAIT_1 \<and> recv_ack = sequence_num c
      then c\<lparr>fin_acked := True, connection_state := CSTATE_FIN_WAIT_2\<rparr>
      else if connection_state c = CSTATE_CLOSING \<and> recv_ack = sequence_num c
      then c\<lparr>fin_acked := True, conn_done := True\<rparr>
      else if connection_state c = CSTATE_LAST_ACK \<and> recv_ack = sequence_num c
      then c\<lparr>fin_acked := True, connection_state := CSTATE_CLOSED, conn_done := True\<rparr>
      else c)"

definition handle_data :: "stcp_thread \<Rightarrow> bytes \<Rightarrow> u32 \<Rightarrow> fault + stcp_thread" where
  "handle_data t buf recv_seq =
     (let start = tcp_data_start buf;
          data_len = unat (of_nat (length buf) - of_nat start :: 64 word)
      in if data_len > 0 \<and> recv_seq = ack_num (tctx t)
         then
           (let c = (tctx t)\<lparr>recv_buffer_used := recv_buffer_used (tctx t) + of_nat data_len\<rparr>
            in bindR (if recv_seq = next_seq_expected c
                      then bindR (load_bytes buf start data_len) (\<lambda>data.
                             Inr (t\<lparr>tctx := c\<lparr>next_seq_expected := recv_seq + of_nat data_len,
                                           recv_buffer_used := recv_buffer_used c - of_nat data_len\<rparr>,
                                    msock := stcp_app_send (msock t) data\<rparr>))
                      else Inr (t\<lparr>tctx := c\<rparr>)) (\<lambda>t.
               send_packet (t\<lparr>tctx := (tctx t)\<lparr>ack_num := ack_num (tctx t) + of_nat data_len\<rparr>\<rparr>) [] TH_ACK))
         else if data_len > 0 then send_packet t [] TH_ACK
         else Inr t)"

definition handle_segment :: "stcp_thread \<Rightarrow> bytes \<Rightarrow> fault + stcp_thread" where
  "handle_segment t buf =
     (let h = tcphdr_at buf;
          recv_seq = ntohl (th_seq h);
          t = t\<lparr>tctx := (tctx t)\<lparr>peer_window_size := ntohs (th_win h)\<rparr>\<rparr>
      in bindR (if th_flags h AND TH_FIN \<noteq> 0 then handle_fin t recv_seq else Inr t) (\<lambda>t.
         let t = (if th_flags h AND TH_ACK \<noteq> 0 then t\<lparr>tctx := handle_ack (tctx t) (ntohl (th_ack h))\<rparr> else t)
         in handle_data t buf recv_seq))"

text \<open>The flag tells whether the iteration goes on after the network event (or \<open>continue\<close>s).\<close>

definition handle_network_data :: "stcp_thread \<Rightarrow> fault + (bool \<times> stcp_thread) option" where
  "handle_network_data t =
     bindB (stcp_network_recv (msock t) (STCP_MSS + sizeof_tcphdr)) (\<lambda>(bytes_received, buf, ms).
       (let t = t\<lparr>msock := ms\<rparr>
        in if bytes_received = 0
           then Inr (Some (False,
                  if connection_state (tctx t) = CSTATE_ESTABLISHED
                  then t\<lparr>tctx := (tctx t)\<lparr>connection_state := CSTATE_CLOSED, conn_done := True\<rparr>\<rparr> else t))
           else bindR (handle_segment t buf) (\<lambda>t. Inr (Some (True, t)))))"

definition handle_close :: "stcp_thread \<Rightarrow> fault + stcp_thread" where
  "handle_close t =
     (if \<not> fin_sent (tctx t)
      then bindR (send_packet (t\<lparr>tctx := (tctx t)\<lparr>fin_sent := True\<rparr>\<rparr>) [] (TH_FIN OR TH_ACK)) (\<lambda>t.
             let c = (tctx t)\<lparr>sequence_num := sequence_num (tctx t) + 1\<rparr>
             in Inr (t\<lparr>tctx := (case connection_state c of
                                 CSTATE_ESTABLISHED \<Rightarrow> c\<lparr>connection_state := CSTATE_FIN_WAIT_1\<rparr>
                               | CSTATE_CLOSE_WAIT \<Rightarrow> c\<lparr>connection_state := CSTATE_LAST_ACK\<rparr>
                               | _ \<Rightarrow> c)\<rparr>))
      else Inr t)"

text \<open>One iteration of the loop, after the test of \<open>done\<close>.\<close>

definition control_iteration :: "stcp_thread \<Rightarrow> fault + stcp_thread option" where
  "control_iteration t =
     (case stcp_wait_for_event (msock t) ANY_EVENT of
        None \<Rightarrow> Inr None
      | Some (event, ms) \<Rightarrow>
          bindB (if event AND APP_DATA \<noteq> 0 then handle_app_data (t\<lparr>msock := ms\<rparr>) else Inr (Some (t\<lparr>msock := ms\<rparr>))) (\<lambda>t.
          bindB (if event AND NETWORK_DATA \<noteq> 0 then handle_network_data t else Inr (Some (True, t))) (\<lambda>(go_on, t).
          bindR (if go_on \<and> event AND APP_CLOSE_REQUESTED \<noteq> 0 then handle_close t else Inr t) (\<lambda>t.
            Inr (Some t)))))"

text \<open>One step of the transport thread.\<close>

definition transport_step :: "stcp_thread \<Rightarrow> fault + stcp_thread option" where
  "transport_step t =
     (case pc t of
        Await_SYN_ACK \<Rightarrow> setup_step syn_ack_step t
      | Await_SYN \<Rightarrow> setup_step syn_step t
      | Await_ACK \<Rightarrow> setup_step ack_step t
      | Control_loop \<Rightarrow> if conn_done (tctx t) then Inr (Some (thread_exit t)) else control_iteration t
      | Returned \<Rightarrow> Inr None)"

end
