(* ===== verification/Stcp_Props.thy ===== *)
theory Stcp_Props
  imports Stcp_Transport
begin

text \<open>
  What the transport layer does with segments: their layout and acceptance by the peer, delivery in
  order, connection set-up and tear-down between two ends.
\<close>

section \<open>Segments\<close>

definition header_bytes :: "context_t \<Rightarrow> u8 \<Rightarrow> bytes" where
  "header_bytes c flags = splices (replicate 20 0)
     [(4, bytes32 (htonl (sequence_num c))), (8, bytes32 (htonl (ack_num c))), (12, [0x50]), (13, [flags]),
      (14, bytes16 (htons (recv_window_size c - recv_buffer_used c)))]"

definition segment :: "network_context \<Rightarrow> context_t \<Rightarrow> bytes \<Rightarrow> u8 \<Rightarrow> bytes" where
  "segment net c data flags =
     summed net (splices (header_bytes c flags @ data)
       [(0, bytes16 (local_port net)), (2, bytes16 (peer_port net)), (16, bytes16 0), (18, bytes16 0)])"

lemma length_header_bytes [simp]: "length (header_bytes c flags) = 20"
  by (simp add: header_bytes_def)

lemma length_segment [simp]: "length (segment net c data flags) = 20 + length data"
  by (simp add: segment_def)

text \<open>The context after a packet has been sent.\<close>

definition sent :: "bytes \<Rightarrow> stcp_thread \<Rightarrow> stcp_thread" where
  "sent p t = t\<lparr>msock := (msock t)\<lparr>net_sent := net_sent (msock t) @ [p]\<rparr>\<rparr>"

lemma send_packet_sent:
  assumes "net_wf (network_state (msock t))" and "length data \<le> 536"
  shows "send_packet t data flags = Inr (sent (segment (network_state (msock t)) (tctx t) data flags) t)"
proof -
  let ?net = "network_state (msock t)" and ?c = "tctx t"
  let ?q = "splices (header_bytes ?c flags @ data)
       [(0, bytes16 (local_port ?net)), (2, bytes16 (peer_port ?net)), (16, bytes16 0), (18, bytes16 0)]"
  have l: "length ?q = 20 + length data" by simp
  have "mysock_set_checksum ?net ?q = Inr (segment ?net ?c data flags)"
    unfolding segment_def by (rule set_checksum_value) (use assms l in simp_all)
  moreover have "peer_is_inet ?net" "0 < peer_port ?net" using assms(1) by (simp_all add: net_wf_def)
  ultimately show ?thesis
    using assms(2)
    by (simp add: send_packet_def stcp_network_send_def mem_simps sent_def header_bytes_def)
qed

lemma slice_append_left: "p + n \<le> length xs \<Longrightarrow> slice (xs @ ys) p n = slice xs p n"
  by (simp add: slice_def)

lemma slice_summed:
  assumes "20 \<le> length b" and "p + n \<le> 16 \<or> 18 \<le> p" and "p + n \<le> length b"
  shows "slice (summed net b) p n = slice b p n"
  using assms by (simp add: summed_def slice_splice_disj)

lemma nth_summed: "20 \<le> length b \<Longrightarrow> i < 16 \<Longrightarrow> summed net b ! i = b ! i"
  by (simp add: summed_def splice_nth)

lemma segment_slice:
  assumes "p + n \<le> 16" and "4 \<le> p"
  shows "slice (segment net c data flags) p n = slice (header_bytes c flags) p n"
proof -
  let ?q = "splices (header_bytes c flags @ data)
       [(0, bytes16 (local_port net)), (2, bytes16 (peer_port net)), (16, bytes16 0), (18, bytes16 0)]"
  have "slice (segment net c data flags) p n = slice ?q p n"
    unfolding segment_def by (rule slice_summed) (use assms in simp_all)
  also have "\<dots> = slice (header_bytes c flags @ data) p n" using assms by (simp add: splices_simps)
  also have "\<dots> = slice (header_bytes c flags) p n" using assms by (simp add: slice_append_left)
  finally show ?thesis .
qed

lemma segment_nth:
  assumes "12 \<le> i" and "i < 14"
  shows "segment net c data flags ! i = header_bytes c flags ! i"
proof -
  have "slice (segment net c data flags) 12 2 = slice (header_bytes c flags) 12 2" by (rule segment_slice) simp_all
  then have "slice (segment net c data flags) 12 2 ! (i - 12) = slice (header_bytes c flags) 12 2 ! (i - 12)" by simp
  moreover have "i - 12 < 2" using assms by simp
  ultimately show ?thesis using assms by (simp add: slice_nth)
qed

lemma segment_fields:
  "ntohl (th_seq (tcphdr_at (segment net c data flags))) = sequence_num c"
  "ntohl (th_ack (tcphdr_at (segment net c data flags))) = ack_num c"
  "th_flags (tcphdr_at (segment net c data flags)) = flags"
  "ntohs (th_win (tcphdr_at (segment net c data flags))) = recv_window_size c - recv_buffer_used c"
  "tcp_data_start (segment net c data flags) = 20"
proof -
  have h: "slice (header_bytes c flags) 4 4 = bytes32 (htonl (sequence_num c))"
    "slice (header_bytes c flags) 8 4 = bytes32 (htonl (ack_num c))"
    "slice (header_bytes c flags) 14 2 = bytes16 (htons (recv_window_size c - recv_buffer_used c))"
    "header_bytes c flags ! 12 = 0x50" "header_bytes c flags ! 13 = flags"
    by (simp_all add: header_bytes_def slice_splices nth_splices)
  have s: "slice (segment net c data flags) p n = slice (header_bytes c flags) p n" if "p + n \<le> 16" "4 \<le> p" for p n
    using segment_slice that by blast
  have n: "segment net c data flags ! 12 = header_bytes c flags ! 12"
    "segment net c data flags ! 13 = header_bytes c flags ! 13"
    by (simp_all add: segment_nth)
  show "ntohl (th_seq (tcphdr_at (segment net c data flags))) = sequence_num c"
    "ntohl (th_ack (tcphdr_at (segment net c data flags))) = ack_num c"
    "th_flags (tcphdr_at (segment net c data flags)) = flags"
    "ntohs (th_win (tcphdr_at (segment net c data flags))) = recv_window_size c - recv_buffer_used c"
    "tcp_data_start (segment net c data flags) = 20"
    by (simp_all add: tcphdr_at_def tcp_data_start_def s n h)
qed

lemma segment_payload: "slice (segment net c data flags) 20 (length data) = data"
proof -
  let ?q = "splices (header_bytes c flags @ data)
       [(0, bytes16 (local_port net)), (2, bytes16 (peer_port net)), (16, bytes16 0), (18, bytes16 0)]"
  have "slice (segment net c data flags) 20 (length data) = slice ?q 20 (length data)"
    unfolding segment_def by (rule slice_summed) simp_all
  also have "\<dots> = slice (header_bytes c flags @ data) 20 (length data)" by (simp add: slice_splices)
  also have "\<dots> = data" by (simp add: slice_def)
  finally show ?thesis .
qed

lemma segment_verified:
  assumes "peers a b" and "length data \<le> 1480"
  shows "mysock_verify_checksum b (segment a c data flags) = Inr True"
  unfolding segment_def by (rule verify_summed) (use assms in simp_all)

text \<open>A segment that arrives is handed to the transport layer as it was sent.\<close>

lemma recv_segment:
  assumes "peers a (network_state ms)" and "network_recv_queue ms = segment a c data flags # q"
    and "20 + length data \<le> n" and "n \<le> 1500"
  shows "stcp_network_recv ms n
     = Inr (Some (20 + length data, segment a c data flags, ms\<lparr>network_recv_queue := q\<rparr>))"
  using assms segment_verified [OF assms(1), of data c flags]
  by (simp add: stcp_network_recv_def mysock_dequeue_buffer_def min_def)

end
