(* ===== verification/Stcp_Steps.thy ===== *)
theory Stcp_Steps
  imports Stcp_Props
begin

text \<open>
  What each handler of the transport thread does to the state of its end, as an equation or an
  inversion: these are the facts the invariants of a connection are proved from.
\<close>

section \<open>Frame properties\<close>

lemma sent_simps [simp]:
  "pc (sent p t) = pc t" "tctx (sent p t) = tctx t" "thread_errno (sent p t) = thread_errno t"
  "msock (sent p t) = (msock t)\<lparr>net_sent := net_sent (msock t) @ [p]\<rparr>"
  by (simp_all add: sent_def)

lemma stcp_fin_received_simps [simp]:
  "app_send_queue (stcp_fin_received ms) = app_send_queue ms @ [[]]"
  "network_state (stcp_fin_received ms) = network_state ms"
  "network_recv_queue (stcp_fin_received ms) = network_recv_queue ms"
  "app_recv_queue (stcp_fin_received ms) = app_recv_queue ms"
  "net_sent (stcp_fin_received ms) = net_sent ms"
  "blocking (stcp_fin_received ms) = blocking ms"
  "listening (stcp_fin_received ms) = listening ms"
  "close_requested (stcp_fin_received ms) = close_requested ms"
  "eof (stcp_fin_received ms) = eof ms"
  "stcp_errno (stcp_fin_received ms) = stcp_errno ms"
  by (simp_all add: stcp_fin_received_def mysock_enqueue_buffer_def)

lemma stcp_app_send_simps [simp]:
  "concat (app_send_queue (stcp_app_send ms bs)) = concat (app_send_queue ms) @ bs"
  "network_state (stcp_app_send ms bs) = network_state ms"
  "network_recv_queue (stcp_app_send ms bs) = network_recv_queue ms"
  "app_recv_queue (stcp_app_send ms bs) = app_recv_queue ms"
  "net_sent (stcp_app_send ms bs) = net_sent ms"
  "blocking (stcp_app_send ms bs) = blocking ms"
  "listening (stcp_app_send ms bs) = listening ms"
  "close_requested (stcp_app_send ms bs) = close_requested ms"
  "eof (stcp_app_send ms bs) = eof ms"
  by (simp_all add: stcp_app_send_def mysock_enqueue_buffer_def)

lemma app_send_queue_app_send:
  "bs \<noteq> [] \<Longrightarrow> app_send_queue (stcp_app_send ms bs) = app_send_queue ms @ [bs]"
  by (simp add: stcp_app_send_def mysock_enqueue_buffer_def)

text \<open>An acknowledgement only touches the progress of the tear-down.\<close>

lemma handle_ack_simps [simp]:
  "sequence_num (handle_ack c a) = sequence_num c" "ack_num (handle_ack c a) = ack_num c"
  "fin_sent (handle_ack c a) = fin_sent c" "fin_received (handle_ack c a) = fin_received c"
  "recv_window_size (handle_ack c a) = recv_window_size c"
  "recv_buffer_used (handle_ack c a) = recv_buffer_used c"
  "next_seq_expected (handle_ack c a) = next_seq_expected c"
  "peer_window_size (handle_ack c a) = peer_window_size c"
  "last_ack_received (handle_ack c a) = last_ack_received c"
  "last_byte_sent (handle_ack c a) = last_byte_sent c"
  by (simp_all add: handle_ack_def)

section \<open>Effects of the handlers\<close>

definition ack_out :: "stcp_thread \<Rightarrow> stcp_thread" where
  "ack_out t = sent (segment (network_state (msock t)) (tctx t) [] TH_ACK) t"

lemma send_ack: "net_wf (network_state (msock t)) \<Longrightarrow> send_packet t [] TH_ACK = Inr (ack_out t)"
  by (simp add: send_packet_sent ack_out_def)

text \<open>The state after a FIN, before its acknowledgement part is looked at.\<close>

definition fin_state :: "context_t \<Rightarrow> context_t" where
  "fin_state c = (case connection_state c of
       CSTATE_ESTABLISHED \<Rightarrow> c\<lparr>connection_state := CSTATE_CLOSE_WAIT\<rparr>
     | CSTATE_FIN_WAIT_1 \<Rightarrow> c\<lparr>connection_state := CSTATE_CLOSING\<rparr>
     | CSTATE_FIN_WAIT_2 \<Rightarrow> c\<lparr>conn_done := True\<rparr>
     | _ \<Rightarrow> c)"

lemma fin_state_simps [simp]:
  "sequence_num (fin_state c) = sequence_num c" "ack_num (fin_state c) = ack_num c"
  "fin_sent (fin_state c) = fin_sent c" "fin_received (fin_state c) = fin_received c"
  "fin_acked (fin_state c) = fin_acked c"
  "recv_window_size (fin_state c) = recv_window_size c"
  "recv_buffer_used (fin_state c) = recv_buffer_used c"
  "next_seq_expected (fin_state c) = next_seq_expected c"
  "peer_window_size (fin_state c) = peer_window_size c"
  "last_ack_received (fin_state c) = last_ack_received c"
  "last_byte_sent (fin_state c) = last_byte_sent c"
  by (simp_all add: fin_state_def split: cstate.splits)

definition after_fin :: "stcp_thread \<Rightarrow> u32 \<Rightarrow> stcp_thread" where
  "after_fin t s =
     (let t = ack_out (t\<lparr>tctx := (tctx t)\<lparr>fin_received := True, ack_num := s + 1\<rparr>\<rparr>)
      in t\<lparr>msock := stcp_fin_received (msock t), tctx := fin_state (tctx t)\<rparr>)"

lemma handle_fin_after:
  assumes "net_wf (network_state (msock t))"
  shows "handle_fin t s = Inr (after_fin t s)"
  using assms
  by (simp add: handle_fin_def send_ack after_fin_def fin_state_def Let_def split: cstate.splits)

text \<open>The state after data that are accepted.\<close>

definition after_data :: "stcp_thread \<Rightarrow> bytes \<Rightarrow> stcp_thread" where
  "after_data t data =
     ack_out (t\<lparr>msock := stcp_app_send (msock t) data,
                tctx := (tctx t)\<lparr>next_seq_expected := ack_num (tctx t) + of_nat (length data),
                               ack_num := ack_num (tctx t) + of_nat (length data)\<rparr>\<rparr>)"

definition heard :: "stcp_thread \<Rightarrow> u16 \<Rightarrow> u8 \<Rightarrow> u32 \<Rightarrow> stcp_thread" where
  "heard t win flags ack =
     t\<lparr>tctx := (let c = (tctx t)\<lparr>peer_window_size := win\<rparr>
                in if flags AND TH_ACK \<noteq> 0 then handle_ack c ack else c)\<rparr>"

lemma segment_data_len:
  "length data \<le> 1480 \<Longrightarrow>
   unat (of_nat (length (segment net c data flags)) - of_nat (tcp_data_start (segment net c data flags)) :: 64 word)
   = length data"
  by (simp add: segment_fields unat_of_nat)

lemma load_payload:
  "load_bytes (segment net c data flags) 20 (length data) = Inr data"
  by (simp add: load_bytes_def segment_payload)

lemma handle_data_empty: "handle_data t (segment net c [] flags) s = Inr t"
  using segment_data_len [of "[]" net c flags] by (simp add: handle_data_def Let_def)

lemma handle_data_in_order:
  assumes "net_wf (network_state (msock t))" and "data \<noteq> []" and "length data \<le> 1480"
    and "s = ack_num (tctx t)" and "next_seq_expected (tctx t) = ack_num (tctx t)"
  shows "handle_data t (segment net c data flags) s = Inr (after_data t data)"
  using assms segment_data_len [OF assms(3), of net c flags]
  by (simp add: handle_data_def Let_def load_payload segment_fields send_ack after_data_def)

text \<open>Data out of order are acknowledged with the number that is expected, and dropped.\<close>

lemma handle_data_out_of_order:
  assumes "net_wf (network_state (msock t))" and "data \<noteq> []" and "length data \<le> 1480"
    and "s \<noteq> ack_num (tctx t)"
  shows "handle_data t (segment net c data flags) s = Inr (ack_out t)"
  using assms segment_data_len [OF assms(3), of net c flags]
  by (simp add: handle_data_def Let_def send_ack)

text \<open>A segment without FIN, and one with FIN and no data.\<close>

lemma handle_segment_plain:
  assumes "flags AND TH_FIN = 0"
  shows "handle_segment t (segment net c data flags)
     = handle_data (heard t (recv_window_size c - recv_buffer_used c) flags (ack_num c))
         (segment net c data flags) (sequence_num c)"
  using assms by (simp add: handle_segment_def segment_fields heard_def Let_def)

definition heard_ack :: "stcp_thread \<Rightarrow> u8 \<Rightarrow> u32 \<Rightarrow> stcp_thread" where
  "heard_ack t flags ack = (if flags AND TH_ACK \<noteq> 0 then t\<lparr>tctx := handle_ack (tctx t) ack\<rparr> else t)"

lemma handle_segment_fin:
  assumes "flags AND TH_FIN \<noteq> 0" and "net_wf (network_state (msock t))"
  shows "handle_segment t (segment net c [] flags)
     = Inr (heard_ack (after_fin (t\<lparr>tctx := (tctx t)\<lparr>peer_window_size := recv_window_size c - recv_buffer_used c\<rparr>\<rparr>)
              (sequence_num c)) flags (ack_num c))"
  using assms
  by (simp add: handle_segment_def segment_fields handle_fin_after handle_data_empty heard_ack_def Let_def)

text \<open>A segment that has arrived is handled.\<close>

lemma handle_network_segment:
  assumes "peers a (network_state (msock t))" and "network_recv_queue (msock t) = segment a c data flags # q"
    and "length data \<le> 536"
  shows "handle_network_data t
     = bindR (handle_segment (t\<lparr>msock := (msock t)\<lparr>network_recv_queue := q\<rparr>\<rparr>) (segment a c data flags))
         (\<lambda>t. Inr (Some (True, t)))"
  using recv_segment [OF assms(1,2), of 556] assms(3)
  by (simp add: handle_network_data_def)

text \<open>Application data.\<close>

definition push :: "bytes \<Rightarrow> stcp_thread \<Rightarrow> stcp_thread" where
  "push bs t = (if bs = [] then t
     else (sent (segment (network_state (msock t)) (tctx t) bs TH_ACK) t)
            \<lparr>tctx := (tctx t)\<lparr>sequence_num := sequence_num (tctx t) + of_nat (length bs)\<rparr>\<rparr>)"

lemma handle_app_data_push:
  assumes "net_wf (network_state (msock t))" and "max_to_send (tctx t) = 536"
    and "app_recv_queue (msock t) \<noteq> []"
  shows "handle_app_data t =
     (case queue_get (app_recv_queue (msock t)) 536 of
        None \<Rightarrow> Inl OverlappingCopy
      | Some (bs, q) \<Rightarrow> Inr (Some (push bs (t\<lparr>msock := (msock t)\<lparr>app_recv_queue := q\<rparr>\<rparr>))))"
proof -
  obtain d q where q: "app_recv_queue (msock t) = d # q" using assms(3) by (cases "app_recv_queue (msock t)") auto
  show ?thesis
    using assms(1,2)
    by (simp add: handle_app_data_def stcp_app_recv_def q queue_get_Some mysock_dequeue_buffer_def
        send_packet_sent push_def sent_def min_def) auto
qed

text \<open>The close request.\<close>

definition close_state :: "context_t \<Rightarrow> context_t" where
  "close_state c = (case connection_state c of
       CSTATE_ESTABLISHED \<Rightarrow> c\<lparr>connection_state := CSTATE_FIN_WAIT_1\<rparr>
     | CSTATE_CLOSE_WAIT \<Rightarrow> c\<lparr>connection_state := CSTATE_LAST_ACK\<rparr>
     | _ \<Rightarrow> c)"

lemma close_state_simps [simp]:
  "sequence_num (close_state c) = sequence_num c" "ack_num (close_state c) = ack_num c"
  "fin_sent (close_state c) = fin_sent c" "fin_received (close_state c) = fin_received c"
  "fin_acked (close_state c) = fin_acked c" "conn_done (close_state c) = conn_done c"
  "recv_window_size (close_state c) = recv_window_size c"
  "recv_buffer_used (close_state c) = recv_buffer_used c"
  "next_seq_expected (close_state c) = next_seq_expected c"
  "peer_window_size (close_state c) = peer_window_size c"
  "last_ack_received (close_state c) = last_ack_received c"
  "last_byte_sent (close_state c) = last_byte_sent c"
  by (simp_all add: close_state_def split: cstate.splits)

definition after_close :: "stcp_thread \<Rightarrow> stcp_thread" where
  "after_close t = (if fin_sent (tctx t) then t
     else (let t = t\<lparr>tctx := (tctx t)\<lparr>fin_sent := True\<rparr>\<rparr>
           in (sent (segment (network_state (msock t)) (tctx t) [] (TH_FIN OR TH_ACK)) t)
                \<lparr>tctx := close_state ((tctx t)\<lparr>sequence_num := sequence_num (tctx t) + 1\<rparr>)\<rparr>))"

lemma handle_close_after:
  assumes "net_wf (network_state (msock t))"
  shows "handle_close t = Inr (after_close t)"
  using assms
  by (simp add: handle_close_def send_packet_sent after_close_def close_state_def Let_def split: cstate.splits)

end
