(* ===== verification/Stcp_Link.thy ===== *)
theory Stcp_Link
  imports Stcp_Steps
begin

text \<open>
  Two ends of an STCP connection over a network that neither loses nor reorders packets: the
  transport threads run, the applications write, read and close, and the network carries
  packets, in any order.  The invariant ties the packets in flight to the sequence numbers of
  both ends and to the bytes the applications wrote and read.
\<close>

section \<open>The system\<close>

text \<open>An end: its transport thread, what its application wrote and read, and whether it closed.\<close>

record endpoint =
  thr :: stcp_thread
  wrote :: bytes
  got :: bytes
  closed :: bool

abbreviation sk :: "endpoint \<Rightarrow> mysock_context" where "sk e \<equiv> msock (thr e)"
abbreviation cx :: "endpoint \<Rightarrow> context_t" where "cx e \<equiv> tctx (thr e)"

definition with_sk :: "endpoint \<Rightarrow> mysock_context \<Rightarrow> endpoint" where
  "with_sk e ms = e\<lparr>thr := (thr e)\<lparr>msock := ms\<rparr>\<rparr>"

text \<open>
  What happens at one end.  The application calls its mysocket once it is connected and until
  it closes it; \<open>m\<close> bounds the buffers it writes.
\<close>

inductive end_step :: "nat \<Rightarrow> endpoint \<Rightarrow> endpoint \<Rightarrow> bool" for m where
  thread: "transport_step (thr e) = Inr (Some t) \<Longrightarrow> end_step m e (e\<lparr>thr := t\<rparr>)"
| app_write: "\<lbrakk>\<not> blocking (sk e); \<not> closed e; length buf \<le> m; mywrite (sk e) buf = Inr (Inr n, ms)\<rbrakk>
    \<Longrightarrow> end_step m e ((with_sk e ms)\<lparr>wrote := wrote e @ buf\<rparr>)"
| app_read: "\<lbrakk>\<not> blocking (sk e); \<not> closed e; myread (sk e) n = Inr (Some (Inr (len, bs), ms))\<rbrakk>
    \<Longrightarrow> end_step m e ((with_sk e ms)\<lparr>got := got e @ bs\<rparr>)"
| app_close: "\<lbrakk>\<not> blocking (sk e); \<not> closed e\<rbrakk>
    \<Longrightarrow> end_step m e ((with_sk e (myclose_request (sk e)))\<lparr>closed := True\<rparr>)"

text \<open>The network takes the first packet that was sent and puts it in the queue of the other end.\<close>

definition departed :: "endpoint \<Rightarrow> endpoint" where
  "departed e = with_sk e ((sk e)\<lparr>net_sent := tl (net_sent (sk e))\<rparr>)"

definition arrived :: "bytes \<Rightarrow> endpoint \<Rightarrow> endpoint" where
  "arrived p e = with_sk e ((sk e)\<lparr>network_recv_queue := mysock_enqueue_buffer (network_recv_queue (sk e)) p\<rparr>)"

inductive link_step :: "nat \<Rightarrow> endpoint \<times> endpoint \<Rightarrow> endpoint \<times> endpoint \<Rightarrow> bool" for m where
  active_end: "end_step m a a' \<Longrightarrow> link_step m (a, b) (a', b)"
| passive_end: "end_step m b b' \<Longrightarrow> link_step m (a, b) (a, b')"
| carry_out: "net_sent (sk a) \<noteq> [] \<Longrightarrow> link_step m (a, b) (departed a, arrived (hd (net_sent (sk a))) b)"
| carry_back: "net_sent (sk b) \<noteq> [] \<Longrightarrow> link_step m (a, b) (arrived (hd (net_sent (sk b))) a, departed b)"

definition fresh :: "mysock_context \<Rightarrow> bool" where
  "fresh ms \<longleftrightarrow> blocking ms \<and> \<not> listening ms \<and> \<not> close_requested ms \<and> \<not> eof ms
     \<and> network_recv_queue ms = [] \<and> app_send_queue ms = [] \<and> app_recv_queue ms = [] \<and> net_sent ms = []"

definition new_end :: "stcp_thread \<Rightarrow> endpoint" where
  "new_end t = \<lparr>thr = t, wrote = [], got = [], closed = False\<rparr>"

text \<open>The states a connection can get into.\<close>

inductive connection :: "nat \<Rightarrow> endpoint \<times> endpoint \<Rightarrow> bool" for m where
  start: "\<lbrakk>fresh ma; fresh mb; peers (network_state ma) (network_state mb);
      transport_init ma ra True = Inr ta; transport_init mb rb False = Inr tb\<rbrakk>
    \<Longrightarrow> connection m (new_end ta, new_end tb)"
| step: "\<lbrakk>connection m l; link_step m l l'\<rbrakk> \<Longrightarrow> connection m l'"

section \<open>Packets in flight\<close>

definition is_seg :: "network_context \<Rightarrow> u32 \<Rightarrow> bytes \<Rightarrow> bool \<Rightarrow> bytes \<Rightarrow> bool" where
  "is_seg net s data fin p \<longleftrightarrow> length data \<le> 536 \<and> (fin \<longrightarrow> data = [])
     \<and> (\<exists>c flags. p = segment net c data flags \<and> sequence_num c = s
          \<and> recv_window_size c - recv_buffer_used c = 3072 \<and> (flags AND TH_FIN \<noteq> 0 \<longleftrightarrow> fin))"

text \<open>
  Packets that take a receiver which expects \<open>s\<close> to one which expects \<open>s'\<close>, and bring it the
  bytes \<open>bs\<close>; \<open>f\<close> and \<open>f'\<close> tell whether a FIN has come before and after.
\<close>

fun chain :: "network_context \<Rightarrow> bool \<Rightarrow> u32 \<Rightarrow> bytes list \<Rightarrow> bool \<Rightarrow> u32 \<Rightarrow> bytes \<Rightarrow> bool" where
  "chain net f s [] f' s' bs \<longleftrightarrow> f' = f \<and> s' = s \<and> bs = []"
| "chain net f s (p # ps) f' s' bs \<longleftrightarrow>
     (\<exists>data fin rest. is_seg net s data fin p \<and> bs = data @ rest \<and> (f \<longrightarrow> data = [] \<and> \<not> fin)
        \<and> chain net (f \<or> fin) (s + of_nat (length data) + (if fin then 1 else 0)) ps f' s' rest)"

lemma chain_snoc:
  assumes "chain net f s ps f' s' bs" and "is_seg net s' data fin p" and "f' \<Longrightarrow> data = [] \<and> \<not> fin"
  shows "chain net f s (ps @ [p]) (f' \<or> fin) (s' + of_nat (length data) + (if fin then 1 else 0)) (bs @ data)"
  using assms
proof (induction ps arbitrary: f s bs)
  case Nil
  then have "f' = f" "s' = s" "bs = []" by simp_all
  with Nil.prems(2,3) show ?case
    by (simp only: append_Nil chain.simps) (rule exI [of _ data], rule exI [of _ fin], rule exI [of _ "[]"], simp)
next
  case (Cons q ps)
  then obtain d fn rest where q: "is_seg net s d fn q" "bs = d @ rest" "f \<longrightarrow> d = [] \<and> \<not> fn"
    and c: "chain net (f \<or> fn) (s + of_nat (length d) + (if fn then 1 else 0)) ps f' s' rest"
    by auto
  from Cons.IH [OF c Cons.prems(2,3)] q show ?case
    by (simp only: append_Cons chain.simps) (rule exI [of _ d], rule exI [of _ fn], rule exI [of _ "rest @ data"], simp)
qed

lemma chain_fin: "chain net f s ps f' s' bs \<Longrightarrow> f \<Longrightarrow> bs = [] \<and> s' = s \<and> f'"
  by (induction ps arbitrary: f s bs) auto

text \<open>What a segment says is unique.\<close>

lemma is_seg_segment:
  assumes "is_seg net s data fin (segment net c d flags)"
  shows "data = d" and "sequence_num c = s" and "flags AND TH_FIN \<noteq> 0 \<longleftrightarrow> fin"
    and "recv_window_size c - recv_buffer_used c = 3072" and "fin \<longrightarrow> d = []" and "length d \<le> 536"
proof -
  from assms obtain c' fl where p: "segment net c d flags = segment net c' data fl" and s: "sequence_num c' = s"
    and w: "recv_window_size c' - recv_buffer_used c' = 3072" and f: "fl AND TH_FIN \<noteq> 0 \<longleftrightarrow> fin"
    and e: "fin \<longrightarrow> data = []" and l: "length data \<le> 536"
    unfolding is_seg_def by blast
  have len: "length data = length d" using arg_cong [OF p, of length] by simp
  show d: "data = d" using segment_payload [of net c d flags] segment_payload [of net c' data fl] p len by simp
  show "sequence_num c = s" using segment_fields(1) [of net c d flags] segment_fields(1) [of net c' data fl] p s by simp
  have "flags = fl" using segment_fields(3) [of net c d flags] segment_fields(3) [of net c' data fl] p by simp
  with f show "flags AND TH_FIN \<noteq> 0 \<longleftrightarrow> fin" by simp
  show "recv_window_size c - recv_buffer_used c = 3072"
    using segment_fields(4) [of net c d flags] segment_fields(4) [of net c' data fl] p w by simp
  show "fin \<longrightarrow> d = []" "length d \<le> 536" using e l d by simp_all
qed

lemma is_segE:
  assumes "is_seg net s data fin p"
  obtains c flags where "p = segment net c data flags" "sequence_num c = s"
    "recv_window_size c - recv_buffer_used c = 3072" "flags AND TH_FIN \<noteq> 0 \<longleftrightarrow> fin"
    "length data \<le> 536" "fin \<longrightarrow> data = []"
  using assms unfolding is_seg_def by blast

lemma is_seg_intro:
  "\<lbrakk>length data \<le> 536; recv_window_size c - recv_buffer_used c = 3072; flags AND TH_FIN \<noteq> 0 \<longleftrightarrow> fin; fin \<Longrightarrow> data = []\<rbrakk>
   \<Longrightarrow> is_seg net (sequence_num c) data fin (segment net c data flags)"
  unfolding is_seg_def by blast

section \<open>The invariant\<close>

definition inflight :: "endpoint \<Rightarrow> endpoint \<Rightarrow> bytes list" where
  "inflight a b = network_recv_queue (sk b) @ net_sent (sk a)"

text \<open>
  The direction from \<open>a\<close> to \<open>b\<close>: what was written at \<open>a\<close> is what was read at \<open>b\<close>, what waits to be
  read there, what is in flight and what waits to be sent.
\<close>

definition flows :: "endpoint \<Rightarrow> endpoint \<Rightarrow> bool" where
  "flows a b \<longleftrightarrow>
     (\<exists>bs. chain (network_state (sk a)) (fin_received (cx b)) (ack_num (cx b)) (inflight a b)
             (fin_sent (cx a)) (sequence_num (cx a)) bs
         \<and> wrote a = got b @ concat (app_send_queue (sk b)) @ bs @ concat (app_recv_queue (sk a)))
     \<and> (\<not> fin_received (cx b) \<longrightarrow> next_seq_expected (cx b) = ack_num (cx b))
     \<and> (fin_sent (cx a) \<longrightarrow> app_recv_queue (sk a) = [] \<and> closed a)"

text \<open>
  The acknowledgement of a FIN of \<open>a\<close> that \<open>b\<close> has got is on its way until \<open>a\<close> gets it; an
  application that closed has a request or a FIN out.
\<close>

definition acks :: "endpoint \<Rightarrow> endpoint \<Rightarrow> bool" where
  "acks a b \<longleftrightarrow> (fin_sent (cx a) \<and> fin_received (cx b) \<and> \<not> fin_acked (cx a) \<longrightarrow>
     (\<exists>c data flags. segment (network_state (sk b)) c data flags \<in> set (inflight b a)
        \<and> flags AND TH_ACK \<noteq> 0 \<and> ack_num c = sequence_num (cx a)))"

definition settled :: "endpoint \<Rightarrow> bool" where
  "settled e \<longleftrightarrow> (closed e \<longrightarrow> close_requested (sk e) \<or> fin_sent (cx e))"

text \<open>The flags of the tear-down agree with the state of the connection.\<close>

definition tear_ok :: "context_t \<Rightarrow> bool" where
  "tear_ok c \<longleftrightarrow>
     connection_state c \<noteq> CSTATE_SYN_SENT \<and> connection_state c \<noteq> CSTATE_SYN_RCVD
     \<and> (fin_sent c \<longleftrightarrow> connection_state c \<notin> {CSTATE_ESTABLISHED, CSTATE_CLOSE_WAIT})
     \<and> (fin_received c \<longleftrightarrow> connection_state c \<in> {CSTATE_CLOSE_WAIT, CSTATE_CLOSING, CSTATE_LAST_ACK, CSTATE_CLOSED}
          \<or> connection_state c = CSTATE_FIN_WAIT_2 \<and> conn_done c)
     \<and> (fin_acked c \<longleftrightarrow> connection_state c \<in> {CSTATE_FIN_WAIT_2, CSTATE_CLOSED}
          \<or> connection_state c = CSTATE_CLOSING \<and> conn_done c)
     \<and> (conn_done c \<longrightarrow> fin_acked c \<and> fin_received c)
     \<and> (connection_state c = CSTATE_CLOSED \<longrightarrow> conn_done c)"

definition windows_ok :: "context_t \<Rightarrow> bool" where
  "windows_ok c \<longleftrightarrow> recv_window_size c = 3072 \<and> recv_buffer_used c = 0 \<and> peer_window_size c = 3072
     \<and> last_byte_sent c = last_ack_received c"

text \<open>The queue for the application holds data and, once the peer has finished, end marks.\<close>

definition app_queue_ok :: "endpoint \<Rightarrow> bool" where
  "app_queue_ok e \<longleftrightarrow>
     (\<exists>ds k. app_send_queue (sk e) = ds @ replicate k [] \<and> [] \<notin> set ds \<and> (\<forall>d \<in> set ds. length d \<le> 536)
        \<and> (0 < k \<longrightarrow> fin_received (cx e)) \<and> (eof (sk e) \<longrightarrow> ds = [] \<and> fin_received (cx e)))"

definition running :: "nat \<Rightarrow> endpoint \<Rightarrow> bool" where
  "running m e \<longleftrightarrow> (pc (thr e) = Control_loop \<or> pc (thr e) = Returned \<and> conn_done (cx e))
     \<and> \<not> blocking (sk e) \<and> \<not> listening (sk e) \<and> (close_requested (sk e) \<longrightarrow> closed e)
     \<and> tear_ok (cx e) \<and> windows_ok (cx e) \<and> app_queue_ok e
     \<and> (\<forall>d \<in> set (app_recv_queue (sk e)). length d \<le> m)"

text \<open>An end that is still being set up.\<close>

definition waiting :: "endpoint \<Rightarrow> bool" where
  "waiting e \<longleftrightarrow> blocking (sk e) \<and> \<not> listening (sk e) \<and> \<not> close_requested (sk e) \<and> \<not> eof (sk e) \<and> \<not> closed e
     \<and> app_send_queue (sk e) = [] \<and> app_recv_queue (sk e) = [] \<and> wrote e = [] \<and> got e = []
     \<and> \<not> fin_sent (cx e) \<and> \<not> fin_received (cx e) \<and> \<not> fin_acked (cx e) \<and> \<not> conn_done (cx e) \<and> windows_ok (cx e)"

definition syn_sent :: "endpoint \<Rightarrow> endpoint \<Rightarrow> bool" where
  "syn_sent a b \<longleftrightarrow> waiting a \<and> waiting b \<and> pc (thr a) = Await_SYN_ACK \<and> pc (thr b) = Await_SYN
     \<and> inflight b a = []
     \<and> (\<exists>c. inflight a b = [segment (network_state (sk a)) c [] TH_SYN]
          \<and> recv_window_size c - recv_buffer_used c = 3072 \<and> sequence_num (cx a) = sequence_num c + 1)"

definition syn_received :: "endpoint \<Rightarrow> endpoint \<Rightarrow> bool" where
  "syn_received a b \<longleftrightarrow> waiting a \<and> waiting b \<and> pc (thr a) = Await_SYN_ACK \<and> pc (thr b) = Await_ACK
     \<and> inflight a b = [] \<and> ack_num (cx b) = sequence_num (cx a) \<and> next_seq_expected (cx b) = sequence_num (cx a)
     \<and> (\<exists>c. inflight b a = [segment (network_state (sk b)) c [] (TH_SYN OR TH_ACK)]
          \<and> recv_window_size c - recv_buffer_used c = 3072
          \<and> sequence_num (cx b) = sequence_num c + 1 \<and> ack_num c = sequence_num (cx a))"

definition half_open :: "nat \<Rightarrow> endpoint \<Rightarrow> endpoint \<Rightarrow> bool" where
  "half_open m a b \<longleftrightarrow> running m a \<and> waiting b \<and> pc (thr b) = Await_ACK \<and> flows a b \<and> flows b a
     \<and> (\<exists>c ps. inflight a b = segment (network_state (sk a)) c [] TH_ACK # ps \<and> ack_num c = sequence_num (cx b))"

definition link_inv :: "nat \<Rightarrow> endpoint \<times> endpoint \<Rightarrow> bool" where
  "link_inv m l = (case l of (a, b) \<Rightarrow>
     peers (network_state (sk a)) (network_state (sk b))
     \<and> acks a b \<and> acks b a \<and> settled a \<and> settled b
     \<and> (syn_sent a b \<or> syn_received a b \<or> half_open m a b
        \<or> running m a \<and> running m b \<and> flows a b \<and> flows b a))"

section \<open>The work that is left\<close>

text \<open>
  A bound on the number of steps that an end can still cause: a packet to be carried or to be
  handled, with the acknowledgement it may give rise to, a buffer to be sent, the FIN and the
  end of the thread.
\<close>

definition packet_cost :: "bytes \<Rightarrow> nat" where
  "packet_cost p = (if length p = sizeof_tcphdr \<and> th_flags (tcphdr_at p) AND TH_FIN = 0 then 1 else 4)"

definition cost :: "stcp_thread \<Rightarrow> nat" where
  "cost t = sum_list (map (\<lambda>p. packet_cost p + 1) (net_sent (msock t))) + sum_list (map packet_cost (network_recv_queue (msock t)))
     + sum_list (map (\<lambda>d. 8 * (length d + 1)) (app_recv_queue (msock t)))
     + (if close_requested (msock t) then 8 else 0) + (if pc t = Returned then 0 else 1)"

definition work :: "endpoint \<times> endpoint \<Rightarrow> nat" where
  "work l = cost (thr (fst l)) + cost (thr (snd l))"

end
