(* ===== verification/Stcp_Link_Inv.thy ===== *)
theory Stcp_Link_Inv
  imports Stcp_Link
begin

text \<open>Every step of a connection keeps the invariant, and no step faults.\<close>

section \<open>One direction\<close>

text \<open>A packet is sent.\<close>

lemma flows_send:
  assumes "flows a b" and "is_seg (network_state (sk a)) (sequence_num (cx a)) data fin p"
    and "fin_sent (cx a) \<Longrightarrow> data = [] \<and> \<not> fin"
    and "concat (app_recv_queue (sk a)) = data @ concat (app_recv_queue (sk a'))"
    and "network_state (sk a') = network_state (sk a)" and "net_sent (sk a') = net_sent (sk a) @ [p]"
    and "fin_sent (cx a') = (fin_sent (cx a) \<or> fin)"
    and "sequence_num (cx a') = sequence_num (cx a) + of_nat (length data) + (if fin then 1 else 0)"
    and "wrote a' = wrote a" and "fin_sent (cx a') \<Longrightarrow> app_recv_queue (sk a') = [] \<and> closed a'"
  shows "flows a' b"
proof -
  from assms(1) obtain bs where
    c: "chain (network_state (sk a)) (fin_received (cx b)) (ack_num (cx b)) (inflight a b)
          (fin_sent (cx a)) (sequence_num (cx a)) bs"
    and w: "wrote a = got b @ concat (app_send_queue (sk b)) @ bs @ concat (app_recv_queue (sk a))"
    and n: "\<not> fin_received (cx b) \<longrightarrow> next_seq_expected (cx b) = ack_num (cx b)"
    unfolding flows_def by blast
  have i: "inflight a' b = inflight a b @ [p]" using assms(6) by (simp add: inflight_def)
  show ?thesis
    unfolding flows_def
    using chain_snoc [OF c assms(2,3)] w n assms(4-) i by (auto intro!: exI [of _ "bs @ data"])
qed

text \<open>The first packet in the queue of the receiver.\<close>

lemma flows_head:
  assumes "flows a b" and "network_recv_queue (sk b) = p # q"
  obtains data fin where "is_seg (network_state (sk a)) (ack_num (cx b)) data fin p"
    "fin_received (cx b) \<Longrightarrow> data = [] \<and> \<not> fin"
    "\<not> fin_received (cx b) \<Longrightarrow> next_seq_expected (cx b) = ack_num (cx b)"
  using assms unfolding flows_def inflight_def by auto

lemma flows_receive:
  assumes "flows a b" and "network_recv_queue (sk b) = p # network_recv_queue (sk b')"
    and "is_seg (network_state (sk a)) (ack_num (cx b)) data fin p"
    and "fin_received (cx b') = (fin_received (cx b) \<or> fin)"
    and "ack_num (cx b') = ack_num (cx b) + of_nat (length data) + (if fin then 1 else 0)"
    and "concat (app_send_queue (sk b')) = concat (app_send_queue (sk b)) @ data"
    and "\<not> fin_received (cx b') \<Longrightarrow> next_seq_expected (cx b') = ack_num (cx b')"
    and "got b' = got b"
  shows "flows a b'"
proof -
  from assms(1) obtain bs where
    c: "chain (network_state (sk a)) (fin_received (cx b)) (ack_num (cx b)) (p # inflight a b')
          (fin_sent (cx a)) (sequence_num (cx a)) bs"
    and w: "wrote a = got b @ concat (app_send_queue (sk b)) @ bs @ concat (app_recv_queue (sk a))"
    and f: "fin_sent (cx a) \<longrightarrow> app_recv_queue (sk a) = [] \<and> closed a"
    unfolding flows_def inflight_def using assms(2) by auto
  from c obtain data' fin' rest where s: "is_seg (network_state (sk a)) (ack_num (cx b)) data' fin' p"
    and bs: "bs = data' @ rest"
    and ch: "chain (network_state (sk a)) (fin_received (cx b) \<or> fin') (ack_num (cx b) + of_nat (length data') + (if fin' then 1 else 0))
          (inflight a b') (fin_sent (cx a)) (sequence_num (cx a)) rest"
    by auto
  obtain c flags where p: "p = segment (network_state (sk a)) c data flags" "flags AND TH_FIN \<noteq> 0 \<longleftrightarrow> fin"
    using assms(3) by (rule is_segE)
  have "data' = data" "fin' = fin" using is_seg_segment [OF s [unfolded p(1)]] p(2) by auto
  with ch bs w f assms(4-) show ?thesis
    unfolding flows_def by (auto intro!: exI [of _ rest])
qed

text \<open>What does not matter to a direction.\<close>

lemma flows_cong:
  assumes "flows a b" and "inflight a' b' = inflight a b"
    and "network_state (sk a') = network_state (sk a)" and "fin_sent (cx a') = fin_sent (cx a)"
    and "sequence_num (cx a') = sequence_num (cx a)" and "app_recv_queue (sk a') = app_recv_queue (sk a)"
    and "wrote a' = wrote a" and "closed a \<Longrightarrow> closed a'"
    and "fin_received (cx b') = fin_received (cx b)" and "ack_num (cx b') = ack_num (cx b)"
    and "next_seq_expected (cx b') = next_seq_expected (cx b)"
    and "got b' @ concat (app_send_queue (sk b')) = got b @ concat (app_send_queue (sk b))"
  shows "flows a' b'"
  using assms unfolding flows_def append_assoc [symmetric] by auto

section \<open>Substeps of the control loop\<close>

text \<open>The thread of \<open>e\<close>, whose peer is \<open>p\<close>, becomes \<open>t\<close>.\<close>

definition good :: "nat \<Rightarrow> endpoint \<Rightarrow> endpoint \<Rightarrow> stcp_thread \<Rightarrow> bool" where
  "good m e p t \<longleftrightarrow> running m (e\<lparr>thr := t\<rparr>) \<and> flows (e\<lparr>thr := t\<rparr>) p \<and> flows p (e\<lparr>thr := t\<rparr>)
     \<and> network_state (msock t) = network_state (sk e) \<and> (\<exists>more. net_sent (msock t) = net_sent (sk e) @ more)"

lemma good_trans: "good m e p t \<Longrightarrow> good m (e\<lparr>thr := t\<rparr>) p t' \<Longrightarrow> good m e p t'"
  unfolding good_def by auto

lemma good_refl: "running m e \<Longrightarrow> flows e p \<Longrightarrow> flows p e \<Longrightarrow> good m e p (thr e)"
  unfolding good_def by simp

lemma goodD: "good m e p t \<Longrightarrow> running m (e\<lparr>thr := t\<rparr>)" "good m e p t \<Longrightarrow> flows (e\<lparr>thr := t\<rparr>) p"
    "good m e p t \<Longrightarrow> flows p (e\<lparr>thr := t\<rparr>)"
  by (simp_all add: good_def)

lemma tear_ok_frame [simp]:
  "tear_ok (c\<lparr>sequence_num := n\<rparr>) = tear_ok c" "tear_ok (c\<lparr>ack_num := n\<rparr>) = tear_ok c"
  "tear_ok (c\<lparr>next_seq_expected := n\<rparr>) = tear_ok c" "tear_ok (c\<lparr>peer_window_size := w\<rparr>) = tear_ok c"
  by (simp_all add: tear_ok_def)

lemma windows_ok_frame [simp]:
  "windows_ok (c\<lparr>sequence_num := n\<rparr>) = windows_ok c" "windows_ok (c\<lparr>ack_num := n\<rparr>) = windows_ok c"
  "windows_ok (c\<lparr>next_seq_expected := n\<rparr>) = windows_ok c" "windows_ok (c\<lparr>fin_sent := f\<rparr>) = windows_ok c"
  "windows_ok (c\<lparr>fin_received := f\<rparr>) = windows_ok c" "windows_ok (c\<lparr>connection_state := st\<rparr>) = windows_ok c"
  "windows_ok (handle_ack c n) = windows_ok c" "windows_ok (fin_state c) = windows_ok c"
  "windows_ok (close_state c) = windows_ok c"
  by (simp_all add: windows_ok_def)

lemma windows_ok_peer [simp]: "windows_ok c \<Longrightarrow> c\<lparr>peer_window_size := 3072\<rparr> = c"
  by (simp add: windows_ok_def)

lemma running_window: "running m e \<Longrightarrow> recv_window_size (cx e) - recv_buffer_used (cx e) = 3072"
  by (simp add: running_def windows_ok_def)

lemma max_to_send_mss: "windows_ok c \<Longrightarrow> max_to_send c = 536"
  by (simp add: windows_ok_def max_to_send_def)

lemma good_push:
  assumes "running m e" and "flows e p" and "flows p e"
    and "queue_get (app_recv_queue (sk e)) 536 = Some (bs, q)"
  shows "good m e p (push bs ((thr e)\<lparr>msock := (sk e)\<lparr>app_recv_queue := q\<rparr>\<rparr>))"
    (is "good m e p ?t")
proof -
  have c: "concat (app_recv_queue (sk e)) = bs @ concat q" using mq.content_get [OF assms(4)] .
  have l: "length bs \<le> 536" using mq.get_length [OF assms(4)] .
  have ne: "app_recv_queue (sk e) \<noteq> []" using assms(4) by (auto simp: queue_get_def mysock_dequeue_buffer_def)
  have nf: "\<not> fin_sent (cx e)" using assms(2) ne by (auto simp: flows_def)
  have sub: "\<forall>d \<in> set q. length d \<le> m"
    using assms(1,4) ne
    by (cases "app_recv_queue (sk e)") (auto simp: running_def queue_get_Some split: if_splits)
  have r: "running m (e\<lparr>thr := ?t\<rparr>)"
    using assms(1) sub by (simp add: running_def push_def app_queue_ok_def)
  have fp: "flows p (e\<lparr>thr := ?t\<rparr>)"
    by (rule flows_cong [OF assms(3)]) (simp_all add: push_def inflight_def)
  have "flows (e\<lparr>thr := ?t\<rparr>) p"
  proof (cases "bs = []")
    case True
    with assms(2) c nf show ?thesis by (simp add: push_def flows_def inflight_def)
  next
    case False
    have s: "is_seg (network_state (sk e)) (sequence_num (cx e)) bs False (segment (network_state (sk e)) (cx e) bs TH_ACK)"
      by (rule is_seg_intro) (use l running_window [OF assms(1)] in simp_all)
    show ?thesis
      by (rule flows_send [OF assms(2) s]) (use nf False c in \<open>simp_all add: push_def\<close>)
  qed
  with r fp show ?thesis by (simp add: good_def push_def)
qed

lemma good_ack_out:
  assumes "good m e p t"
  shows "good m e p (ack_out t)"
proof (rule good_trans [OF assms])
  let ?e = "e\<lparr>thr := t\<rparr>"
  have r: "running m ?e" and f: "flows ?e p" and g: "flows p ?e" using assms by (simp_all add: good_def)
  have s: "is_seg (network_state (sk ?e)) (sequence_num (cx ?e)) [] False (segment (network_state (sk ?e)) (cx ?e) [] TH_ACK)"
    by (rule is_seg_intro) (use running_window [OF r] in simp_all)
  have "flows (?e\<lparr>thr := ack_out t\<rparr>) p"
    by (rule flows_send [OF f s]) (use f in \<open>auto simp: ack_out_def flows_def\<close>)
  moreover have "flows p (?e\<lparr>thr := ack_out t\<rparr>)"
    by (rule flows_cong [OF g]) (simp_all add: ack_out_def inflight_def)
  moreover have "running m (?e\<lparr>thr := ack_out t\<rparr>)"
    using r by (simp add: running_def ack_out_def app_queue_ok_def)
  ultimately show "good m ?e p (ack_out t)" by (simp add: good_def ack_out_def)
qed

text \<open>The tear-down flags under FIN, ACK and close.\<close>

lemma tear_ok_done: "tear_ok c \<Longrightarrow> conn_done c \<Longrightarrow> fin_sent c \<and> fin_acked c \<and> fin_received c"
  unfolding tear_ok_def by auto

lemma tear_ok_handle_ack: "tear_ok c \<Longrightarrow> tear_ok (handle_ack c a)"
  by (cases "connection_state c") (auto simp add: tear_ok_def handle_ack_def)

lemma conn_done_handle_ack: "conn_done c \<Longrightarrow> conn_done (handle_ack c a)"
  by (simp add: handle_ack_def)

lemma tear_ok_fin:
  "tear_ok c \<Longrightarrow> \<not> fin_received c \<Longrightarrow> tear_ok (fin_state (c\<lparr>fin_received := True, ack_num := n\<rparr>))"
  by (cases "connection_state c") (auto simp add: tear_ok_def fin_state_def)

lemma tear_ok_close:
  "tear_ok c \<Longrightarrow> \<not> fin_sent c \<Longrightarrow> tear_ok (close_state (c\<lparr>fin_sent := True, sequence_num := n\<rparr>))"
  by (cases "connection_state c") (auto simp add: tear_ok_def close_state_def)

lemma good_heard_ack:
  assumes "good m e p t"
  shows "good m e p (heard_ack t flags a)"
proof (rule good_trans [OF assms])
  let ?e = "e\<lparr>thr := t\<rparr>"
  have r: "running m ?e" and f: "flows ?e p" and g: "flows p ?e" using assms by (simp_all add: good_def)
  have "flows (?e\<lparr>thr := heard_ack t flags a\<rparr>) p"
    by (rule flows_cong [OF f]) (simp_all add: heard_ack_def inflight_def)
  moreover have "flows p (?e\<lparr>thr := heard_ack t flags a\<rparr>)"
    by (rule flows_cong [OF g]) (simp_all add: heard_ack_def inflight_def)
  moreover have "running m (?e\<lparr>thr := heard_ack t flags a\<rparr>)"
    using r by (auto simp: running_def heard_ack_def app_queue_ok_def tear_ok_handle_ack conn_done_handle_ack)
  ultimately show "good m ?e p (heard_ack t flags a)" by (simp add: good_def heard_ack_def)
qed

text \<open>A packet arrives: the state before an acknowledgement is sent.\<close>

lemma segment_cong:
  assumes "sequence_num c' = sequence_num c" and "ack_num c' = ack_num c"
    and "recv_window_size c' - recv_buffer_used c' = recv_window_size c - recv_buffer_used c"
  shows "segment net c' d fl = segment net c d fl"
  using assms by (simp add: segment_def header_bytes_def)

lemma good_fin:
  assumes "running m e" and "flows e p" and "flows p e" and "network_recv_queue (sk e) = pk # q"
    and "is_seg (network_state (sk p)) (ack_num (cx e)) [] True pk" and "\<not> fin_received (cx e)"
  shows "good m e p (after_fin ((thr e)\<lparr>msock := (sk e)\<lparr>network_recv_queue := q\<rparr>\<rparr>) (ack_num (cx e)))"
proof -
  let ?t = "(thr e)\<lparr>msock := stcp_fin_received ((sk e)\<lparr>network_recv_queue := q\<rparr>),
               tctx := fin_state ((cx e)\<lparr>fin_received := True, ack_num := ack_num (cx e) + 1\<rparr>)\<rparr>"
  have eq: "after_fin ((thr e)\<lparr>msock := (sk e)\<lparr>network_recv_queue := q\<rparr>\<rparr>) (ack_num (cx e)) = ack_out ?t"
    by (simp add: after_fin_def ack_out_def Let_def sent_def stcp_fin_received_def)
      (rule stcp_thread.equality, simp_all, rule mysock_context.equality, simp_all, rule segment_cong, simp_all)
  have "flows (e\<lparr>thr := ?t\<rparr>) p"
    by (rule flows_cong [OF assms(2)]) (simp_all add: inflight_def)
  moreover have "flows p (e\<lparr>thr := ?t\<rparr>)"
    by (rule flows_receive [OF assms(3) _ assms(5)]) (use assms(4,6) in simp_all)
  moreover have "running m (e\<lparr>thr := ?t\<rparr>)"
  proof -
    from assms(1) obtain ds k where "app_send_queue (sk e) = ds @ replicate k []" "[] \<notin> set ds"
      "\<forall>d \<in> set ds. length d \<le> 536" "eof (sk e) \<longrightarrow> ds = [] \<and> fin_received (cx e)"
      unfolding running_def app_queue_ok_def by blast
    then have "app_queue_ok (e\<lparr>thr := ?t\<rparr>)"
      unfolding app_queue_ok_def
      by (intro exI [of _ ds] exI [of _ "Suc k"]) (simp add: replicate_append_same)
    moreover have "tear_ok (cx e)" using assms(1) by (simp add: running_def)
    then have "tear_ok (tctx ?t)" using tear_ok_fin assms(6) by simp
    moreover have "\<not> conn_done (cx e)" using assms(1,6) by (auto simp: running_def tear_ok_def)
    ultimately show ?thesis using assms(1) by (simp add: running_def)
  qed
  ultimately have "good m e p ?t" by (simp add: good_def)
  then show ?thesis unfolding eq by (rule good_ack_out)
qed

lemma good_data:
  assumes "running m e" and "flows e p" and "flows p e" and "network_recv_queue (sk e) = pk # q"
    and "is_seg (network_state (sk p)) (ack_num (cx e)) data False pk" and "data \<noteq> []"
    and "\<not> fin_received (cx e)"
  shows "good m e p ((thr e)\<lparr>msock := stcp_app_send ((sk e)\<lparr>network_recv_queue := q\<rparr>) data,
           tctx := (cx e)\<lparr>next_seq_expected := ack_num (cx e) + of_nat (length data),
                          ack_num := ack_num (cx e) + of_nat (length data)\<rparr>\<rparr>)" (is "good m e p ?t")
proof -
  have l: "length data \<le> 536" using assms(5) by (simp add: is_seg_def)
  have "flows (e\<lparr>thr := ?t\<rparr>) p"
    by (rule flows_cong [OF assms(2)]) (simp_all add: inflight_def)
  moreover have "flows p (e\<lparr>thr := ?t\<rparr>)"
    by (rule flows_receive [OF assms(3) _ assms(5)]) (use assms(4,7) in simp_all)
  moreover have "running m (e\<lparr>thr := ?t\<rparr>)"
  proof -
    from assms(1,7) obtain ds where "app_send_queue (sk e) = ds" "[] \<notin> set ds"
      "\<forall>d \<in> set ds. length d \<le> 536" "\<not> eof (sk e)"
      unfolding running_def app_queue_ok_def by fastforce
    then have "app_queue_ok (e\<lparr>thr := ?t\<rparr>)"
      using assms(6) l unfolding app_queue_ok_def
      by (intro exI [of _ "ds @ [data]"] exI [of _ 0]) (simp add: app_send_queue_app_send)
    then show ?thesis using assms(1) by (simp add: running_def)
  qed
  ultimately show ?thesis by (simp add: good_def)
qed

lemma good_pure:
  assumes "running m e" and "flows e p" and "flows p e" and "network_recv_queue (sk e) = pk # q"
    and "is_seg (network_state (sk p)) (ack_num (cx e)) [] False pk"
    and "\<not> fin_received (cx e) \<Longrightarrow> next_seq_expected (cx e) = ack_num (cx e)"
  shows "good m e p ((thr e)\<lparr>msock := (sk e)\<lparr>network_recv_queue := q\<rparr>\<rparr>)" (is "good m e p ?t")
proof -
  have "flows (e\<lparr>thr := ?t\<rparr>) p"
    by (rule flows_cong [OF assms(2)]) (simp_all add: inflight_def)
  moreover have "flows p (e\<lparr>thr := ?t\<rparr>)"
    by (rule flows_receive [OF assms(3) _ assms(5)]) (use assms(4,6) in simp_all)
  moreover have "running m (e\<lparr>thr := ?t\<rparr>)" using assms(1) by (simp add: running_def app_queue_ok_def)
  ultimately show ?thesis by (simp add: good_def)
qed

lemma heard_eq: "windows_ok (tctx t) \<Longrightarrow> heard t 3072 flags a = heard_ack t flags a"
  by (simp add: heard_def heard_ack_def Let_def)

lemma handle_ack_commute:
  "(handle_ack c a)\<lparr>next_seq_expected := n, ack_num := k\<rparr> = handle_ack (c\<lparr>next_seq_expected := n, ack_num := k\<rparr>) a"
  by (simp add: handle_ack_def)

lemma after_data_heard:
  "after_data (heard_ack t flags a) data
   = ack_out (heard_ack (t\<lparr>msock := stcp_app_send (msock t) data,
       tctx := (tctx t)\<lparr>next_seq_expected := ack_num (tctx t) + of_nat (length data),
                       ack_num := ack_num (tctx t) + of_nat (length data)\<rparr>\<rparr>) flags a)"
  by (simp add: after_data_def heard_ack_def handle_ack_commute)

lemma heard_ack_msock [simp]: "msock (heard_ack t flags a) = msock t"
  by (simp add: heard_ack_def)

lemma net_wf_peers: "peers a b \<Longrightarrow> net_wf a" "peers a b \<Longrightarrow> net_wf b"
  by (simp_all add: peers_def)

lemma packet_cost_segment:
  "packet_cost (segment net c data flags) = (if data = [] \<and> flags AND TH_FIN = 0 then 1 else 4)"
  by (simp add: packet_cost_def segment_fields)

text \<open>What a packet does to the end that gets it, besides.\<close>

definition took :: "network_context \<Rightarrow> endpoint \<Rightarrow> stcp_thread \<Rightarrow> bool" where
  "took net e t \<longleftrightarrow> (\<exists>c data flags ps.
     network_recv_queue (sk e) = segment net c data flags # network_recv_queue (msock t)
     \<and> app_recv_queue (msock t) = app_recv_queue (sk e) \<and> close_requested (msock t) = close_requested (sk e)
     \<and> pc t = pc (thr e) \<and> fin_sent (tctx t) = fin_sent (cx e) \<and> sequence_num (tctx t) = sequence_num (cx e)
     \<and> (fin_acked (cx e) \<longrightarrow> fin_acked (tctx t))
     \<and> (flags AND TH_ACK \<noteq> 0 \<and> ack_num c = sequence_num (cx e) \<and> fin_sent (cx e) \<longrightarrow> fin_acked (tctx t))
     \<and> net_sent (msock t) = net_sent (sk e) @ ps
     \<and> (if data = [] \<and> flags AND TH_FIN = 0 then ps = [] \<and> fin_received (tctx t) = fin_received (cx e)
        else \<exists>c'. ps = [segment (network_state (sk e)) c' [] TH_ACK] \<and> ack_num c' = ack_num (tctx t)))"

lemma fin_acked_handle_ack:
  "fin_acked c \<Longrightarrow> fin_acked (handle_ack c a)"
  "tear_ok c \<Longrightarrow> fin_sent c \<Longrightarrow> a = sequence_num c \<Longrightarrow> fin_acked (handle_ack c a)"
  by (cases "connection_state c"; simp add: tear_ok_def handle_ack_def)+

lemma took_pure:
  assumes "network_recv_queue (sk e) = segment net c [] flags # q" and "flags AND TH_FIN = 0" and "tear_ok (cx e)"
  shows "took net e (heard_ack ((thr e)\<lparr>msock := (sk e)\<lparr>network_recv_queue := q\<rparr>\<rparr>) flags (ack_num c))"
  unfolding took_def
  by (rule exI [of _ c], rule exI [of _ "[]"], rule exI [of _ flags], rule exI [of _ "[]"])
    (use assms fin_acked_handle_ack in \<open>auto simp: heard_ack_def\<close>)

lemma took_data:
  assumes "network_recv_queue (sk e) = segment net c data flags # q" and "data \<noteq> []" and "tear_ok (cx e)"
  shows "took net e (after_data (heard_ack ((thr e)\<lparr>msock := (sk e)\<lparr>network_recv_queue := q\<rparr>\<rparr>) flags (ack_num c)) data)"
    (is "took net e ?t")
proof -
  have "\<exists>c'. net_sent (msock ?t) = net_sent (sk e) @ [segment (network_state (sk e)) c' [] TH_ACK] \<and> ack_num c' = ack_num (tctx ?t)"
    by (intro exI [of _ "tctx ?t"]) (simp add: after_data_def ack_out_def)
  then obtain c' where "net_sent (msock ?t) = net_sent (sk e) @ [segment (network_state (sk e)) c' [] TH_ACK]"
    "ack_num c' = ack_num (tctx ?t)" by blast
  with assms show ?thesis
    unfolding took_def
    by (intro exI [of _ c] exI [of _ data] exI [of _ flags] exI [of _ "[segment (network_state (sk e)) c' [] TH_ACK]"])
      (auto simp: after_data_def ack_out_def heard_ack_def fin_acked_handle_ack)
qed

lemma took_fin:
  assumes "network_recv_queue (sk e) = segment net c [] flags # q" and "flags AND TH_FIN \<noteq> 0" and "tear_ok (cx e)"
    and "\<not> fin_received (cx e)"
  shows "took net e (heard_ack (after_fin ((thr e)\<lparr>msock := (sk e)\<lparr>network_recv_queue := q\<rparr>\<rparr>) s) flags (ack_num c))"
    (is "took net e ?t")
proof -
  let ?c = "fin_state ((cx e)\<lparr>fin_received := True, ack_num := s + 1\<rparr>)"
  have tk: "tear_ok ?c" using tear_ok_fin [OF assms(3,4)] .
  have "\<exists>c'. net_sent (msock ?t) = net_sent (sk e) @ [segment (network_state (sk e)) c' [] TH_ACK] \<and> ack_num c' = ack_num (tctx ?t)"
    by (intro exI [of _ "(cx e)\<lparr>fin_received := True, ack_num := s + 1\<rparr>"])
      (simp add: after_fin_def ack_out_def heard_ack_def Let_def)
  then obtain c' where "net_sent (msock ?t) = net_sent (sk e) @ [segment (network_state (sk e)) c' [] TH_ACK]"
    "ack_num c' = ack_num (tctx ?t)" by blast
  with assms show ?thesis
    unfolding took_def
    by (intro exI [of _ c] exI [of _ "[]"] exI [of _ flags] exI [of _ "[segment (network_state (sk e)) c' [] TH_ACK]"])
      (use fin_acked_handle_ack [of ?c "ack_num c"] tk in \<open>auto simp: after_fin_def ack_out_def heard_ack_def Let_def\<close>)
qed

lemma good_network:
  assumes "running m e" and "flows e p" and "flows p e"
    and "peers (network_state (sk p)) (network_state (sk e))" and "network_recv_queue (sk e) \<noteq> []"
  obtains t where "handle_network_data (thr e) = Inr (Some (True, t))" and "good m e p t"
    and "took (network_state (sk p)) e t"
proof -
  obtain pk q where q: "network_recv_queue (sk e) = pk # q" using assms(5) by (cases "network_recv_queue (sk e)") auto
  obtain data fin where s: "is_seg (network_state (sk p)) (ack_num (cx e)) data fin pk"
    and af: "fin_received (cx e) \<Longrightarrow> data = [] \<and> \<not> fin"
    and nx: "\<not> fin_received (cx e) \<Longrightarrow> next_seq_expected (cx e) = ack_num (cx e)"
    using flows_head [OF assms(3) q] by blast
  obtain c flags where pk: "pk = segment (network_state (sk p)) c data flags" "sequence_num c = ack_num (cx e)"
    "recv_window_size c - recv_buffer_used c = 3072" "flags AND TH_FIN \<noteq> 0 \<longleftrightarrow> fin"
    "length data \<le> 536" "fin \<longrightarrow> data = []"
    using s by (rule is_segE)
  let ?t = "(thr e)\<lparr>msock := (sk e)\<lparr>network_recv_queue := q\<rparr>\<rparr>"
  have w: "windows_ok (cx e)" and tk: "tear_ok (cx e)" using assms(1) by (simp_all add: running_def)
  have wf: "net_wf (network_state (sk e))" using assms(4) by (rule net_wf_peers)
  have h: "handle_network_data (thr e)
      = bindR (handle_segment ?t pk) (\<lambda>t. Inr (Some (True, t)))"
    using handle_network_segment [of "network_state (sk p)" "thr e" c data flags q] assms(4) q pk by simp
  show thesis
  proof (cases fin)
    case True
    then have d: "data = []" and nr: "\<not> fin_received (cx e)" using pk(6) af by auto
    let ?u = "heard_ack (after_fin ?t (ack_num (cx e))) flags (ack_num c)"
    have "handle_segment ?t pk = Inr ?u"
      using handle_segment_fin [of flags ?t "network_state (sk p)" c] pk True wf d w by simp
    moreover have "good m e p ?u"
      using good_heard_ack good_fin [OF assms(1-3) q _ nr] s True d by simp
    moreover have "took (network_state (sk p)) e ?u"
      using took_fin [OF q [unfolded pk(1) d]] True pk(4) tk nr by simp
    ultimately show ?thesis using that [of ?u] h by simp
  next
    case False
    then have plain: "handle_segment ?t pk = handle_data (heard_ack ?t flags (ack_num c)) pk (ack_num (cx e))"
      using handle_segment_plain [of flags ?t "network_state (sk p)" c data] pk heard_eq [of ?t flags "ack_num c"] w
      by simp
    show ?thesis
    proof (cases "data = []")
      case True
      let ?u = "heard_ack ?t flags (ack_num c)"
      have "handle_segment ?t pk = Inr ?u" using plain True pk(1) by (simp add: handle_data_empty)
      moreover have "good m e p ?u"
        using good_heard_ack good_pure [OF assms(1-3) q _ nx] s True False by simp
      moreover have "took (network_state (sk p)) e ?u"
        using took_pure [OF q [unfolded pk(1) True]] False pk(4) tk by simp
      ultimately show ?thesis using that [of ?u] h by simp
    next
      case nonempty: False
      then have nr: "\<not> fin_received (cx e)" using af by blast
      let ?h = "heard_ack ?t flags (ack_num c)"
      have fields: "ack_num (tctx ?h) = ack_num (cx e)" "next_seq_expected (tctx ?h) = ack_num (cx e)"
        using nx nr by (simp_all add: heard_ack_def)
      have "handle_segment ?t pk = Inr (after_data ?h data)"
        unfolding plain unfolding pk(1) by (rule handle_data_in_order) (use wf nonempty pk(5) fields in simp_all)
      moreover have "good m e p (after_data ?h data)"
        unfolding after_data_heard
        using good_ack_out good_heard_ack good_data [OF assms(1-3) q _ nonempty nr] s False by simp
      moreover have "took (network_state (sk p)) e (after_data ?h data)"
        using took_data [OF q [unfolded pk(1)]] tk nonempty by simp
      ultimately show ?thesis using that [of "after_data ?h data"] h by simp
    qed
  qed
qed

lemma good_close:
  assumes "running m e" and "flows e p" and "flows p e" and "closed e" and "app_recv_queue (sk e) = []"
  shows "good m e p (after_close (thr e))"
proof (cases "fin_sent (cx e)")
  case True
  then show ?thesis using good_refl [OF assms(1-3)] by (simp add: after_close_def)
next
  case False
  let ?t = "after_close (thr e)"
  let ?c = "(cx e)\<lparr>fin_sent := True\<rparr>"
  have s: "is_seg (network_state (sk e)) (sequence_num ?c) [] True (segment (network_state (sk e)) ?c [] (TH_FIN OR TH_ACK))"
    by (rule is_seg_intro) (use running_window [OF assms(1)] in simp_all)
  have "flows (e\<lparr>thr := ?t\<rparr>) p"
    by (rule flows_send [OF assms(2), of "[]" True]) (use s False assms(4,5) in \<open>simp_all add: after_close_def\<close>)
  moreover have "flows p (e\<lparr>thr := ?t\<rparr>)"
    by (rule flows_cong [OF assms(3)]) (simp_all add: after_close_def False inflight_def)
  moreover have "running m (e\<lparr>thr := ?t\<rparr>)"
    using assms(1,5) False tear_ok_close [of "cx e"]
    by (simp add: running_def after_close_def app_queue_ok_def)
  ultimately show ?thesis by (simp add: good_def after_close_def False)
qed

text \<open>The events reported to the control loop.\<close>

lemma wait_any:
  "stcp_wait_for_event ms ANY_EVENT =
     (if app_recv_queue ms \<noteq> [] \<or> network_recv_queue ms \<noteq> [] \<or> close_requested ms
      then Some ((if app_recv_queue ms \<noteq> [] then APP_DATA else 0) OR (if network_recv_queue ms \<noteq> [] then NETWORK_DATA else 0)
                  OR (if close_requested ms \<and> app_recv_queue ms = [] then APP_CLOSE_REQUESTED else 0),
                 ms\<lparr>close_requested := close_requested ms \<and> app_recv_queue ms \<noteq> []\<rparr>)
      else None)"
  by (cases "close_requested ms") (simp_all add: stcp_wait_for_event_def)

lemma wait_good:
  assumes "running m e" and "flows e p" and "flows p e"
    and "stcp_wait_for_event (sk e) ANY_EVENT = Some (ev, ms)"
  shows "good m e p ((thr e)\<lparr>msock := ms\<rparr>)"
proof -
  have ms: "ms = (sk e)\<lparr>close_requested := close_requested (sk e) \<and> app_recv_queue (sk e) \<noteq> []\<rparr>"
    using assms(4) by (auto simp: wait_any split: if_splits)
  have "running m (e\<lparr>thr := (thr e)\<lparr>msock := ms\<rparr>\<rparr>)"
    using assms(1) by (simp add: running_def ms app_queue_ok_def)
  moreover have "flows (e\<lparr>thr := (thr e)\<lparr>msock := ms\<rparr>\<rparr>) p"
    by (rule flows_cong [OF assms(2)]) (simp_all add: ms inflight_def)
  moreover have "flows p (e\<lparr>thr := (thr e)\<lparr>msock := ms\<rparr>\<rparr>)"
    by (rule flows_cong [OF assms(3)]) (simp_all add: ms inflight_def)
  ultimately show ?thesis by (simp add: good_def ms)
qed

section \<open>One iteration of the control loop\<close>

text \<open>
  A part of an iteration keeps the invariant, does not add to the work, and leaves the pending
  acknowledgements in place.
\<close>

definition part :: "nat \<Rightarrow> endpoint \<Rightarrow> endpoint \<Rightarrow> stcp_thread \<Rightarrow> bool" where
  "part m e p t \<longleftrightarrow> good m e p t \<and> cost t \<le> cost (thr e)
     \<and> (acks e p \<longrightarrow> acks (e\<lparr>thr := t\<rparr>) p) \<and> (acks p e \<longrightarrow> acks p (e\<lparr>thr := t\<rparr>))
     \<and> (fin_sent (cx e) \<longrightarrow> fin_sent (tctx t))"

lemma part_trans: "part m e p t \<Longrightarrow> part m (e\<lparr>thr := t\<rparr>) p t' \<Longrightarrow> part m e p t'"
  using good_trans [of m e p t t'] by (auto simp: part_def)

lemma part_refl: "running m e \<Longrightarrow> flows e p \<Longrightarrow> flows p e \<Longrightarrow> part m e p (thr e)"
  by (simp add: part_def good_refl)

lemma partD: "part m e p t \<Longrightarrow> running m (e\<lparr>thr := t\<rparr>)" "part m e p t \<Longrightarrow> flows (e\<lparr>thr := t\<rparr>) p"
    "part m e p t \<Longrightarrow> flows p (e\<lparr>thr := t\<rparr>)" "part m e p t \<Longrightarrow> network_state (msock t) = network_state (sk e)"
  by (simp_all add: part_def good_def)

lemma acks_peer_more:
  assumes "acks p e" and "network_state (sk e') = network_state (sk e)" and "net_sent (sk e') = net_sent (sk e) @ extra"
    and "fin_received (cx e') = fin_received (cx e)"
  shows "acks p e'"
  using assms unfolding acks_def inflight_def by auto

lemma fin_received_sent: "flows a b \<Longrightarrow> fin_received (cx b) \<Longrightarrow> fin_sent (cx a)"
  unfolding flows_def using chain_fin by blast

lemma part_wait:
  assumes "running m e" and "flows e p" and "flows p e"
    and "stcp_wait_for_event (sk e) ANY_EVENT = Some (ev, ms)"
  shows "part m e p ((thr e)\<lparr>msock := ms\<rparr>)"
    and "close_requested (sk e) \<and> app_recv_queue (sk e) = [] \<Longrightarrow> cost ((thr e)\<lparr>msock := ms\<rparr>) + 8 = cost (thr e)"
proof -
  have ms: "ms = (sk e)\<lparr>close_requested := close_requested (sk e) \<and> app_recv_queue (sk e) \<noteq> []\<rparr>"
    using assms(4) by (auto simp: wait_any split: if_splits)
  show "part m e p ((thr e)\<lparr>msock := ms\<rparr>)"
    using wait_good [OF assms] by (auto simp: part_def ms cost_def acks_def inflight_def)
  show "cost ((thr e)\<lparr>msock := ms\<rparr>) + 8 = cost (thr e)" if "close_requested (sk e) \<and> app_recv_queue (sk e) = []"
    using that by (simp add: ms cost_def)
qed

lemma cost_push:
  assumes "queue_get (app_recv_queue (msock t)) 536 = Some (bs, q)"
  shows "cost (push bs (t\<lparr>msock := (msock t)\<lparr>app_recv_queue := q\<rparr>\<rparr>)) < cost t"
proof -
  obtain d r where d: "app_recv_queue (msock t) = d # r"
    using assms by (cases "app_recv_queue (msock t)") (auto simp: queue_get_def mysock_dequeue_buffer_def)
  show ?thesis
    using assms unfolding d
    by (auto simp: queue_get_Some cost_def push_def d packet_cost_segment split: if_splits)
qed

lemma part_app_data:
  assumes "running m e" and "flows e p" and "flows p e" and "net_wf (network_state (sk e))"
    and "app_recv_queue (sk e) \<noteq> []"
  obtains t where "handle_app_data (thr e) = Inr (Some t)" and "part m e p t" and "cost t < cost (thr e)"
    and "network_recv_queue (msock t) = network_recv_queue (sk e)" and "close_requested (msock t) = close_requested (sk e)"
  | d where "handle_app_data (thr e) = Inl OverlappingCopy" and "d \<in> set (app_recv_queue (sk e))" and "1072 < length d"
proof -
  have mx: "max_to_send (cx e) = 536" using assms(1) by (simp add: running_def max_to_send_mss)
  note h = handle_app_data_push [OF assms(4) mx assms(5)]
  show thesis
  proof (cases "queue_get (app_recv_queue (sk e)) 536")
    case None
    with assms(5) have "1072 < length (hd (app_recv_queue (sk e)))"
      by (cases "app_recv_queue (sk e)") (auto simp: queue_get_Some split: if_splits)
    then show ?thesis using that(2) [of "hd (app_recv_queue (sk e))"] h None assms(5) by simp
  next
    case (Some r)
    then obtain bs q where r: "queue_get (app_recv_queue (sk e)) 536 = Some (bs, q)" by (cases r) auto
    let ?t = "push bs ((thr e)\<lparr>msock := (sk e)\<lparr>app_recv_queue := q\<rparr>\<rparr>)"
    have g: "good m e p ?t" by (rule good_push [OF assms(1-3) r])
    have c: "cost ?t < cost (thr e)" by (rule cost_push [OF r])
    have nf: "\<not> fin_sent (cx e)" using assms(2,5) by (auto simp: flows_def)
    have "acks p (e\<lparr>thr := ?t\<rparr>)" if "acks p e"
      by (rule acks_peer_more [OF that, of _ "if bs = [] then [] else [segment (network_state (sk e)) (cx e) bs TH_ACK]"])
        (simp_all add: push_def)
    moreover have "acks (e\<lparr>thr := ?t\<rparr>) p" using nf by (simp add: acks_def push_def)
    ultimately have "part m e p ?t" using g c nf by (simp add: part_def)
    then show ?thesis using that(1) [of ?t] h r c by (simp add: push_def)
  qed
qed

lemma took_acks:
  assumes "took (network_state (sk p)) e t" and "acks e p"
  shows "acks (e\<lparr>thr := t\<rparr>) p"
proof (unfold acks_def, intro impI)
  let ?e = "e\<lparr>thr := t\<rparr>"
  assume f: "fin_sent (cx ?e) \<and> fin_received (cx p) \<and> \<not> fin_acked (cx ?e)"
  from assms(1) obtain c data flags where
    q: "network_recv_queue (sk e) = segment (network_state (sk p)) c data flags # network_recv_queue (msock t)"
    and s: "fin_sent (tctx t) = fin_sent (cx e)" "sequence_num (tctx t) = sequence_num (cx e)"
      "fin_acked (cx e) \<longrightarrow> fin_acked (tctx t)"
      "flags AND TH_ACK \<noteq> 0 \<and> ack_num c = sequence_num (cx e) \<and> fin_sent (cx e) \<longrightarrow> fin_acked (tctx t)"
    unfolding took_def by blast
  from assms(2) f s obtain c' d' fl where pk: "segment (network_state (sk p)) c' d' fl \<in> set (inflight p e)"
    "fl AND TH_ACK \<noteq> 0" "ack_num c' = sequence_num (cx e)"
    unfolding acks_def by auto
  have "segment (network_state (sk p)) c' d' fl \<noteq> segment (network_state (sk p)) c data flags"
    using pk(2,3) s(1,4) f segment_fields(2,3) by (metis endpoint.select_convs(1) endpoint.update_convs(1) endpoint.surjective)
  with pk(1) q have "segment (network_state (sk p)) c' d' fl \<in> set (inflight p ?e)" by (auto simp: inflight_def)
  with pk(2,3) s(2) show "\<exists>c data flags. segment (network_state (sk p)) c data flags \<in> set (inflight p ?e)
      \<and> flags AND TH_ACK \<noteq> 0 \<and> ack_num c = sequence_num (cx ?e)" by auto
qed

lemma took_peer_acks:
  assumes "took (network_state (sk p)) e t" and "acks p e" and "flows p (e\<lparr>thr := t\<rparr>)"
    and "network_state (msock t) = network_state (sk e)"
  shows "acks p (e\<lparr>thr := t\<rparr>)"
proof -
  let ?e = "e\<lparr>thr := t\<rparr>"
  from assms(1) obtain data flags ps where n: "net_sent (msock t) = net_sent (sk e) @ ps"
    and c: "if data = ([] :: bytes) \<and> flags AND TH_FIN = (0 :: u8) then ps = [] \<and> fin_received (tctx t) = fin_received (cx e)
        else \<exists>c'. ps = [segment (network_state (sk e)) c' [] TH_ACK] \<and> ack_num c' = ack_num (tctx t)"
    unfolding took_def by blast
  show ?thesis
  proof (cases "data = [] \<and> flags AND TH_FIN = 0")
    case True
    with c have "fin_received (cx ?e) = fin_received (cx e)" by simp
    then show ?thesis using assms(4) n by (intro acks_peer_more [OF assms(2), of _ ps]) simp_all
  next
    case False
    with c obtain c' where ps: "ps = [segment (network_state (sk e)) c' [] TH_ACK]" "ack_num c' = ack_num (tctx t)" by auto
    have "sequence_num (cx p) = ack_num (tctx t)" if "fin_received (tctx t)"
      using assms(3) that chain_fin unfolding flows_def by fastforce
    then show ?thesis
      unfolding acks_def using ps n assms(4)
      by (auto simp: inflight_def intro!: exI [of _ c'] exI [of _ "[]"] exI [of _ "TH_ACK"])
  qed
qed

lemma took_cost: "took net e t \<Longrightarrow> cost t < cost (thr e)"
  unfolding took_def by (auto simp: cost_def packet_cost_segment split: if_splits)

lemma part_network:
  assumes "running m e" and "flows e p" and "flows p e"
    and "peers (network_state (sk p)) (network_state (sk e))" and "network_recv_queue (sk e) \<noteq> []"
  obtains t where "handle_network_data (thr e) = Inr (Some (True, t))" and "part m e p t"
    and "app_recv_queue (msock t) = app_recv_queue (sk e)" and "cost t < cost (thr e)"
    and "close_requested (msock t) = close_requested (sk e)"
proof -
  obtain t where t: "handle_network_data (thr e) = Inr (Some (True, t))" "good m e p t"
    "took (network_state (sk p)) e t"
    using good_network [OF assms] by blast
  have "part m e p t"
    unfolding part_def
    using t(2,3) took_acks took_peer_acks took_cost [OF t(3)] by (auto simp: good_def took_def)
  then show thesis using that t took_cost [OF t(3)] by (auto simp: took_def)
qed

lemma part_close:
  assumes "running m e" and "flows e p" and "flows p e" and "closed e" and "app_recv_queue (sk e) = []"
  shows "good m e p (after_close (thr e))" and "fin_sent (tctx (after_close (thr e)))"
    and "acks e p \<Longrightarrow> acks (e\<lparr>thr := after_close (thr e)\<rparr>) p"
    and "acks p e \<Longrightarrow> acks p (e\<lparr>thr := after_close (thr e)\<rparr>)"
    and "cost (after_close (thr e)) \<le> cost (thr e) + 5"
proof -
  show "good m e p (after_close (thr e))" by (rule good_close [OF assms])
  show "fin_sent (tctx (after_close (thr e)))" by (simp add: after_close_def Let_def)
  show "acks (e\<lparr>thr := after_close (thr e)\<rparr>) p" if "acks e p"
  proof (cases "fin_sent (cx e)")
    case True
    with that show ?thesis by (simp add: after_close_def)
  next
    case False
    then have "\<not> fin_received (cx p)" using fin_received_sent [OF assms(2)] by blast
    then show ?thesis by (simp add: acks_def)
  qed
  let ?c = "(cx e)\<lparr>fin_sent := True\<rparr>"
  show "acks p (e\<lparr>thr := after_close (thr e)\<rparr>)" if "acks p e"
    by (rule acks_peer_more [OF that, of _ "if fin_sent (cx e) then [] else [segment (network_state (sk e)) ?c [] (TH_FIN OR TH_ACK)]"])
      (simp_all add: after_close_def Let_def)
  show "cost (after_close (thr e)) \<le> cost (thr e) + 5"
    by (simp add: after_close_def Let_def cost_def packet_cost_segment)
qed

text \<open>
  One iteration: it waits, or it keeps everything and lessens the work, or a buffer longer than
  two segments was written, whose rest is copied over itself.
\<close>

definition advance :: "nat \<Rightarrow> endpoint \<Rightarrow> endpoint \<Rightarrow> stcp_thread \<Rightarrow> bool" where
  "advance m e p t \<longleftrightarrow> good m e p t \<and> cost t < cost (thr e)
     \<and> (acks e p \<longrightarrow> acks (e\<lparr>thr := t\<rparr>) p) \<and> (acks p e \<longrightarrow> acks p (e\<lparr>thr := t\<rparr>))
     \<and> (settled e \<longrightarrow> settled (e\<lparr>thr := t\<rparr>))"

lemma close_requested_good: "good m e p t \<Longrightarrow> close_requested (msock t) \<Longrightarrow> closed e"
  by (simp add: good_def running_def)

text \<open>The application data and the packet of one iteration, from the state after the wait.\<close>

lemma part_data:
  assumes "running m e" and "flows e p" and "flows p e" and "peers (network_state (sk p)) (network_state (sk e))"
  obtains (both) t u where "(if app_recv_queue (sk e) \<noteq> [] then handle_app_data (thr e) else Inr (Some (thr e))) = Inr (Some t)"
    and "(if network_recv_queue (sk e) \<noteq> [] then handle_network_data t else Inr (Some (True, t))) = Inr (Some (True, u))"
    and "part m e p u" and "app_recv_queue (sk e) = [] \<Longrightarrow> app_recv_queue (msock u) = []"
    and "app_recv_queue (sk e) \<noteq> [] \<or> network_recv_queue (sk e) \<noteq> [] \<Longrightarrow> cost u < cost (thr e)"
    and "close_requested (msock u) = close_requested (sk e)"
  | (fault) d where "app_recv_queue (sk e) \<noteq> []" and "handle_app_data (thr e) = Inl OverlappingCopy"
    and "d \<in> set (app_recv_queue (sk e))" and "1072 < length d"
proof -
  have wf: "net_wf (network_state (sk e))" using assms(4) by (rule net_wf_peers)
  have net: thesis if t: "(if app_recv_queue (sk e) \<noteq> [] then handle_app_data (thr e) else Inr (Some (thr e))) = Inr (Some t)"
    and pt: "part m e p t" and c: "app_recv_queue (sk e) \<noteq> [] \<longrightarrow> cost t < cost (thr e)"
    and q: "network_recv_queue (msock t) = network_recv_queue (sk e)" "close_requested (msock t) = close_requested (sk e)"
    and a: "app_recv_queue (sk e) = [] \<longrightarrow> app_recv_queue (msock t) = []" for t
  proof (cases "network_recv_queue (sk e) = []")
    case True
    show ?thesis by (rule both [OF t, of t]) (use True pt c a q in simp_all)
  next
    case False
    let ?e = "e\<lparr>thr := t\<rparr>"
    have pr: "peers (network_state (sk p)) (network_state (sk ?e))" using assms(4) partD(4) [OF pt] by simp
    obtain u where u: "handle_network_data t = Inr (Some (True, u))" "part m ?e p u"
      "app_recv_queue (msock u) = app_recv_queue (msock t)" "cost u < cost t"
      "close_requested (msock u) = close_requested (msock t)"
      using part_network [OF partD(1-3) [OF pt] pr] False q(1) by auto
    have "part m e p u" using part_trans [OF pt u(2)] .
    moreover have "cost u < cost (thr e)" using u(4) pt by (simp add: part_def)
    ultimately show ?thesis by (intro both [OF t, of u]) (use u a q False in simp_all)
  qed
  show thesis
  proof (cases "app_recv_queue (sk e) = []")
    case True
    then show ?thesis using net [of "thr e"] part_refl [OF assms(1-3)] by simp
  next
    case False
    show ?thesis
      by (rule part_app_data [OF assms(1-3) wf False]) (use net fault False in auto)
  qed
qed

lemma control_iteration_cases:
  assumes "running m e" and "flows e p" and "flows p e" and "peers (network_state (sk p)) (network_state (sk e))"
  obtains "control_iteration (thr e) = Inr None" and "app_recv_queue (sk e) = []"
      and "network_recv_queue (sk e) = []" and "\<not> close_requested (sk e)"
  | t where "control_iteration (thr e) = Inr (Some t)" and "advance m e p t"
  | d where "control_iteration (thr e) = Inl OverlappingCopy" and "d \<in> set (app_recv_queue (sk e))" and "1072 < length d"
proof (cases "stcp_wait_for_event (sk e) ANY_EVENT")
  case None
  then show ?thesis using that(1) by (simp add: control_iteration_def wait_any split: if_splits)
next
  case (Some r)
  then obtain ev ms where w: "stcp_wait_for_event (sk e) ANY_EVENT = Some (ev, ms)" by (cases r) auto
  let ?cl = "close_requested (sk e) \<and> app_recv_queue (sk e) = []"
  let ?e0 = "e\<lparr>thr := (thr e)\<lparr>msock := ms\<rparr>\<rparr>"
  have ms: "ms = (sk e)\<lparr>close_requested := close_requested (sk e) \<and> app_recv_queue (sk e) \<noteq> []\<rparr>"
    and ev: "ev = (if app_recv_queue (sk e) \<noteq> [] then APP_DATA else 0) OR (if network_recv_queue (sk e) \<noteq> [] then NETWORK_DATA else 0)
        OR (if ?cl then APP_CLOSE_REQUESTED else 0)"
    and some: "app_recv_queue (sk e) \<noteq> [] \<or> network_recv_queue (sk e) \<noteq> [] \<or> ?cl"
    using w by (auto simp: wait_any split: if_splits)
  have bits: "ev AND APP_DATA \<noteq> 0 \<longleftrightarrow> app_recv_queue (sk e) \<noteq> []"
    "ev AND NETWORK_DATA \<noteq> 0 \<longleftrightarrow> network_recv_queue (sk e) \<noteq> []" "ev AND APP_CLOSE_REQUESTED \<noteq> 0 \<longleftrightarrow> ?cl"
    unfolding ev by simp_all
  have p0: "part m e p ((thr e)\<lparr>msock := ms\<rparr>)" by (rule part_wait(1) [OF assms(1-3) w])
  have pr: "peers (network_state (sk p)) (network_state (sk ?e0))" using assms(4) by (simp add: ms)
  have it: "control_iteration (thr e) = bindR (if ?cl then handle_close u else Inr u) (\<lambda>t. Inr (Some t))"
    if "(if app_recv_queue (sk e) \<noteq> [] then handle_app_data (thr ?e0) else Inr (Some (thr ?e0))) = Inr (Some t)"
      "(if network_recv_queue (sk e) \<noteq> [] then handle_network_data t else Inr (Some (True, t))) = Inr (Some (True, u))" for t u
    using that w by (auto simp: control_iteration_def bits split: if_splits)
  show ?thesis
  proof (rule part_data [OF partD(1-3) [OF p0] pr], goal_cases)
    case (1 t u)
    have pu: "part m e p u" using part_trans [OF p0 1(3)] .
    have wu: "net_wf (network_state (msock u))" using partD(4) [OF pu] net_wf_peers(2) [OF assms(4)] by simp
    have cu: "control_iteration (thr e) = (if ?cl then Inr (Some (after_close u)) else Inr (Some u))"
      using it [of t u] 1(1,2) handle_close_after [OF wu] by (simp add: ms)
    show ?case
    proof (cases ?cl)
      case True
      have cl: "closed e" using assms(1) True by (simp add: running_def)
      have qu: "app_recv_queue (msock u) = []" using 1(4) True by (simp add: ms)
      note pc = part_close [of m "e\<lparr>thr := u\<rparr>" p, OF partD(1-3) [OF pu]]
      have "cost ((thr e)\<lparr>msock := ms\<rparr>) + 8 = cost (thr e)" by (rule part_wait(2) [OF assms(1-3) w True])
      then have "cost (after_close u) < cost (thr e)" using pc(5) 1(3) cl qu by (simp add: part_def)
      moreover have "good m e p (after_close u)" using good_trans [of m e p u] pc(1) cl qu pu by (simp add: part_def)
      ultimately have "advance m e p (after_close u)"
        using pc(2-4) cl qu pu by (simp add: advance_def part_def settled_def)
      then show ?thesis using that(2) cu True by simp
    next
      case False
      have "cost u < cost (thr ?e0)" by (rule 1(5)) (use False some in \<open>auto simp: ms\<close>)
      moreover have "cost (thr ?e0) \<le> cost (thr e)" using p0 by (simp add: part_def)
      ultimately have "cost u < cost (thr e)" by simp
      moreover have "settled (e\<lparr>thr := u\<rparr>)" if "settled e"
        using that 1(6) False pu by (auto simp: settled_def part_def ms)
      ultimately have "advance m e p u" using pu by (simp add: advance_def part_def)
      then show ?thesis using that(2) cu False by simp
    qed
  next
    case (2 d)
    then show ?case using that(3) [of d] w bits(1) by (simp add: control_iteration_def ms)
  qed
qed

end
