(* ===== verification/Stcp_Link_Run.thy ===== *)
theory Stcp_Link_Run
  imports Stcp_Link_Inv
begin

text \<open>
  The invariant of a connection holds in every state it can get into: the three-way handshake
  leads to it, and everything the threads, the applications and the network do keeps it.
\<close>

section \<open>The threads after set-up\<close>

lemma good_exit:
  assumes "running m e" and "flows e p" and "flows p e" and "conn_done (cx e)"
  shows "good m e p (thread_exit (thr e))"
proof -
  have fr: "fin_received (cx e)" using assms(1,4) tear_ok_done by (simp add: running_def)
  have "app_queue_ok (e\<lparr>thr := thread_exit (thr e)\<rparr>)"
  proof -
    from assms(1) obtain ds k where "app_send_queue (sk e) = ds @ replicate k []" "[] \<notin> set ds"
      "\<forall>d \<in> set ds. length d \<le> 536" "eof (sk e) \<longrightarrow> ds = [] \<and> fin_received (cx e)"
      unfolding running_def app_queue_ok_def by blast
    then show ?thesis
      using fr unfolding app_queue_ok_def
      by (intro exI [of _ ds] exI [of _ "Suc k"]) (simp add: thread_exit_def replicate_append_same)
  qed
  moreover have "flows (e\<lparr>thr := thread_exit (thr e)\<rparr>) p"
    by (rule flows_cong [OF assms(2)]) (simp_all add: thread_exit_def inflight_def)
  moreover have "flows p (e\<lparr>thr := thread_exit (thr e)\<rparr>)"
    by (rule flows_cong [OF assms(3)]) (simp_all add: thread_exit_def inflight_def)
  ultimately show ?thesis using assms(1,4) by (simp add: good_def running_def thread_exit_def)
qed

lemma advance_exit:
  assumes "running m e" and "flows e p" and "flows p e" and "conn_done (cx e)" and "pc (thr e) = Control_loop"
  shows "advance m e p (thread_exit (thr e))"
  using good_exit [OF assms(1-4)] assms(5)
  by (simp add: advance_def acks_def settled_def inflight_def thread_exit_def cost_def)

lemma running_step_cases:
  assumes "running m e" and "flows e p" and "flows p e" and "peers (network_state (sk p)) (network_state (sk e))"
  obtains (rest) "transport_step (thr e) = Inr None"
      and "pc (thr e) = Returned \<or> app_recv_queue (sk e) = [] \<and> network_recv_queue (sk e) = []
           \<and> \<not> close_requested (sk e) \<and> \<not> conn_done (cx e)"
  | (moves) t where "transport_step (thr e) = Inr (Some t)" and "advance m e p t"
  | (fault) d where "transport_step (thr e) = Inl OverlappingCopy" and "d \<in> set (app_recv_queue (sk e))" and "1072 < length d"
proof (cases "pc (thr e)")
  case Control_loop
  show ?thesis
  proof (cases "conn_done (cx e)")
    case True
    then show ?thesis
      using moves advance_exit [OF assms(1-3)] Control_loop by (simp add: transport_step_def)
  next
    case False
    then have "transport_step (thr e) = control_iteration (thr e)"
      using Control_loop by (simp add: transport_step_def)
    then show ?thesis using rest moves fault control_iteration_cases [OF assms] False by metis
  qed
next
  case Returned
  then show ?thesis using rest by (simp add: transport_step_def)
qed (use assms(1) in \<open>simp_all add: running_def\<close>)

section \<open>The handshake\<close>

lemma wait_network:
  "\<not> close_requested ms \<Longrightarrow>
   stcp_wait_for_event ms NETWORK_DATA = (if network_recv_queue ms = [] then None else Some (NETWORK_DATA, ms))"
  by (simp add: stcp_wait_for_event_def)

lemma setup_blocks:
  "\<not> close_requested (msock t) \<Longrightarrow> network_recv_queue (msock t) = [] \<Longrightarrow> setup_step f t = Inr None"
  by (simp add: setup_step_def await_header_def wait_network)

lemma setup_segment:
  assumes "\<not> close_requested (msock t)" and "peers a (network_state (msock t))"
    and "network_recv_queue (msock t) = segment a c [] flags # q"
  shows "setup_step f t
     = bindR (f (t\<lparr>msock := (msock t)\<lparr>network_recv_queue := q\<rparr>\<rparr>) (segment a c [] flags)) (\<lambda>t. Inr (Some t))"
  using assms recv_segment [OF assms(2,3), of 20]
  by (simp add: setup_step_def await_header_def wait_network)

lemma wait_ends: "waiting e \<Longrightarrow> \<not> close_requested (sk e)"
  by (simp add: waiting_def)

text \<open>The passive end gets the SYN.\<close>

lemma syn_sent_passive:
  assumes "syn_sent a b" and "peers (network_state (sk a)) (network_state (sk b))"
  obtains "network_recv_queue (sk b) = []" and "transport_step (thr b) = Inr None"
  | t where "transport_step (thr b) = Inr (Some t)" and "syn_received a (b\<lparr>thr := t\<rparr>)"
    and "network_state (msock t) = network_state (sk b)"
proof (cases "network_recv_queue (sk b)")
  case Nil
  then show ?thesis
    using that(1) assms(1) setup_blocks [of "thr b" syn_step]
    by (simp add: syn_sent_def waiting_def transport_step_def)
next
  case (Cons pk q)
  from assms(1) obtain c where c: "inflight a b = [segment (network_state (sk a)) c [] TH_SYN]"
    "recv_window_size c - recv_buffer_used c = 3072" "sequence_num (cx a) = sequence_num c + 1"
    and w: "waiting a" "waiting b" "pc (thr a) = Await_SYN_ACK" "pc (thr b) = Await_SYN" "inflight b a = []"
    unfolding syn_sent_def by blast
  from c(1) Cons have q: "network_recv_queue (sk b) = [segment (network_state (sk a)) c [] TH_SYN]" "net_sent (sk a) = []"
    by (simp_all add: inflight_def)
  have nb: "network_recv_queue (sk a) = []" "net_sent (sk b) = []" using w(5) by (simp_all add: inflight_def)
  let ?c = "(cx b)\<lparr>ack_num := sequence_num c + 1, connection_state := CSTATE_SYN_RCVD,
      next_seq_expected := sequence_num c + 1, peer_window_size := 3072\<rparr>"
  let ?p = "segment (network_state (sk b)) ?c [] (TH_SYN OR TH_ACK)"
  let ?t = "(thr b)\<lparr>pc := Await_ACK, tctx := ?c\<lparr>sequence_num := sequence_num ?c + 1\<rparr>,
      msock := (sk b)\<lparr>network_recv_queue := [], net_sent := [?p]\<rparr>\<rparr>"
  have wf: "net_wf (network_state (sk b))" using assms(2) by (rule net_wf_peers)
  have "transport_step (thr b) = Inr (Some ?t)"
    using w(4) setup_segment [OF wait_ends [OF w(2)] assms(2) q(1), of syn_step] wf nb c(2)
    by (simp add: transport_step_def syn_step_def segment_fields send_packet_sent Let_def sent_def)
  moreover have "recv_window_size (cx b) - recv_buffer_used (cx b) = 3072"
    using w(2) by (simp add: waiting_def windows_ok_def)
  then have "syn_received a (b\<lparr>thr := ?t\<rparr>)"
    unfolding syn_received_def
    using w q nb c(3) by (auto simp: inflight_def waiting_def windows_ok_def)
  ultimately show ?thesis using that(2) [of ?t] by simp
qed

text \<open>The active end gets the SYN-ACK.\<close>

lemma syn_received_active:
  assumes "syn_received a b" and "peers (network_state (sk b)) (network_state (sk a))"
  obtains "network_recv_queue (sk a) = []" and "transport_step (thr a) = Inr None"
  | t where "transport_step (thr a) = Inr (Some t)" and "half_open m (a\<lparr>thr := t\<rparr>) b"
    and "network_state (msock t) = network_state (sk a)" and "pc t = Control_loop"
    and "connection_state (tctx t) = CSTATE_ESTABLISHED" and "inflight b (a\<lparr>thr := t\<rparr>) = []"
    and "length (inflight (a\<lparr>thr := t\<rparr>) b) = 1" and "app_recv_queue (msock t) = []"
proof (cases "network_recv_queue (sk a)")
  case Nil
  then show ?thesis
    using that(1) assms(1) setup_blocks [of "thr a" syn_ack_step]
    by (simp add: syn_received_def waiting_def transport_step_def)
next
  case (Cons pk q)
  from assms(1) obtain c where c: "inflight b a = [segment (network_state (sk b)) c [] (TH_SYN OR TH_ACK)]"
    "recv_window_size c - recv_buffer_used c = 3072" "sequence_num (cx b) = sequence_num c + 1" "ack_num c = sequence_num (cx a)"
    and w: "waiting a" "waiting b" "pc (thr a) = Await_SYN_ACK" "pc (thr b) = Await_ACK" "inflight a b = []"
    and s: "ack_num (cx b) = sequence_num (cx a)" "next_seq_expected (cx b) = sequence_num (cx a)"
    unfolding syn_received_def by blast
  from c(1) Cons have q: "network_recv_queue (sk a) = [segment (network_state (sk b)) c [] (TH_SYN OR TH_ACK)]" "net_sent (sk b) = []"
    by (simp_all add: inflight_def)
  have nb: "network_recv_queue (sk b) = []" "net_sent (sk a) = []" using w(5) by (simp_all add: inflight_def)
  let ?c = "(cx a)\<lparr>ack_num := sequence_num c + 1, peer_window_size := 3072, next_seq_expected := sequence_num c + 1\<rparr>"
  let ?p = "segment (network_state (sk a)) ?c [] TH_ACK"
  let ?t = "(thr a)\<lparr>pc := Control_loop, tctx := ?c\<lparr>connection_state := CSTATE_ESTABLISHED\<rparr>,
      msock := (sk a)\<lparr>network_recv_queue := [], net_sent := [?p], blocking := False,
                     stcp_errno := (if thread_errno (thr a) = EINTR then 0 else thread_errno (thr a))\<rparr>\<rparr>"
  have wf: "net_wf (network_state (sk a))" using assms(2) by (rule net_wf_peers)
  have "transport_step (thr a) = Inr (Some ?t)"
    using w(1,3) setup_segment [OF wait_ends [OF w(1)] assms(2) q(1), of syn_ack_step] wf nb c(2,4)
    by (simp add: transport_step_def syn_ack_step_def segment_fields send_packet_sent Let_def sent_def
        established_def stcp_unblock_application_def waiting_def)
  moreover have "half_open m (a\<lparr>thr := ?t\<rparr>) b"
  proof -
    have win: "recv_window_size ?c - recv_buffer_used ?c = 3072"
      using w(1) by (simp add: waiting_def windows_ok_def)
    have sg: "is_seg (network_state (sk a)) (sequence_num ?c) [] False ?p"
      by (rule is_seg_intro) (use win in simp_all)
    have "running m (a\<lparr>thr := ?t\<rparr>)"
      using w(1) by (auto simp: running_def waiting_def tear_ok_def windows_ok_def app_queue_ok_def)
    moreover have "flows (a\<lparr>thr := ?t\<rparr>) b"
      using w nb s sg by (simp add: flows_def inflight_def waiting_def) blast
    moreover have "flows b (a\<lparr>thr := ?t\<rparr>)"
      using w q(2) c(3) by (simp add: flows_def inflight_def waiting_def)
    ultimately show ?thesis
      unfolding half_open_def using w c(3) nb by (auto simp: inflight_def)
  qed
  moreover have "app_recv_queue (sk a) = []" using w(1) by (simp add: waiting_def)
  ultimately show ?thesis using that(2) [of ?t] nb q(2) by (simp add: inflight_def)
qed

text \<open>The passive end gets the acknowledgement.\<close>

lemma half_open_passive:
  assumes "half_open m a b" and "peers (network_state (sk a)) (network_state (sk b))"
  obtains "network_recv_queue (sk b) = []" and "transport_step (thr b) = Inr None"
  | t where "transport_step (thr b) = Inr (Some t)" and "running m (b\<lparr>thr := t\<rparr>)"
    and "flows a (b\<lparr>thr := t\<rparr>)" and "flows (b\<lparr>thr := t\<rparr>) a" and "network_state (msock t) = network_state (sk b)"
    and "pc t = Control_loop" and "connection_state (tctx t) = CSTATE_ESTABLISHED"
    and "network_recv_queue (msock t) = tl (network_recv_queue (sk b))" and "net_sent (msock t) = net_sent (sk b)"
    and "app_recv_queue (msock t) = []"
proof (cases "network_recv_queue (sk b)")
  case Nil
  then show ?thesis
    using that(1) assms(1) setup_blocks [of "thr b" ack_step]
    by (simp add: half_open_def waiting_def transport_step_def)
next
  case (Cons pk q)
  from assms(1) obtain c ps where c: "inflight a b = segment (network_state (sk a)) c [] TH_ACK # ps"
    "ack_num c = sequence_num (cx b)"
    and w: "waiting b" "pc (thr b) = Await_ACK" and f: "flows a b" "flows b a"
    unfolding half_open_def by blast
  from c(1) Cons have q: "network_recv_queue (sk b) = segment (network_state (sk a)) c [] TH_ACK # q"
    by (simp add: inflight_def)
  obtain data fin where s: "is_seg (network_state (sk a)) (ack_num (cx b)) data fin (segment (network_state (sk a)) c [] TH_ACK)"
    and nx: "\<not> fin_received (cx b) \<Longrightarrow> next_seq_expected (cx b) = ack_num (cx b)"
    using flows_head [OF f(1) q] by blast
  have d: "data = []" "\<not> fin" "recv_window_size c - recv_buffer_used c = 3072"
    using is_seg_segment [OF s] by simp_all
  let ?t = "(thr b)\<lparr>pc := Control_loop, tctx := (cx b)\<lparr>peer_window_size := 3072, connection_state := CSTATE_ESTABLISHED\<rparr>,
      msock := (sk b)\<lparr>network_recv_queue := q, blocking := False,
                     stcp_errno := (if thread_errno (thr b) = EINTR then 0 else thread_errno (thr b))\<rparr>\<rparr>"
  have "transport_step (thr b) = Inr (Some ?t)"
    using w setup_segment [OF wait_ends [OF w(1)] assms(2) q, of ack_step] c(2) d(3)
    by (simp add: transport_step_def ack_step_def segment_fields Let_def
        established_def stcp_unblock_application_def waiting_def)
  moreover have "running m (b\<lparr>thr := ?t\<rparr>)"
    using w(1) by (auto simp: running_def waiting_def tear_ok_def windows_ok_def app_queue_ok_def)
  moreover have "flows a (b\<lparr>thr := ?t\<rparr>)"
    by (rule flows_receive [OF f(1), of "segment (network_state (sk a)) c [] TH_ACK" _ "[]" False])
      (use q s d nx w(1) in \<open>simp_all add: waiting_def\<close>)
  moreover have "flows (b\<lparr>thr := ?t\<rparr>) a"
    by (rule flows_cong [OF f(2)]) (simp_all add: inflight_def)
  moreover have "app_recv_queue (sk b) = []" using w(1) by (simp add: waiting_def)
  ultimately show ?thesis using that(2) [of ?t] q by simp
qed

section \<open>The applications\<close>

text \<open>What an application does at one end keeps the end and both directions.\<close>

lemma app_write_ok:
  assumes "running m e" and "flows e p" and "flows p e" and "\<not> closed e" and "length buf \<le> m"
    and "mywrite (sk e) buf = Inr (Inr n, ms)"
  defines "e' \<equiv> (with_sk e ms)\<lparr>wrote := wrote e @ buf\<rparr>"
  shows "running m e' \<and> flows e' p \<and> flows p e'"
proof -
  have ms: "ms = (sk e)\<lparr>app_recv_queue := app_recv_queue (sk e) @ [buf]\<rparr>"
    using assms(6) by (auto simp: mywrite_def mysock_enqueue_buffer_def assertR_def split: if_splits)
  have nf: "\<not> fin_sent (cx e)" using assms(2,4) by (auto simp: flows_def)
  have "running m e'" using assms(1,5) by (auto simp: e'_def with_sk_def ms running_def app_queue_ok_def)
  moreover have "flows e' p" using assms(2) nf by (auto simp: e'_def with_sk_def ms flows_def inflight_def)
  moreover have "flows p e'"
    by (rule flows_cong [OF assms(3)]) (simp_all add: e'_def with_sk_def ms inflight_def)
  ultimately show ?thesis by blast
qed

lemma app_close_ok:
  assumes "running m e" and "flows e p" and "flows p e"
  defines "e' \<equiv> (with_sk e (myclose_request (sk e)))\<lparr>closed := True\<rparr>"
  shows "running m e' \<and> flows e' p \<and> flows p e'"
proof -
  have "running m e'"
    using assms(1) by (auto simp: e'_def with_sk_def myclose_request_def running_def app_queue_ok_def)
  moreover have "flows e' p"
    by (rule flows_cong [OF assms(2)]) (simp_all add: e'_def with_sk_def myclose_request_def inflight_def)
  moreover have "flows p e'"
    by (rule flows_cong [OF assms(3)]) (simp_all add: e'_def with_sk_def myclose_request_def inflight_def)
  ultimately show ?thesis by blast
qed

text \<open>The queue for the application after a read.\<close>

lemma app_queue_read:
  assumes "app_queue_ok e" and "queue_get (app_send_queue (sk e)) n = Some (bs, q)"
    and "sk e' = (sk e)\<lparr>app_send_queue := q, eof := eof'\<rparr>" and "cx e' = cx e"
    and "eof' \<longleftrightarrow> bs = [] \<or> eof (sk e)"
  shows "app_queue_ok e'"
proof -
  obtain ds k where d: "app_send_queue (sk e) = ds @ replicate k []" "[] \<notin> set ds" "\<forall>d \<in> set ds. length d \<le> 536"
    "0 < k \<longrightarrow> fin_received (cx e)" "eof (sk e) \<longrightarrow> ds = [] \<and> fin_received (cx e)"
    using assms(1) unfolding app_queue_ok_def by blast
  show ?thesis
  proof (cases ds)
    case Nil
    then obtain j where k: "k = Suc j" and q: "bs = []" "q = replicate j []"
      using assms(2) d(1) by (cases k) (auto simp: queue_get_Some queue_get_def mysock_dequeue_buffer_def)
    then show ?thesis
      using d assms(3,4) unfolding app_queue_ok_def
      by (intro exI [of _ "[]"] exI [of _ j]) simp
  next
    case (Cons x xs)
    then have x: "x \<noteq> []" "length x \<le> 536" using d(2,3) by auto
    have g: "queue_get (x # xs @ replicate k []) n = Some (bs, q)" using assms(2) d(1) Cons by simp
    show ?thesis
    proof (cases "length x \<le> n")
      case True
      then have "bs = x" "q = xs @ replicate k []" using g by (simp_all add: queue_get_Some)
      then show ?thesis
        using d Cons x assms(3-5) unfolding app_queue_ok_def
        by (intro exI [of _ xs] exI [of _ k]) auto
    next
      case False
      then have q: "bs = take n x" "q = drop n x # xs @ replicate k []" "length x \<le> 2 * n"
        using g by (auto simp: queue_get_Some split: if_splits)
      then have "bs \<noteq> []" "drop n x \<noteq> []" "length (drop n x) \<le> 536" using False x by auto
      then show ?thesis
        using d Cons q assms(3-5) unfolding app_queue_ok_def
        by (intro exI [of _ "drop n x # xs"] exI [of _ k]) auto
    qed
  qed
qed

lemma myread_cases:
  assumes "myread ms n = Inr (Some (Inr (len, bs), ms'))"
  shows "bs = [] \<and> ms' = ms \<or> (\<exists>q. queue_get (app_send_queue ms) n = Some (bs, q)
      \<and> ms' = ms\<lparr>app_send_queue := q, eof := (bs = [] \<or> eof ms)\<rparr>)"
proof (cases "eof ms")
  case True
  with assms have "bs = [] \<and> ms' = ms"
    by (cases "listening ms"; cases "close_requested ms") (simp_all add: myread_def)
  then show ?thesis ..
next
  case False
  have ok: "\<not> listening ms" "\<not> close_requested ms"
    using assms by (cases "listening ms"; cases "close_requested ms"; simp add: myread_def)+
  obtain q where q: "mysock_dequeue_buffer (app_send_queue ms) n True = Inr (Some (len, bs, q))"
    and ms': "ms' = (if len = 0 then ms\<lparr>app_send_queue := q, eof := True\<rparr> else ms\<lparr>app_send_queue := q\<rparr>)"
    using assms ok False
    by (cases "mysock_dequeue_buffer (app_send_queue ms) n True") (auto simp: myread_def Let_def)
  have "len = length bs" using q unfolding dequeue_partial by blast
  then have "queue_get (app_send_queue ms) n = Some (bs, q)" using q by (simp add: queue_get_def)
  moreover have "ms' = ms\<lparr>app_send_queue := q, eof := (bs = [] \<or> eof ms)\<rparr>"
    using ms' False \<open>len = length bs\<close> by (cases ms) simp
  ultimately show ?thesis by blast
qed

lemma app_read_ok:
  assumes "running m e" and "flows e p" and "flows p e"
    and "myread (sk e) n = Inr (Some (Inr (len, bs), ms))"
  defines "e' \<equiv> (with_sk e ms)\<lparr>got := got e @ bs\<rparr>"
  shows "running m e' \<and> flows e' p \<and> flows p e'"
proof -
  from myread_cases [OF assms(4)]
  have "bs = [] \<and> ms = sk e \<or> (\<exists>q. queue_get (app_send_queue (sk e)) n = Some (bs, q)
      \<and> ms = (sk e)\<lparr>app_send_queue := q, eof := (bs = [] \<or> eof (sk e))\<rparr>)" .
  then show ?thesis
  proof
    assume "bs = [] \<and> ms = sk e"
    then have "e' = e" by (simp add: e'_def with_sk_def)
    with assms show ?thesis by simp
  next
    assume "\<exists>q. queue_get (app_send_queue (sk e)) n = Some (bs, q)
      \<and> ms = (sk e)\<lparr>app_send_queue := q, eof := (bs = [] \<or> eof (sk e))\<rparr>"
    then obtain q where q: "queue_get (app_send_queue (sk e)) n = Some (bs, q)"
      and ms: "ms = (sk e)\<lparr>app_send_queue := q, eof := (bs = [] \<or> eof (sk e))\<rparr>" by blast
    have c: "concat (app_send_queue (sk e)) = bs @ concat q" using mq.content_get [OF q] .
    have "app_queue_ok e'"
      by (rule app_queue_read [OF _ q]) (use assms(1) in \<open>simp_all add: running_def e'_def with_sk_def ms\<close>)
    then have "running m e'" using assms(1) by (simp add: running_def e'_def with_sk_def ms)
    moreover have "flows e' p"
      by (rule flows_cong [OF assms(2)]) (simp_all add: e'_def with_sk_def ms inflight_def)
    moreover have "flows p e'"
      by (rule flows_cong [OF assms(3)]) (simp_all add: e'_def with_sk_def ms inflight_def c)
    ultimately show ?thesis by blast
  qed
qed

section \<open>Every state\<close>

text \<open>An end that is being set up has no tear-down to be tidy about.\<close>

lemma waiting_tidy: "waiting e \<Longrightarrow> acks e p \<and> acks p e \<and> settled e"
  by (simp add: waiting_def acks_def settled_def)

lemma running_established:
  "running m e \<Longrightarrow> connection_state (cx e) = CSTATE_ESTABLISHED \<Longrightarrow> acks e p \<and> acks p e"
  by (simp add: running_def tear_ok_def acks_def)

lemma link_invI:
  assumes "peers (network_state (sk a)) (network_state (sk b))"
  shows "syn_sent a b \<Longrightarrow> link_inv m (a, b)" and "syn_received a b \<Longrightarrow> link_inv m (a, b)"
    and "half_open m a b \<Longrightarrow> settled a \<Longrightarrow> link_inv m (a, b)"
    and "\<lbrakk>running m a; running m b; flows a b; flows b a; acks a b; acks b a; settled a; settled b\<rbrakk> \<Longrightarrow> link_inv m (a, b)"
  using assms waiting_tidy unfolding link_inv_def
  by (auto simp: syn_sent_def syn_received_def half_open_def)

lemma link_inv_cases:
  assumes "link_inv m (a, b)"
  obtains (syn) "syn_sent a b" | (rcvd) "syn_received a b" | (half) "half_open m a b" "settled a"
    | (up) "running m a" "running m b" "flows a b" "flows b a" "acks a b" "acks b a" "settled a" "settled b"
  using assms unfolding link_inv_def by auto

lemma peers_sym: "peers a b \<Longrightarrow> peers b a"
  by (simp add: peers_def)

lemma windows_ok_initial [simp]: "windows_ok (initial_context isn)"
  by (simp add: windows_ok_def initial_context_def)

lemma transport_init_active:
  fixes r :: u32
  assumes "fresh ms" and "net_wf (network_state ms)"
  defines "c \<equiv> (initial_context (generate_initial_seq_num r))\<lparr>connection_state := CSTATE_SYN_SENT\<rparr>"
  shows "transport_init ms r True = Inr \<lparr>pc = Await_SYN_ACK, tctx = c\<lparr>sequence_num := sequence_num c + 1\<rparr>,
           msock = ms\<lparr>net_sent := [segment (network_state ms) c [] TH_SYN]\<rparr>, thread_errno = 0\<rparr>"
  using assms(1,2) by (simp add: transport_init_def c_def send_packet_sent sent_def Let_def fresh_def)

lemma connection_start:
  assumes "fresh ma" and "fresh mb" and "peers (network_state ma) (network_state mb)"
    and "transport_init ma ra True = Inr ta" and "transport_init mb rb False = Inr tb"
  shows "link_inv m (new_end ta, new_end tb)"
proof -
  let ?c = "(initial_context (generate_initial_seq_num ra))\<lparr>connection_state := CSTATE_SYN_SENT\<rparr>"
  have ta: "ta = \<lparr>pc = Await_SYN_ACK, tctx = ?c\<lparr>sequence_num := sequence_num ?c + 1\<rparr>,
      msock = ma\<lparr>net_sent := [segment (network_state ma) ?c [] TH_SYN]\<rparr>, thread_errno = 0\<rparr>"
    using transport_init_active [OF assms(1) net_wf_peers(1) [OF assms(3)], of ra] assms(4) by simp
  have tb: "tb = \<lparr>pc = Await_SYN, tctx = initial_context (generate_initial_seq_num rb), msock = mb, thread_errno = 0\<rparr>"
    using assms(5) by (simp add: transport_init_def Let_def)
  have w: "waiting (new_end ta)" "waiting (new_end tb)"
    using assms(1,2) by (simp_all add: waiting_def new_end_def fresh_def ta tb) (simp_all add: initial_context_def)
  have "syn_sent (new_end ta) (new_end tb)"
    unfolding syn_sent_def
    using assms(1,2) w
    by (intro conjI exI [of _ ?c]) (simp_all add: new_end_def ta tb fresh_def inflight_def initial_context_def)
  then show ?thesis using assms(3) by (intro link_invI(1)) (simp_all add: new_end_def ta tb)
qed

lemma half_open_good:
  assumes "half_open m a b" and "good m a b t"
  shows "half_open m (a\<lparr>thr := t\<rparr>) b"
proof -
  from assms(1) obtain c ps where c: "inflight a b = segment (network_state (sk a)) c [] TH_ACK # ps"
    "ack_num c = sequence_num (cx b)" and w: "waiting b" "pc (thr b) = Await_ACK"
    unfolding half_open_def by blast
  from assms(2) obtain more where g: "network_state (msock t) = network_state (sk a)"
    "net_sent (msock t) = net_sent (sk a) @ more" unfolding good_def by blast
  have "inflight (a\<lparr>thr := t\<rparr>) b = segment (network_state (msock t)) c [] TH_ACK # (ps @ more)"
    using c(1) g by (simp add: inflight_def)
  with c(2) w assms(2) show ?thesis unfolding half_open_def good_def by auto
qed

text \<open>A thread that steps: at the active end and at the passive end.\<close>

lemma active_thread:
  assumes "link_inv m (a, b)"
  obtains (rest) "transport_step (thr a) = Inr None"
  | (moves) t where "transport_step (thr a) = Inr (Some t)" and "link_inv m (a\<lparr>thr := t\<rparr>, b)"
    and "running m a \<Longrightarrow> cost t < cost (thr a)"
  | (fault) d where "transport_step (thr a) = Inl OverlappingCopy" and "d \<in> set (app_recv_queue (sk a))" and "1072 < length d" and "running m a"
proof -
  have p: "peers (network_state (sk a)) (network_state (sk b))" using assms by (simp add: link_inv_def)
  note q = peers_sym [OF p]
  from assms show thesis
  proof (cases rule: link_inv_cases)
    case syn
    then show ?thesis
      using rest setup_blocks [of "thr a" syn_ack_step]
      by (simp add: syn_sent_def waiting_def inflight_def transport_step_def)
  next
    case rcvd
    then have n: "\<not> running m a" "\<not> closed a" by (auto simp: syn_received_def waiting_def running_def)
    show ?thesis
    proof (rule syn_received_active [OF rcvd q, where m = m], goal_cases)
      case (2 t)
      then show ?case using moves [of t] link_invI(3) [of "a\<lparr>thr := t\<rparr>" b m] p n by (simp add: settled_def)
    qed (use rest in simp)
  next
    case half
    then have r: "running m a" "flows a b" "flows b a" by (simp_all add: half_open_def)
    show ?thesis
    proof (rule running_step_cases [OF r q], goal_cases)
      case (2 t)
      then have "good m a b t" by (simp add: advance_def)
      then show ?case
        using moves [of t] link_invI(3) [of "a\<lparr>thr := t\<rparr>" b m] half_open_good [OF half(1)] half(2) 2 p
        by (simp add: advance_def good_def)
    qed (use rest fault r in auto)
  next
    case up
    show ?thesis
    proof (rule running_step_cases [OF up(1,3,4) q], goal_cases)
      case (2 t)
      then show ?case
        using moves [of t] link_invI(4) [of "a\<lparr>thr := t\<rparr>" b m] up p by (simp add: advance_def good_def)
    qed (use rest fault up in auto)
  qed
qed

lemma passive_thread:
  assumes "link_inv m (a, b)"
  obtains (rest) "transport_step (thr b) = Inr None"
  | (moves) t where "transport_step (thr b) = Inr (Some t)" and "link_inv m (a, b\<lparr>thr := t\<rparr>)"
    and "running m b \<Longrightarrow> cost t < cost (thr b)"
  | (fault) d where "transport_step (thr b) = Inl OverlappingCopy" and "d \<in> set (app_recv_queue (sk b))" and "1072 < length d" and "running m b"
proof -
  have p: "peers (network_state (sk a)) (network_state (sk b))" using assms by (simp add: link_inv_def)
  from assms show thesis
  proof (cases rule: link_inv_cases)
    case syn
    then have n: "\<not> running m b" by (auto simp: syn_sent_def waiting_def running_def)
    show ?thesis
    proof (rule syn_sent_passive [OF syn p], goal_cases)
      case (2 t)
      then show ?case using moves [of t] link_invI(2) [of a "b\<lparr>thr := t\<rparr>" m] p n by simp
    qed (use rest in simp)
  next
    case rcvd
    then show ?thesis
      using rest setup_blocks [of "thr b" ack_step]
      by (simp add: syn_received_def waiting_def inflight_def transport_step_def)
  next
    case half
    then have r: "running m a" "\<not> running m b" "\<not> closed b" by (auto simp: half_open_def waiting_def running_def)
    show ?thesis
    proof (rule half_open_passive [OF half(1) p], goal_cases)
      case (2 t)
      then have "acks (b\<lparr>thr := t\<rparr>) a \<and> acks a (b\<lparr>thr := t\<rparr>)" using running_established by simp
      then show ?case
        using moves [of t] link_invI(4) [of a "b\<lparr>thr := t\<rparr>" m] half(2) 2 p r by (simp add: settled_def)
    qed (use rest in simp)
  next
    case up
    show ?thesis
    proof (rule running_step_cases [OF up(2,4,3) p], goal_cases)
      case (2 t)
      then show ?case
        using moves [of t] link_invI(4) [of a "b\<lparr>thr := t\<rparr>" m] up p by (simp add: advance_def good_def)
    qed (use rest fault up in auto)
  qed
qed

text \<open>The applications act only at an end that is running, and leave the transport layer alone.\<close>

definition app_frame :: "endpoint \<Rightarrow> endpoint \<Rightarrow> bool" where
  "app_frame e e' \<longleftrightarrow> cx e' = cx e \<and> pc (thr e') = pc (thr e) \<and> network_state (sk e') = network_state (sk e)
     \<and> net_sent (sk e') = net_sent (sk e) \<and> network_recv_queue (sk e') = network_recv_queue (sk e)
     \<and> (closed e' \<longrightarrow> closed e \<or> close_requested (sk e')) \<and> (close_requested (sk e) \<longrightarrow> close_requested (sk e'))"

lemma app_frame_inflight: "app_frame e e' \<Longrightarrow> inflight e' p = inflight e p \<and> inflight p e' = inflight p e"
  by (simp add: app_frame_def inflight_def)

lemma app_frame_acks: "app_frame e e' \<Longrightarrow> acks e' p = acks e p \<and> acks p e' = acks p e"
  using app_frame_inflight [of e e' p] unfolding acks_def by (simp add: app_frame_def)

lemma app_frame_settled: "app_frame e e' \<Longrightarrow> settled e \<Longrightarrow> settled e'"
  unfolding app_frame_def settled_def by auto

lemma mywrite_frame: "mywrite (sk e) buf = Inr (r, ms) \<Longrightarrow> app_frame e ((with_sk e ms)\<lparr>wrote := w\<rparr>)"
  by (auto simp: app_frame_def with_sk_def mywrite_def assertR_def split: if_splits)

lemma myread_frame: "myread (sk e) n = Inr (Some (Inr (len, bs), ms)) \<Longrightarrow> app_frame e ((with_sk e ms)\<lparr>got := g\<rparr>)"
  by (drule myread_cases) (auto simp: app_frame_def with_sk_def)

lemma end_step_cases:
  assumes "end_step m e e'"
  obtains (thread) t where "transport_step (thr e) = Inr (Some t)" and "e' = e\<lparr>thr := t\<rparr>"
  | (app) "\<not> blocking (sk e)" and "\<not> closed e" and "app_frame e e'"
    and "\<And>p. running m e \<Longrightarrow> flows e p \<Longrightarrow> flows p e \<Longrightarrow> running m e' \<and> flows e' p \<and> flows p e'"
  using assms
proof cases
  case (thread t)
  then show ?thesis using that(1) by blast
next
  case (app_write buf n ms)
  then show ?thesis using that(2) mywrite_frame app_write_ok by simp
next
  case (app_read n len bs ms)
  then show ?thesis using that(2) myread_frame app_read_ok by simp
next
  case app_close
  moreover have "app_frame e e'" by (simp add: app_frame_def app_close(1) with_sk_def myclose_request_def)
  ultimately show ?thesis using that(2) app_close_ok by simp
qed

lemma active_end_inv:
  assumes "end_step m a a'" and "link_inv m (a, b)"
  shows "link_inv m (a', b)"
  using assms(1)
proof (cases rule: end_step_cases)
  case (thread t)
  then show ?thesis by (auto intro: active_thread [OF assms(2)])
next
  case app
  have p: "peers (network_state (sk a')) (network_state (sk b))"
    using assms(2) app(3) by (simp add: link_inv_def app_frame_def)
  from assms(2) show ?thesis
  proof (cases rule: link_inv_cases)
    case half
    have "half_open m a' b"
      using half app(3) app(4) [of b] app_frame_inflight [OF app(3)] unfolding half_open_def app_frame_def by auto
    then show ?thesis using link_invI(3) [OF p] app_frame_settled [OF app(3)] half(2) by blast
  next
    case up
    then show ?thesis
      using link_invI(4) [OF p] app(4) [of b] app_frame_acks [OF app(3)] app_frame_settled [OF app(3)] by blast
  qed (use app(1) in \<open>auto simp: syn_sent_def syn_received_def waiting_def\<close>)
qed

lemma passive_end_inv:
  assumes "end_step m b b'" and "link_inv m (a, b)"
  shows "link_inv m (a, b')"
  using assms(1)
proof (cases rule: end_step_cases)
  case (thread t)
  then show ?thesis by (auto intro: passive_thread [OF assms(2)])
next
  case app
  have p: "peers (network_state (sk a)) (network_state (sk b'))"
    using assms(2) app(3) by (simp add: link_inv_def app_frame_def)
  from assms(2) show ?thesis
  proof (cases rule: link_inv_cases)
    case up
    then show ?thesis
      using link_invI(4) [OF p] app(4) [of a] app_frame_acks [OF app(3)] app_frame_settled [OF app(3)] by blast
  qed (use app(1) in \<open>auto simp: syn_sent_def syn_received_def half_open_def waiting_def\<close>)
qed

text \<open>The network moves packets within what is in flight.\<close>

lemma carry_ends:
  "running m (departed e) = running m e" "running m (arrived pk e) = running m e"
  "waiting (departed e) = waiting e" "waiting (arrived pk e) = waiting e"
  "pc (thr (departed e)) = pc (thr e)" "pc (thr (arrived pk e)) = pc (thr e)"
  "cx (departed e) = cx e" "cx (arrived pk e) = cx e"
  "network_state (sk (departed e)) = network_state (sk e)" "network_state (sk (arrived pk e)) = network_state (sk e)"
  by (simp_all add: running_def waiting_def app_queue_ok_def departed_def arrived_def with_sk_def)

lemma carry_app [simp]:
  "closed (departed e) = closed e" "closed (arrived pk e) = closed e" "wrote (departed e) = wrote e"
  "wrote (arrived pk e) = wrote e" "got (departed e) = got e" "got (arrived pk e) = got e"
  "app_recv_queue (sk (departed e)) = app_recv_queue (sk e)" "app_recv_queue (sk (arrived pk e)) = app_recv_queue (sk e)"
  by (simp_all add: departed_def arrived_def with_sk_def)

lemma carry_inflight:
  "net_sent (sk a) \<noteq> [] \<Longrightarrow> inflight (departed a) (arrived (hd (net_sent (sk a))) b) = inflight a b"
  "inflight (arrived pk b) (departed a) = inflight b a"
  by (simp_all add: inflight_def departed_def arrived_def with_sk_def mysock_enqueue_buffer_def)

lemma carry_tidy:
  assumes "net_sent (sk a) \<noteq> []"
  shows "acks (departed a) (arrived (hd (net_sent (sk a))) b) = acks a b"
    and "acks (arrived (hd (net_sent (sk a))) b) (departed a) = acks b a"
    and "settled (departed a) = settled a" and "settled (arrived pk b) = settled b"
  unfolding acks_def carry_inflight(1) [OF assms] carry_inflight(2)
  by (simp_all add: settled_def departed_def arrived_def with_sk_def)

lemma carry_flows:
  assumes "net_sent (sk a) \<noteq> []"
  shows "flows (departed a) (arrived (hd (net_sent (sk a))) b) = flows a b"
    and "flows (arrived (hd (net_sent (sk a))) b) (departed a) = flows b a"
  unfolding flows_def carry_inflight(1) [OF assms] carry_inflight(2)
  by (simp_all add: departed_def arrived_def with_sk_def)

lemma link_step_inv: "link_step m l l' \<Longrightarrow> link_inv m l \<Longrightarrow> link_inv m l'"
proof (induction rule: link_step.induct)
  case (active_end a a' b)
  then show ?case by (rule active_end_inv)
next
  case (passive_end b b' a)
  then show ?case by (rule passive_end_inv)
next
  case (carry_out a b)
  then show ?case
    by (simp add: link_inv_def syn_sent_def syn_received_def half_open_def carry_ends carry_inflight carry_flows carry_tidy)
next
  case (carry_back b a)
  then show ?case
    by (simp add: link_inv_def syn_sent_def syn_received_def half_open_def carry_ends carry_inflight carry_flows carry_tidy)
qed

lemma connection_inv: "connection m l \<Longrightarrow> link_inv m l"
proof (induction rule: connection.induct)
  case (start ma mb ra ta rb tb)
  then show ?case by (rule connection_start)
next
  case (step l l')
  then show ?case by (blast intro: link_step_inv)
qed

section \<open>What applications get\<close>

lemma flows_prefix: "flows a b \<Longrightarrow> \<exists>rest. wrote a = got b @ rest"
  unfolding flows_def by auto

lemma flows_finished:
  assumes "flows a b" and "fin_received (cx b)"
  shows "wrote a = got b @ concat (app_send_queue (sk b)) \<and> closed a"
  using assms chain_fin unfolding flows_def by fastforce

lemma eof_finished:
  assumes "running m b" and "eof (sk b)"
  shows "fin_received (cx b) \<and> concat (app_send_queue (sk b)) = []"
  using assms unfolding running_def app_queue_ok_def by auto

text \<open>In every state: before set-up is complete nothing was written or read.\<close>

lemma connection_ends:
  assumes "connection m (a, b)"
  shows "(waiting a \<or> running m a) \<and> (waiting b \<or> running m b)
       \<and> (flows a b \<and> flows b a \<or> waiting a \<and> waiting b)"
  using connection_inv [OF assms]
  by (auto simp: link_inv_def syn_sent_def syn_received_def half_open_def)

section \<open>Set-up completes\<close>

text \<open>A packet in flight can be brought to the queue of the receiver.\<close>

definition same_link :: "nat \<Rightarrow> endpoint \<times> endpoint \<Rightarrow> endpoint \<times> endpoint \<Rightarrow> bool" where
  "same_link m l l' = (case l of (a, b) \<Rightarrow> case l' of (a', b') \<Rightarrow>
     syn_sent a' b' = syn_sent a b \<and> syn_received a' b' = syn_received a b \<and> half_open m a' b' = half_open m a b
     \<and> network_state (sk a') = network_state (sk a) \<and> network_state (sk b') = network_state (sk b)
     \<and> cx a' = cx a \<and> cx b' = cx b \<and> pc (thr a') = pc (thr a) \<and> pc (thr b') = pc (thr b)
     \<and> inflight a' b' = inflight a b \<and> inflight b' a' = inflight b a
     \<and> app_recv_queue (sk a') = app_recv_queue (sk a) \<and> app_recv_queue (sk b') = app_recv_queue (sk b)
     \<and> closed a' = closed a \<and> closed b' = closed b)"

lemmas same_link_simps = same_link_def syn_sent_def syn_received_def half_open_def carry_ends carry_inflight carry_flows

lemma bring_out:
  assumes "inflight a b \<noteq> []"
  obtains a' b' where "(link_step m)\<^sup>*\<^sup>* (a, b) (a', b')" and "network_recv_queue (sk b') \<noteq> []"
    and "same_link m (a, b) (a', b')"
proof (cases "network_recv_queue (sk b) = []")
  case True
  with assms have n: "net_sent (sk a) \<noteq> []" by (simp add: inflight_def)
  then have "link_step m (a, b) (departed a, arrived (hd (net_sent (sk a))) b)" by (rule link_step.carry_out)
  moreover have "network_recv_queue (sk (arrived (hd (net_sent (sk a))) b)) \<noteq> []"
    by (simp add: arrived_def with_sk_def mysock_enqueue_buffer_def)
  moreover have "same_link m (a, b) (departed a, arrived (hd (net_sent (sk a))) b)"
    using n by (simp add: same_link_simps)
  ultimately show ?thesis using that r_into_rtranclp by metis
next
  case False
  then show ?thesis using that [of a b] by (simp add: same_link_def)
qed

lemma bring_back:
  assumes "inflight b a \<noteq> []"
  obtains a' b' where "(link_step m)\<^sup>*\<^sup>* (a, b) (a', b')" and "network_recv_queue (sk a') \<noteq> []"
    and "same_link m (a, b) (a', b')"
proof (cases "network_recv_queue (sk a) = []")
  case True
  with assms have n: "net_sent (sk b) \<noteq> []" by (simp add: inflight_def)
  then have "link_step m (a, b) (arrived (hd (net_sent (sk b))) a, departed b)" by (rule link_step.carry_back)
  moreover have "network_recv_queue (sk (arrived (hd (net_sent (sk b))) a)) \<noteq> []"
    by (simp add: arrived_def with_sk_def mysock_enqueue_buffer_def)
  moreover have "same_link m (a, b) (arrived (hd (net_sent (sk b))) a, departed b)"
    using n by (simp add: same_link_simps)
  ultimately show ?thesis using that r_into_rtranclp by metis
next
  case False
  then show ?thesis using that [of a b] by (simp add: same_link_def)
qed

lemma then_active: "(link_step m)\<^sup>*\<^sup>* l (a, b) \<Longrightarrow> transport_step (thr a) = Inr (Some t) \<Longrightarrow> (link_step m)\<^sup>*\<^sup>* l (a\<lparr>thr := t\<rparr>, b)"
  by (blast intro: rtranclp.rtrancl_into_rtrancl link_step.active_end end_step.thread)

lemma then_passive: "(link_step m)\<^sup>*\<^sup>* l (a, b) \<Longrightarrow> transport_step (thr b) = Inr (Some t) \<Longrightarrow> (link_step m)\<^sup>*\<^sup>* l (a, b\<lparr>thr := t\<rparr>)"
  by (blast intro: rtranclp.rtrancl_into_rtrancl link_step.passive_end end_step.thread)

lemma syn_sent_completes:
  assumes "syn_sent a b" and "peers (network_state (sk a)) (network_state (sk b))"
  obtains a' b' where "(link_step m)\<^sup>*\<^sup>* (a, b) (a', b')" and "syn_received a' b'"
    and "peers (network_state (sk a')) (network_state (sk b'))"
proof -
  have "inflight a b \<noteq> []" using assms(1) by (auto simp: syn_sent_def)
  then obtain a1 b1 where r: "(link_step m)\<^sup>*\<^sup>* (a, b) (a1, b1)" "network_recv_queue (sk b1) \<noteq> []" "same_link m (a, b) (a1, b1)"
    by (rule bring_out)
  then have "syn_sent a1 b1" and p: "peers (network_state (sk a1)) (network_state (sk b1))"
    using assms by (simp_all add: same_link_def)
  then obtain t where "transport_step (thr b1) = Inr (Some t)" "syn_received a1 (b1\<lparr>thr := t\<rparr>)"
      "network_state (msock t) = network_state (sk b1)"
    using r(2) by (auto elim: syn_sent_passive)
  then show ?thesis using that then_passive [OF r(1)] p by simp
qed

lemma syn_received_completes:
  assumes "syn_received a b" and "peers (network_state (sk a)) (network_state (sk b))"
  obtains a' b' where "(link_step m)\<^sup>*\<^sup>* (a, b) (a', b')" and "half_open m a' b'"
    and "peers (network_state (sk a')) (network_state (sk b'))" and "pc (thr a') = Control_loop"
    and "connection_state (cx a') = CSTATE_ESTABLISHED" and "inflight b' a' = []" and "length (inflight a' b') = 1"
    and "app_recv_queue (sk a') = []" and "\<not> closed a'"
proof -
  have "inflight b a \<noteq> []" using assms(1) by (auto simp: syn_received_def)
  then obtain a1 b1 where r: "(link_step m)\<^sup>*\<^sup>* (a, b) (a1, b1)" "network_recv_queue (sk a1) \<noteq> []" "same_link m (a, b) (a1, b1)"
    by (rule bring_back)
  then have s: "syn_received a1 b1" and p: "peers (network_state (sk a1)) (network_state (sk b1))"
    using assms by (simp_all add: same_link_def)
  obtain t where "transport_step (thr a1) = Inr (Some t)" "half_open m (a1\<lparr>thr := t\<rparr>) b1"
      "network_state (msock t) = network_state (sk a1)" "pc t = Control_loop"
      "connection_state (tctx t) = CSTATE_ESTABLISHED" "inflight b1 (a1\<lparr>thr := t\<rparr>) = []" "length (inflight (a1\<lparr>thr := t\<rparr>) b1) = 1"
      "app_recv_queue (msock t) = []"
    using r(2) by (auto intro: syn_received_active [OF s peers_sym [OF p], where m = m])
  moreover have "\<not> closed a1" using s by (simp add: syn_received_def waiting_def)
  ultimately show ?thesis using that [of "a1\<lparr>thr := t\<rparr>" b1] then_active [OF r(1)] p by simp
qed

lemma half_open_completes:
  assumes "half_open m a b" and "peers (network_state (sk a)) (network_state (sk b))"
  obtains a' b' where "(link_step m)\<^sup>*\<^sup>* (a, b) (a', b')" and "running m a'" and "running m b'"
    and "flows a' b'" and "flows b' a'" and "cx a' = cx a" and "pc (thr a') = pc (thr a)" and "pc (thr b') = Control_loop"
    and "connection_state (cx b') = CSTATE_ESTABLISHED" and "inflight b' a' = inflight b a" and "inflight a' b' = tl (inflight a b)"
    and "app_recv_queue (sk a') = app_recv_queue (sk a)" and "closed a' = closed a" and "app_recv_queue (sk b') = []" and "\<not> closed b'"
proof -
  have "inflight a b \<noteq> []" using assms(1) by (auto simp: half_open_def)
  then obtain a1 b1 where r: "(link_step m)\<^sup>*\<^sup>* (a, b) (a1, b1)" "network_recv_queue (sk b1) \<noteq> []" "same_link m (a, b) (a1, b1)"
    by (rule bring_out)
  then have s: "half_open m a1 b1" and p: "peers (network_state (sk a1)) (network_state (sk b1))"
    using assms by (simp_all add: same_link_def)
  obtain t where t: "transport_step (thr b1) = Inr (Some t)" "running m (b1\<lparr>thr := t\<rparr>)"
      "flows a1 (b1\<lparr>thr := t\<rparr>)" "flows (b1\<lparr>thr := t\<rparr>) a1" "pc t = Control_loop"
      "connection_state (tctx t) = CSTATE_ESTABLISHED"
      "network_recv_queue (msock t) = tl (network_recv_queue (sk b1))" "net_sent (msock t) = net_sent (sk b1)"
      "app_recv_queue (msock t) = []"
    using r(2) by (auto intro: half_open_passive [OF s p])
  have "inflight (b1\<lparr>thr := t\<rparr>) a1 = inflight b1 a1" "inflight a1 (b1\<lparr>thr := t\<rparr>) = tl (inflight a1 b1)"
    using t(7,8) r(2) by (simp_all add: inflight_def)
  then show ?thesis
    using that [of a1 "b1\<lparr>thr := t\<rparr>"] then_passive [OF r(1) t(1)] t s r(3) by (simp add: same_link_def half_open_def waiting_def)
qed

end
