(* ===== verification/Stcp_Live.thy ===== *)
theory Stcp_Live
  imports Stcp_Link_Run
begin

text \<open>
  Tear-down comes to an end: once both applications have closed, every step lessens the work
  that is left, and when no step is possible both threads have returned.
\<close>

section \<open>Runs after both ends are closed\<close>

lemma closed_up:
  assumes "link_inv m (a, b)" and "closed a" and "closed b"
  shows "running m a" "running m b" "flows a b" "flows b a" "acks a b" "acks b a" "settled a" "settled b"
  using assms by (auto simp: link_inv_def syn_sent_def syn_received_def half_open_def waiting_def)

lemma work_carry:
  assumes "net_sent (sk a) \<noteq> []"
  shows "cost (thr (departed a)) + cost (thr (arrived (hd (net_sent (sk a))) b)) < cost (thr a) + cost (thr b)"
  using assms
  by (cases "net_sent (sk a)") (simp_all add: cost_def departed_def arrived_def with_sk_def mysock_enqueue_buffer_def)

definition both_closed :: "endpoint \<times> endpoint \<Rightarrow> bool" where
  "both_closed l \<longleftrightarrow> closed (fst l) \<and> closed (snd l)"

definition streams :: "endpoint \<times> endpoint \<Rightarrow> bytes \<times> bytes \<times> bytes \<times> bytes" where
  "streams l = (wrote (fst l), got (fst l), wrote (snd l), got (snd l))"

lemma closed_end_step:
  assumes "end_step m e e'" and "closed e"
  obtains t where "transport_step (thr e) = Inr (Some t)" and "e' = e\<lparr>thr := t\<rparr>"
  using assms by (auto elim: end_step.cases)

lemma closed_step_work:
  assumes "link_step m l l'" and "link_inv m l" and "both_closed l"
  shows "work l' < work l \<and> both_closed l' \<and> streams l' = streams l"
  using assms(1)
proof cases
  case (active_end a a' b)
  have inv: "link_inv m (a, b)" and c: "closed a" "closed b"
    using assms(2,3) active_end(1) by (simp_all add: both_closed_def)
  obtain t where "transport_step (thr a) = Inr (Some t)" "a' = a\<lparr>thr := t\<rparr>"
    using closed_end_step [OF active_end(3) c(1)] .
  then have "cost (thr a') < cost (thr a)" "closed a'" "wrote a' = wrote a" "got a' = got a"
    using closed_up(1) [OF inv c] c by (auto intro: active_thread [OF inv])
  then show ?thesis using active_end c by (simp add: work_def both_closed_def streams_def)
next
  case (passive_end b b' a)
  have inv: "link_inv m (a, b)" and c: "closed a" "closed b"
    using assms(2,3) passive_end(1) by (simp_all add: both_closed_def)
  obtain t where "transport_step (thr b) = Inr (Some t)" "b' = b\<lparr>thr := t\<rparr>"
    using closed_end_step [OF passive_end(3) c(2)] .
  then have "cost (thr b') < cost (thr b)" "closed b'" "wrote b' = wrote b" "got b' = got b"
    using closed_up(2) [OF inv c] c by (auto intro: passive_thread [OF inv])
  then show ?thesis using passive_end c by (simp add: work_def both_closed_def streams_def)
next
  case (carry_out a b)
  then show ?thesis using assms(3) work_carry [of a b] by (simp add: work_def both_closed_def streams_def)
next
  case (carry_back b a)
  then show ?thesis using assms(3) work_carry [of b a] by (simp add: work_def both_closed_def streams_def)
qed

lemma closed_run:
  assumes "(link_step m ^^ k) l l'" and "link_inv m l" and "both_closed l"
  shows "k + work l' \<le> work l \<and> link_inv m l' \<and> both_closed l' \<and> streams l' = streams l"
  using assms
proof (induction k arbitrary: l')
  case (Suc k)
  then obtain l1 where r: "(link_step m ^^ k) l l1" "link_step m l1 l'" by auto
  with Suc have "k + work l1 \<le> work l" "link_inv m l1" "both_closed l1" "streams l1 = streams l" by auto
  with closed_step_work [OF r(2)] link_step_inv [OF r(2)] show ?case by auto
qed simp

section \<open>At rest\<close>

text \<open>One end, when nothing is in flight to it and its peer has sent and got a FIN.\<close>

lemma end_at_rest:
  assumes "running m e" and "settled e" and "acks e p" and "flows p e" and "inflight p e = []"
    and "\<not> close_requested (sk e)" and "closed e" and "\<not> conn_done (cx e)"
    and "fin_sent (cx p)" and "fin_received (cx p)"
  shows False
proof -
  have t: "tear_ok (cx e)" using assms(1) by (simp add: running_def)
  have fs: "fin_sent (cx e)" using assms(2,6,7) by (simp add: settled_def)
  have fr: "fin_received (cx e)" using assms(4,5,9) by (simp add: flows_def)
  have "\<not> fin_acked (cx e)" using t fs fr assms(8) unfolding tear_ok_def by auto
  with assms(3,5,10) fs show False by (simp add: acks_def)
qed

lemma rest_cases:
  assumes "running m e" and "flows e p" and "flows p e" and "peers (network_state (sk p)) (network_state (sk e))"
    and "m \<le> 1072" and "\<And>t. transport_step (thr e) \<noteq> Inr (Some t)"
  shows "pc (thr e) = Returned \<or> network_recv_queue (sk e) = [] \<and> \<not> close_requested (sk e) \<and> \<not> conn_done (cx e)"
proof (rule running_step_cases [OF assms(1-4)], goal_cases)
  case (3 d)
  then have "length d \<le> m" using assms(1) by (simp add: running_def)
  with 3 assms(5) show ?case by simp
qed (use assms(6) in auto)

lemma at_rest:
  assumes "link_inv m (a, b)" and "closed a" and "closed b" and "m \<le> 1072" and "\<nexists>l. link_step m (a, b) l"
  shows "pc (thr a) = Returned \<and> pc (thr b) = Returned"
proof -
  note u = closed_up [OF assms(1-3)]
  have p: "peers (network_state (sk a)) (network_state (sk b))" using assms(1) by (simp add: link_inv_def)
  have ns: "net_sent (sk a) = []" "net_sent (sk b) = []" using assms(5) carry_out carry_back by blast+
  have ra: "pc (thr a) = Returned \<or> network_recv_queue (sk a) = [] \<and> \<not> close_requested (sk a) \<and> \<not> conn_done (cx a)"
    by (rule rest_cases [OF u(1,3,4) peers_sym [OF p] assms(4)]) (use assms(5) active_end end_step.thread in blast)
  have rb: "pc (thr b) = Returned \<or> network_recv_queue (sk b) = [] \<and> \<not> close_requested (sk b) \<and> \<not> conn_done (cx b)"
    by (rule rest_cases [OF u(2,4,3) p assms(4)]) (use assms(5) passive_end end_step.thread in blast)
  have ret: "fin_sent (cx e) \<and> fin_received (cx e)" if "running m e" "pc (thr e) = Returned" for e
    using that tear_ok_done by (auto simp: running_def)
  have fa: "fin_sent (cx a)" using ra ret [OF u(1)] u(7) assms(2) by (auto simp: settled_def)
  have fb: "fin_sent (cx b)" using rb ret [OF u(2)] u(8) assms(3) by (auto simp: settled_def)
  have ga: "fin_received (cx a)" using ra ret [OF u(1)] u(4) fb ns by (auto simp: flows_def inflight_def)
  have gb: "fin_received (cx b)" using rb ret [OF u(2)] u(3) fa ns by (auto simp: flows_def inflight_def)
  have "pc (thr a) = Returned"
    using end_at_rest [OF u(1,7,5,4)] ra ns assms(2) fb gb by (auto simp: inflight_def)
  moreover have "pc (thr b) = Returned"
    using end_at_rest [OF u(2,8,6,3)] rb ns assms(3) fa ga by (auto simp: inflight_def)
  ultimately show ?thesis by blast
qed

text \<open>What is delivered when a thread has returned.\<close>

lemma returned_delivered:
  assumes "running m b" and "flows a b" and "pc (thr b) = Returned"
  shows "wrote a = got b @ concat (app_send_queue (sk b)) \<and> closed a"
proof (rule flows_finished [OF assms(2)])
  show "fin_received (cx b)" using assms(1,3) tear_ok_done by (auto simp: running_def)
qed

lemma reaches_rest:
  assumes "link_inv m l" and "both_closed l"
  shows "\<exists>l'. (link_step m)\<^sup>*\<^sup>* l l' \<and> (\<nexists>l''. link_step m l' l'')"
  using assms
proof (induction "work l" arbitrary: l rule: less_induct)
  case less
  show ?case
  proof (cases "\<exists>l'. link_step m l l'")
    case True
    then obtain l' where l': "link_step m l l'" ..
    then obtain l'' where "(link_step m)\<^sup>*\<^sup>* l' l''" "\<nexists>l3. link_step m l'' l3"
      using less closed_step_work [OF l'] link_step_inv [OF l'] by metis
    then show ?thesis using l' by (meson converse_rtranclp_into_rtranclp)
  next
    case False
    then show ?thesis by blast
  qed
qed

section \<open>Set-up\<close>

lemma established_reachable:
  assumes "fresh ma" and "fresh mb" and "peers (network_state ma) (network_state mb)"
    and "transport_init ma ra True = Inr ta" and "transport_init mb rb False = Inr tb"
  shows "\<exists>a b. (link_step m)\<^sup>*\<^sup>* (new_end ta, new_end tb) (a, b)
     \<and> pc (thr a) = Control_loop \<and> pc (thr b) = Control_loop
     \<and> connection_state (cx a) = CSTATE_ESTABLISHED \<and> connection_state (cx b) = CSTATE_ESTABLISHED
     \<and> \<not> blocking (sk a) \<and> \<not> blocking (sk b)
     \<and> ack_num (cx a) = sequence_num (cx b) \<and> next_seq_expected (cx a) = sequence_num (cx b)
     \<and> ack_num (cx b) = sequence_num (cx a) \<and> next_seq_expected (cx b) = sequence_num (cx a)
     \<and> app_recv_queue (sk a) = [] \<and> app_recv_queue (sk b) = [] \<and> \<not> closed a \<and> \<not> closed b"
proof -
  have inv: "link_inv m (new_end ta, new_end tb)" using connection_start [OF assms] .
  have "pc (thr (new_end tb)) = Await_SYN" using assms(5) by (auto simp: transport_init_def new_end_def Let_def)
  with inv have s: "syn_sent (new_end ta) (new_end tb)"
    by (auto simp: link_inv_def syn_received_def half_open_def running_def)
  have p: "peers (network_state (sk (new_end ta))) (network_state (sk (new_end tb)))" using inv by (simp add: link_inv_def)
  obtain a1 b1 where r1: "(link_step m)\<^sup>*\<^sup>* (new_end ta, new_end tb) (a1, b1)" "syn_received a1 b1"
    "peers (network_state (sk a1)) (network_state (sk b1))"
    using syn_sent_completes [OF s p] .
  obtain a2 b2 where r2: "(link_step m)\<^sup>*\<^sup>* (a1, b1) (a2, b2)" "half_open m a2 b2"
    "peers (network_state (sk a2)) (network_state (sk b2))" "pc (thr a2) = Control_loop"
    "connection_state (cx a2) = CSTATE_ESTABLISHED" "inflight b2 a2 = []" "length (inflight a2 b2) = 1"
    "app_recv_queue (sk a2) = []" "\<not> closed a2"
    using syn_received_completes [OF r1(2,3)] .
  obtain a3 b3 where r3: "(link_step m)\<^sup>*\<^sup>* (a2, b2) (a3, b3)" "running m a3" "running m b3"
    "flows a3 b3" "flows b3 a3" "cx a3 = cx a2" "pc (thr a3) = pc (thr a2)" "pc (thr b3) = Control_loop"
    "connection_state (cx b3) = CSTATE_ESTABLISHED" "inflight b3 a3 = inflight b2 a2" "inflight a3 b3 = tl (inflight a2 b2)"
    "app_recv_queue (sk a3) = app_recv_queue (sk a2)" "closed a3 = closed a2" "app_recv_queue (sk b3) = []" "\<not> closed b3"
    using half_open_completes [OF r2(2,3)] .
  have e: "inflight a3 b3 = []" "inflight b3 a3 = []" using r3(10,11) r2(6,7) by (cases "inflight a2 b2"; simp)+
  have nf: "\<not> fin_received (cx a3)" "\<not> fin_received (cx b3)"
    using r3(2,3,6,9) r2(5) by (auto simp: running_def tear_ok_def)
  have "ack_num (cx b3) = sequence_num (cx a3) \<and> next_seq_expected (cx b3) = ack_num (cx b3)"
    using r3(4) e(1) nf(2) by (simp add: flows_def)
  moreover have "ack_num (cx a3) = sequence_num (cx b3) \<and> next_seq_expected (cx a3) = ack_num (cx a3)"
    using r3(5) e(2) nf(1) by (simp add: flows_def)
  moreover have "(link_step m)\<^sup>*\<^sup>* (new_end ta, new_end tb) (a3, b3)" using r1(1) r2(1) r3(1) by (meson rtranclp_trans)
  ultimately show ?thesis
    using r3(2,3,6-9,12-) r2(4,5,8,9) by (intro exI [of _ a3] exI [of _ b3]) (simp add: running_def)
qed

section \<open>Calls of an application\<close>

lemma dequeue_safe:
  assumes "\<forall>d \<in> set q. length d \<le> 2 * n"
  shows "safe (mysock_dequeue_buffer q n True)"
  using assms by (cases q) (auto simp: mysock_dequeue_buffer_def)

lemma app_calls_safe:
  assumes "running m e" and "\<not> closed e"
  shows "safe (mywrite (sk e) buf)" and "268 \<le> n \<Longrightarrow> safe (myread (sk e) n)"
proof -
  have r: "\<not> listening (sk e)" "\<not> close_requested (sk e)" using assms by (auto simp: running_def)
  show "safe (mywrite (sk e) buf)" using r by (simp add: mywrite_def)
  show "safe (myread (sk e) n)" if "268 \<le> n"
  proof -
    obtain ds k where "app_send_queue (sk e) = ds @ replicate k []" and l: "\<forall>d \<in> set ds. length d \<le> 536"
      using assms(1) unfolding running_def app_queue_ok_def by blast
    then have "\<forall>d \<in> set (app_send_queue (sk e)). length d \<le> 2 * n"
      using that by fastforce
    from dequeue_safe [OF this] show ?thesis
      using r by (cases "mysock_dequeue_buffer (app_send_queue (sk e)) n True") (simp_all add: myread_def)
  qed
qed

end
