(* ===== verification/Stcp_Claims.thy ===== *)
theory Stcp_Claims
  imports Stcp_Live
begin

text \<open>
  The properties of the transport layer: connection set-up, reliable delivery, tear-down, the
  checksum, and the cases in which the code departs from what it should do.  Two concrete hosts
  give an instance of each.
\<close>

section \<open>Two hosts\<close>

definition host_a :: network_context where
  "host_a = \<lparr>local_addr = 0x0100000a, local_port = 0x5000, peer_addr = 0x0200000a, peer_port = 0x5100,
     peer_is_inet = True, peer_addr_len = 16, peer_addr_valid = True,
     impl_data = \<lparr>recv_thread_started = True, socket = 4, new_socket = -1, connected = True\<rparr>\<rparr>"

definition host_b :: network_context where
  "host_b = \<lparr>local_addr = 0x0200000a, local_port = 0x5100, peer_addr = 0x0100000a, peer_port = 0x5000,
     peer_is_inet = True, peer_addr_len = 16, peer_addr_valid = True,
     impl_data = \<lparr>recv_thread_started = True, socket = 4, new_socket = -1, connected = True\<rparr>\<rparr>"

lemma hosts [simp]: "peers host_a host_b" "net_wf host_a" "net_wf host_b"
  by (simp_all add: peers_def net_wf_def host_a_def host_b_def)

abbreviation socket_a :: mysock_context where "socket_a \<equiv> mysock_allocate_context host_a"
abbreviation socket_b :: mysock_context where "socket_b \<equiv> mysock_allocate_context host_b"

lemma sockets [simp]: "fresh (mysock_allocate_context net)" "network_state (mysock_allocate_context net) = net"
  by (simp_all add: fresh_def mysock_allocate_context_def)

definition caller :: stcp_thread where "caller = (case transport_init socket_a 7 True of Inr t \<Rightarrow> t)"
definition callee :: stcp_thread where "callee = (case transport_init socket_b 9 False of Inr t \<Rightarrow> t)"

lemma callers: "transport_init socket_a 7 True = Inr caller" "transport_init socket_b 9 False = Inr callee"
  using transport_init_active [of socket_a 7]
  by (simp_all add: caller_def callee_def) (simp add: transport_init_def)

lemma connection_run: "(link_step m)\<^sup>*\<^sup>* l l' \<Longrightarrow> connection m l \<Longrightarrow> connection m l'"
  by (induction rule: rtranclp_induct) (auto intro: connection.step)

text \<open>A connection between them, set up, and one on which the caller has written.\<close>

lemma lab_start: "connection m (new_end caller, new_end callee)"
  by (rule connection.start [of socket_a socket_b 7 caller 9 callee]) (simp_all add: callers)

lemma lab_up:
  obtains a b where "connection m (a, b)" and "pc (thr a) = Control_loop" and "connection_state (cx a) = CSTATE_ESTABLISHED"
    and "\<not> blocking (sk a)" and "\<not> blocking (sk b)" and "app_recv_queue (sk a) = []" and "\<not> closed a" and "\<not> closed b"
proof -
  obtain a b where r: "(link_step m)\<^sup>*\<^sup>* (new_end caller, new_end callee) (a, b)"
    and s: "pc (thr a) = Control_loop" "connection_state (cx a) = CSTATE_ESTABLISHED"
    "\<not> blocking (sk a)" "\<not> blocking (sk b)" "app_recv_queue (sk a) = []" "\<not> closed a" "\<not> closed b"
    using established_reachable [of socket_a socket_b 7 caller 9 callee m] callers by auto
  show thesis using that [OF connection_run [OF r lab_start] s] .
qed

lemma unblocked_ends:
  assumes "connection m (a, b)" and "\<not> blocking (sk a)"
  shows "running m a" and "flows a b" and "flows b a"
  using connection_inv [OF assms(1)] assms(2)
  by (auto simp: link_inv_def syn_sent_def syn_received_def half_open_def waiting_def)

lemma lab_written:
  assumes "length buf \<le> m"
  obtains a b where "connection m (a, b)" and "pc (thr a) = Control_loop" and "connection_state (cx a) = CSTATE_ESTABLISHED"
    and "\<not> blocking (sk a)" and "\<not> blocking (sk b)" and "app_recv_queue (sk a) = [buf]" and "\<not> closed a" and "\<not> closed b"
    and "\<exists>w. wrote a = w @ buf"
proof -
  obtain a b where c: "connection m (a, b)" "pc (thr a) = Control_loop" "connection_state (cx a) = CSTATE_ESTABLISHED"
    "\<not> blocking (sk a)" "\<not> blocking (sk b)" "app_recv_queue (sk a) = []" "\<not> closed a" "\<not> closed b"
    by (rule lab_up)
  let ?ms = "(sk a)\<lparr>app_recv_queue := [buf]\<rparr>"
  let ?a = "(with_sk a ?ms)\<lparr>wrote := wrote a @ buf\<rparr>"
  have r: "running m a" by (rule unblocked_ends [OF c(1,4)])
  have "mywrite (sk a) buf = Inr (Inr (int (length buf)), ?ms)"
    using r c(6,7) by (auto simp: mywrite_def running_def mysock_enqueue_buffer_def)
  then have "end_step m a ?a" using c(4,7) assms by (intro end_step.app_write)
  then have "connection m (?a, b)" using c(1) by (blast intro: connection.step link_step.active_end)
  then show thesis using that [of ?a b] c by (simp add: with_sk_def)
qed

lemma lab_closed:
  assumes "length buf \<le> m"
  obtains a b where "connection m (a, b)" and "closed a" and "closed b" and "\<exists>w. wrote a = w @ buf"
proof -
  obtain a b where c: "connection m (a, b)" "\<not> blocking (sk a)" "\<not> blocking (sk b)" "\<not> closed a" "\<not> closed b"
    "\<exists>w. wrote a = w @ buf"
    by (rule lab_written [OF assms]) (use that in blast)
  let ?a = "(with_sk a (myclose_request (sk a)))\<lparr>closed := True\<rparr>"
  let ?b = "(with_sk b (myclose_request (sk b)))\<lparr>closed := True\<rparr>"
  have "connection m (?a, b)"
    using c by (blast intro: connection.step link_step.active_end end_step.app_close)
  then have "connection m (?a, ?b)"
    using c by (blast intro: connection.step link_step.passive_end end_step.app_close)
  then show thesis using that [of ?a ?b] c(6) by (simp add: with_sk_def)
qed

section \<open>Set-up\<close>

text \<open>
  C11: The three-way handshake completes.  From the state in which one end has sent its SYN and the
  other has started to listen, a run leads both ends to the established state, with both
  applications unblocked, and each end expects exactly the sequence number that the other will
  use next.
\<close>

theorem handshake_completes:
  assumes "fresh ma" and "fresh mb" and "peers (network_state ma) (network_state mb)"
    and "transport_init ma ra True = Inr ta" and "transport_init mb rb False = Inr tb"
  shows "\<exists>a b. (link_step m)\<^sup>*\<^sup>* (new_end ta, new_end tb) (a, b)
     \<and> pc (thr a) = Control_loop \<and> pc (thr b) = Control_loop
     \<and> connection_state (cx a) = CSTATE_ESTABLISHED \<and> connection_state (cx b) = CSTATE_ESTABLISHED
     \<and> \<not> blocking (sk a) \<and> \<not> blocking (sk b)
     \<and> ack_num (cx a) = sequence_num (cx b) \<and> next_seq_expected (cx a) = sequence_num (cx b)
     \<and> ack_num (cx b) = sequence_num (cx a) \<and> next_seq_expected (cx b) = sequence_num (cx a)"
  using established_reachable [OF assms, of m] by blast

theorem handshake_completes_witness:
  "\<exists>a b. (link_step 536)\<^sup>*\<^sup>* (new_end caller, new_end callee) (a, b)
     \<and> connection_state (cx a) = CSTATE_ESTABLISHED \<and> connection_state (cx b) = CSTATE_ESTABLISHED
     \<and> ack_num (cx a) = sequence_num (cx b) \<and> ack_num (cx b) = sequence_num (cx a)"
  using handshake_completes [of socket_a socket_b 7 caller 9 callee 536] callers by simp blast

section \<open>Delivery\<close>

text \<open>
  C9: Reliable delivery.  In every state of a connection, whatever the interleaving of the two
  threads, the applications and the network, what an application has read is a prefix of what
  the other has written; and once a read has reported the end of file it is all of it, and
  the writer has closed.
\<close>

theorem stream_delivered:
  assumes "connection m (a, b)"
  shows "(\<exists>rest. wrote a = got b @ rest) \<and> (\<exists>rest. wrote b = got a @ rest)
     \<and> (eof (sk b) \<longrightarrow> got b = wrote a \<and> closed a) \<and> (eof (sk a) \<longrightarrow> got a = wrote b \<and> closed b)"
proof -
  have e: "(waiting a \<or> running m a) \<and> (waiting b \<or> running m b)" and f: "flows a b \<and> flows b a \<or> waiting a \<and> waiting b"
    using connection_ends [OF assms] by blast+
  show ?thesis
  proof (cases "flows a b \<and> flows b a")
    case True
    have fin: "got y = wrote x \<and> closed x" if "flows x y" "waiting y \<or> running m y" "eof (sk y)" for x y
      using that eof_finished [of m y] flows_finished [of x y] by (auto simp: waiting_def)
    show ?thesis using True flows_prefix [of a b] flows_prefix [of b a] fin [of a b] fin [of b a] e by blast
  next
    case False
    then have "waiting a" "waiting b" using f by blast+
    then show ?thesis by (simp add: waiting_def)
  qed
qed

theorem stream_delivered_witness:
  "\<exists>a b. connection 536 (a, b) \<and> wrote a \<noteq> [] \<and> (\<exists>rest. wrote a = got b @ rest) \<and> (\<exists>rest. wrote b = got a @ rest)"
proof -
  obtain a b where c: "connection 536 (a, b)" "\<exists>w. wrote a = w @ [1, 2, 3]"
    by (rule lab_closed [of "[1, 2, 3]" 536]) simp_all
  from c(2) have "wrote a \<noteq> []" by auto
  then show ?thesis using stream_delivered [OF c(1)] c(1) by blast
qed



section \<open>Tear-down\<close>

text \<open>
  C10: The tear-down always completes.  When both applications have closed, every run of threads and
  network has at most as many steps as there is work left; and in a state in which nothing
  more can happen both transport threads have returned, and all that each application wrote
  has been handed to the other.
\<close>

theorem close_completes:
  assumes "connection m (a, b)" and "m \<le> 1072" and "closed a" and "closed b"
    and "(link_step m ^^ k) (a, b) (a', b')"
  shows "k \<le> work (a, b) \<and> wrote a' = wrote a \<and> wrote b' = wrote b \<and>
     ((\<nexists>l. link_step m (a', b') l) \<longrightarrow>
        pc (thr a') = Returned \<and> pc (thr b') = Returned
        \<and> wrote a = got b' @ concat (app_send_queue (sk b')) \<and> wrote b = got a' @ concat (app_send_queue (sk a')))"
proof -
  have "both_closed (a, b)" using assms(3,4) by (simp add: both_closed_def)
  then have r: "k + work (a', b') \<le> work (a, b)" "link_inv m (a', b')" "both_closed (a', b')" "streams (a', b') = streams (a, b)"
    using closed_run [OF assms(5) connection_inv [OF assms(1)]] by blast+
  have c: "closed a'" "closed b'" and w: "wrote a' = wrote a" "wrote b' = wrote b"
    using r(3,4) by (simp_all add: both_closed_def streams_def)
  have "pc (thr a') = Returned \<and> pc (thr b') = Returned
        \<and> wrote a = got b' @ concat (app_send_queue (sk b')) \<and> wrote b = got a' @ concat (app_send_queue (sk a'))"
    if "\<nexists>l. link_step m (a', b') l"
    using at_rest [OF r(2) c assms(2) that] closed_up [OF r(2) c] returned_delivered w by metis
  then show ?thesis using r(1) w by simp
qed

theorem close_completes_witness:
  "\<exists>a b a' b'. connection 1072 (a, b) \<and> (link_step 1072)\<^sup>*\<^sup>* (a, b) (a', b') \<and> wrote a \<noteq> []
     \<and> pc (thr a') = Returned \<and> pc (thr b') = Returned \<and> wrote a = got b' @ concat (app_send_queue (sk b'))"
proof -
  obtain a b where c: "connection 1072 (a, b)" "closed a" "closed b" "\<exists>w. wrote a = w @ [1, 2, 3]"
    by (rule lab_closed [of "[1, 2, 3]" 1072]) simp_all
  obtain a' b' where r: "(link_step 1072)\<^sup>*\<^sup>* (a, b) (a', b')" "\<nexists>l. link_step 1072 (a', b') l"
    using reaches_rest [OF connection_inv [OF c(1)]] c(2,3) by (auto simp: both_closed_def)
  then obtain k where "(link_step 1072 ^^ k) (a, b) (a', b')" by (auto simp: rtranclp_power)
  moreover have "wrote a \<noteq> []" using c(4) by auto
  ultimately show ?thesis using close_completes [OF c(1) order_refl c(2,3)] r c(1) by blast
qed

section \<open>Segments\<close>

text \<open>
  Data that do not start at the sequence number expected are not delivered: the queue for the
  application and the numbers expected stay as they are, and one acknowledgement with the number
  that is expected goes out.
\<close>

theorem out_of_order_dropped:
  assumes "net_wf (network_state (msock t))" and "flags AND TH_FIN = 0" and "data \<noteq> []" and "length data \<le> 536"
    and "sequence_num c \<noteq> ack_num (tctx t)"
  shows "\<exists>t' c'. handle_segment t (segment net c data flags) = Inr t'
     \<and> app_send_queue (msock t') = app_send_queue (msock t)
     \<and> ack_num (tctx t') = ack_num (tctx t) \<and> next_seq_expected (tctx t') = next_seq_expected (tctx t)
     \<and> net_sent (msock t') = net_sent (msock t) @ [segment (network_state (msock t)) c' [] TH_ACK]
     \<and> ack_num c' = ack_num (tctx t)"
proof -
  let ?t = "heard t (recv_window_size c - recv_buffer_used c) flags (ack_num c)"
  have f: "msock ?t = msock t" "ack_num (tctx ?t) = ack_num (tctx t)" "next_seq_expected (tctx ?t) = next_seq_expected (tctx t)"
    by (simp_all add: heard_def Let_def)
  have "handle_segment t (segment net c data flags) = Inr (ack_out ?t)"
    unfolding handle_segment_plain [OF assms(2)]
    by (rule handle_data_out_of_order) (use assms f in simp_all)
  then show ?thesis using f by (intro exI [of _ "ack_out ?t"] exI [of _ "tctx ?t"]) (simp add: ack_out_def)
qed

theorem out_of_order_dropped_witness:
  "\<exists>t'. handle_segment callee (segment host_a ((initial_context 5)\<lparr>sequence_num := 77\<rparr>) [1, 2] TH_ACK) = Inr t'
     \<and> app_send_queue (msock t') = [] \<and> length (net_sent (msock t')) = 1"
proof -
  have c: "network_state (msock callee) = host_b" "ack_num (tctx callee) = 0" "app_send_queue (msock callee) = []"
    "net_sent (msock callee) = []"
    by (simp_all add: callee_def transport_init_def Let_def initial_context_def mysock_allocate_context_def)
  have "\<exists>t' c'. handle_segment callee (segment host_a ((initial_context 5)\<lparr>sequence_num := 77\<rparr>) [1, 2] TH_ACK) = Inr t'
     \<and> app_send_queue (msock t') = app_send_queue (msock callee)
     \<and> ack_num (tctx t') = ack_num (tctx callee) \<and> next_seq_expected (tctx t') = next_seq_expected (tctx callee)
     \<and> net_sent (msock t') = net_sent (msock callee) @ [segment (network_state (msock callee)) c' [] TH_ACK]
     \<and> ack_num c' = ack_num (tctx callee)"
    by (rule out_of_order_dropped) (simp_all add: c)
  then show ?thesis using c by auto
qed

text \<open>
  A FIN that carries data loses them.  The number acknowledged is the one after the first byte
  of the segment, so its data then count as out of order: only the end mark reaches the
  application, even if the segment is the one that was expected.
\<close>

theorem fin_data_dropped:
  assumes "net_wf (network_state (msock t))" and "flags AND TH_FIN \<noteq> 0" and "data \<noteq> []" and "length data \<le> 536"
    and "sequence_num c = ack_num (tctx t)"
  shows "\<exists>t'. handle_segment t (segment net c data flags) = Inr t'
     \<and> app_send_queue (msock t') = app_send_queue (msock t) @ [[]] \<and> fin_received (tctx t')
     \<and> ack_num (tctx t') = sequence_num c + 1"
proof -
  let ?w = "t\<lparr>tctx := (tctx t)\<lparr>peer_window_size := recv_window_size c - recv_buffer_used c\<rparr>\<rparr>"
  let ?t = "heard_ack (after_fin ?w (sequence_num c)) flags (ack_num c)"
  have f: "network_state (msock ?t) = network_state (msock t)" "ack_num (tctx ?t) = sequence_num c + 1"
    "app_send_queue (msock ?t) = app_send_queue (msock t) @ [[]]" "fin_received (tctx ?t)"
    by (simp_all add: heard_ack_def after_fin_def ack_out_def Let_def)
  have "sequence_num c \<noteq> sequence_num c + 1" by simp
  then have "handle_data ?t (segment net c data flags) (sequence_num c) = Inr (ack_out ?t)"
    by (intro handle_data_out_of_order) (use assms f in simp_all)
  moreover have "handle_segment t (segment net c data flags) = handle_data ?t (segment net c data flags) (sequence_num c)"
    using assms(1,2) handle_fin_after [of ?w "sequence_num c"]
    by (simp add: handle_segment_def segment_fields heard_ack_def Let_def)
  ultimately show ?thesis using f by (intro exI [of _ "ack_out ?t"]) (simp add: ack_out_def)
qed

theorem fin_data_dropped_witness:
  "\<exists>t'. handle_segment callee (segment host_a ((initial_context 5)\<lparr>sequence_num := 0\<rparr>) [1, 2] (TH_FIN OR TH_ACK)) = Inr t'
     \<and> app_send_queue (msock t') = [[]]"
proof -
  have c: "network_state (msock callee) = host_b" "ack_num (tctx callee) = 0" "app_send_queue (msock callee) = []"
    by (simp_all add: callee_def transport_init_def Let_def initial_context_def mysock_allocate_context_def)
  have "\<exists>t'. handle_segment callee (segment host_a ((initial_context 5)\<lparr>sequence_num := 0\<rparr>) [1, 2] (TH_FIN OR TH_ACK)) = Inr t'
     \<and> app_send_queue (msock t') = app_send_queue (msock callee) @ [[]] \<and> fin_received (tctx t')
     \<and> ack_num (tctx t') = sequence_num ((initial_context 5)\<lparr>sequence_num := 0\<rparr>) + 1"
    by (rule fin_data_dropped) (simp_all add: c)
  then show ?thesis using c by auto
qed

section \<open>Sending\<close>

text \<open>
  The window of the receiver does not limit the sender.  In every state of a connection, however
  many bytes have been sent and not acknowledged, the control loop may send a full segment.
\<close>

theorem window_not_enforced:
  assumes "connection m (a, b)" and "\<not> blocking (sk a)"
  shows "max_to_send (cx a) = STCP_MSS"
  using unblocked_ends(1) [OF assms] max_to_send_mss by (simp add: running_def)

theorem window_not_enforced_witness:
  "\<exists>a b. connection 1072 (a, b) \<and> max_to_send (cx a) = 536"
proof -
  obtain a b where c: "connection 1072 (a, b)" "\<not> blocking (sk a)"
    by (rule lab_up [of 1072]) auto
  then show ?thesis using window_not_enforced [OF c] by blast
qed

text \<open>
  C35: A write of more than 1072 bytes makes the transport thread copy the rest of the buffer onto
  an overlapping region, which is undefined.
\<close>

theorem long_write_faults:
  assumes "connection m (a, b)" and "pc (thr a) = Control_loop" and "\<not> conn_done (cx a)"
    and "app_recv_queue (sk a) = d # q" and "1072 < length d"
  shows "transport_step (thr a) = Inl OverlappingCopy"
proof -
  have inv: "link_inv m (a, b)" by (rule connection_inv [OF assms(1)])
  have r: "running m a"
    using inv assms(2) by (auto simp: link_inv_def syn_sent_def syn_received_def half_open_def)
  have wf: "net_wf (network_state (sk a))" using inv net_wf_peers by (auto simp: link_inv_def)
  let ?t = "(thr a)\<lparr>msock := (sk a)\<lparr>close_requested := close_requested (sk a)\<rparr>\<rparr>"
  have "handle_app_data ?t = Inl OverlappingCopy"
    using handle_app_data_push [of ?t] wf r max_to_send_mss assms(4,5) by (simp add: running_def queue_get_Some)
  then show ?thesis
    using assms(2-4) by (simp add: transport_step_def control_iteration_def wait_any)
qed

theorem long_write_faults_witness:
  "\<exists>a b. connection 2000 (a, b) \<and> transport_step (thr a) = Inl OverlappingCopy"
proof -
  have l: "length (replicate 2000 (0 :: u8)) \<le> 2000" by simp
  obtain a b where c: "connection 2000 (a, b)" "pc (thr a) = Control_loop" "connection_state (cx a) = CSTATE_ESTABLISHED"
    "\<not> blocking (sk a)" "app_recv_queue (sk a) = [replicate 2000 0]"
    by (rule lab_written [OF l]) auto
  have "\<not> conn_done (cx a)" using unblocked_ends(1) [OF c(1,4)] c(3) by (auto simp: running_def tear_ok_def)
  from long_write_faults [OF c(1,2) this c(5)] c(1) show ?thesis by auto
qed

section \<open>The checksum\<close>

text \<open>
  C33: A segment is accepted exactly if its pseudo header and contents sum to zero in one's complement
  arithmetic, as RFC 793 asks, and its checksum field is not the other zero (0xffff), which the
  routine never produces.
\<close>

theorem checksum_accepts:
  assumes "20 \<le> length packet" and "length packet \<le> 65000" and "net_wf net"
  shows "mysock_verify_checksum net packet
     = Inr (tcp_sum_ok (peer_addr net) (local_addr net) packet \<and> th_sum (tcphdr_at packet) \<noteq> 0xffff)"
  by (rule verify_checksum_iff [OF assms])

theorem checksum_accepts_witness:
  "mysock_verify_checksum host_b (replicate 20 0)
     = Inr (tcp_sum_ok (peer_addr host_b) (local_addr host_b) (replicate 20 0)
            \<and> th_sum (tcphdr_at (replicate 20 0)) \<noteq> 0xffff)"
  using checksum_accepts [of "replicate 20 0" host_b] by simp

text \<open>A segment whose checksum one end has set is accepted by the other.\<close>

theorem checksum_round_trip:
  assumes "20 \<le> length packet" and "length packet \<le> 65000" and "peers a b"
  shows "bindR (mysock_set_checksum a packet) (mysock_verify_checksum b) = Inr True"
  using set_checksum_value [OF assms(1,2), of a] verify_summed [OF assms] assms(3) by (simp add: peers_def)

theorem checksum_round_trip_witness:
  "bindR (mysock_set_checksum host_a (replicate 21 1)) (mysock_verify_checksum host_b) = Inr True"
  using checksum_round_trip [of "replicate 21 1" host_a host_b] by simp

section \<open>Descriptors\<close>

text \<open>
  C37: A new mysocket gets a descriptor that no socket had, refers to a fresh blocked context under
  it, and leaves every other socket alone; it is refused exactly when all 64 descriptors are in
  use.
\<close>

theorem new_descriptor:
  assumes "descriptors_wf tbl"
  shows "(case mysock_new_mysocket tbl net of
      (Inr sd, tbl') \<Rightarrow> \<not> safe (mysock_get_context tbl sd) \<and> descriptors_wf tbl'
         \<and> mysock_get_context tbl' sd = Inr ((mysock_allocate_context net)\<lparr>my_sd := sd\<rparr>)
         \<and> (\<forall>sd'. sd' \<noteq> sd \<longrightarrow> mysock_get_context tbl' sd' = mysock_get_context tbl sd')
    | (Inl err, tbl') \<Rightarrow> err = EMFILE \<and> tbl' = tbl \<and> None \<notin> set tbl)"
proof (cases "mysock_new_mysocket tbl net")
  case (Pair r tbl')
  show ?thesis
  proof (cases r)
    case (Inl err)
    then show ?thesis
      using Pair free_descriptor_full [of tbl] free_descriptor_le [of tbl]
      by (auto simp: mysock_new_mysocket_def Let_def split: if_splits)
  next
    case (Inr sd)
    then show ?thesis
      using Pair new_mysocket_spec [OF assms, of net sd tbl'] new_mysocket_wf [OF assms, of net] by simp
  qed
qed

theorem new_descriptor_witness:
  "\<exists>tbl'. mysock_new_mysocket (replicate 64 None) host_a = (Inr 0, tbl')
     \<and> mysock_get_context tbl' 0 = Inr ((mysock_allocate_context host_a)\<lparr>my_sd := 0\<rparr>)"
proof -
  have "descriptors_wf (replicate 64 None)" by (simp add: descriptors_wf_def)
  moreover have "fst (mysock_new_mysocket (replicate 64 None) host_a) = Inr 0"
    by (simp add: mysock_new_mysocket_def numeral_eq_Suc)
  ultimately show ?thesis
    using new_descriptor [of "replicate 64 None" host_a]
    by (cases "mysock_new_mysocket (replicate 64 None) host_a") simp
qed

end
