(* ===== verification/Mysock_Hash.thy ===== *)
theory Mysock_Hash
  imports Mysock "HOL-Library.Signed_Division"
begin

text \<open>
  The chained hash table of \<^verbatim>\<open>mysock_hash.h\<close>, as \<open>HASH_TABLE_DECLARE\<close> instantiates it for the table of
  listening sockets: 64 chains, keys of type \<open>int\<close> (mysocket descriptors), the default hash
  function \<open>key % size\<close> and the default equality.  Chains are lists, their head first.
\<close>

section \<open>The table\<close>

type_synonym 'v hash_table = "(int \<times> 'v) list list"

definition hash_empty :: "'v hash_table" where
  "hash_empty = replicate MAX_NUM_CONNECTIONS []"

text \<open>
  The remainder has the sign of the key and is stored in an unsigned integer, so that of a
  negative key is either 0 or out of range.
\<close>

definition HASH_DEFAULT_HASH_FN :: "int \<Rightarrow> nat \<Rightarrow> u32" where
  "HASH_DEFAULT_HASH_FN key sz = of_int (key smod int sz)"

definition hash_ndx :: "'v hash_table \<Rightarrow> int \<Rightarrow> fault + nat" where
  "hash_ndx tbl key =
     (let ndx = unat (HASH_DEFAULT_HASH_FN key (length tbl))
      in bindR (assertR (ndx < length tbl)) (\<lambda>_. Inr ndx))"

text \<open>The walk along a chain: the position of the first entry with the key.\<close>

fun chain_find :: "(int \<times> 'v) list \<Rightarrow> int \<Rightarrow> nat option" where
  "chain_find [] key = None"
| "chain_find (e # es) key = (if fst e = key then Some 0 else map_option Suc (chain_find es key))"

text \<open>An entry is addressed by its chain and its position in it.\<close>

definition hash_get_entry :: "'v hash_table \<Rightarrow> int \<Rightarrow> fault + (nat \<times> nat) option" where
  "hash_get_entry tbl key =
     bindR (hash_ndx tbl key) (\<lambda>ndx. Inr (map_option (Pair ndx) (chain_find (tbl ! ndx) key)))"

definition hash_insert :: "'v hash_table \<Rightarrow> int \<Rightarrow> 'v \<Rightarrow> fault + 'v hash_table" where
  "hash_insert tbl key data =
     bindR (hash_ndx tbl key) (\<lambda>ndx.
       let tbl = tbl[ndx := (key, data) # tbl ! ndx]
       in bindR (hash_get_entry tbl key) (\<lambda>e.
          bindR (assertR (e = Some (ndx, 0))) (\<lambda>_. Inr tbl)))"

definition hash_lookup :: "'v hash_table \<Rightarrow> int \<Rightarrow> fault + 'v" where
  "hash_lookup tbl key =
     bindR (hash_get_entry tbl key) (\<lambda>e.
       case e of None \<Rightarrow> Inl AssertFail | Some (ndx, i) \<Rightarrow> Inr (snd (tbl ! ndx ! i)))"

definition hash_lookup_ptr :: "'v hash_table \<Rightarrow> int \<Rightarrow> fault + 'v option" where
  "hash_lookup_ptr tbl key =
     bindR (hash_get_entry tbl key) (\<lambda>e.
       Inr (case e of None \<Rightarrow> None | Some (ndx, i) \<Rightarrow> Some (snd (tbl ! ndx ! i))))"

definition hash_entry_exists :: "'v hash_table \<Rightarrow> int \<Rightarrow> fault + bool" where
  "hash_entry_exists tbl key = bindR (hash_get_entry tbl key) (\<lambda>e. Inr (e \<noteq> None))"

definition hash_set_entry :: "'v hash_table \<Rightarrow> int \<Rightarrow> 'v \<Rightarrow> fault + 'v hash_table" where
  "hash_set_entry tbl key data =
     bindR (hash_get_entry tbl key) (\<lambda>e.
       case e of
         Some (ndx, i) \<Rightarrow> Inr (tbl[ndx := (tbl ! ndx)[i := (fst (tbl ! ndx ! i), data)]])
       | None \<Rightarrow> hash_insert tbl key data)"

text \<open>The first entry with the key is unlinked; there must then be no other.\<close>

fun chain_unlink :: "(int \<times> 'v) list \<Rightarrow> int \<Rightarrow> (int \<times> 'v) list" where
  "chain_unlink [] key = []"
| "chain_unlink (e # es) key = (if fst e = key then es else e # chain_unlink es key)"

definition hash_delete :: "'v hash_table \<Rightarrow> int \<Rightarrow> fault + 'v hash_table" where
  "hash_delete tbl key =
     bindR (hash_ndx tbl key) (\<lambda>ndx.
       let tbl = tbl[ndx := chain_unlink (tbl ! ndx) key]
       in bindR (hash_get_entry tbl key) (\<lambda>e.
          bindR (assertR (e = None)) (\<lambda>_. Inr tbl)))"

section \<open>The table as a map\<close>

text \<open>Entries are in the chain of their key, and no key is there twice.\<close>

definition chain_of :: "int \<Rightarrow> nat" where
  "chain_of k = nat (k mod 64)"

definition hash_wf :: "'v hash_table \<Rightarrow> bool" where
  "hash_wf tbl \<longleftrightarrow> length tbl = MAX_NUM_CONNECTIONS
     \<and> (\<forall>n < length tbl. distinct (map fst (tbl ! n)) \<and> (\<forall>k \<in> fst ` set (tbl ! n). 0 \<le> k \<and> chain_of k = n))"

definition hash_map :: "'v hash_table \<Rightarrow> int \<Rightarrow> 'v option" where
  "hash_map tbl k = (if 0 \<le> k then map_of (tbl ! chain_of k) k else None)"

lemma chain_of_less [simp]: "chain_of k < 64"
  by (simp add: chain_of_def nat_less_iff)

lemma hash_ndx_valid:
  assumes "length tbl = 64" and "0 \<le> k"
  shows "hash_ndx tbl k = Inr (chain_of k)"
proof -
  have m: "k smod 64 = k mod 64" using assms(2) by (simp add: smod_int_alt_def sgn_if)
  have b: "0 \<le> k mod 64" "k mod 64 < 64" by simp_all
  then have "unat (of_int (k mod 64) :: u32) = nat (k mod 64)"
    by (simp add: unat_eq_nat_uint uint_word_of_int take_bit_eq_mod)
  then show ?thesis
    using assms(1) m chain_of_less [of k, unfolded chain_of_def]
    by (simp add: hash_ndx_def HASH_DEFAULT_HASH_FN_def chain_of_def Let_def assertR_def)
qed

lemma chain_find_map_of:
  "map_of es k = map_option (\<lambda>i. snd (es ! i)) (chain_find es k)"
  by (induction es) (auto simp: option.map_comp o_def)

lemma chain_find_None: "chain_find es k = None \<longleftrightarrow> k \<notin> fst ` set es"
  by (induction es) auto

lemma chain_find_Some: "chain_find es k = Some i \<Longrightarrow> i < length es \<and> fst (es ! i) = k"
  by (induction es arbitrary: i) (auto split: if_splits)

lemma map_of_update_at:
  assumes "distinct (map fst es)" and "i < length es" and "fst (es ! i) = k"
  shows "map_of (es[i := (fst (es ! i), v)]) = (map_of es)(k \<mapsto> v)"
  using assms
proof (induction es arbitrary: i)
  case (Cons e es)
  show ?case
  proof (cases i)
    case 0
    with Cons.prems show ?thesis by (cases e) auto
  next
    case (Suc j)
    then have "k \<in> fst ` set es" using Cons.prems(2,3) by (metis Suc_less_eq image_eqI length_Cons nth_Cons_Suc nth_mem)
    with Cons.prems(1) have "fst e \<noteq> k" by auto
    with Suc Cons show ?thesis by (cases e) auto
  qed
qed simp

lemma lookup_ptr_map:
  assumes "hash_wf tbl" and "0 \<le> k"
  shows "hash_lookup_ptr tbl k = Inr (hash_map tbl k)"
  using assms hash_ndx_valid [of tbl k]
  by (auto simp: hash_lookup_ptr_def hash_get_entry_def hash_map_def hash_wf_def chain_find_map_of split: option.splits)

lemma chain_unlink_spec:
  "distinct (map fst es) \<Longrightarrow> set (chain_unlink es k) = {e \<in> set es. fst e \<noteq> k} \<and> distinct (map fst (chain_unlink es k))
     \<and> map_of (chain_unlink es k) = (map_of es)(k := None)"
  by (induction es) (auto simp: fun_eq_iff map_of_eq_None_iff image_iff)

text \<open>Replacing one chain.\<close>

lemma hash_wf_chain:
  assumes "hash_wf tbl" and "0 \<le> k" and "distinct (map fst es)"
    and "fst ` set es \<subseteq> insert k (fst ` set (tbl ! chain_of k))"
  shows "hash_wf (tbl[chain_of k := es])"
proof -
  have n: "chain_of k < 64" by simp
  have "\<forall>j \<in> fst ` set (tbl ! chain_of k). 0 \<le> j \<and> chain_of j = chain_of k"
    using assms(1) n unfolding hash_wf_def by metis
  then have e: "\<forall>j \<in> fst ` set es. 0 \<le> j \<and> chain_of j = chain_of k" using assms(2,4) by blast
  show ?thesis
    unfolding hash_wf_def
  proof (intro conjI allI impI)
    show "length (tbl[chain_of k := es]) = 64" using assms(1) by (simp add: hash_wf_def)
    fix m
    assume "m < length (tbl[chain_of k := es])"
    then show "distinct (map fst (tbl[chain_of k := es] ! m))"
      "\<forall>j \<in> fst ` set (tbl[chain_of k := es] ! m). 0 \<le> j \<and> chain_of j = m"
      using assms(1,3) e by (cases "m = chain_of k"; simp add: hash_wf_def)+
  qed
qed

lemma hash_map_chain:
  assumes "length tbl = 64" and "0 \<le> k" and "map_of es = (map_of (tbl ! chain_of k))(k := x)"
  shows "hash_map (tbl[chain_of k := es]) = (hash_map tbl)(k := x)"
proof
  fix j
  have n: "chain_of k < 64" by simp
  show "hash_map (tbl[chain_of k := es]) j = ((hash_map tbl)(k := x)) j"
    using assms n by (cases "chain_of j = chain_of k") (auto simp: hash_map_def nth_list_update)
qed

lemma hash_insert_spec:
  assumes "hash_wf tbl" and "0 \<le> k" and "hash_map tbl k = None"
  shows "\<exists>tbl'. hash_insert tbl k v = Inr tbl' \<and> hash_wf tbl' \<and> hash_map tbl' = (hash_map tbl)(k \<mapsto> v)"
proof -
  let ?n = "chain_of k" and ?t = "tbl[chain_of k := (k, v) # tbl ! chain_of k]"
  have l: "length tbl = 64" using assms(1) by (simp add: hash_wf_def)
  note nd = hash_ndx_valid [OF l assms(2)]
  have nk: "k \<notin> fst ` set (tbl ! ?n)" using assms(2,3) by (simp add: hash_map_def map_of_eq_None_iff)
  have "hash_insert tbl k v = Inr ?t"
    using nd l hash_ndx_valid [of ?t k] assms(2) by (simp add: hash_insert_def hash_get_entry_def Let_def)
  moreover have "hash_wf ?t"
    using assms nk nd by (intro hash_wf_chain) (auto simp: hash_wf_def)
  moreover have "hash_map ?t = (hash_map tbl)(k \<mapsto> v)"
    using l assms(2) by (intro hash_map_chain) (auto simp: fun_eq_iff)
  ultimately show ?thesis by blast
qed

lemma hash_delete_spec:
  assumes "hash_wf tbl" and "0 \<le> k"
  shows "\<exists>tbl'. hash_delete tbl k = Inr tbl' \<and> hash_wf tbl' \<and> hash_map tbl' = (hash_map tbl)(k := None)"
proof -
  let ?n = "chain_of k" and ?t = "tbl[chain_of k := chain_unlink (tbl ! chain_of k) k]"
  have l: "length tbl = 64" using assms(1) by (simp add: hash_wf_def)
  note nd = hash_ndx_valid [OF l assms(2)]
  have d: "distinct (map fst (tbl ! ?n))" using assms(1) by (simp add: hash_wf_def)
  note u = chain_unlink_spec [OF d, of k]
  have "chain_find (chain_unlink (tbl ! ?n) k) k = None" using u by (auto simp: chain_find_None)
  then have "hash_delete tbl k = Inr ?t"
    using nd l hash_ndx_valid [of ?t k] assms(2) by (simp add: hash_delete_def hash_get_entry_def Let_def)
  moreover have "hash_wf ?t" using assms u by (intro hash_wf_chain) auto
  moreover have "hash_map ?t = (hash_map tbl)(k := None)" using l assms(2) u by (intro hash_map_chain) auto
  ultimately show ?thesis by blast
qed

lemma hash_set_spec:
  assumes "hash_wf tbl" and "0 \<le> k"
  shows "\<exists>tbl'. hash_set_entry tbl k v = Inr tbl' \<and> hash_wf tbl' \<and> hash_map tbl' = (hash_map tbl)(k \<mapsto> v)"
proof (cases "chain_find (tbl ! chain_of k) k")
  case None
  have l: "length tbl = 64" using assms(1) by (simp add: hash_wf_def)
  have "hash_map tbl k = None" using None assms(2) by (simp add: hash_map_def chain_find_map_of)
  then show ?thesis
    using hash_insert_spec [OF assms] None hash_ndx_valid [OF l assms(2)]
    by (simp add: hash_set_entry_def hash_get_entry_def)
next
  case (Some i)
  let ?c = "tbl ! chain_of k"
  have l: "length tbl = 64" using assms(1) by (simp add: hash_wf_def)
  note nd = hash_ndx_valid [OF l assms(2)]
  have i: "i < length ?c" "fst (?c ! i) = k" using chain_find_Some [OF Some] by simp_all
  let ?es = "?c[i := (fst (?c ! i), v)]"
  have f: "map fst ?es = map fst ?c" using i(1) by (simp add: map_update list_update_same_conv)
  have d: "distinct (map fst ?c)" using assms(1) by (simp add: hash_wf_def)
  have "map_of ?es = (map_of ?c)(k \<mapsto> v)" by (rule map_of_update_at [OF d i])
  moreover have "hash_wf (tbl[chain_of k := ?es])"
    using assms d f by (intro hash_wf_chain) (simp_all only: set_map [symmetric], auto)
  moreover have "hash_set_entry tbl k v = Inr (tbl[chain_of k := ?es])"
    using nd Some by (simp add: hash_set_entry_def hash_get_entry_def)
  ultimately show ?thesis using hash_map_chain [OF l assms(2), of ?es "Some v"] by simp
qed

interpretation listen: partial_map "\<lambda>k. 0 \<le> k" hash_wf hash_map hash_set_entry hash_delete
  by unfold_locales (auto intro: hash_set_spec hash_delete_spec)

lemma hash_empty_spec: "hash_wf hash_empty" "hash_map hash_empty = Map.empty"
proof -
  show "hash_wf hash_empty" "hash_map hash_empty = Map.empty"
    by (auto simp: hash_wf_def hash_empty_def hash_map_def fun_eq_iff)
qed

text \<open>Two insertions with one key: the deletion that follows fails its assertion.\<close>

lemma chain_unlink_dup:
  "chain_unlink ((k, v) # (k, w) # es) k = (k, w) # es"
  by simp

lemma duplicate_delete_fails:
  assumes "hash_wf tbl" and "0 \<le> k" and "hash_map tbl k = None"
  shows "bindR (hash_insert tbl k v) (\<lambda>t. bindR (hash_insert t k w) (\<lambda>t. hash_delete t k)) = Inl AssertFail"
proof -
  have l: "length tbl = 64" using assms(1) by (simp add: hash_wf_def)
  have nd: "hash_ndx t k = Inr (chain_of k)" if "length t = 64" for t :: "'a hash_table"
    using hash_ndx_valid [OF that assms(2)] .
  have n: "chain_of k < 64" by simp
  show ?thesis
    using l n nd by (simp add: hash_insert_def hash_delete_def hash_get_entry_def Let_def)
qed

end
