(* ===== verification/Network_Tcp.thy ===== *)
theory Network_Tcp
  imports Mysock
begin

text \<open>
  The TCP instantiation of the network layer, \<^verbatim>\<open>network_io_tcp.c\<close>, with the state it shares
  with \<^verbatim>\<open>network_io_socket.c\<close>: packets are framed by their length on a stream socket of the
  operating system.  A stream carries bytes in order; how many bytes one \<open>read\<close> or \<open>write\<close> moves
  is decided by a schedule, about which nothing is assumed, and a call may fail.
\<close>

section \<open>Stream sockets\<close>

text \<open>
  One direction of a stream socket: the bytes in it, whether the writer has closed it, and the
  outcome of the calls to come (at most that many bytes, or an error).  A used-up schedule means
  that calls move all they can.
\<close>

record stream =
  in_flight :: bytes
  hung_up :: bool
  schedule :: "nat option list"

text \<open>The number of bytes a call moves if it could move \<open>n > 0\<close>; none for an error.\<close>

definition moved :: "stream \<Rightarrow> nat \<Rightarrow> nat option" where
  "moved s n = (case schedule s of [] \<Rightarrow> Some n | c # _ \<Rightarrow> map_option (\<lambda>c. max 1 (min c n)) c)"

text \<open>
  A call gets the rest of the buffer; it returns its result, the buffer and the stream, or none
  if it blocks.
\<close>

type_synonym io_func = "stream \<Rightarrow> bytes \<Rightarrow> (int \<times> bytes \<times> stream) option"

definition sock_write :: io_func where
  "sock_write s buf =
     (case moved s (length buf) of
        None \<Rightarrow> Some (-1, buf, s\<lparr>schedule := tl (schedule s)\<rparr>)
      | Some n \<Rightarrow> Some (int n, buf, s\<lparr>in_flight := in_flight s @ take n buf, schedule := tl (schedule s)\<rparr>))"

definition sock_read :: io_func where
  "sock_read s buf =
     (if in_flight s = [] then (if hung_up s then Some (0, buf, s) else None)
      else case moved s (min (length buf) (length (in_flight s))) of
             None \<Rightarrow> Some (-1, buf, s\<lparr>schedule := tl (schedule s)\<rparr>)
           | Some n \<Rightarrow> Some (int n, take n (in_flight s) @ drop n buf,
                              s\<lparr>in_flight := drop n (in_flight s), schedule := tl (schedule s)\<rparr>))"

section \<open>The input and output loop\<close>

text \<open>
  The loop of \<open>_tcp_io\<close> on what remains of the buffer: none while a call blocks, else the result
  of the call that ended the loop (none if all is done), the buffer and the stream.
\<close>

function tcp_loop ::
  "('s \<Rightarrow> bytes \<Rightarrow> (int \<times> bytes \<times> 's) option) \<Rightarrow> 's \<Rightarrow> bytes \<Rightarrow> fault + (int option \<times> bytes \<times> 's) option" where
  "tcp_loop io s cbuf =
     (if cbuf = [] then Inr (Some (None, [], s))
      else case io s cbuf of
             None \<Rightarrow> Inr None
           | Some (rc, b, s') \<Rightarrow>
               if rc \<le> 0 then Inr (Some (Some rc, b, s'))
               else if rc > int (length cbuf) then Inl AssertFail
               else bindR (tcp_loop io s' (take (length cbuf - nat rc) (drop (nat rc) b))) (\<lambda>r.
                    Inr (map_option (\<lambda>(e, b', s). (e, take (nat rc) b @ b', s)) r)))"
  by pat_completeness auto
termination by (relation "measure (\<lambda>(io, s, cbuf). length cbuf)") auto

declare tcp_loop.simps [simp del]

definition tcp_io ::
  "('s \<Rightarrow> bytes \<Rightarrow> (int \<times> bytes \<times> 's) option) \<Rightarrow> 's \<Rightarrow> bytes \<Rightarrow> fault + (int \<times> bytes \<times> 's) option" where
  "tcp_io io s buf =
     bindR (tcp_loop io s buf) (\<lambda>r.
       Inr (map_option (\<lambda>(e, b, s). (case e of None \<Rightarrow> int (length buf) | Some rc \<Rightarrow> rc, b, s)) r))"

section \<open>Packets\<close>

text \<open>The result of \<open>connect\<close> is an argument; the lock makes the call happen once.\<close>

definition tcp_connect :: "network_context \<Rightarrow> int \<Rightarrow> fault + int \<times> network_context" where
  "tcp_connect net conn =
     (if connected (impl_data net) then Inr (0, net)
      else bindR (assertR (peer_addr_valid net)) (\<lambda>_.
           bindR (assertR (peer_is_inet net)) (\<lambda>_.
           bindR (assertR (peer_port net > 0)) (\<lambda>_.
             if conn < 0 then Inr (-1, net)
             else Inr (0, net\<lparr>impl_data := (impl_data net)\<lparr>connected := True\<rparr>\<rparr>)))))"

text \<open>The length goes first, in 16 bits, then the packet; none while a write blocks.\<close>

definition network_send_packet ::
  "network_context \<Rightarrow> int \<Rightarrow> stream \<Rightarrow> bytes \<Rightarrow> fault + (int \<times> network_context \<times> stream) option" where
  "network_send_packet net conn s src =
     bindR (assertR (peer_addr_len net > 0)) (\<lambda>_.
     bindR (assertR (socket (impl_data net) \<ge> 0)) (\<lambda>_.
     bindR (tcp_connect net conn) (\<lambda>(rc, net).
       if rc < 0 then Inr (Some (-1, net, s))
       else bindR (tcp_io sock_write s (bytes16 (htons (of_nat (length src))))) (\<lambda>r.
              case r of
                None \<Rightarrow> Inr None
              | Some (rc, _, s) \<Rightarrow>
                  if rc < 0 then Inr (Some (-1, net, s))
                  else bindR (tcp_io sock_write s src) (\<lambda>r.
                         Inr (map_option (\<lambda>(rc, _, s). (if rc < 0 then -1 else int (length src), net, s)) r))))))"

text \<open>
  Reading one packet from a stream: the value returned, the bytes stored at \<open>dst\<close> and the
  stream.  What exceeds \<open>max_len\<close> is read and dropped, and the full length is returned.
\<close>

definition read_packet :: "stream \<Rightarrow> nat \<Rightarrow> fault + (int \<times> bytes \<times> stream) option" where
  "read_packet s max_len =
     bindR (tcp_io sock_read s (replicate 2 0)) (\<lambda>r.
       case r of
         None \<Rightarrow> Inr None
       | Some (rc, b, s) \<Rightarrow>
           if rc \<le> 0 then Inr (Some (rc, [], s))
           else (let packet_len = unat (ntohs (le16 b))
                 in bindR (tcp_io sock_read s (replicate (min packet_len max_len) 0)) (\<lambda>r.
                      case r of
                        None \<Rightarrow> Inr None
                      | Some (rc, dst, s) \<Rightarrow>
                          if rc \<le> 0 then Inr (Some (rc, dst, s))
                          else if packet_len > max_len
                          then bindR (tcp_io sock_read s (replicate (packet_len - max_len) 0)) (\<lambda>r.
                                 Inr (map_option (\<lambda>(_, _, s). (int packet_len, dst, s)) r))
                          else Inr (Some (int packet_len, dst, s)))))"

text \<open>
  \<open>accept\<close> on the socket of a listening context: its result is an argument, none while it
  blocks.  The peer's address is stored in the listening context.
\<close>

definition accept_connection ::
  "network_context \<Rightarrow> int \<times> u32 \<times> u16 \<Rightarrow> fault + (int + int) \<times> network_context" where
  "accept_connection net acc =
     (let (tmp_sd, addr, port) = acc;
          net = net\<lparr>peer_addr_len := 16\<rparr>
      in if tmp_sd < 0 then Inr (Inl tmp_sd, net)
         else (let net = net\<lparr>peer_addr := addr, peer_port := port, peer_is_inet := True\<rparr>
               in bindR (assertR (new_socket (impl_data net) = -1)) (\<lambda>_.
                    Inr (Inr tmp_sd, net\<lparr>impl_data := (impl_data net)\<lparr>new_socket := tmp_sd\<rparr>\<rparr>))))"

text \<open>
  \<open>ss\<close> are the streams of the sockets of the process.  The result is the value returned, the
  bytes at \<open>dst\<close>, the state of the network layer and the streams; none while a call blocks.
\<close>

definition network_recv_packet ::
  "mysock_context \<Rightarrow> int \<Rightarrow> (int \<times> u32 \<times> u16) option \<Rightarrow> (int \<Rightarrow> stream) \<Rightarrow> nat
    \<Rightarrow> fault + (int \<times> bytes \<times> network_context \<times> (int \<Rightarrow> stream)) option" where
  "network_recv_packet ctx conn acc ss max_len =
     (let net = network_state ctx; io_socket = socket (impl_data net)
      in bindR (assertR (io_socket \<ge> 0)) (\<lambda>_.
         bindR (if is_active ctx then tcp_connect net conn else Inr (0, net)) (\<lambda>(rc, net).
           if rc < 0 then Inr (Some (-1, [], net, ss))
           else case (if listening ctx
                      then map_option (accept_connection net) acc
                      else Some (Inr (Inr io_socket, net))) of
                  None \<Rightarrow> Inr None
                | Some r \<Rightarrow>
                    bindR r (\<lambda>(sd, net).
                      case sd of
                        Inl e \<Rightarrow> Inr (Some (e, [], net, ss))
                      | Inr io_socket \<Rightarrow>
                          bindR (read_packet (ss io_socket) max_len) (\<lambda>r.
                            Inr (map_option (\<lambda>(rc, dst, s). (rc, dst, net, ss(io_socket := s))) r))))))"

text \<open>
  The network layer of a new mysocket, with the socket the operating system gave it; \<open>ip\<close> is
  the address of the interface.
\<close>

definition network_init :: "u32 \<Rightarrow> int \<Rightarrow> network_context" where
  "network_init ip sd =
     \<lparr>local_addr = ip, local_port = 0, peer_addr = 0, peer_port = 0, peer_is_inet = False, peer_addr_len = 0,
      peer_addr_valid = False,
      impl_data = \<lparr>recv_thread_started = False, socket = sd, new_socket = -1, connected = False\<rparr>\<rparr>"

text \<open>
  The new context takes over the accepted socket, which has the port of the listening one; its
  own is closed.
\<close>

definition network_update_passive_state ::
  "mysock_context \<Rightarrow> mysock_context \<Rightarrow> fault + mysock_context \<times> mysock_context" where
  "network_update_passive_state new_ctx accept_ctx =
     bindR (assertR (\<not> listening new_ctx)) (\<lambda>_.
     bindR (assertR (\<not> is_active new_ctx)) (\<lambda>_.
       let new_net = network_state new_ctx; accept_net = network_state accept_ctx
       in Inr (new_ctx\<lparr>network_state := new_net\<lparr>local_port := local_port accept_net,
                  impl_data := (impl_data new_net)\<lparr>socket := new_socket (impl_data accept_net), connected := True\<rparr>\<rparr>\<rparr>,
               accept_ctx\<lparr>network_state := accept_net\<lparr>impl_data := (impl_data accept_net)\<lparr>new_socket := -1\<rparr>\<rparr>\<rparr>)))"

text \<open>\<open>bind\<close> and \<open>getsockname\<close>: the port the operating system has assigned is kept in \<open>local_port\<close>.\<close>

definition network_get_port :: "network_context \<Rightarrow> fault + u16" where
  "network_get_port net = bindR (assertR (socket (impl_data net) \<ge> 0)) (\<lambda>_. Inr (local_port net))"

definition network_start_recv_thread :: "network_context \<Rightarrow> network_context" where
  "network_start_recv_thread net = net\<lparr>impl_data := (impl_data net)\<lparr>recv_thread_started := True\<rparr>\<rparr>"

definition network_stop_recv_thread :: "network_context \<Rightarrow> network_context" where
  "network_stop_recv_thread net =
     (if recv_thread_started (impl_data net)
      then net\<lparr>impl_data := (impl_data net)\<lparr>recv_thread_started := False\<rparr>\<rparr> else net)"

section \<open>Framing on a byte stream\<close>

text \<open>What the loop relies on: a call without error moves some bytes, in order.\<close>

locale byte_stream =
  fixes wr :: "'s \<Rightarrow> bytes \<Rightarrow> (int \<times> bytes \<times> 's) option"
    and rd :: "'s \<Rightarrow> bytes \<Rightarrow> (int \<times> bytes \<times> 's) option"
    and content :: "'s \<Rightarrow> bytes"
    and ok :: "'s \<Rightarrow> bool"
  assumes wr_moves: "\<lbrakk>ok s; buf \<noteq> []\<rbrakk> \<Longrightarrow> \<exists>n s'. wr s buf = Some (int n, buf, s') \<and> 0 < n \<and> n \<le> length buf
      \<and> content s' = content s @ take n buf \<and> ok s'"
    and rd_moves: "\<lbrakk>ok s; buf \<noteq> []; content s \<noteq> []\<rbrakk> \<Longrightarrow> \<exists>n s'. rd s buf = Some (int n, take n (content s) @ drop n buf, s')
      \<and> 0 < n \<and> n \<le> length buf \<and> n \<le> length (content s) \<and> content s' = drop n (content s) \<and> ok s'"
    and rd_blocks: "\<lbrakk>ok s; content s = []\<rbrakk> \<Longrightarrow> rd s buf = None"
begin

text \<open>The loop writes the whole buffer, however the calls cut it.\<close>

lemma loop_writes:
  "ok s \<Longrightarrow> \<exists>s'. tcp_loop wr s buf = Inr (Some (None, buf, s')) \<and> content s' = content s @ buf \<and> ok s'"
proof (induction "length buf" arbitrary: s buf rule: less_induct)
  case less
  show ?case
  proof (cases "buf = []")
    case False
    from wr_moves [OF less.prems False] obtain n s1 where
      c: "wr s buf = Some (int n, buf, s1)" "0 < n" "n \<le> length buf" "content s1 = content s @ take n buf" "ok s1"
      by blast
    from less.hyps [of "drop n buf" s1] c False obtain s' where
      "tcp_loop wr s1 (drop n buf) = Inr (Some (None, drop n buf, s'))"
      "content s' = content s1 @ drop n buf" "ok s'"
      by auto
    with c False show ?thesis by (subst tcp_loop.simps) simp
  qed (simp add: tcp_loop.simps less.prems)
qed

text \<open>The loop fills the whole buffer once enough has been written.\<close>

lemma loop_reads:
  "\<lbrakk>ok s; content s = bs @ rest; length buf = length bs\<rbrakk>
   \<Longrightarrow> \<exists>s'. tcp_loop rd s buf = Inr (Some (None, bs, s')) \<and> content s' = rest \<and> ok s'"
proof (induction "length buf" arbitrary: s buf bs rule: less_induct)
  case less
  show ?case
  proof (cases "buf = []")
    case True
    with less.prems show ?thesis by (simp add: tcp_loop.simps)
  next
    case False
    with less.prems have ne: "content s \<noteq> []" by auto
    from rd_moves [OF less.prems(1) False ne] obtain n s1 where
      c: "rd s buf = Some (int n, take n (content s) @ drop n buf, s1)" "0 < n" "n \<le> length buf"
        "n \<le> length (content s)" "content s1 = drop n (content s)" "ok s1"
      by blast
    have t: "take n (content s) = take n bs" "content s1 = drop n bs @ rest"
      using c(3,5) less.prems(2,3) by simp_all
    have l: "length (take n bs) = n" using c(3) less.prems(3) by simp
    have lt: "length (drop n buf) < length buf" "length (drop n buf) = length (drop n bs)"
      using c(2,3) less.prems(3) by (simp_all add: diff_less_mono2)
    from less.hyps [OF lt(1) c(6) t(2) lt(2)] obtain s' where
      h: "tcp_loop rd s1 (drop n buf) = Inr (Some (None, drop n bs, s'))" "content s' = rest" "ok s'"
      by blast
    have "tcp_loop rd s buf = Inr (Some (None, take n bs @ drop n bs, s'))"
      using c(1-3) h(1) False l by (subst tcp_loop.simps) (simp add: t(1))
    with h show ?thesis by simp
  qed
qed

lemma loop_blocks: "\<lbrakk>ok s; content s = []; buf \<noteq> []\<rbrakk> \<Longrightarrow> tcp_loop rd s buf = Inr None"
  by (simp add: tcp_loop.simps rd_blocks)

lemma io_writes:
  assumes "ok s"
  obtains s' where "tcp_io wr s buf = Inr (Some (int (length buf), buf, s'))" "content s' = content s @ buf" "ok s'"
  using loop_writes [OF assms, of buf] by (auto simp: tcp_io_def)

lemma io_reads:
  assumes "ok s" and "content s = bs @ rest" and "n = length bs"
  obtains s' where "tcp_io rd s (replicate n 0) = Inr (Some (int n, bs, s'))" "content s' = rest" "ok s'"
  using loop_reads [OF assms(1,2), of "replicate n 0"] assms(3) by (auto simp: tcp_io_def)

lemma io_blocks: "\<lbrakk>ok s; content s = []; buf \<noteq> []\<rbrakk> \<Longrightarrow> tcp_io rd s buf = Inr None"
  by (simp add: tcp_io_def loop_blocks)

end

text \<open>A stream on which no call fails.\<close>

definition sound :: "stream \<Rightarrow> bool" where
  "sound s \<longleftrightarrow> \<not> hung_up s \<and> None \<notin> set (schedule s)"

lemma moved_sound: "sound s \<Longrightarrow> 0 < n \<Longrightarrow> \<exists>k. moved s n = Some k \<and> 0 < k \<and> k \<le> n"
  by (auto simp: sound_def moved_def split: list.splits) (metis max.bounded_iff
      max.cobounded1 min.cobounded2 less_eq_Suc_le not_None_eq)

lemma sound_step: "sound s \<Longrightarrow> sound (s\<lparr>in_flight := bs, schedule := tl (schedule s)\<rparr>)"
  by (auto simp: sound_def dest: list.set_sel(2) [rotated]) (metis list.sel(2) list.set_sel(2))

interpretation tcp: byte_stream sock_write sock_read in_flight sound
proof
  fix s :: stream and buf :: bytes
  assume s: "sound s"
  show "sock_read s buf = None" if "in_flight s = []"
    using s that by (simp add: sock_read_def sound_def)
  assume b: "buf \<noteq> []"
  from moved_sound [OF s, of "length buf"] b obtain k where "moved s (length buf) = Some k" "0 < k" "k \<le> length buf"
    by auto
  with sound_step [OF s] show "\<exists>n s'. sock_write s buf = Some (int n, buf, s') \<and> 0 < n \<and> n \<le> length buf
      \<and> in_flight s' = in_flight s @ take n buf \<and> sound s'"
    by (auto simp: sock_write_def intro!: exI [of _ k])
  assume c: "in_flight s \<noteq> []"
  with b moved_sound [OF s, of "min (length buf) (length (in_flight s))"] obtain j where
    "moved s (min (length buf) (length (in_flight s))) = Some j" "0 < j" "j \<le> min (length buf) (length (in_flight s))"
    by auto
  with c sound_step [OF s] show "\<exists>n s'. sock_read s buf = Some (int n, take n (in_flight s) @ drop n buf, s')
      \<and> 0 < n \<and> n \<le> length buf \<and> n \<le> length (in_flight s) \<and> in_flight s' = drop n (in_flight s) \<and> sound s'"
    by (auto simp: sock_read_def intro!: exI [of _ j])
qed

text \<open>A packet on the stream.\<close>

definition frame :: "bytes \<Rightarrow> bytes" where
  "frame p = bytes16 (htons (of_nat (length p))) @ p"

definition framed :: "stream \<Rightarrow> bytes list \<Rightarrow> bool" where
  "framed s ps \<longleftrightarrow> sound s \<and> in_flight s = concat (map frame ps)"

definition up :: "network_context \<Rightarrow> bool" where
  "up net \<longleftrightarrow> peer_addr_len net > 0 \<and> socket (impl_data net) \<ge> 0 \<and> connected (impl_data net)"

lemma send_packet_frames:
  assumes "framed s ps" and "up net"
  obtains s' where "network_send_packet net conn s p = Inr (Some (int (length p), net, s'))" "framed s' (ps @ [p])"
proof -
  from assms(1) have s: "sound s" "in_flight s = concat (map frame ps)" by (simp_all add: framed_def)
  let ?l = "bytes16 (htons (of_nat (length p)))"
  obtain s1 where 1: "tcp_io sock_write s ?l = Inr (Some (int (length ?l), ?l, s1))"
    "in_flight s1 = in_flight s @ ?l" "sound s1"
    using tcp.io_writes [OF s(1)] by blast
  obtain s2 where 2: "tcp_io sock_write s1 p = Inr (Some (int (length p), p, s2))" "in_flight s2 = in_flight s1 @ p" "sound s2"
    using tcp.io_writes [OF 1(3)] by blast
  show ?thesis
  proof (rule that)
    show "network_send_packet net conn s p = Inr (Some (int (length p), net, s2))"
      using assms(2) 1(1) 2(1) by (simp add: network_send_packet_def tcp_connect_def up_def)
    show "framed s2 (ps @ [p])" using s 1 2 by (simp add: framed_def frame_def)
  qed
qed

lemma read_length:
  assumes "framed s (p # ps)" and "length p \<le> 65535"
  obtains b s' where "tcp_io sock_read s (replicate 2 0) = Inr (Some (2, b, s'))"
    "unat (ntohs (le16 b)) = length p" "in_flight s' = p @ concat (map frame ps)" "sound s'"
proof -
  let ?l = "bytes16 (htons (of_nat (length p)))"
  from assms(1) have s: "sound s" "in_flight s = ?l @ (p @ concat (map frame ps))"
    by (simp_all add: framed_def frame_def)
  obtain s1 where 1: "tcp_io sock_read s (replicate 2 0) = Inr (Some (int 2, ?l, s1))"
    "in_flight s1 = p @ concat (map frame ps)" "sound s1"
    by (rule tcp.io_reads [OF s, of 2]) (simp only: length_bytes16)
  have "unat (of_nat (length p) :: u16) = length p" using assms(2) by (simp add: unat_of_nat take_bit_nat_eq_self)
  then have "unat (ntohs (le16 ?l)) = length p" by (simp only: le16_bytes16 swap16_swap16)
  then show ?thesis using 1 by (intro that) (simp_all only: of_nat_numeral)
qed

lemma read_packet_frame:
  assumes "framed s (p # ps)" and "p \<noteq> []" and "length p \<le> max_len" and "length p \<le> 65535"
  obtains s' where "read_packet s max_len = Inr (Some (int (length p), p, s'))" "framed s' ps"
proof -
  obtain b s1 where 1: "tcp_io sock_read s (replicate 2 0) = Inr (Some (2, b, s1))"
    "unat (ntohs (le16 b)) = length p" "in_flight s1 = p @ concat (map frame ps)" "sound s1"
    by (rule read_length [OF assms(1,4)])
  obtain s2 where 2: "tcp_io sock_read s1 (replicate (length p) 0) = Inr (Some (int (length p), p, s2))"
    "in_flight s2 = concat (map frame ps)" "sound s2"
    by (rule tcp.io_reads [OF 1(4,3) refl])
  show ?thesis
  proof (rule that)
    show "read_packet s max_len = Inr (Some (int (length p), p, s2))"
      using 1(1,2) 2(1) assms(2,3) by (simp add: read_packet_def min_absorb1)
    show "framed s2 ps" using 2 by (simp add: framed_def)
  qed
qed

lemma read_packet_blocks: "framed s [] \<Longrightarrow> read_packet s max_len = Inr None"
  using tcp.io_blocks [of s "replicate 2 0"] by (simp add: framed_def read_packet_def)

text \<open>A packet longer than the buffer: its length is returned, its head stored.\<close>

lemma read_packet_long:
  assumes "framed s (p # ps)" and "0 < max_len" and "max_len < length p" and "length p \<le> 65535"
  obtains s' where "read_packet s max_len = Inr (Some (int (length p), take max_len p, s'))" "framed s' ps"
proof -
  obtain b s1 where 1: "tcp_io sock_read s (replicate 2 0) = Inr (Some (2, b, s1))"
    "unat (ntohs (le16 b)) = length p" "in_flight s1 = p @ concat (map frame ps)" "sound s1"
    by (rule read_length [OF assms(1,4)])
  have split: "in_flight s1 = take max_len p @ (drop max_len p @ concat (map frame ps))" using 1(3) by simp
  obtain s2 where 2: "tcp_io sock_read s1 (replicate max_len 0) = Inr (Some (int max_len, take max_len p, s2))"
    "in_flight s2 = drop max_len p @ concat (map frame ps)" "sound s2"
    by (rule tcp.io_reads [OF 1(4) split, of max_len]) (use assms(3) in simp)
  obtain s3 where 3: "tcp_io sock_read s2 (replicate (length p - max_len) 0) = Inr (Some (int (length p - max_len), drop max_len p, s3))"
    "in_flight s3 = concat (map frame ps)" "sound s3"
    by (rule tcp.io_reads [OF 2(3,2), of "length p - max_len"]) simp
  show ?thesis
  proof (rule that)
    show "read_packet s max_len = Inr (Some (int (length p), take max_len p, s3))"
      using 1(1,2) 2(1) 3(1) assms(2,3) by (simp add: read_packet_def)
    show "framed s3 ps" using 3 by (simp add: framed_def)
  qed
qed

section \<open>A connection as a queue of packets\<close>

text \<open>Sending (a packet) and receiving (none) in any order on one stream; the packets received.\<close>

fun channel_run :: "network_context \<Rightarrow> stream \<Rightarrow> bytes option list \<Rightarrow> fault + bytes list option" where
  "channel_run net s [] = Inr (Some [])"
| "channel_run net s (Some p # ops) =
     bindR (network_send_packet net 0 s p) (\<lambda>r.
       case r of None \<Rightarrow> Inr None | Some (_, net, s) \<Rightarrow> channel_run net s ops)"
| "channel_run net s (None # ops) =
     bindR (read_packet s MAX_IP_PAYLOAD_LEN) (\<lambda>r.
       case r of None \<Rightarrow> Inr None
       | Some (n, p, s) \<Rightarrow> bindR (channel_run net s ops) (\<lambda>ps. Inr (map_option ((#) p) ps)))"

text \<open>The same on a queue; a receive from an empty queue waits.\<close>

fun fifo_run :: "'a list \<Rightarrow> 'a option list \<Rightarrow> 'a list option" where
  "fifo_run q [] = Some []"
| "fifo_run q (Some p # ops) = fifo_run (q @ [p]) ops"
| "fifo_run [] (None # ops) = None"
| "fifo_run (p # q) (None # ops) = map_option ((#) p) (fifo_run q ops)"

definition fits :: "bytes \<Rightarrow> bool" where
  "fits p \<longleftrightarrow> p \<noteq> [] \<and> length p \<le> MAX_IP_PAYLOAD_LEN"

lemma channel_refines_queue:
  "\<lbrakk>framed s q; up net; \<forall>p \<in> set q. fits p; \<forall>p. Some p \<in> set ops \<longrightarrow> fits p\<rbrakk>
   \<Longrightarrow> channel_run net s ops = Inr (fifo_run q ops)"
proof (induction q ops arbitrary: s rule: fifo_run.induct)
  case (2 q p ops)
  obtain s' where "network_send_packet net 0 s p = Inr (Some (int (length p), net, s'))" "framed s' (q @ [p])"
    by (rule send_packet_frames [OF "2.prems"(1,2)])
  with "2.IH" [of s'] "2.prems" show ?case by auto
next
  case (3 ops)
  then show ?case by (simp add: read_packet_blocks)
next
  case (4 p q ops)
  have p: "p \<noteq> []" "length p \<le> 1500" "length p \<le> 65535" using "4.prems"(3) by (simp_all add: fits_def)
  obtain s' where "read_packet s 1500 = Inr (Some (int (length p), p, s'))" "framed s' q"
    by (rule read_packet_frame [OF "4.prems"(1) p])
  with "4.IH" [of s'] "4.prems" show ?case by auto
qed simp

end
