(* ===== verification/Connection_Demux.thy ===== *)
theory Connection_Demux
  imports Mysock_Hash Network_Tcp
begin

text \<open>
  The demultiplexing of connection requests, \<^verbatim>\<open>connection_demux.c\<close>, with the calls of
  \<^verbatim>\<open>mysock_api.c\<close> and \<^verbatim>\<open>mysock.c\<close> that open, accept and close mysockets and the receive thread
  of \<^verbatim>\<open>network_io_socket.c\<close>.  The state is the table of contexts and the table of listening
  sockets.  Each operation holds \<open>listen_lock\<close> and is one step; one that would wait returns
  none.  What the operating system returns (sockets, results of \<open>bind\<close>, \<open>listen\<close>, \<open>accept\<close> and
  \<open>connect\<close>) is an argument.
\<close>

section \<open>Data\<close>

text \<open>An Internet socket address; the unused bytes are zero, as \<open>accept\<close> leaves them.\<close>

record sockaddr =
  sa_inet :: bool
  sin_addr :: u32
  sin_port :: u16

text \<open>\<open>user_data\<close> is \<open>NULL\<close> for every request over TCP and is left out.\<close>

record connect_request =
  req_addr :: sockaddr
  req_addr_len :: nat
  sd :: int

text \<open>
  An entry of \<open>completed_queue\<close> points into the array \<open>connection_queue\<close>: it is the number of
  the allocation and the index.  The array may be longer than \<open>max_len\<close>.
\<close>

record listen_queue =
  lq_local_port :: u16
  max_len :: nat
  cur_len :: nat
  connection_queue :: "connect_request list"
  queue_block :: nat
  completed_queue :: "(nat \<times> nat) list"

record mysock_layer =
  global_ctx :: descriptors
  listen_table :: "listen_queue hash_table"

definition INVALIDATE_CONNECT_REQUEST :: connect_request where
  "INVALIDATE_CONNECT_REQUEST =
     \<lparr>req_addr = \<lparr>sa_inet = False, sin_addr = 0, sin_port = 0\<rparr>, req_addr_len = 0, sd = -1\<rparr>"

definition peer_sockaddr :: "network_context \<Rightarrow> sockaddr" where
  "peer_sockaddr net = \<lparr>sa_inet = peer_is_inet net, sin_addr = peer_addr net, sin_port = peer_port net\<rparr>"

text \<open>Writing through a pointer to a context or a queue.\<close>

definition put_ctx :: "mysock_layer \<Rightarrow> mysock_context \<Rightarrow> mysock_layer" where
  "put_ctx l ctx = l\<lparr>global_ctx := (global_ctx l)[nat (my_sd ctx) := Some ctx]\<rparr>"

definition put_queue :: "mysock_layer \<Rightarrow> int \<Rightarrow> listen_queue \<Rightarrow> fault + mysock_layer" where
  "put_queue l k q = bindR (hash_set_entry (listen_table l) k q) (\<lambda>t. Inr (l\<lparr>listen_table := t\<rparr>))"

definition get_ctx :: "mysock_layer \<Rightarrow> int \<Rightarrow> fault + mysock_context" where
  "get_ctx l k = mysock_get_context (global_ctx l) k"

definition get_connection_queue :: "mysock_layer \<Rightarrow> mysock_context \<Rightarrow> fault + listen_queue option" where
  "get_connection_queue l ctx =
     bindR (assertR (listening ctx \<and> bound ctx)) (\<lambda>_. hash_lookup_ptr (listen_table l) (my_sd ctx))"

definition request_at :: "listen_queue \<Rightarrow> nat \<times> nat \<Rightarrow> fault + connect_request" where
  "request_at q r =
     (if fst r = queue_block q \<and> snd r < length (connection_queue q)
      then Inr (connection_queue q ! snd r) else Inl UseAfterFree)"

section \<open>Accepting\<close>

definition mysock_dequeue_connection ::
  "mysock_layer \<Rightarrow> mysock_context \<Rightarrow> fault + (mysock_context \<times> mysock_layer) option" where
  "mysock_dequeue_connection l accept_ctx =
     bindR (assertR (listening accept_ctx \<and> bound accept_ctx)) (\<lambda>_.
     bindR (get_connection_queue l accept_ctx) (\<lambda>q.
       case q of
         None \<Rightarrow> Inl AssertFail
       | Some q \<Rightarrow>
           (case completed_queue q of
              [] \<Rightarrow> Inr None
            | r # rs \<Rightarrow>
                bindR (request_at q r) (\<lambda>request.
                bindR (get_ctx l (sd request)) (\<lambda>new_ctx.
                bindR (assertR (cur_len q > 0)) (\<lambda>_.
                bindR (put_queue l (my_sd accept_ctx)
                         (q\<lparr>cur_len := cur_len q - 1,
                            connection_queue := (connection_queue q)[snd r := INVALIDATE_CONNECT_REQUEST],
                            completed_queue := rs\<rparr>)) (\<lambda>l.
                  Inr (Some (new_ctx, l)))))))))"

text \<open>The result is the new descriptor and the address of the peer, or \<open>errno\<close>.\<close>

definition myaccept ::
  "mysock_layer \<Rightarrow> int \<Rightarrow> fault + ((int + int \<times> sockaddr) \<times> mysock_layer) option" where
  "myaccept l k =
     bindR (get_ctx l k) (\<lambda>accept_ctx.
       if \<not> listening accept_ctx then Inr (Some (Inl EINVAL, l))
       else bindR (mysock_dequeue_connection l accept_ctx) (\<lambda>r.
              case r of
                None \<Rightarrow> Inr None
              | Some (ctx, l) \<Rightarrow>
                  bindR (assertR (stcp_errno ctx = 0 \<longrightarrow> peer_addr_len (network_state ctx) > 0)) (\<lambda>_.
                  bindR (assertR (listen_sd ctx = k)) (\<lambda>_.
                    Inr (Some (if stcp_errno ctx \<noteq> 0 then Inl (stcp_errno ctx)
                               else Inr (my_sd ctx, peer_sockaddr (network_state ctx)), l))))))"

section \<open>Connection requests\<close>

text \<open>The walk over the first \<open>max_len\<close> requests.\<close>

fun retransmission :: "connect_request list \<Rightarrow> sockaddr \<Rightarrow> nat \<Rightarrow> fault + bool" where
  "retransmission [] addr addr_len = Inr False"
| "retransmission (r # rs) addr addr_len =
     bindR (assertR (sd r = -1 \<or> addr_len = req_addr_len r)) (\<lambda>_.
       if req_addr r = addr then Inr True else retransmission rs addr addr_len)"

text \<open>The index of the first request that satisfies a condition.\<close>

fun first_request :: "(connect_request \<Rightarrow> bool) \<Rightarrow> connect_request list \<Rightarrow> nat option" where
  "first_request P [] = None"
| "first_request P (r # rs) = (if P r then Some 0 else map_option Suc (first_request P rs))"

definition mysock_transport_init :: "mysock_layer \<Rightarrow> int \<Rightarrow> bool \<Rightarrow> fault + mysock_layer" where
  "mysock_transport_init l k active =
     bindR (get_ctx l k) (\<lambda>ctx.
     bindR (assertR (\<not> listening ctx)) (\<lambda>_.
       Inr (put_ctx l (ctx\<lparr>is_active := active, transport_thread_started := True,
              network_state := network_start_recv_thread (network_state ctx)\<rparr>))))"

text \<open>Whether the request is queued, and the state; \<open>net\<close> is the network layer of a new mysocket.\<close>

definition mysock_enqueue_connection ::
  "mysock_layer \<Rightarrow> mysock_context \<Rightarrow> bytes \<Rightarrow> sockaddr \<Rightarrow> nat \<Rightarrow> network_context \<Rightarrow> fault + bool \<times> mysock_layer" where
  "mysock_enqueue_connection l ctx packet addr addr_len net =
     bindR (assertR (listening ctx \<and> bound ctx)) (\<lambda>_.
     bindR (assertR (addr_len > 0)) (\<lambda>_.
       if length packet < sizeof_tcphdr \<or> th_flags (tcphdr_at packet) AND TH_SYN = 0 then Inr (False, l)
       else bindR (get_connection_queue l ctx) (\<lambda>q.
         case q of
           None \<Rightarrow> Inr (False, l)
         | Some q \<Rightarrow>
             bindR (retransmission (take (max_len q) (connection_queue q)) addr addr_len) (\<lambda>again.
               if again then Inr (False, l)
               else if \<not> cur_len q < max_len q then Inr (False, l)
               else case first_request (\<lambda>r. sd r < 0) (take (max_len q) (connection_queue q)) of
                      None \<Rightarrow> Inl AssertFail
                    | Some i \<Rightarrow>
                        bindR (assertR (sd (connection_queue q ! i) = -1)) (\<lambda>_.
                          case mysock_new_mysocket (global_ctx l) net of
                            (Inl _, _) \<Rightarrow>
                              bindR (put_queue l (my_sd ctx)
                                       (q\<lparr>connection_queue := (connection_queue q)[i := INVALIDATE_CONNECT_REQUEST]\<rparr>))
                                (\<lambda>l. Inr (False, l))
                          | (Inr k, tbl) \<Rightarrow>
                              (let l = l\<lparr>global_ctx := tbl\<rparr>
                               in bindR (get_ctx l k) (\<lambda>new_ctx.
                                  let new_ctx = new_ctx\<lparr>listen_sd := my_sd ctx,
                                        network_state := (network_state new_ctx)\<lparr>
                                          peer_addr := sin_addr addr, peer_port := sin_port addr,
                                          peer_is_inet := sa_inet addr, peer_addr_len := addr_len,
                                          peer_addr_valid := True\<rparr>\<rparr>
                                  in bindR (network_update_passive_state new_ctx ctx) (\<lambda>(new_ctx, ctx).
                                     bindR (put_queue (put_ctx (put_ctx l ctx) new_ctx) (my_sd ctx)
                                              (q\<lparr>cur_len := cur_len q + 1,
                                                 connection_queue := (connection_queue q)[i :=
                                                   \<lparr>req_addr = addr, req_addr_len = addr_len, sd = k\<rparr>]\<rparr>)) (\<lambda>l.
                                     bindR (mysock_transport_init l k False) (\<lambda>l.
                                     bindR (get_ctx l k) (\<lambda>new_ctx.
                                       Inr (True, put_ctx l (new_ctx\<lparr>network_recv_queue :=
                                         mysock_enqueue_buffer (network_recv_queue new_ctx) packet\<rparr>)))))))))))))"

definition mysock_passive_connection_complete :: "mysock_layer \<Rightarrow> mysock_context \<Rightarrow> fault + mysock_layer" where
  "mysock_passive_connection_complete l ctx =
     bindR (assertR (listen_sd ctx \<ge> 0)) (\<lambda>_.
     bindR (get_ctx l (listen_sd ctx)) (\<lambda>listen_ctx.
     bindR (get_connection_queue l listen_ctx) (\<lambda>q.
       case q of
         None \<Rightarrow> Inr l
       | Some q \<Rightarrow>
           (case first_request (\<lambda>r. sd r = my_sd ctx) (take (max_len q) (connection_queue q)) of
              None \<Rightarrow> Inl AssertFail
            | Some i \<Rightarrow> put_queue l (my_sd listen_ctx)
                         (q\<lparr>completed_queue := completed_queue q @ [(queue_block q, i)]\<rparr>)))))"

text \<open>\<open>stcp_unblock_application\<close> with its second part, which moves a passive connection on.\<close>

definition unblock_application :: "mysock_layer \<Rightarrow> int \<Rightarrow> int \<Rightarrow> fault + mysock_layer" where
  "unblock_application l k err =
     bindR (get_ctx l k) (\<lambda>ctx.
     bindR (stcp_unblock_application ctx err) (\<lambda>ctx.
       let l = put_ctx l ctx
       in if \<not> is_active ctx then mysock_passive_connection_complete l ctx else Inr l))"

section \<open>Listening\<close>

text \<open>
  \<open>backlog + 1\<close> is computed in 32 bits.  \<open>relocated\<close> tells whether \<open>realloc\<close> moves the array;
  the first allocation is always new.
\<close>

definition mysock_set_backlog :: "mysock_layer \<Rightarrow> mysock_context \<Rightarrow> u32 \<Rightarrow> bool \<Rightarrow> fault + mysock_layer" where
  "mysock_set_backlog l ctx backlog relocated =
     (let n = unat (backlog + 1)
      in bindR (assertR (listening ctx \<and> bound ctx)) (\<lambda>_.
         bindR (network_get_port (network_state ctx)) (\<lambda>port.
         bindR (assertR (ntohs port > 0)) (\<lambda>_.
         bindR (get_connection_queue l ctx) (\<lambda>q.
         bindR (case q of
                  Some q \<Rightarrow> Inr (l, q)
                | None \<Rightarrow>
                    (let q = \<lparr>lq_local_port = ntohs port, max_len = 0, cur_len = 0, connection_queue = [],
                              queue_block = 0, completed_queue = []\<rparr>
                     in bindR (hash_insert (listen_table l) (my_sd ctx) q) (\<lambda>t.
                        Inr (l\<lparr>listen_table := t\<rparr>, q)))) (\<lambda>(l, q).
         bindR (assertR (lq_local_port q = ntohs port)) (\<lambda>_.
           let q = (if n > max_len q
                    then q\<lparr>connection_queue := take (max_len q) (connection_queue q)
                             @ replicate (n - max_len q) INVALIDATE_CONNECT_REQUEST,
                           queue_block := (if relocated \<or> connection_queue q = [] then queue_block q + 1 else queue_block q)\<rparr>
                    else q)
           in put_queue l (my_sd ctx) (q\<lparr>max_len := n\<rparr>))))))))"

definition mylisten ::
  "mysock_layer \<Rightarrow> int \<Rightarrow> int \<Rightarrow> bool \<Rightarrow> int \<Rightarrow> fault + int \<times> mysock_layer" where
  "mylisten l k backlog relocated listen_rc =
     bindR (get_ctx l k) (\<lambda>ctx.
     bindR (assertR (bound ctx)) (\<lambda>_.
       let ctx = ctx\<lparr>listening := True\<rparr>
       in bindR (mysock_set_backlog (put_ctx l ctx) ctx (of_int backlog) relocated) (\<lambda>l.
          bindR (assertR (socket (impl_data (network_state ctx)) \<ge> 0)) (\<lambda>_.
            if listen_rc < 0 then Inr (-1, l)
            else Inr (0, put_ctx l (ctx\<lparr>network_state := network_start_recv_thread (network_state ctx)\<rparr>))))))"

section \<open>Binding and connecting\<close>

abbreviation (input) EADDRNOTAVAIL :: int where "EADDRNOTAVAIL \<equiv> 99"
abbreviation (input) EISCONN :: int where "EISCONN \<equiv> 106"
abbreviation (input) ENOTCONN :: int where "ENOTCONN \<equiv> 107"

text \<open>\<open>bind\<close>: its result and the port the socket has then.\<close>

definition network_bind :: "network_context \<Rightarrow> int \<Rightarrow> u16 \<Rightarrow> fault + int \<times> network_context" where
  "network_bind net rc port =
     bindR (assertR (socket (impl_data net) \<ge> 0)) (\<lambda>_.
       Inr (rc, if rc < 0 then net else net\<lparr>local_port := port\<rparr>))"

definition mybind :: "mysock_layer \<Rightarrow> int \<Rightarrow> sockaddr \<Rightarrow> int \<Rightarrow> u16 \<Rightarrow> fault + (int + int) \<times> mysock_layer" where
  "mybind l k addr rc port =
     bindR (get_ctx l k) (\<lambda>ctx.
       if \<not> sa_inet addr then Inr (Inl EADDRNOTAVAIL, l)
       else bindR (assertR (\<not> listening ctx)) (\<lambda>_.
            bindR (network_bind (network_state ctx) rc port) (\<lambda>(rc, net).
              Inr (Inr rc, put_ctx l (ctx\<lparr>bound := True, network_state := net\<rparr>)))))"

definition mysock_bind_ephemeral :: "mysock_context \<Rightarrow> int \<Rightarrow> u16 \<Rightarrow> fault + mysock_context" where
  "mysock_bind_ephemeral ctx rc port =
     bindR (assertR (\<not> bound ctx)) (\<lambda>_.
     bindR (network_bind (network_state ctx) rc port) (\<lambda>(rc, net).
     bindR (assertR (rc \<ge> 0)) (\<lambda>_. Inr (ctx\<lparr>bound := True, network_state := net\<rparr>))))"

text \<open>\<open>myconnect\<close> until its wait; \<open>mysock_wait_for_connection\<close> is the rest of the call.\<close>

definition myconnect ::
  "mysock_layer \<Rightarrow> int \<Rightarrow> sockaddr \<Rightarrow> nat \<Rightarrow> int \<Rightarrow> u16 \<Rightarrow> fault + int option \<times> mysock_layer" where
  "myconnect l k name namelen rc port =
     bindR (get_ctx l k) (\<lambda>ctx.
       if peer_addr_len (network_state ctx) \<noteq> 0 then Inr (Some EISCONN, l)
       else let ctx = ctx\<lparr>network_state := (network_state ctx)\<lparr>peer_addr := sin_addr name,
                    peer_port := sin_port name, peer_is_inet := sa_inet name,
                    peer_addr_len := namelen, peer_addr_valid := True\<rparr>\<rparr>
            in bindR (if bound ctx then Inr ctx else mysock_bind_ephemeral ctx rc port) (\<lambda>ctx.
               bindR (mysock_transport_init (put_ctx l ctx) k True) (\<lambda>l. Inr (None, l))))"

text \<open>None while the call waits, else 0 or the error.\<close>

definition mysock_wait_for_connection :: "mysock_context \<Rightarrow> (int + unit) option" where
  "mysock_wait_for_connection ctx =
     (if blocking ctx then None
      else Some (if stcp_errno ctx \<noteq> 0 then Inl (stcp_errno ctx) else Inr ()))"

definition mygetsockname :: "mysock_layer \<Rightarrow> int \<Rightarrow> u32 \<Rightarrow> fault + sockaddr" where
  "mygetsockname l k bound_addr =
     bindR (get_ctx l k) (\<lambda>ctx.
     bindR (network_get_port (network_state ctx)) (\<lambda>port.
       if peer_addr_valid (network_state ctx)
       then bindR (network_get_local_addr (network_state ctx)) (\<lambda>a.
              Inr \<lparr>sa_inet = True, sin_addr = a, sin_port = port\<rparr>)
       else Inr \<lparr>sa_inet = True, sin_addr = bound_addr, sin_port = port\<rparr>))"

section \<open>Closing\<close>

text \<open>
  A close waits for the transport thread of its mysocket; \<open>exited\<close> tells which threads have
  returned.  None while the call waits (the request, \<open>myclose_request\<close>, takes effect before).
  The nested calls are those for connections that are
  still queued at a listening socket.
\<close>

fun close_queued :: "(mysock_layer \<Rightarrow> int \<Rightarrow> fault + mysock_layer option) \<Rightarrow> mysock_layer \<Rightarrow> connect_request list
    \<Rightarrow> fault + mysock_layer option" where
  "close_queued close l [] = Inr (Some l)"
| "close_queued close l (r # rs) =
     (if sd r \<noteq> -1
      then bindR (close l (sd r)) (\<lambda>r. case r of None \<Rightarrow> Inr None | Some l \<Rightarrow> close_queued close l rs)
      else close_queued close l rs)"

definition mysock_close_passive_socket ::
  "(mysock_layer \<Rightarrow> int \<Rightarrow> fault + mysock_layer option) \<Rightarrow> mysock_layer \<Rightarrow> mysock_context \<Rightarrow> fault + mysock_layer option" where
  "mysock_close_passive_socket close l ctx =
     bindR (get_connection_queue l ctx) (\<lambda>q.
       case q of
         None \<Rightarrow> Inr (Some l)
       | Some q \<Rightarrow>
           bindR (close_queued close l (take (max_len q) (connection_queue q))) (\<lambda>r.
             case r of
               None \<Rightarrow> Inr None
             | Some l \<Rightarrow> bindR (hash_delete (listen_table l) (my_sd ctx)) (\<lambda>t. Inr (Some (l\<lparr>listen_table := t\<rparr>)))))"

text \<open>The first argument bounds the nesting of the calls.\<close>

fun myclose :: "nat \<Rightarrow> (int \<Rightarrow> bool) \<Rightarrow> mysock_layer \<Rightarrow> int \<Rightarrow> fault + mysock_layer option" where
  "myclose 0 exited l k = Inl StackOverflow"
| "myclose (Suc n) exited l k =
     bindR (get_ctx l k) (\<lambda>ctx.
     let ctx = myclose_request ctx
     in bindR (if transport_thread_started ctx
               then bindR (assertR (\<not> listening ctx)) (\<lambda>_.
                    bindR (assertR (is_active ctx \<or> listen_sd ctx \<noteq> -1)) (\<lambda>_.
                      Inr (exited k)))
               else Inr True) (\<lambda>joined.
        if \<not> joined then Inr None
        else let l = put_ctx l (ctx\<lparr>transport_thread_started := False,
                       network_state := network_stop_recv_thread (network_state ctx)\<rparr>)
             in bindR (if listening ctx then mysock_close_passive_socket (myclose n exited) l ctx else Inr (Some l)) (\<lambda>r.
                Inr (map_option (\<lambda>l. l\<lparr>global_ctx := mysock_free_context (global_ctx l) k\<rparr>) r))))"

section \<open>The receive thread\<close>

text \<open>
  One iteration: whether the thread goes on, the state and the streams; none while a call
  blocks.
\<close>

definition recv_iteration ::
  "mysock_layer \<Rightarrow> int \<Rightarrow> int \<Rightarrow> (int \<times> u32 \<times> u16) option \<Rightarrow> (int \<Rightarrow> stream) \<Rightarrow> network_context
    \<Rightarrow> fault + (bool \<times> mysock_layer \<times> (int \<Rightarrow> stream)) option" where
  "recv_iteration l k conn acc ss net =
     bindR (get_ctx l k) (\<lambda>ctx.
     bindR (network_recv_packet ctx conn acc ss MAX_IP_PAYLOAD_LEN) (\<lambda>r.
       case r of
         None \<Rightarrow> Inr None
       | Some (bytes_read, packet_buf, ctx_net, ss) \<Rightarrow>
           (let ctx = ctx\<lparr>network_state := ctx_net\<rparr>
            in if bytes_read \<le> 0
               then Inr (Some (False, put_ctx l (ctx\<lparr>network_recv_queue :=
                      mysock_enqueue_buffer (network_recv_queue ctx) []\<rparr>), ss))
               else bindR (assertR (bytes_read \<le> int MAX_IP_PAYLOAD_LEN)) (\<lambda>_.
                    if listening ctx
                    then bindR (mysock_enqueue_connection (put_ctx l ctx) ctx packet_buf
                                  (peer_sockaddr ctx_net) (peer_addr_len ctx_net) net) (\<lambda>(_, l).
                           Inr (Some (True, l, ss)))
                    else Inr (Some (True, put_ctx l (ctx\<lparr>network_recv_queue :=
                           mysock_enqueue_buffer (network_recv_queue ctx) packet_buf\<rparr>), ss))))))"

end
