(* ===== verification/Demux_Inv.thy ===== *)
theory Demux_Inv
  imports Connection_Demux
begin

text \<open>
  What the operations of the mysocket layer do to its state, seen as two maps: descriptors to
  contexts and listening descriptors to their queues.  The invariant ties the requests of a
  queue to the contexts they stand for, and every operation on a listening socket keeps it.
\<close>

section \<open>The state as maps\<close>

definition ctx_at :: "mysock_layer \<Rightarrow> int \<Rightarrow> mysock_context option" where
  "ctx_at l k = (if 0 \<le> k \<and> k < 64 then global_ctx l ! nat k else None)"

abbreviation queue_of :: "mysock_layer \<Rightarrow> int \<Rightarrow> listen_queue option" where
  "queue_of l \<equiv> hash_map (listen_table l)"

definition layer_wf :: "mysock_layer \<Rightarrow> bool" where
  "layer_wf l \<longleftrightarrow> descriptors_wf (global_ctx l) \<and> hash_wf (listen_table l)"

lemma ctx_at_sd: "layer_wf l \<Longrightarrow> ctx_at l k = Some c \<Longrightarrow> my_sd c = k \<and> 0 \<le> k \<and> k < 64"
  by (cases k) (auto simp: ctx_at_def layer_wf_def descriptors_wf_def split: if_splits)

lemma get_ctx_at:
  assumes "layer_wf l"
  shows "get_ctx l k = (case ctx_at l k of None \<Rightarrow> Inl AssertFail | Some c \<Rightarrow> Inr c)"
proof (cases "ctx_at l k")
  case None
  with assms show ?thesis
    by (auto simp: ctx_at_def layer_wf_def descriptors_wf_def get_ctx_def mysock_get_context_def assertR_def
        split: if_splits)
next
  case (Some c)
  with assms show ?thesis
    by (auto simp: ctx_at_def layer_wf_def get_ctx_def get_context_iff split: if_splits)
qed

lemma put_ctx_at:
  assumes "layer_wf l" and "ctx_at l (my_sd c) \<noteq> None"
  shows "layer_wf (put_ctx l c)" "ctx_at (put_ctx l c) = (ctx_at l)(my_sd c \<mapsto> c)"
    "listen_table (put_ctx l c) = listen_table l"
proof -
  from assms have b: "0 \<le> my_sd c" "my_sd c < 64" and len: "length (global_ctx l) = 64"
    by (auto simp: ctx_at_def layer_wf_def descriptors_wf_def split: if_splits)
  show "layer_wf (put_ctx l c)"
    unfolding layer_wf_def descriptors_wf_def
  proof (intro conjI allI impI)
    fix j c'
    assume j: "j < length (global_ctx (put_ctx l c))" "global_ctx (put_ctx l c) ! j = Some c'"
    show "my_sd c' = int j"
    proof (cases "j = nat (my_sd c)")
      case True
      with j b len show ?thesis by (simp add: put_ctx_def)
    next
      case False
      with j assms(1) show ?thesis by (simp add: put_ctx_def layer_wf_def descriptors_wf_def)
    qed
  qed (use assms(1) len in \<open>simp_all add: put_ctx_def layer_wf_def\<close>)
  show "ctx_at (put_ctx l c) = (ctx_at l)(my_sd c \<mapsto> c)"
    using b len by (auto simp: fun_eq_iff ctx_at_def put_ctx_def nth_list_update)
  show "listen_table (put_ctx l c) = listen_table l" by (simp add: put_ctx_def)
qed

lemma put_queue_at:
  assumes "layer_wf l" and "0 \<le> k"
  obtains l' where "put_queue l k q = Inr l'" "layer_wf l'" "ctx_at l' = ctx_at l" "queue_of l' = (queue_of l)(k \<mapsto> q)"
proof -
  from assms have w: "hash_wf (listen_table l)" by (simp add: layer_wf_def)
  from listen.put_ok [OF w assms(2), of q] obtain t where
    t: "hash_set_entry (listen_table l) k q = Inr t" "hash_wf t" "hash_map t = (queue_of l)(k \<mapsto> q)" by blast
  show ?thesis
    by (rule that [of "l\<lparr>listen_table := t\<rparr>"])
      (use t assms(1) in \<open>simp_all add: put_queue_def layer_wf_def ctx_at_def fun_eq_iff\<close>)
qed

lemma queue_at:
  "\<lbrakk>layer_wf l; listening c; bound c; 0 \<le> my_sd c\<rbrakk> \<Longrightarrow> get_connection_queue l c = Inr (queue_of l (my_sd c))"
  by (simp add: get_connection_queue_def layer_wf_def lookup_ptr_map)

lemma new_ctx_at:
  assumes "layer_wf l" and "None \<in> set (global_ctx l)"
  obtains j tbl where "mysock_new_mysocket (global_ctx l) net = (Inr j, tbl)" "ctx_at l j = None" "layer_wf (l\<lparr>global_ctx := tbl\<rparr>)"
    "ctx_at (l\<lparr>global_ctx := tbl\<rparr>) = (ctx_at l)(j \<mapsto> (mysock_allocate_context net)\<lparr>my_sd := j\<rparr>)" "0 \<le> j"
proof -
  let ?k = "free_descriptor (global_ctx l)"
  have wf: "descriptors_wf (global_ctx l)" "hash_wf (listen_table l)" using assms(1) by (simp_all add: layer_wf_def)
  have k: "?k < length (global_ctx l)"
    using assms(2) free_descriptor_full [of "global_ctx l"] free_descriptor_le [of "global_ctx l"] by linarith
  note n = free_descriptor_None [OF k]
  have len: "length (global_ctx l) = 64" using wf by (simp add: descriptors_wf_def)
  let ?c = "(mysock_allocate_context net)\<lparr>my_sd := int ?k\<rparr>"
  have new: "mysock_new_mysocket (global_ctx l) net = (Inr (int ?k), (global_ctx l)[?k := Some ?c])"
    using k by (simp add: mysock_new_mysocket_def Let_def)
  show ?thesis
  proof (rule that [OF new])
    show "ctx_at l (int ?k) = None" using n by (simp add: ctx_at_def)
    show "layer_wf (l\<lparr>global_ctx := (global_ctx l)[?k := Some ?c]\<rparr>)"
      using new_mysocket_wf [OF wf(1), of net] wf(2) new by (simp add: layer_wf_def)
    show "ctx_at (l\<lparr>global_ctx := (global_ctx l)[?k := Some ?c]\<rparr>) = (ctx_at l)(int ?k \<mapsto> ?c)"
      using k len by (auto simp: fun_eq_iff ctx_at_def nth_list_update)
  qed simp
qed

lemma retransmission_spec:
  "\<forall>r \<in> set rs. sd r = -1 \<or> req_addr_len r = n \<Longrightarrow> retransmission rs a n = Inr (a \<in> req_addr ` set rs)"
  by (induction rs) (auto simp: assertR_def)

lemma first_request_Some: "first_request P rs = Some i \<Longrightarrow> i < length rs \<and> P (rs ! i)"
  by (induction rs arbitrary: i) (auto split: if_splits)

lemma first_request_ex: "i < length rs \<Longrightarrow> P (rs ! i) \<Longrightarrow> \<exists>j. first_request P rs = Some j"
  by (induction rs arbitrary: i) (auto simp: nth_Cons split: nat.splits)

section \<open>The invariant\<close>

text \<open>The indices of requests in use.\<close>

definition live :: "listen_queue \<Rightarrow> nat set" where
  "live q = {i. i < max_len q \<and> sd (connection_queue q ! i) \<noteq> -1}"

text \<open>The descriptors of the connections that are queued.\<close>

definition slots :: "listen_queue \<Rightarrow> int set" where
  "slots q = (\<lambda>i. sd (connection_queue q ! i)) ` live q"

definition request_ok :: "(int \<Rightarrow> mysock_context option) \<Rightarrow> int \<Rightarrow> listen_queue \<Rightarrow> nat \<Rightarrow> bool" where
  "request_ok C k q i \<longleftrightarrow>
     (let r = connection_queue q ! i
      in sa_inet (req_addr r) \<and> req_addr_len r = 16
         \<and> (\<exists>c. C (sd r) = Some c \<and> listen_sd c = k \<and> \<not> listening c \<and> \<not> is_active c
              \<and> peer_sockaddr (network_state c) = req_addr r \<and> peer_addr_len (network_state c) = 16
              \<and> (blocking c \<longleftrightarrow> (queue_block q, i) \<notin> set (completed_queue q))))"

definition queue_ok :: "(int \<Rightarrow> mysock_context option) \<Rightarrow> int \<Rightarrow> listen_queue \<Rightarrow> bool" where
  "queue_ok C k q \<longleftrightarrow>
     max_len q \<le> length (connection_queue q) \<and> cur_len q = card (live q)
     \<and> (\<forall>i < max_len q. i \<notin> live q \<longrightarrow> connection_queue q ! i = INVALIDATE_CONNECT_REQUEST)
     \<and> (\<forall>i \<in> live q. request_ok C k q i)
     \<and> inj_on (\<lambda>i. sd (connection_queue q ! i)) (live q)
     \<and> distinct (completed_queue q) \<and> set (completed_queue q) \<subseteq> Pair (queue_block q) ` live q
     \<and> (\<forall>j c. C j = Some c \<and> listen_sd c = k \<and> blocking c \<longrightarrow> j \<in> slots q)"

definition layer_ok :: "mysock_layer \<Rightarrow> bool" where
  "layer_ok l \<longleftrightarrow> layer_wf l
     \<and> (\<forall>k q. queue_of l k = Some q \<longrightarrow>
          (\<exists>c. ctx_at l k = Some c \<and> listening c \<and> bound c \<and> listen_sd c = -1) \<and> queue_ok (ctx_at l) k q)
     \<and> (\<forall>j c. ctx_at l j = Some c \<and> listen_sd c \<noteq> -1 \<longrightarrow> (\<exists>q. queue_of l (listen_sd c) = Some q))"

lemma finite_live [simp]: "finite (live q)"
  by (simp add: live_def)

lemma live_update:
  assumes "max_len q \<le> length (connection_queue q)" and "i < max_len q"
  shows "live (q\<lparr>connection_queue := (connection_queue q)[i := r]\<rparr>) = (if sd r = -1 then live q - {i} else insert i (live q))"
  using assms by (auto simp: live_def nth_list_update)

lemma live_fields [simp]:
  "live (q\<lparr>cur_len := n\<rparr>) = live q" "live (q\<lparr>completed_queue := rs\<rparr>) = live q"
  by (simp_all add: live_def)

text \<open>What a context shows to the queues; the peer matters for passive connections only, and
  whether a context is bound for listening ones.\<close>

definition role :: "mysock_context \<Rightarrow> int \<times> bool \<times> bool \<times> bool \<times> bool \<times> (sockaddr \<times> nat) option" where
  "role c = (listen_sd c, listening c, listening c \<and> bound c, is_active c, blocking c,
     if listen_sd c = -1 then None else Some (peer_sockaddr (network_state c), peer_addr_len (network_state c)))"

lemma queue_ok_role:
  assumes "queue_ok C k q" and k: "k \<noteq> -1"
    and same: "\<And>j c. C j = Some c \<Longrightarrow> j \<in> slots q \<Longrightarrow> \<exists>c'. C' j = Some c' \<and> role c' = role c"
    and orig: "\<And>j c. C' j = Some c \<Longrightarrow> listen_sd c = k \<Longrightarrow> \<exists>c'. C j = Some c' \<and> role c' = role c"
  shows "queue_ok C' k q"
proof -
  have "request_ok C' k q i" if r: "request_ok C k q i" and i: "i \<in> live q" for i
  proof -
    from r obtain c where c: "C (sd (connection_queue q ! i)) = Some c" "listen_sd c = k" "\<not> listening c" "\<not> is_active c"
      "peer_sockaddr (network_state c) = req_addr (connection_queue q ! i)" "peer_addr_len (network_state c) = 16"
      "blocking c \<longleftrightarrow> (queue_block q, i) \<notin> set (completed_queue q)"
      "sa_inet (req_addr (connection_queue q ! i))" "req_addr_len (connection_queue q ! i) = 16"
      by (auto simp: request_ok_def Let_def)
    from i have "sd (connection_queue q ! i) \<in> slots q" by (simp add: slots_def)
    from same [OF c(1) this] c k show ?thesis by (auto simp: request_ok_def Let_def role_def)
  qed
  moreover have "j \<in> slots q" if "C' j = Some c" "listen_sd c = k" "blocking c" for j c
  proof -
    from orig [OF that(1,2)] obtain c' where "C j = Some c'" "role c' = role c" by blast
    with that assms(1) show ?thesis by (auto simp: queue_ok_def role_def)
  qed
  ultimately show ?thesis using assms(1) unfolding queue_ok_def by blast
qed

lemma layer_okD:
  assumes "layer_ok l" and "queue_of l k = Some q"
  obtains c where "layer_wf l" "ctx_at l k = Some c" "listening c" "bound c" "listen_sd c = -1" "my_sd c = k" "0 \<le> k" "k < 64"
    "queue_ok (ctx_at l) k q"
proof -
  from assms have wf: "layer_wf l" by (simp add: layer_ok_def)
  from assms obtain c where c: "ctx_at l k = Some c" "listening c" "bound c" "listen_sd c = -1" "queue_ok (ctx_at l) k q"
    unfolding layer_ok_def by blast
  from ctx_at_sd [OF wf c(1)] c wf show ?thesis using that by blast
qed

text \<open>
  An update that touches one queue at most, and contexts on which the other queues do not
  depend.
\<close>

lemma layer_okI:
  assumes "layer_ok l" and "layer_wf l'" and others: "\<And>m. m \<noteq> k \<Longrightarrow> queue_of l' m = queue_of l m"
    and this_queue: "\<And>q. queue_of l' k = Some q \<Longrightarrow>
      (\<exists>c. ctx_at l' k = Some c \<and> listening c \<and> bound c \<and> listen_sd c = -1) \<and> queue_ok (ctx_at l') k q"
    and same: "\<And>m p j c. \<lbrakk>m \<noteq> k; queue_of l m = Some p; ctx_at l j = Some c; j = m \<or> j \<in> slots p\<rbrakk>
      \<Longrightarrow> \<exists>c'. ctx_at l' j = Some c' \<and> role c' = role c"
    and orig: "\<And>j c. \<lbrakk>ctx_at l' j = Some c; listen_sd c \<noteq> k; listen_sd c \<noteq> -1\<rbrakk> \<Longrightarrow> \<exists>c'. ctx_at l j = Some c' \<and> role c' = role c"
    and own: "\<And>j c. \<lbrakk>ctx_at l' j = Some c; listen_sd c = k; k \<noteq> -1\<rbrakk> \<Longrightarrow> \<exists>q. queue_of l' k = Some q"
  shows "layer_ok l'"
  unfolding layer_ok_def
proof (intro conjI allI impI assms(2))
  fix m p
  assume p: "queue_of l' m = Some p"
  show "(\<exists>c. ctx_at l' m = Some c \<and> listening c \<and> bound c \<and> listen_sd c = -1)" "queue_ok (ctx_at l') m p"
  proof -
    have "(\<exists>c. ctx_at l' m = Some c \<and> listening c \<and> bound c \<and> listen_sd c = -1) \<and> queue_ok (ctx_at l') m p"
    proof (cases "m = k")
      case True
      with p this_queue show ?thesis by simp
    next
      case False
      with p others have m: "queue_of l m = Some p" by simp
      from layer_okD [OF assms(1) m] obtain c where c: "ctx_at l m = Some c" "listening c" "bound c" "listen_sd c = -1" "0 \<le> m"
        and ok: "queue_ok (ctx_at l) m p" .
      from same [OF False m c(1)] obtain c' where "ctx_at l' m = Some c'" "role c' = role c" by blast
      with c have "\<exists>c. ctx_at l' m = Some c \<and> listening c \<and> bound c \<and> listen_sd c = -1" by (auto simp: role_def)
      moreover have "queue_ok (ctx_at l') m p"
        by (rule queue_ok_role [OF ok]) (use c(5) same [OF False m] orig False in auto)
      ultimately show ?thesis ..
    qed
    then show "(\<exists>c. ctx_at l' m = Some c \<and> listening c \<and> bound c \<and> listen_sd c = -1)" "queue_ok (ctx_at l') m p" by blast+
  qed
next
  fix j c
  assume c: "ctx_at l' j = Some c \<and> listen_sd c \<noteq> -1"
  show "\<exists>q. queue_of l' (listen_sd c) = Some q"
  proof (cases "listen_sd c = k")
    case True
    with c own show ?thesis by blast
  next
    case False
    from orig [of j c] False c obtain c' where c': "ctx_at l j = Some c'" "role c' = role c" by blast
    then have "listen_sd c' = listen_sd c" by (simp add: role_def)
    with c c'(1) assms(1) have "\<exists>q. queue_of l (listen_sd c) = Some q" unfolding layer_ok_def by metis
    with others False show ?thesis by simp
  qed
qed

lemma queue_of_neg [simp]: "k < 0 \<Longrightarrow> hash_map t k = None"
  by (simp add: hash_map_def)

text \<open>The same for updates that touch no queue.\<close>

lemma layer_ok_contexts:
  assumes "layer_ok l" and "layer_wf l'" and q: "queue_of l' = queue_of l"
    and same: "\<And>m p j c. \<lbrakk>queue_of l m = Some p; ctx_at l j = Some c; j = m \<or> j \<in> slots p\<rbrakk>
      \<Longrightarrow> \<exists>c'. ctx_at l' j = Some c' \<and> role c' = role c"
    and orig: "\<And>j c. \<lbrakk>ctx_at l' j = Some c; listen_sd c \<noteq> -1\<rbrakk> \<Longrightarrow> \<exists>c'. ctx_at l j = Some c' \<and> role c' = role c"
  shows "layer_ok l'"
  by (rule layer_okI [OF assms(1,2), of "-1"]) (use q same orig in auto)

text \<open>An update of one queue and of contexts of its connections only.\<close>

lemma layer_ok_queue:
  assumes "layer_ok l" and "layer_wf l'" and "queue_of l k = Some q" and q': "queue_of l' = (queue_of l)(k \<mapsto> q')"
    and ok: "queue_ok (ctx_at l') k q'"
    and same: "\<And>j c. ctx_at l j = Some c \<Longrightarrow> listen_sd c \<noteq> k \<Longrightarrow> \<exists>c'. ctx_at l' j = Some c' \<and> role c' = role c"
    and orig: "\<And>j c. ctx_at l' j = Some c \<Longrightarrow> listen_sd c \<noteq> k \<Longrightarrow> \<exists>c'. ctx_at l j = Some c' \<and> role c' = role c"
  shows "layer_ok l'"
proof (rule layer_okI [OF assms(1,2), of k])
  from layer_okD [OF assms(1,3)] obtain a where a: "ctx_at l k = Some a" "listening a" "bound a" "listen_sd a = -1" "0 \<le> k" .
  then have "listen_sd a \<noteq> k" by simp
  from same [OF a(1) this] a have "\<exists>c. ctx_at l' k = Some c \<and> listening c \<and> bound c \<and> listen_sd c = -1"
    by (auto simp: role_def)
  with ok q' show "(\<exists>c. ctx_at l' k = Some c \<and> listening c \<and> bound c \<and> listen_sd c = -1) \<and> queue_ok (ctx_at l') k p"
    if "queue_of l' k = Some p" for p
    using that by simp
  fix m p j c
  assume m: "m \<noteq> k" "queue_of l m = Some p" "ctx_at l j = Some c" "j = m \<or> j \<in> slots p"
  from layer_okD [OF assms(1) m(2)] obtain d where d: "ctx_at l m = Some d" "listen_sd d = -1" "0 \<le> m" and "queue_ok (ctx_at l) m p" .
  with m have "listen_sd c = -1 \<or> listen_sd c = m" by (auto simp: queue_ok_def slots_def request_ok_def Let_def)
  with m(1) a(5) have "listen_sd c \<noteq> k" by auto
  from same [OF m(3) this] show "\<exists>c'. ctx_at l' j = Some c' \<and> role c' = role c" .
qed (use q' orig in auto)

text \<open>A context that changes in other respects only.\<close>

lemma layer_ok_ctx:
  assumes "layer_ok l" and "ctx_at l (my_sd c) = Some c0" and "role c = role c0"
  shows "layer_ok (put_ctx l c)"
proof -
  have wf: "layer_wf l" using assms(1) by (simp add: layer_ok_def)
  have n: "ctx_at l (my_sd c) \<noteq> None" using assms(2) by simp
  note u = put_ctx_at [OF wf n]
  show ?thesis
    by (rule layer_ok_contexts [OF assms(1) u(1)]) (use assms(2,3) in \<open>auto simp: u(2,3) split: if_splits\<close>)
qed

text \<open>A context may disappear if it neither listens nor is queued.\<close>

lemma layer_ok_free:
  assumes "layer_ok l" and "layer_wf l'" and "queue_of l' = queue_of l" and "ctx_at l' = (ctx_at l)(j := None)"
    and "queue_of l j = None" and "\<And>m p. queue_of l m = Some p \<Longrightarrow> j \<notin> slots p"
  shows "layer_ok l'"
  by (rule layer_ok_contexts [OF assms(1-3)]) (use assms(4-6) in \<open>auto split: if_splits\<close>)

section \<open>Accepting\<close>

text \<open>The descriptors of the completed connections, oldest first.\<close>

definition completed_sds :: "listen_queue \<Rightarrow> int list" where
  "completed_sds q = map (\<lambda>r. sd (connection_queue q ! snd r)) (completed_queue q)"

lemma dequeue_ok:
  assumes "queue_ok C k q" and "completed_queue q = (b, i) # rs"
  defines "q' \<equiv> q\<lparr>cur_len := cur_len q - 1, connection_queue := (connection_queue q)[i := INVALIDATE_CONNECT_REQUEST],
      completed_queue := rs\<rparr>"
  shows "b = queue_block q" "i \<in> live q" "cur_len q > 0" "queue_ok C k q'" "completed_sds q' = tl (completed_sds q)"
proof -
  from assms(1) have ml: "max_len q \<le> length (connection_queue q)" and cl: "cur_len q = card (live q)"
    and dead: "\<forall>i < max_len q. i \<notin> live q \<longrightarrow> connection_queue q ! i = INVALIDATE_CONNECT_REQUEST"
    and req: "\<forall>i \<in> live q. request_ok C k q i" and inj: "inj_on (\<lambda>i. sd (connection_queue q ! i)) (live q)"
    and dist: "distinct (completed_queue q)" and sub: "set (completed_queue q) \<subseteq> Pair (queue_block q) ` live q"
    and bl: "\<forall>j c. C j = Some c \<and> listen_sd c = k \<and> blocking c \<longrightarrow> j \<in> (\<lambda>i. sd (connection_queue q ! i)) ` live q"
    unfolding queue_ok_def slots_def by blast+
  from sub assms(2) show b: "b = queue_block q" and i: "i \<in> live q" by auto
  from i cl show "cur_len q > 0" by (auto simp: card_gt_0_iff)
  from i have im: "i < max_len q" by (simp add: live_def)
  have l': "live q' = live q - {i}"
    unfolding q'_def using im ml by (auto simp: live_def INVALIDATE_CONNECT_REQUEST_def nth_list_update)
  have nth: "connection_queue q' ! j = connection_queue q ! j" if "j \<noteq> i" for j using that by (simp add: q'_def)
  have fields: "max_len q' = max_len q" "queue_block q' = queue_block q" "completed_queue q' = rs"
    "cur_len q' = cur_len q - 1" "length (connection_queue q') = length (connection_queue q)"
    by (simp_all add: q'_def)
  have rs: "(queue_block q, i) \<notin> set rs" "distinct rs" "set rs \<subseteq> set (completed_queue q)"
    using dist assms(2) b by auto
  have notb: "\<not> blocking c" if "C (sd (connection_queue q ! i)) = Some c" for c
  proof -
    from req i have "request_ok C k q i" by blast
    moreover have "(queue_block q, i) \<in> set (completed_queue q)" using assms(2) b by simp
    ultimately show ?thesis using that by (simp add: request_ok_def Let_def)
  qed
  show "queue_ok C k q'"
    unfolding queue_ok_def slots_def fields l'
  proof (intro conjI allI impI ballI)
    show "cur_len q - 1 = card (live q - {i})" using cl i by simp
    show "connection_queue q' ! j = INVALIDATE_CONNECT_REQUEST" if "j < max_len q" "j \<notin> live q - {i}" for j
      using that dead im ml by (cases "j = i") (auto simp: q'_def)
    show "request_ok C k q' j" if "j \<in> live q - {i}" for j
      using that req assms(2) by (auto simp: request_ok_def Let_def fields nth)
    show "inj_on (\<lambda>i. sd (connection_queue q' ! i)) (live q - {i})"
      using inj by (auto simp: inj_on_def nth)
    show "set rs \<subseteq> Pair (queue_block q) ` (live q - {i})" using sub rs by auto
    fix j c
    assume c: "C j = Some c \<and> listen_sd c = k \<and> blocking c"
    with bl obtain i' where i': "i' \<in> live q" "j = sd (connection_queue q ! i')" by blast
    with notb c have "i' \<noteq> i" by auto
    with i' show "j \<in> (\<lambda>i. sd (connection_queue q' ! i)) ` (live q - {i})" by (auto simp: nth image_iff)
  qed (use ml rs in simp_all)
  show "completed_sds q' = tl (completed_sds q)"
    using rs sub b by (auto simp: completed_sds_def fields assms(2) nth intro!: arg_cong [of _ _ sd] nth)
qed

lemma accept_spec:
  assumes "layer_ok l" and "queue_of l k = Some q" and "completed_sds q = j # js"
  obtains c l' q' where "ctx_at l j = Some c" "listen_sd c = k" "peer_addr_len (network_state c) = 16"
    "myaccept l k = Inr (Some (if stcp_errno c \<noteq> 0 then Inl (stcp_errno c)
                               else Inr (j, peer_sockaddr (network_state c)), l'))"
    "layer_ok l'" "ctx_at l' = ctx_at l" "queue_of l' = (queue_of l)(k \<mapsto> q')"
    "completed_sds q' = js" "cur_len q' = cur_len q - 1" "max_len q' = max_len q" "0 < cur_len q"
proof -
  from layer_okD [OF assms(1,2)] obtain a where wf: "layer_wf l" and a: "ctx_at l k = Some a" "listening a" "bound a" "my_sd a = k" "0 \<le> k"
    and ok: "queue_ok (ctx_at l) k q" .
  from assms(3) obtain b i rs where cq: "completed_queue q = (b, i) # rs" and j: "j = sd (connection_queue q ! i)"
    by (cases "completed_queue q") (auto simp: completed_sds_def)
  let ?q = "q\<lparr>cur_len := cur_len q - 1, connection_queue := (connection_queue q)[i := INVALIDATE_CONNECT_REQUEST],
      completed_queue := rs\<rparr>"
  note d = dequeue_ok [OF ok cq]
  from d(2) ok have i: "i < length (connection_queue q)" by (auto simp: live_def queue_ok_def)
  from d(2) ok have r: "request_ok (ctx_at l) k q i" by (auto simp: queue_ok_def)
  then obtain c where c: "ctx_at l j = Some c" "listen_sd c = k" "peer_addr_len (network_state c) = 16"
    by (auto simp: request_ok_def Let_def j)
  have mc: "my_sd c = j" using ctx_at_sd [OF wf c(1)] by simp
  obtain l' where l': "put_queue l k ?q = Inr l'" "layer_wf l'" "ctx_at l' = ctx_at l" "queue_of l' = (queue_of l)(k \<mapsto> ?q)"
    by (rule put_queue_at [OF wf a(5)])
  have deq: "mysock_dequeue_connection l a = Inr (Some (c, l'))"
    using a i l'(1) c(1) d(1,3) queue_at [OF wf a(2,3)] assms(2)
    by (simp add: mysock_dequeue_connection_def cq request_at_def get_ctx_at [OF wf] j [symmetric])
  have acc: "myaccept l k = Inr (Some (if stcp_errno c \<noteq> 0 then Inl (stcp_errno c)
      else Inr (j, peer_sockaddr (network_state c)), l'))"
    using deq a c mc by (simp add: myaccept_def get_ctx_at [OF wf])
  have lok: "layer_ok l'"
    by (rule layer_ok_queue [OF assms(1) l'(2) assms(2) l'(4)]) (use d(4) in \<open>simp_all add: l'(3)\<close>)
  show ?thesis
    by (rule that [OF c acc lok l'(3,4)]) (use d(3,5) assms(3) in simp_all)
qed

lemma accept_waits:
  assumes "layer_ok l" and "queue_of l k = Some q" and "completed_sds q = []"
  shows "myaccept l k = Inr None"
proof -
  from layer_okD [OF assms(1,2)] obtain a where wf: "layer_wf l" and a: "ctx_at l k = Some a" "listening a" "bound a" "my_sd a = k" "0 \<le> k" .
  show ?thesis
    using a assms(2,3) queue_at [OF wf a(2,3)]
    by (simp add: myaccept_def get_ctx_at [OF wf] mysock_dequeue_connection_def completed_sds_def)
qed

section \<open>Completing a connection\<close>

lemma complete_ok:
  assumes ok: "queue_ok C k q" and k: "k \<noteq> -1" and c: "C j = Some c" "listen_sd c = k" "blocking c"
    and c': "role c' = role (c\<lparr>blocking := False\<rparr>)"
    and i: "i \<in> live q" "sd (connection_queue q ! i) = j"
  shows "queue_ok (C(j \<mapsto> c')) k (q\<lparr>completed_queue := completed_queue q @ [(queue_block q, i)]\<rparr>)" (is "queue_ok _ _ ?q")
proof -
  from ok have req: "\<forall>i \<in> live q. request_ok C k q i" and inj: "inj_on (\<lambda>i. sd (connection_queue q ! i)) (live q)"
    and sub: "set (completed_queue q) \<subseteq> Pair (queue_block q) ` live q"
    and bl: "\<forall>j c. C j = Some c \<and> listen_sd c = k \<and> blocking c \<longrightarrow> j \<in> (\<lambda>i. sd (connection_queue q ! i)) ` live q"
    unfolding queue_ok_def slots_def by blast+
  have ri: "request_ok C k q i" using req i(1) by blast
  have fresh: "(queue_block q, i) \<notin> set (completed_queue q)" using ri c i(2) by (simp add: request_ok_def Let_def)
  have r: "request_ok (C(j \<mapsto> c')) k ?q m" if m: "m \<in> live q" for m
  proof (cases "m = i")
    case True
    with ri c i(2) c' k show ?thesis by (auto simp: request_ok_def Let_def role_def)
  next
    case False
    with inj i m have "sd (connection_queue q ! m) \<noteq> j" by (auto simp: inj_on_def)
    moreover from req m have "request_ok C k q m" by blast
    ultimately show ?thesis using False by (simp add: request_ok_def Let_def)
  qed
  have "\<not> blocking c'" using c' by (simp add: role_def)
  then have b: "m \<in> (\<lambda>i. sd (connection_queue q ! i)) ` live q"
    if "(C(j \<mapsto> c')) m = Some d" "listen_sd d = k" "blocking d" for m d
    using that bl by (cases "m = j") auto
  show ?thesis
    using ok fresh i sub r b by (simp add: queue_ok_def slots_def)
qed

lemma unblock_spec:
  assumes "layer_ok l" and "queue_of l k = Some q" and c: "ctx_at l j = Some c" "listen_sd c = k" "blocking c"
  obtains l' q' c' where "unblock_application l j err = Inr l'" "layer_ok l'"
    "c' = c\<lparr>blocking := False, stcp_errno := (if err = EINTR then 0 else err)\<rparr>" "ctx_at l' = (ctx_at l)(j \<mapsto> c')"
    "queue_of l' = (queue_of l)(k \<mapsto> q')" "completed_sds q' = completed_sds q @ [j]" "cur_len q' = cur_len q" "max_len q' = max_len q"
proof -
  from layer_okD [OF assms(1,2)] obtain a where wf: "layer_wf l" and a: "ctx_at l k = Some a" "listening a" "bound a" "listen_sd a = -1"
    "my_sd a = k" "0 \<le> k" and ok: "queue_ok (ctx_at l) k q" .
  let ?c = "c\<lparr>blocking := False, stcp_errno := (if err = EINTR then 0 else err)\<rparr>"
  have m: "my_sd ?c = j" using ctx_at_sd [OF wf c(1)] by simp
  note u = put_ctx_at [OF wf, of ?c, unfolded m]
  have n: "ctx_at l j \<noteq> None" using c by simp
  let ?l = "put_ctx l ?c"
  have jk: "k \<noteq> j" using a c by auto
  from ok c obtain i where i: "i \<in> live q" "sd (connection_queue q ! i) = j" by (auto simp: queue_ok_def slots_def)
  from ok i have r: "request_ok (ctx_at l) k q i" and inj: "inj_on (\<lambda>i. sd (connection_queue q ! i)) (live q)"
    and ml: "max_len q \<le> length (connection_queue q)"
    by (auto simp: queue_ok_def)
  have j: "j \<noteq> -1" using ctx_at_sd [OF wf c(1)] by simp
  have act: "\<not> is_active c" using r c i by (auto simp: request_ok_def Let_def)
  let ?rs = "take (max_len q) (connection_queue q)"
  have fi: "first_request (\<lambda>r. sd r = j) ?rs = Some i"
  proof -
    from i ml obtain i' where f: "first_request (\<lambda>r. sd r = j) ?rs = Some i'"
      using first_request_ex [of i ?rs "\<lambda>r. sd r = j"] by (auto simp: live_def)
    from first_request_Some [OF f] ml j have "i' \<in> live q" "sd (connection_queue q ! i') = j" by (auto simp: live_def)
    with inj i have "i' = i" by (auto simp: inj_on_def)
    with f show ?thesis by simp
  qed
  let ?q = "q\<lparr>completed_queue := completed_queue q @ [(queue_block q, i)]\<rparr>"
  obtain l' where l': "put_queue ?l k ?q = Inr l'" "layer_wf l'" "ctx_at l' = ctx_at ?l" "queue_of l' = (queue_of ?l)(k \<mapsto> ?q)"
    by (rule put_queue_at [OF u(1) [OF n] a(6)])
  have x: "ctx_at l' = (ctx_at l)(j \<mapsto> ?c)" "queue_of l' = (queue_of l)(k \<mapsto> ?q)"
    using l' u(2,3) [OF n] by simp_all
  have ka: "ctx_at ?l k = Some a" using u(2) [OF n] a(1) jk by simp
  have res: "unblock_application l j err = Inr l'"
    using c act a l'(1) fi assms(2) ka queue_at [OF u(1) [OF n] a(2,3)] m u(3) [OF n]
    by (simp add: unblock_application_def get_ctx_at [OF wf] get_ctx_at [OF u(1) [OF n]]
        stcp_unblock_application_def Let_def mysock_passive_connection_complete_def)
  have "queue_ok (ctx_at l') k ?q"
    unfolding x(1) by (rule complete_ok [OF ok _ c _ i]) (use a(6) in \<open>simp_all add: role_def peer_sockaddr_def\<close>)
  then have "layer_ok l'"
    by (rule layer_ok_queue [OF assms(1) l'(2) assms(2) x(2)]) (use c(1,2) in \<open>auto simp: x(1) split: if_splits\<close>)
  from that [OF res this refl x(1,2)] i show ?thesis by (simp add: completed_sds_def)
qed

section \<open>New connections\<close>

text \<open>The context a connection request creates.\<close>

definition passive_ctx :: "network_context \<Rightarrow> network_context \<Rightarrow> sockaddr \<Rightarrow> int \<Rightarrow> int \<Rightarrow> bytes \<Rightarrow> mysock_context" where
  "passive_ctx net listen_net addr k j packet =
     (mysock_allocate_context net)\<lparr>is_active := False, network_state :=
        net\<lparr>local_port := local_port listen_net, peer_addr := sin_addr addr, peer_port := sin_port addr,
          peer_is_inet := sa_inet addr, peer_addr_len := 16, peer_addr_valid := True,
          impl_data := (impl_data net)\<lparr>recv_thread_started := True, socket := new_socket (impl_data listen_net),
            connected := True\<rparr>\<rparr>,
      my_sd := j, listen_sd := k, transport_thread_started := True, network_recv_queue := [packet]\<rparr>"

definition release_socket :: "mysock_context \<Rightarrow> mysock_context" where
  "release_socket a = a\<lparr>network_state := (network_state a)\<lparr>impl_data := (impl_data (network_state a))\<lparr>new_socket := -1\<rparr>\<rparr>\<rparr>"

lemma role_release [simp]: "role (release_socket a) = role a"
  by (simp add: role_def release_socket_def peer_sockaddr_def)

lemma enqueue_ok:
  assumes ok: "queue_ok C k q" and k: "k \<noteq> -1" and i: "i < max_len q" "i \<notin> live q" and j: "C j = None" "j \<noteq> -1"
    and c: "listen_sd c = k" "\<not> listening c" "\<not> is_active c" "blocking c" "peer_sockaddr (network_state c) = addr"
      "peer_addr_len (network_state c) = 16" "sa_inet addr"
    and C': "C' j = Some c" "\<And>m. m \<noteq> j \<Longrightarrow> map_option role (C' m) = map_option role (C m)"
  shows "queue_ok C' k (q\<lparr>cur_len := cur_len q + 1,
      connection_queue := (connection_queue q)[i := \<lparr>req_addr = addr, req_addr_len = 16, sd = j\<rparr>]\<rparr>)" (is "queue_ok _ _ ?q")
proof -
  from ok have ml: "max_len q \<le> length (connection_queue q)" and cl: "cur_len q = card (live q)"
    and dead: "\<forall>i < max_len q. i \<notin> live q \<longrightarrow> connection_queue q ! i = INVALIDATE_CONNECT_REQUEST"
    and req: "\<forall>i \<in> live q. request_ok C k q i" and inj: "inj_on (\<lambda>i. sd (connection_queue q ! i)) (live q)"
    and dist: "distinct (completed_queue q)" and sub: "set (completed_queue q) \<subseteq> Pair (queue_block q) ` live q"
    and bl: "\<forall>j c. C j = Some c \<and> listen_sd c = k \<and> blocking c \<longrightarrow> j \<in> (\<lambda>i. sd (connection_queue q ! i)) ` live q"
    unfolding queue_ok_def slots_def by blast+
  have l': "live ?q = insert i (live q)" using i ml j(2) by (auto simp: live_def nth_list_update)
  have nth: "connection_queue ?q ! m = connection_queue q ! m" if "m \<noteq> i" for m using that by simp
  have nthi: "connection_queue ?q ! i = \<lparr>req_addr = addr, req_addr_len = 16, sd = j\<rparr>" using i ml by simp
  have oth: "sd (connection_queue q ! m) \<noteq> j" if "m \<in> live q" for m
    using req that j(1) by (auto simp: request_ok_def Let_def)
  have new: "(queue_block q, i) \<notin> set (completed_queue q)" using sub i(2) by auto
  have r: "request_ok C' k ?q m" if "m \<in> insert i (live q)" for m
  proof (cases "m = i")
    case True
    then show ?thesis using c C'(1) new nthi by (simp add: request_ok_def Let_def)
  next
    case False
    with that have m: "m \<in> live q" by simp
    with req have "request_ok C k q m" by blast
    then obtain d where d: "C (sd (connection_queue q ! m)) = Some d" "listen_sd d = k" "\<not> listening d" "\<not> is_active d"
      "peer_sockaddr (network_state d) = req_addr (connection_queue q ! m)" "peer_addr_len (network_state d) = 16"
      "blocking d \<longleftrightarrow> (queue_block q, m) \<notin> set (completed_queue q)"
      "sa_inet (req_addr (connection_queue q ! m))" "req_addr_len (connection_queue q ! m) = 16"
      by (auto simp: request_ok_def Let_def)
    from C'(2) [OF oth [OF m]] d(1) obtain d' where "C' (sd (connection_queue q ! m)) = Some d'" "role d' = role d" by auto
    with d False k show ?thesis by (auto simp: request_ok_def Let_def role_def)
  qed
  have b: "m \<in> (\<lambda>i. sd (connection_queue ?q ! i)) ` insert i (live q)" if "C' m = Some d" "listen_sd d = k" "blocking d" for m d
  proof (cases "m = j")
    case True
    then show ?thesis using nthi by (auto intro!: image_eqI [of _ _ i])
  next
    case False
    from C'(2) [OF this] that obtain d' where "C m = Some d'" "listen_sd d' = k" "blocking d'"
      by (cases "C m") (auto simp: role_def)
    with bl obtain n where n: "n \<in> live q" "m = sd (connection_queue q ! n)" by blast
    with i(2) have "n \<noteq> i" by auto
    with n nth show ?thesis by (auto intro!: image_eqI [of _ _ n])
  qed
  have inj': "inj_on (\<lambda>i. sd (connection_queue ?q ! i)) (insert i (live q))"
  proof -
    have e: "sd (connection_queue ?q ! m) = sd (connection_queue q ! m)" if "m \<in> live q" for m
      using that i(2) by (cases "m = i") simp_all
    then have "inj_on (\<lambda>i. sd (connection_queue ?q ! i)) (live q)" using inj by (simp cong: inj_on_cong)
    moreover have "sd (connection_queue ?q ! i) \<notin> (\<lambda>i. sd (connection_queue ?q ! i)) ` live q"
      using e oth nthi by auto
    ultimately show ?thesis using i(2) by (simp only: inj_on_insert) simp
  qed
  show ?thesis
    unfolding queue_ok_def slots_def l'
  proof (intro conjI allI impI ballI r b)
    show "inj_on (\<lambda>i. sd (connection_queue ?q ! i)) (insert i (live q))" by (rule inj')
    show "connection_queue ?q ! m = INVALIDATE_CONNECT_REQUEST" if "m < max_len ?q" "m \<notin> insert i (live q)" for m
      using that dead by simp
    show "cur_len ?q = card (insert i (live q))" using cl i(2) by simp
  qed (use ml dist sub in \<open>auto dest: conjunct1\<close>)
qed

lemma retransmission_queue:
  assumes ok: "queue_ok C k q" and addr: "sa_inet addr"
  shows "retransmission (take (max_len q) (connection_queue q)) addr 16 =
    Inr (addr \<in> req_addr ` (!) (connection_queue q) ` live q)"
proof -
  from ok have ml: "max_len q \<le> length (connection_queue q)"
    and dead: "\<forall>i < max_len q. i \<notin> live q \<longrightarrow> connection_queue q ! i = INVALIDATE_CONNECT_REQUEST"
    and req: "\<forall>i \<in> live q. request_ok C k q i"
    by (simp_all add: queue_ok_def)
  let ?rs = "take (max_len q) (connection_queue q)"
  have cases: "r = INVALIDATE_CONNECT_REQUEST \<or> (\<exists>i \<in> live q. r = connection_queue q ! i)" if "r \<in> set ?rs" for r
  proof -
    from that ml obtain i where "i < max_len q" "r = connection_queue q ! i" by (auto simp: in_set_conv_nth)
    with dead show ?thesis by blast
  qed
  have "\<forall>r \<in> set ?rs. sd r = -1 \<or> req_addr_len r = 16"
    using cases req by (fastforce simp: INVALIDATE_CONNECT_REQUEST_def request_ok_def Let_def)
  note re = retransmission_spec [OF this, of addr]
  have "connection_queue q ! i \<in> set ?rs" if "i \<in> live q" for i
    using that ml by (auto simp: live_def in_set_conv_nth intro!: exI [of _ i])
  then have "addr \<in> req_addr ` set ?rs \<longleftrightarrow> addr \<in> req_addr ` (!) (connection_queue q) ` live q"
    using cases addr by (fastforce simp: INVALIDATE_CONNECT_REQUEST_def)
  with re show ?thesis by simp
qed

text \<open>The slot of a request when there is room.\<close>

lemma enqueue_slot:
  assumes ok: "queue_ok C k q" and pos: "\<And>j c. C j = Some c \<Longrightarrow> 0 \<le> j" and room: "cur_len q < max_len q"
  obtains i where "first_request (\<lambda>r. sd r < 0) (take (max_len q) (connection_queue q)) = Some i"
    "i < max_len q" "i \<notin> live q" "connection_queue q ! i = INVALIDATE_CONNECT_REQUEST"
proof -
  from ok have ml: "max_len q \<le> length (connection_queue q)" and cl: "cur_len q = card (live q)"
    and dead: "\<forall>i < max_len q. i \<notin> live q \<longrightarrow> connection_queue q ! i = INVALIDATE_CONNECT_REQUEST"
    and req: "\<forall>i \<in> live q. request_ok C k q i"
    by (simp_all add: queue_ok_def)
  let ?rs = "take (max_len q) (connection_queue q)"
  have "card (live q) \<noteq> card {..<max_len q}" using room cl by simp
  then have "live q \<noteq> {..<max_len q}" by metis
  then obtain i0 where "i0 < max_len q" "i0 \<notin> live q" by (auto simp: live_def)
  with dead ml obtain i where f: "first_request (\<lambda>r. sd r < 0) ?rs = Some i"
    using first_request_ex [of i0 ?rs "\<lambda>r. sd r < 0"] by (auto simp: INVALIDATE_CONNECT_REQUEST_def)
  from first_request_Some [OF f] ml have i: "i < max_len q" "sd (connection_queue q ! i) < 0" by auto
  have il: "i \<notin> live q"
  proof
    assume "i \<in> live q"
    with req obtain c where "C (sd (connection_queue q ! i)) = Some c" by (auto simp: request_ok_def Let_def)
    from pos [OF this] i(2) show False by simp
  qed
  with i dead have "connection_queue q ! i = INVALIDATE_CONNECT_REQUEST" by simp
  with f i il show ?thesis by (intro that) simp_all
qed

text \<open>The contexts a request that is taken changes: the listening one and the new one.\<close>

lemma establish:
  fixes addr :: sockaddr
  assumes wf: "layer_wf l" and a: "ctx_at l k = Some a" and j: "ctx_at l j = Some ((mysock_allocate_context net)\<lparr>my_sd := j\<rparr>)" "j \<noteq> k"
  defines "n1 \<equiv> (mysock_allocate_context net)\<lparr>my_sd := j, listen_sd := k, network_state := net\<lparr>peer_addr := sin_addr addr,
      peer_port := sin_port addr, peer_is_inet := sa_inet addr, peer_addr_len := 16, peer_addr_valid := True\<rparr>\<rparr>"
  obtains n2 l1 l2 where "network_update_passive_state n1 a = Inr (n2, release_socket a)"
    "put_queue (put_ctx (put_ctx l (release_socket a)) n2) k q = Inr l1" "mysock_transport_init l1 j False = Inr l2"
    "layer_wf l2" "get_ctx l2 j = Inr ((passive_ctx net (network_state a) addr k j packet)\<lparr>network_recv_queue := []\<rparr>)"
    "ctx_at l2 = (ctx_at l)(k \<mapsto> release_socket a, j \<mapsto> (passive_ctx net (network_state a) addr k j packet)\<lparr>network_recv_queue := []\<rparr>)"
    "queue_of l2 = (queue_of l)(k \<mapsto> q)"
proof -
  define n2 where "n2 = fst (projr (network_update_passive_state n1 a))"
  let ?a = "release_socket a" and ?c = "(passive_ctx net (network_state a) addr k j packet)\<lparr>network_recv_queue := []\<rparr>"
  have up: "network_update_passive_state n1 a = Inr (n2, ?a)"
    by (simp add: n2_def network_update_passive_state_def n1_def mysock_allocate_context_def release_socket_def Let_def)
  have n2: "my_sd n2 = j" "\<not> listening n2"
    by (simp_all add: n2_def network_update_passive_state_def n1_def mysock_allocate_context_def Let_def)
  have k: "my_sd a = k" "0 \<le> k" using ctx_at_sd [OF wf a] by simp_all
  then have sa: "my_sd ?a = k" by (simp add: release_socket_def)
  note p1 = put_ctx_at [OF wf, of ?a, unfolded sa a, OF option.distinct(2)]
  have d2: "ctx_at (put_ctx l ?a) (my_sd n2) \<noteq> None" using n2 p1(2) j by simp
  note p2 = put_ctx_at [OF p1(1) d2]
  obtain l1 where l1: "put_queue (put_ctx (put_ctx l ?a) n2) k q = Inr l1" "layer_wf l1"
    "ctx_at l1 = ctx_at (put_ctx (put_ctx l ?a) n2)" "queue_of l1 = (queue_of (put_ctx (put_ctx l ?a) n2))(k \<mapsto> q)"
    by (rule put_queue_at [OF p2(1) k(2)])
  have c1: "ctx_at l1 = (ctx_at l)(k \<mapsto> ?a, j \<mapsto> n2)" "queue_of l1 = (queue_of l)(k \<mapsto> q)"
    using l1(3,4) p2(2,3) p1(2,3) n2 by simp_all
  have n3: "n2\<lparr>is_active := False, transport_thread_started := True,
      network_state := network_start_recv_thread (network_state n2)\<rparr> = ?c"
    by (simp add: n2_def network_update_passive_state_def n1_def Let_def passive_ctx_def mysock_allocate_context_def
        network_start_recv_thread_def)
  have sc: "my_sd ?c = j" by (simp add: passive_ctx_def)
  have d3: "ctx_at l1 (my_sd ?c) \<noteq> None" using sc c1(1) by simp
  note p3 = put_ctx_at [OF l1(2) d3]
  have ti: "mysock_transport_init l1 j False = Inr (put_ctx l1 ?c)"
    using c1(1) n2(2) n3 by (simp add: mysock_transport_init_def get_ctx_at [OF l1(2)])
  have c3: "ctx_at (put_ctx l1 ?c) = (ctx_at l)(k \<mapsto> ?a, j \<mapsto> ?c)" using p3(2) c1(1) sc by simp
  show ?thesis
    by (rule that [OF up l1(1) ti p3(1) _ c3]) (use c3 c1(2) p3(3) in \<open>simp_all add: get_ctx_at [OF p3(1)]\<close>)
qed

lemma enqueue_spec:
  assumes "layer_ok l" and "queue_of l k = Some q" and a: "ctx_at l k = Some a"
    and packet: "20 \<le> length packet" "th_flags (tcphdr_at packet) AND TH_SYN \<noteq> 0"
    and addr: "sa_inet addr" "addr \<notin> req_addr ` (!) (connection_queue q) ` live q"
    and room: "cur_len q < max_len q" "None \<in> set (global_ctx l)"
  obtains l' j q' where "mysock_enqueue_connection l a packet addr 16 net = Inr (True, l')" "layer_ok l'" "ctx_at l j = None"
    "ctx_at l' = (ctx_at l)(k \<mapsto> release_socket a, j \<mapsto> passive_ctx net (network_state a) addr k j packet)"
    "queue_of l' = (queue_of l)(k \<mapsto> q')" "cur_len q' = cur_len q + 1" "max_len q' = max_len q" "completed_sds q' = completed_sds q"
proof -
  from layer_okD [OF assms(1,2)] a have wf: "layer_wf l" and ac: "listening a" "bound a" "my_sd a = k" "0 \<le> k"
    and ok: "queue_ok (ctx_at l) k q" by (metis option.inject)+
  obtain i where i: "first_request (\<lambda>r. sd r < 0) (take (max_len q) (connection_queue q)) = Some i"
    "i < max_len q" "i \<notin> live q" "connection_queue q ! i = INVALIDATE_CONNECT_REQUEST"
    by (rule enqueue_slot [OF ok _ room(1)]) (use ctx_at_sd [OF wf] in blast)
  note re = retransmission_queue [OF ok addr(1)]
  obtain j tbl where new: "mysock_new_mysocket (global_ctx l) net = (Inr j, tbl)" "ctx_at l j = None"
    "layer_wf (l\<lparr>global_ctx := tbl\<rparr>)"
    "ctx_at (l\<lparr>global_ctx := tbl\<rparr>) = (ctx_at l)(j \<mapsto> (mysock_allocate_context net)\<lparr>my_sd := j\<rparr>)" "0 \<le> j"
    by (rule new_ctx_at [OF wf room(2)])
  have jk: "j \<noteq> k" using new(2) a by auto
  let ?l = "l\<lparr>global_ctx := tbl\<rparr>" and ?c = "passive_ctx net (network_state a) addr k j packet"
  let ?q = "q\<lparr>cur_len := cur_len q + 1, connection_queue := (connection_queue q)[i := \<lparr>req_addr = addr, req_addr_len = 16, sd = j\<rparr>]\<rparr>"
  have at: "ctx_at ?l k = Some a" "ctx_at ?l j = Some ((mysock_allocate_context net)\<lparr>my_sd := j\<rparr>)" using new(4) a jk by simp_all
  obtain n2 l1 l2 where e: "network_update_passive_state ((mysock_allocate_context net)\<lparr>my_sd := j, listen_sd := k,
        network_state := net\<lparr>peer_addr := sin_addr addr, peer_port := sin_port addr, peer_is_inet := sa_inet addr,
          peer_addr_len := 16, peer_addr_valid := True\<rparr>\<rparr>) a = Inr (n2, release_socket a)"
    "put_queue (put_ctx (put_ctx ?l (release_socket a)) n2) k ?q = Inr l1" "mysock_transport_init l1 j False = Inr l2"
    "layer_wf l2" "get_ctx l2 j = Inr (?c\<lparr>network_recv_queue := []\<rparr>)"
    "ctx_at l2 = (ctx_at ?l)(k \<mapsto> release_socket a, j \<mapsto> ?c\<lparr>network_recv_queue := []\<rparr>)" "queue_of l2 = (queue_of ?l)(k \<mapsto> ?q)"
    by (rule establish [OF new(3) at jk])
  let ?l' = "put_ctx l2 ?c"
  have sc: "my_sd ?c = j" by (simp add: passive_ctx_def)
  have d: "ctx_at l2 (my_sd ?c) \<noteq> None" using e(6) sc by simp
  note p = put_ctx_at [OF e(4) d]
  have fin: "ctx_at ?l' = (ctx_at l)(k \<mapsto> release_socket a, j \<mapsto> ?c)" "queue_of ?l' = (queue_of l)(k \<mapsto> ?q)"
    using p(2,3) e(6,7) new(4) sc by (simp_all add: fun_upd_twist [OF jk])
  have rs: "my_sd (release_socket a) = k" using ac by (simp add: release_socket_def)
  have cq: "?c\<lparr>network_recv_queue := [packet]\<rparr> = ?c" by (simp add: passive_ctx_def)
  have na: "network_state (mysock_allocate_context net) = net" by (simp add: mysock_allocate_context_def)
  have res: "mysock_enqueue_connection l a packet addr 16 net = Inr (True, ?l')"
    using ac packet i re addr(2) room(1) queue_at [OF wf ac(1,2)] assms(2) new(1) at(2) e(1-3,5) rs cq
    by (simp add: mysock_enqueue_connection_def get_ctx_at [OF new(3)] Let_def na mysock_enqueue_buffer_def
        INVALIDATE_CONNECT_REQUEST_def)
  have "queue_ok (ctx_at ?l') k ?q"
  proof (rule enqueue_ok [OF ok _ i(2,3) new(2)])
    show "ctx_at ?l' j = Some ?c" using fin(1) by simp
    show "map_option role (ctx_at ?l' m) = map_option role (ctx_at l m)" if "m \<noteq> j" for m
      using that fin(1) a by simp
  qed (use new(5) ac(4) addr(1) in \<open>simp_all add: passive_ctx_def mysock_allocate_context_def peer_sockaddr_def\<close>)
  then have "layer_ok ?l'"
  proof (rule layer_ok_queue [OF assms(1) p(1) assms(2) fin(2)])
    show "\<exists>c'. ctx_at ?l' m = Some c' \<and> role c' = role c" if "ctx_at l m = Some c" "listen_sd c \<noteq> k" for m c
      using that fin(1) a new(2) by (cases "m = k"; cases "m = j") auto
    show "\<exists>c'. ctx_at l m = Some c' \<and> role c' = role c" if "ctx_at ?l' m = Some c" "listen_sd c \<noteq> k" for m c
      using that fin(1) a by (cases "m = k"; cases "m = j") (auto simp: passive_ctx_def)
  qed
  moreover have "snd r \<noteq> i" if "r \<in> set (completed_queue q)" for r
    using that ok i(3) by (auto simp: queue_ok_def)
  then have "completed_sds ?q = completed_sds q" by (simp add: completed_sds_def) (metis nth_list_update_neq)
  ultimately show ?thesis using that [OF res _ new(2) fin] by simp
qed

end
