(* ===== verification/Demux_Run.thy ===== *)
theory Demux_Run
  imports Demux_Inv
begin

text \<open>
  The life of a server: sockets are created, bound and made to listen, connection requests
  arrive, connections complete, are accepted and closed, in any order.  The invariant holds
  throughout, and the operations on a listening socket do not fault.
\<close>

section \<open>Connection requests that are not taken\<close>

definition dropped :: "listen_queue \<Rightarrow> bytes \<Rightarrow> sockaddr \<Rightarrow> bool" where
  "dropped q packet addr \<longleftrightarrow> length packet < 20 \<or> th_flags (tcphdr_at packet) AND TH_SYN = 0
     \<or> addr \<in> req_addr ` (!) (connection_queue q) ` live q \<or> max_len q \<le> cur_len q"

lemma enqueue_dropped:
  assumes "layer_ok l" and "queue_of l k = Some q" and "ctx_at l k = Some a" and "sa_inet addr" and "dropped q packet addr"
  shows "mysock_enqueue_connection l a packet addr 16 net = Inr (False, l)"
proof -
  from layer_okD [OF assms(1,2)] assms(3) have wf: "layer_wf l" and ac: "listening a" "bound a" "my_sd a = k" "0 \<le> k"
    and ok: "queue_ok (ctx_at l) k q" by (metis option.inject)+
  note re = retransmission_queue [OF ok assms(4)]
  show ?thesis
    using ac assms(2,5) re queue_at [OF wf ac(1,2)] by (auto simp: mysock_enqueue_connection_def dropped_def)
qed

text \<open>No descriptor is free: the slot is given back.\<close>

lemma enqueue_no_descriptor:
  assumes "layer_ok l" and "queue_of l k = Some q" and "ctx_at l k = Some a" and "sa_inet addr" and "\<not> dropped q packet addr"
    and "None \<notin> set (global_ctx l)"
  obtains l' where "mysock_enqueue_connection l a packet addr 16 net = Inr (False, l')" "layer_ok l'" "ctx_at l' = ctx_at l"
    "queue_of l' = queue_of l"
proof -
  from layer_okD [OF assms(1,2)] assms(3) have wf: "layer_wf l" and ac: "listening a" "bound a" "my_sd a = k" "0 \<le> k"
    and ok: "queue_ok (ctx_at l) k q" by (metis option.inject)+
  from assms(5) have p: "20 \<le> length packet" "th_flags (tcphdr_at packet) AND TH_SYN \<noteq> 0"
      "addr \<notin> req_addr ` (!) (connection_queue q) ` live q" "cur_len q < max_len q"
    by (simp_all add: dropped_def)
  obtain i where i: "first_request (\<lambda>r. sd r < 0) (take (max_len q) (connection_queue q)) = Some i"
    "connection_queue q ! i = INVALIDATE_CONNECT_REQUEST"
    by (rule enqueue_slot [OF ok _ p(4)]) (use ctx_at_sd [OF wf] in blast)+
  have same: "q\<lparr>connection_queue := (connection_queue q)[i := INVALIDATE_CONNECT_REQUEST]\<rparr> = q"
    using list_update_id [of "connection_queue q" i] by (simp add: i(2))
  have new: "mysock_new_mysocket (global_ctx l) net = (Inl EMFILE, global_ctx l)"
    using assms(6) free_descriptor_full [of "global_ctx l"] by (simp add: mysock_new_mysocket_def Let_def)
  obtain l' where l': "put_queue l k q = Inr l'" "layer_wf l'" "ctx_at l' = ctx_at l" "queue_of l' = (queue_of l)(k \<mapsto> q)"
    by (rule put_queue_at [OF wf ac(4)])
  have q: "queue_of l' = queue_of l" using l'(4) assms(2) by (simp add: fun_upd_idem)
  have "mysock_enqueue_connection l a packet addr 16 net = Inr (False, l')"
    using ac p i new assms(2) same l'(1) retransmission_queue [OF ok assms(4)] queue_at [OF wf ac(1,2)]
    by (simp add: mysock_enqueue_connection_def INVALIDATE_CONNECT_REQUEST_def)
  moreover have "layer_ok l'"
    by (rule layer_ok_contexts [OF assms(1) l'(2) q]) (simp_all add: l'(3))
  ultimately show ?thesis using that l'(3) q by blast
qed

lemma enqueue_total:
  assumes "layer_ok l" and "queue_of l k = Some q" and "ctx_at l k = Some a" and "sa_inet addr"
  obtains b l' where "mysock_enqueue_connection l a packet addr 16 net = Inr (b, l')" "layer_ok l'"
proof (cases "dropped q packet addr")
  case True
  from that [OF enqueue_dropped [OF assms True] assms(1)] show ?thesis .
next
  case False
  then have p: "20 \<le> length packet" "th_flags (tcphdr_at packet) AND TH_SYN \<noteq> 0"
      "addr \<notin> req_addr ` (!) (connection_queue q) ` live q" "cur_len q < max_len q"
    by (simp_all add: dropped_def)
  show ?thesis
  proof (cases "None \<in> set (global_ctx l)")
    case True
    show ?thesis by (rule enqueue_spec [OF assms(1-3) p(1,2) assms(4) p(3,4) True]) (rule that)
  next
    case none: False
    show ?thesis by (rule enqueue_no_descriptor [OF assms False none]) (rule that)
  qed
qed

section \<open>The receive thread of a listening socket\<close>

text \<open>The listening context after \<open>accept\<close> has returned a socket.\<close>

definition arriving :: "mysock_context \<Rightarrow> int \<Rightarrow> u32 \<Rightarrow> u16 \<Rightarrow> mysock_context" where
  "arriving a s ip port = a\<lparr>network_state := (network_state a)\<lparr>peer_addr := ip, peer_port := port, peer_is_inet := True,
     peer_addr_len := 16, impl_data := (impl_data (network_state a))\<lparr>new_socket := s\<rparr>\<rparr>\<rparr>"

lemma role_network: "listen_sd a = -1 \<Longrightarrow> role (a\<lparr>network_state := net\<rparr>) = role a"
  by (simp add: role_def)

text \<open>The receive thread can call \<open>accept\<close>.\<close>

definition ready :: "mysock_context \<Rightarrow> bool" where
  "ready a \<longleftrightarrow> listening a \<and> \<not> is_active a \<and> socket (impl_data (network_state a)) \<ge> 0
     \<and> new_socket (impl_data (network_state a)) = -1"

lemma recv_listening:
  assumes wf: "layer_wf l" and a: "ctx_at l k = Some a" "ready a"
    and s: "0 \<le> s" "framed (ss s) (packet # ps)" "packet \<noteq> []" "length packet \<le> 1500"
  obtains st where "framed st ps" "recv_iteration l k conn (Some (s, ip, port)) ss net =
    bindR (mysock_enqueue_connection (put_ctx l (arriving a s ip port)) (arriving a s ip port) packet
        \<lparr>sa_inet = True, sin_addr = ip, sin_port = port\<rparr> 16 net) (\<lambda>(_, l). Inr (Some (True, l, ss(s := st))))"
proof -
  have len: "length packet \<le> 65535" using s(4) by simp
  obtain st where st: "read_packet (ss s) 1500 = Inr (Some (int (length packet), packet, st))" "framed st ps"
    by (rule read_packet_frame [OF s(2,3,4) len])
  let ?a = "arriving a s ip port"
  have "network_recv_packet a conn (Some (s, ip, port)) ss 1500 =
      Inr (Some (int (length packet), packet, network_state ?a, ss(s := st)))"
    using a(2) s(1) st(1) by (simp add: network_recv_packet_def accept_connection_def ready_def arriving_def Let_def)
  moreover have "a\<lparr>network_state := network_state ?a\<rparr> = ?a" by (simp add: arriving_def)
  moreover have "peer_sockaddr (network_state ?a) = \<lparr>sa_inet = True, sin_addr = ip, sin_port = port\<rparr>"
    "peer_addr_len (network_state ?a) = 16" "listening ?a = listening a"
    by (simp_all add: arriving_def peer_sockaddr_def)
  ultimately have "recv_iteration l k conn (Some (s, ip, port)) ss net =
    bindR (mysock_enqueue_connection (put_ctx l ?a) ?a packet \<lparr>sa_inet = True, sin_addr = ip, sin_port = port\<rparr> 16 net)
      (\<lambda>(_, l). Inr (Some (True, l, ss(s := st))))"
    using a s(3,4) by (simp add: recv_iteration_def get_ctx_at [OF wf] ready_def Let_def)
  with st(2) show ?thesis by (rule that)
qed

lemma arriving_layer:
  assumes "layer_ok l" and "queue_of l k = Some q" and "ctx_at l k = Some a"
  shows "layer_ok (put_ctx l (arriving a s ip port))"
    "ctx_at (put_ctx l (arriving a s ip port)) = (ctx_at l)(k \<mapsto> arriving a s ip port)"
    "queue_of (put_ctx l (arriving a s ip port)) = queue_of l"
proof -
  let ?a = "arriving a s ip port"
  from layer_okD [OF assms(1,2)] assms(3) have wf: "layer_wf l" and ac: "listen_sd a = -1" "my_sd a = k"
    by (metis option.inject)+
  have m: "my_sd ?a = k" "role ?a = role a" using ac by (simp_all add: arriving_def role_def)
  have n: "ctx_at l (my_sd ?a) \<noteq> None" using assms(3) m by simp
  note u = put_ctx_at [OF wf n]
  show "ctx_at (put_ctx l ?a) = (ctx_at l)(k \<mapsto> ?a)" "queue_of (put_ctx l ?a) = queue_of l" using u m by simp_all
  show "layer_ok (put_ctx l ?a)" by (rule layer_ok_ctx [OF assms(1)]) (use assms(3) m in simp_all)
qed

text \<open>A packet that is received was preceded by an accepted connection.\<close>

lemma recv_packet_peer:
  assumes "network_recv_packet a conn acc ss n = Inr (Some (rc, buf, net, ss'))" and "listening a" and "rc > 0"
  shows "peer_is_inet net" "peer_addr_len net = 16"
proof -
  have "peer_is_inet net \<and> peer_addr_len net = 16"
    using assms
    by (auto simp: network_recv_packet_def accept_connection_def Let_def
        split: if_splits option.splits sum.splits prod.splits)
  then show "peer_is_inet net" "peer_addr_len net = 16" by simp_all
qed

lemma recv_keeps:
  assumes "layer_ok l" and "queue_of l k = Some q" and r: "recv_iteration l k conn acc ss net = Inr (Some (go, l', ss'))"
  shows "layer_ok l'"
proof -
  from layer_okD [OF assms(1,2)] obtain a where wf: "layer_wf l" and a: "ctx_at l k = Some a" "listening a" "listen_sd a = -1" "my_sd a = k" .
  from r a obtain rc buf net' ss1 where p: "network_recv_packet a conn acc ss 1500 = Inr (Some (rc, buf, net', ss1))"
    by (auto simp: recv_iteration_def get_ctx_at [OF wf] split: option.splits)
  let ?a = "a\<lparr>network_state := net'\<rparr>"
  have ok: "layer_ok (put_ctx l (?a\<lparr>network_recv_queue := xs\<rparr>))" for xs
    by (rule layer_ok_ctx [OF assms(1), of _ a]) (use a in \<open>simp_all add: role_def\<close>)
  show ?thesis
  proof (cases "rc \<le> 0")
    case True
    with r a p ok show ?thesis by (auto simp: recv_iteration_def get_ctx_at [OF wf] Let_def)
  next
    case False
    have ok1: "layer_ok (put_ctx l ?a)"
      by (rule layer_ok_ctx [OF assms(1), of _ a]) (use a in \<open>simp_all add: role_network\<close>)
    have n: "ctx_at l (my_sd ?a) \<noteq> None" using a by simp
    note u = put_ctx_at [OF wf n]
    have at: "ctx_at (put_ctx l ?a) k = Some ?a" "queue_of (put_ctx l ?a) k = Some q" using u a assms(2) by simp_all
    have "sa_inet (peer_sockaddr net')" "peer_addr_len net' = 16"
      using recv_packet_peer [OF p a(2)] False by (simp_all add: peer_sockaddr_def)
    moreover obtain b l2 where "mysock_enqueue_connection (put_ctx l ?a) ?a buf (peer_sockaddr net') 16 net = Inr (b, l2)" "layer_ok l2"
      by (rule enqueue_total [OF ok1 at(2,1) calculation(1)])
    ultimately show ?thesis
      using r a p False by (auto simp: recv_iteration_def get_ctx_at [OF wf] Let_def)
  qed
qed

text \<open>A request that is taken, from the accepted socket to the new context.\<close>

lemma incoming_spec:
  assumes "layer_ok l" and q: "queue_of l k = Some q" and a: "ctx_at l k = Some a" "ready a"
    and s: "0 \<le> s" "framed (ss s) (packet # ps)" "length packet \<le> 1500"
    and packet: "20 \<le> length packet" "th_flags (tcphdr_at packet) AND TH_SYN \<noteq> 0"
    and addr: "addr = \<lparr>sa_inet = True, sin_addr = ip, sin_port = port\<rparr>" "addr \<notin> req_addr ` (!) (connection_queue q) ` live q"
    and room: "cur_len q < max_len q" "None \<in> set (global_ctx l)"
  obtains l' st j q' where "recv_iteration l k conn (Some (s, ip, port)) ss net = Inr (Some (True, l', ss(s := st)))" "framed st ps"
    "layer_ok l'" "ctx_at l j = None"
    "ctx_at l' = (ctx_at l)(k \<mapsto> release_socket (arriving a s ip port),
       j \<mapsto> passive_ctx net (network_state (arriving a s ip port)) addr k j packet)"
    "queue_of l' = (queue_of l)(k \<mapsto> q')" "cur_len q' = cur_len q + 1" "max_len q' = max_len q" "completed_sds q' = completed_sds q"
proof -
  let ?a = "arriving a s ip port"
  note ar = arriving_layer [OF assms(1) q a(1), of s ip port]
  have wf: "layer_wf l" using assms(1) by (simp add: layer_ok_def)
  have ne: "packet \<noteq> []" using packet(1) by auto
  obtain st where r: "framed st ps" "recv_iteration l k conn (Some (s, ip, port)) ss net =
    bindR (mysock_enqueue_connection (put_ctx l ?a) ?a packet addr 16 net) (\<lambda>(_, l). Inr (Some (True, l, ss(s := st))))"
    unfolding addr(1) by (rule recv_listening [where ss = ss, OF wf a s(1,2) ne s(3)])
  have g: "None \<in> set (global_ctx (put_ctx l ?a))"
  proof -
    from room(2) obtain n where n: "n < length (global_ctx l)" "global_ctx l ! n = None" by (auto simp: in_set_conv_nth)
    from a(1) have "n \<noteq> nat k" using n(2) by (auto simp: ctx_at_def split: if_splits)
    moreover have "my_sd ?a = k" using ctx_at_sd [OF wf a(1)] by (simp add: arriving_def)
    ultimately show ?thesis using n by (auto simp: in_set_conv_nth put_ctx_def intro!: exI [of _ n])
  qed
  have at: "queue_of (put_ctx l ?a) k = Some q" "ctx_at (put_ctx l ?a) k = Some ?a" "sa_inet addr"
    using ar(2,3) q addr(1) by simp_all
  obtain l' j q' where e: "mysock_enqueue_connection (put_ctx l ?a) ?a packet addr 16 net = Inr (True, l')" "layer_ok l'"
    "ctx_at (put_ctx l ?a) j = None"
    "ctx_at l' = (ctx_at (put_ctx l ?a))(k \<mapsto> release_socket ?a, j \<mapsto> passive_ctx net (network_state ?a) addr k j packet)"
    "queue_of l' = (queue_of (put_ctx l ?a))(k \<mapsto> q')" "cur_len q' = cur_len q + 1" "max_len q' = max_len q"
    "completed_sds q' = completed_sds q"
    by (rule enqueue_spec [OF ar(1) at(1,2) packet at(3) addr(2) room(1) g])
  have c: "ctx_at l j = None" using e(3) ar(2) by (simp split: if_splits)
  have res: "recv_iteration l k conn (Some (s, ip, port)) ss net = Inr (Some (True, l', ss(s := st)))" using r(2) e(1) by simp
  from that [OF res r(1) e(2) c _ _ e(6-8)] e(4,5) ar(2,3) show ?thesis by simp
qed

section \<open>Sockets\<close>

lemma new_socket_keeps:
  assumes "layer_ok l" and "mysock_new_mysocket (global_ctx l) net = (Inr j, tbl)"
  shows "layer_ok (l\<lparr>global_ctx := tbl\<rparr>)"
proof -
  have wf: "layer_wf l" using assms(1) by (simp add: layer_ok_def)
  from assms(2) have "None \<in> set (global_ctx l)"
    using free_descriptor_full [of "global_ctx l"] by (auto simp: mysock_new_mysocket_def Let_def split: if_splits)
  then obtain j' tbl' where n: "mysock_new_mysocket (global_ctx l) net = (Inr j', tbl')" "ctx_at l j' = None"
    "layer_wf (l\<lparr>global_ctx := tbl'\<rparr>)"
    "ctx_at (l\<lparr>global_ctx := tbl'\<rparr>) = (ctx_at l)(j' \<mapsto> (mysock_allocate_context net)\<lparr>my_sd := j'\<rparr>)"
    by (rule new_ctx_at [OF wf])
  then have "tbl' = tbl" using assms(2) by simp
  with n show ?thesis
    by (intro layer_ok_contexts [OF assms(1)]) (auto simp: mysock_allocate_context_def split: if_splits)
qed

lemma bind_keeps:
  assumes "layer_ok l" and "mybind l k addr rc port = Inr (r, l')"
  shows "layer_ok l'"
proof -
  have wf: "layer_wf l" using assms(1) by (simp add: layer_ok_def)
  from assms(2) obtain c where c: "ctx_at l k = Some c" by (auto simp: mybind_def get_ctx_at [OF wf] split: option.splits)
  have k: "my_sd c = k" using ctx_at_sd [OF wf c] by simp
  show ?thesis
  proof (cases "sa_inet addr")
    case True
    with assms(2) c have nl: "\<not> listening c"
      and l': "l' = put_ctx l (c\<lparr>bound := True, network_state := if rc < 0 then network_state c else (network_state c)\<lparr>local_port := port\<rparr>\<rparr>)"
      by (auto simp: mybind_def get_ctx_at [OF wf] network_bind_def)
    show ?thesis
      unfolding l' by (rule layer_ok_ctx [OF assms(1), of _ c]) (use c k nl in \<open>simp_all add: role_def peer_sockaddr_def\<close>)
  next
    case False
    with assms c show ?thesis by (simp add: mybind_def get_ctx_at [OF wf])
  qed
qed

text \<open>A new queue.\<close>

lemma fresh_queue_ok:
  assumes "completed_queue q = []" and "cur_len q = 0" and "connection_queue q = replicate (max_len q) INVALIDATE_CONNECT_REQUEST"
    and "\<And>j c. C j = Some c \<Longrightarrow> listen_sd c \<noteq> k"
  shows "queue_ok C k q"
proof -
  have "live q = {}" using assms(3) by (simp add: live_def INVALIDATE_CONNECT_REQUEST_def)
  with assms show ?thesis by (auto simp: queue_ok_def)
qed

lemma swap16_0 [simp]: "swap16 0 = 0"
  by code_simp

lemma set_backlog_port:
  "mysock_set_backlog l c backlog relocated = Inr l' \<Longrightarrow> local_port (network_state c) \<noteq> 0"
  by (auto simp: mysock_set_backlog_def network_get_port_def Let_def)

lemma set_backlog_first:
  assumes wf: "layer_wf l" and c: "listening c" "bound c" "0 \<le> my_sd c" "socket (impl_data (network_state c)) \<ge> 0"
      "local_port (network_state c) \<noteq> 0" and q: "queue_of l (my_sd c) = None"
  obtains l' q where "mysock_set_backlog l c backlog relocated = Inr l'" "layer_wf l'" "ctx_at l' = ctx_at l"
    "queue_of l' = (queue_of l)(my_sd c \<mapsto> q)" "completed_queue q = []" "cur_len q = 0" "max_len q = unat (backlog + 1)"
    "connection_queue q = replicate (max_len q) INVALIDATE_CONNECT_REQUEST"
proof -
  let ?port = "ntohs (local_port (network_state c))"
  from c(5) have "?port \<noteq> 0" by (metis swap16_inj swap16_0)
  then have port: "?port > 0" by (simp only: word_neq_0_conv)
  let ?new = "\<lparr>lq_local_port = ?port, max_len = 0, cur_len = 0, connection_queue = [], queue_block = 0, completed_queue = []\<rparr>"
  let ?n = "unat (backlog + 1)"
  let ?q = "\<lambda>b. \<lparr>lq_local_port = ?port, max_len = ?n, cur_len = 0,
      connection_queue = replicate ?n INVALIDATE_CONNECT_REQUEST, queue_block = b, completed_queue = []\<rparr>"
  let ?b = "if ?n > 0 then 1 else 0 :: nat"
  have w: "hash_wf (listen_table l)" using wf by (simp add: layer_wf_def)
  from hash_insert_spec [OF w c(3) q, of ?new] obtain t where t: "hash_insert (listen_table l) (my_sd c) ?new = Inr t" "hash_wf t"
    "hash_map t = (queue_of l)(my_sd c \<mapsto> ?new)" by blast
  have w1: "layer_wf (l\<lparr>listen_table := t\<rparr>)" using wf t(2) by (simp add: layer_wf_def)
  obtain l' where l': "put_queue (l\<lparr>listen_table := t\<rparr>) (my_sd c) (?q ?b) = Inr l'" "layer_wf l'"
    "ctx_at l' = ctx_at (l\<lparr>listen_table := t\<rparr>)" "queue_of l' = (queue_of (l\<lparr>listen_table := t\<rparr>))(my_sd c \<mapsto> ?q ?b)"
    by (rule put_queue_at [OF w1 c(3)])
  have "mysock_set_backlog l c backlog relocated = Inr l'"
    using c port q t(1) l'(1) queue_at [OF wf c(1,2,3)]
    by (cases "?n = 0") (simp_all add: mysock_set_backlog_def Let_def network_get_port_def)
  then show ?thesis by (rule that [of l' "?q ?b"]) (use l' t(3) in \<open>simp_all add: ctx_at_def fun_eq_iff\<close>)
qed

lemma no_queue: "\<lbrakk>layer_ok l; ctx_at l k = Some c; \<not> listening c\<rbrakk> \<Longrightarrow> queue_of l k = None"
  by (cases "queue_of l k") (auto elim: layer_okD)

lemma no_children: "\<lbrakk>layer_ok l; queue_of l k = None; 0 \<le> k; ctx_at l j = Some d\<rbrakk> \<Longrightarrow> listen_sd d \<noteq> k"
  unfolding layer_ok_def by fastforce

lemma add_queue:
  assumes ok: "layer_ok l" and c: "ctx_at l k = Some c" "\<not> listening c" "listen_sd c = -1" and wf: "layer_wf l1"
    and l1: "ctx_at l1 = (ctx_at l)(k \<mapsto> c')" "queue_of l1 = (queue_of l)(k \<mapsto> q)"
    and c': "listening c'" "bound c'" "listen_sd c' = -1"
    and q: "completed_queue q = []" "cur_len q = 0" "connection_queue q = replicate (max_len q) INVALIDATE_CONNECT_REQUEST"
  shows "layer_ok l1"
proof (rule layer_okI [OF ok wf, of k])
  have k: "0 \<le> k" using ctx_at_sd [OF _ c(1)] ok by (simp add: layer_ok_def)
  have "listen_sd d \<noteq> k" if "ctx_at l1 j = Some d" for j d
    using that no_children [OF ok no_queue [OF ok c(1,2)] k, of j d] l1(1) c'(3) k by (auto split: if_splits)
  with q have "queue_ok (ctx_at l1) k q" by (intro fresh_queue_ok)
  then show "(\<exists>c. ctx_at l1 k = Some c \<and> listening c \<and> bound c \<and> listen_sd c = -1) \<and> queue_ok (ctx_at l1) k p"
    if "queue_of l1 k = Some p" for p
    using that l1 c' by simp
  show "\<exists>c'. ctx_at l1 j = Some c' \<and> role c' = role d"
    if m: "m \<noteq> k" "queue_of l m = Some p" "ctx_at l j = Some d" "j = m \<or> j \<in> slots p" for m p j d
  proof (cases "j = k")
    case True
    from layer_okD [OF ok m(2)] have "queue_ok (ctx_at l) m p" "0 \<le> m" by metis+
    with True m c(1,3) have False by (auto simp: queue_ok_def slots_def request_ok_def Let_def)
    then show ?thesis ..
  next
    case False
    with l1(1) m(3) show ?thesis by simp
  qed
qed (use l1 c'(3) in \<open>auto split: if_splits\<close>)

lemma listen_keeps:
  assumes ok: "layer_ok l" and c: "ctx_at l k = Some c" "\<not> listening c" "listen_sd c = -1"
    and r: "mylisten l k backlog relocated rc = Inr (r, l')"
  shows "layer_ok l'" "\<exists>q. queue_of l' k = Some q \<and> max_len q = unat (of_int backlog + 1 :: u32) \<and> cur_len q = 0"
proof -
  have wf: "layer_wf l" using ok by (simp add: layer_ok_def)
  have k: "my_sd c = k" "0 \<le> k" using ctx_at_sd [OF wf c(1)] by simp_all
  let ?c = "c\<lparr>listening := True\<rparr>" and ?n = "unat (of_int backlog + 1 :: u32)"
  have n: "ctx_at l (my_sd ?c) \<noteq> None" using c(1) k by simp
  note u = put_ctx_at [OF wf n]
  from r c(1) obtain l1 where b: "bound c" and s: "socket (impl_data (network_state c)) \<ge> 0"
    and sb: "mysock_set_backlog (put_ctx l ?c) ?c (of_int backlog) relocated = Inr l1"
    and l': "l' = (if rc < 0 then l1 else put_ctx l1 (?c\<lparr>network_state := network_start_recv_thread (network_state ?c)\<rparr>))"
    by (auto simp: mylisten_def get_ctx_at [OF wf] Let_def split: if_splits)
  have cc: "listening ?c" "bound ?c" "0 \<le> my_sd ?c" "socket (impl_data (network_state ?c)) \<ge> 0"
      "local_port (network_state ?c) \<noteq> 0" "queue_of (put_ctx l ?c) (my_sd ?c) = None"
    using b k s set_backlog_port [OF sb] no_queue [OF ok c(1,2)] u(3) by simp_all
  obtain l2 q where l2: "mysock_set_backlog (put_ctx l ?c) ?c (of_int backlog) relocated = Inr l2" "layer_wf l2"
    "ctx_at l2 = ctx_at (put_ctx l ?c)" "queue_of l2 = (queue_of (put_ctx l ?c))(my_sd ?c \<mapsto> q)"
    and q: "completed_queue q = []" "cur_len q = 0" "max_len q = ?n"
      "connection_queue q = replicate (max_len q) INVALIDATE_CONNECT_REQUEST"
    by (rule set_backlog_first [OF u(1) cc])
  have l1: "layer_wf l1" "ctx_at l1 = (ctx_at l)(k \<mapsto> ?c)" "queue_of l1 = (queue_of l)(k \<mapsto> q)"
    using l2 sb u k by simp_all
  have ok1: "layer_ok l1"
    by (rule add_queue [OF ok c l1]) (use b c(3) q in simp_all)
  have "layer_ok (put_ctx l1 (?c\<lparr>network_state := network_start_recv_thread (network_state ?c)\<rparr>))"
    by (rule layer_ok_ctx [OF ok1, of _ ?c]) (use k l1(2) c(3) in \<open>simp_all add: role_def\<close>)
  with ok1 l' show "layer_ok l'" by simp
  show "\<exists>q. queue_of l' k = Some q \<and> max_len q = ?n \<and> cur_len q = 0"
    using l' l1(3) q by (simp add: put_ctx_def)
qed

text \<open>Closing a connection that is not queued gives its descriptor back.\<close>

lemma free_at:
  assumes "layer_wf l" and "ctx_at l k \<noteq> None"
  shows "layer_wf (l\<lparr>global_ctx := mysock_free_context (global_ctx l) k\<rparr>)"
    "ctx_at (l\<lparr>global_ctx := mysock_free_context (global_ctx l) k\<rparr>) = (ctx_at l)(k := None)"
proof -
  have k: "0 \<le> k" "k < 64" using assms(2) by (auto simp: ctx_at_def split: if_splits)
  have len: "length (global_ctx l) = 64" using assms(1) by (simp add: layer_wf_def descriptors_wf_def)
  show "layer_wf (l\<lparr>global_ctx := mysock_free_context (global_ctx l) k\<rparr>)"
    using assms(1) free_context_wf by (simp add: layer_wf_def)
  show "ctx_at (l\<lparr>global_ctx := mysock_free_context (global_ctx l) k\<rparr>) = (ctx_at l)(k := None)"
    using k len by (auto simp: fun_eq_iff ctx_at_def mysock_free_context_def nth_list_update)
qed

lemma close_keeps:
  assumes ok: "layer_ok l" and c: "ctx_at l k = Some c" "\<not> listening c" and out: "\<And>m p. queue_of l m = Some p \<Longrightarrow> k \<notin> slots p"
    and r: "myclose n exited l k = Inr (Some l')"
  shows "layer_ok l'" "ctx_at l' k = None"
proof -
  have wf: "layer_wf l" using ok by (simp add: layer_ok_def)
  have k: "my_sd c = k" using ctx_at_sd [OF wf c(1)] by simp
  let ?c = "(myclose_request c)\<lparr>transport_thread_started := False,
      network_state := network_stop_recv_thread (network_state (myclose_request c))\<rparr>"
  obtain n' where n': "n = Suc n'" using r by (cases n) auto
  have l': "l' = (put_ctx l ?c)\<lparr>global_ctx := mysock_free_context (global_ctx (put_ctx l ?c)) k\<rparr>"
    using r c unfolding n'
    by (auto simp: get_ctx_at [OF wf] Let_def myclose_request_def split: if_splits)
  have m: "my_sd ?c = k" using k by (simp add: myclose_request_def)
  have d: "ctx_at l (my_sd ?c) \<noteq> None" using m c(1) by simp
  note u = put_ctx_at [OF wf d]
  have "ctx_at (put_ctx l ?c) k \<noteq> None" using u(2) m by simp
  note f = free_at [OF u(1) this]
  have at: "ctx_at l' = (ctx_at l)(k := None)" using l' f(2) u(2) m by simp
  then show "ctx_at l' k = None" by simp
  show "layer_ok l'"
    by (rule layer_ok_free [OF ok _ _ at]) (use f(1) l' u(3) no_queue [OF ok c] out in simp_all)
qed

section \<open>Runs of a server\<close>

inductive server :: "mysock_layer \<Rightarrow> bool" where
  start: "server \<lparr>global_ctx = replicate MAX_NUM_CONNECTIONS None, listen_table = hash_empty\<rparr>"
| new_mysocket: "\<lbrakk>server l; mysock_new_mysocket (global_ctx l) net = (Inr j, tbl)\<rbrakk> \<Longrightarrow> server (l\<lparr>global_ctx := tbl\<rparr>)"
| bind: "\<lbrakk>server l; mybind l k addr rc port = Inr (r, l')\<rbrakk> \<Longrightarrow> server l'"
| listen: "\<lbrakk>server l; ctx_at l k = Some c; \<not> listening c; listen_sd c = -1; mylisten l k backlog relocated rc = Inr (r, l')\<rbrakk>
    \<Longrightarrow> server l'"
| receive: "\<lbrakk>server l; ctx_at l k = Some a; listening a; queue_of l k \<noteq> None;
      recv_iteration l k conn acc ss net = Inr (Some (go, l', ss'))\<rbrakk> \<Longrightarrow> server l'"
| complete: "\<lbrakk>server l; ctx_at l j = Some c; listen_sd c \<noteq> -1; unblock_application l j err = Inr l'\<rbrakk> \<Longrightarrow> server l'"
| accept: "\<lbrakk>server l; queue_of l k \<noteq> None; myaccept l k = Inr (Some (r, l'))\<rbrakk> \<Longrightarrow> server l'"
| close: "\<lbrakk>server l; ctx_at l k = Some c; \<not> listening c; \<And>m p. queue_of l m = Some p \<Longrightarrow> k \<notin> slots p;
      myclose n exited l k = Inr (Some l')\<rbrakk> \<Longrightarrow> server l'"
| other: "\<lbrakk>server l; ctx_at l (my_sd c) = Some c0; role c = role c0\<rbrakk> \<Longrightarrow> server (put_ctx l c)"

text \<open>
  The application listens once on a socket and closes connections it has accepted (or opened);
  every other change of a context (data, the transport thread) keeps its role.
\<close>

lemma unblock_blocking:
  "\<lbrakk>layer_wf l; ctx_at l j = Some c; unblock_application l j err = Inr l'\<rbrakk> \<Longrightarrow> blocking c"
  by (auto simp: unblock_application_def get_ctx_at stcp_unblock_application_def)

lemma server_ok: "server l \<Longrightarrow> layer_ok l"
proof (induction rule: server.induct)
  case start
  let ?l = "\<lparr>global_ctx = replicate MAX_NUM_CONNECTIONS None, listen_table = hash_empty\<rparr> :: mysock_layer"
  have "ctx_at ?l = Map.empty" by (auto simp: fun_eq_iff ctx_at_def)
  moreover have "layer_wf ?l" using hash_empty_spec(1) by (simp add: layer_wf_def descriptors_wf_def)
  ultimately show ?case by (simp add: layer_ok_def hash_empty_spec(2))
next
  case (complete l j c err l')
  then have wf: "layer_wf l" by (simp add: layer_ok_def)
  from complete obtain q where q: "queue_of l (listen_sd c) = Some q" unfolding layer_ok_def by blast
  have b: "blocking c" using unblock_blocking [OF wf complete.hyps(2,4)] .
  obtain l2 where "unblock_application l j err = Inr l2" "layer_ok l2"
    by (rule unblock_spec [OF complete.IH q complete.hyps(2) refl b])
  with complete.hyps(4) show ?case by simp
next
  case (accept l k r l')
  then obtain q where q: "queue_of l k = Some q" by auto
  show ?case
  proof (cases "completed_sds q")
    case Nil
    with accept_waits [OF accept.IH q] accept.hyps(3) show ?thesis by simp
  next
    case (Cons j js)
    obtain c :: mysock_context and l2 where "myaccept l k = Inr (Some (if stcp_errno c \<noteq> 0 then Inl (stcp_errno c)
          else Inr (j, peer_sockaddr (network_state c)), l2))" "layer_ok l2"
      by (rule accept_spec [OF accept.IH q Cons])
    with accept.hyps(3) show ?thesis by simp
  qed
next
  case (receive l k a conn acc ss net go l' ss')
  then obtain q where "queue_of l k = Some q" by auto
  from recv_keeps [OF receive.IH this receive.hyps(5)] show ?case .
qed (auto intro: new_socket_keeps bind_keeps listen_keeps layer_ok_ctx close_keeps)

section \<open>Pending connections\<close>

text \<open>A connection whose set-up has begun at a listening socket and is not finished.\<close>

definition pending :: "mysock_layer \<Rightarrow> int \<Rightarrow> int \<Rightarrow> bool" where
  "pending l k j \<longleftrightarrow> (\<exists>c. ctx_at l j = Some c \<and> listen_sd c = k \<and> blocking c)"

lemma queue_bounds:
  assumes "queue_ok C k q"
  shows "cur_len q \<le> max_len q" "card (slots q) = cur_len q" "finite (slots q)"
proof -
  have "live q \<subseteq> {..<max_len q}" by (auto simp: live_def)
  from card_mono [OF _ this] assms show "cur_len q \<le> max_len q" by (simp add: queue_ok_def)
  show "card (slots q) = cur_len q" using assms by (simp add: queue_ok_def slots_def card_image)
  show "finite (slots q)" by (simp add: slots_def)
qed

lemma pending_slots: "queue_ok (ctx_at l) k q \<Longrightarrow> {j. pending l k j} \<subseteq> slots q"
  by (auto simp: queue_ok_def pending_def)

lemma unblock_safe:
  assumes "layer_ok l" and "queue_of l k = Some q" and "pending l k j"
  shows "safe (unblock_application l j err)"
proof -
  from assms(3) obtain c where c: "ctx_at l j = Some c" "listen_sd c = k" "blocking c" by (auto simp: pending_def)
  obtain l' where "unblock_application l j err = Inr l'" by (rule unblock_spec [OF assms(1,2) c])
  then show ?thesis by simp
qed

lemma accept_safe:
  assumes "layer_ok l" and "queue_of l k = Some q"
  shows "safe (myaccept l k)"
proof (cases "completed_sds q")
  case Nil
  then show ?thesis by (simp add: accept_waits [OF assms])
next
  case (Cons j js)
  obtain c :: mysock_context and l' where "myaccept l k = Inr (Some (if stcp_errno c \<noteq> 0 then Inl (stcp_errno c)
      else Inr (j, peer_sockaddr (network_state c)), l'))"
    by (rule accept_spec [OF assms Cons])
  then show ?thesis by simp
qed

lemma recv_safe:
  assumes "layer_ok l" and q: "queue_of l k = Some q" and a: "ctx_at l k = Some a" "ready a"
    and s: "0 \<le> s" "framed (ss s) (packet # ps)" "packet \<noteq> []" "length packet \<le> 1500"
  shows "safe (recv_iteration l k conn (Some (s, ip, port)) ss net)"
proof -
  let ?a = "arriving a s ip port" and ?l = "put_ctx l (arriving a s ip port)"
  let ?addr = "\<lparr>sa_inet = True, sin_addr = ip, sin_port = port\<rparr>"
  note ar = arriving_layer [OF assms(1) q a(1), of s ip port]
  have wf: "layer_wf l" using assms(1) by (simp add: layer_ok_def)
  obtain st where r: "recv_iteration l k conn (Some (s, ip, port)) ss net =
    bindR (mysock_enqueue_connection ?l ?a packet ?addr 16 net) (\<lambda>(_, l). Inr (Some (True, l, ss(s := st))))"
    by (rule recv_listening [where ss = ss, OF wf a s])
  have at: "queue_of ?l k = Some q" "ctx_at ?l k = Some ?a" using ar(2,3) q by simp_all
  obtain b l' where "mysock_enqueue_connection ?l ?a packet ?addr 16 net = Inr (b, l')"
    by (rule enqueue_total [OF ar(1) at, of ?addr]) simp_all
  with r show ?thesis by simp
qed

section \<open>The order of connections\<close>

text \<open>
  Completions (a descriptor and the \<open>errno\<close> of the transport layer) and accepts in any order;
  the results of the accepts, none if one waits for ever.
\<close>

fun accept_run :: "mysock_layer \<Rightarrow> int \<Rightarrow> (int \<times> int) option list \<Rightarrow> fault + (int + int) list option" where
  "accept_run l k [] = Inr (Some [])"
| "accept_run l k (Some (j, e) # ops) = bindR (unblock_application l j e) (\<lambda>l. accept_run l k ops)"
| "accept_run l k (None # ops) =
     bindR (myaccept l k) (\<lambda>r.
       case r of None \<Rightarrow> Inr None
       | Some (x, l) \<Rightarrow> bindR (accept_run l k ops) (\<lambda>xs. Inr (map_option ((#) (map_sum id fst x)) xs)))"

fun completions :: "(int \<times> int) option list \<Rightarrow> int list" where
  "completions [] = []"
| "completions (Some (j, e) # ops) = j # completions ops"
| "completions (None # ops) = completions ops"

definition outcome :: "int \<times> int \<Rightarrow> int + int" where
  "outcome p = (let (j, e) = p; e = (if e = EINTR then 0 else e) in if e \<noteq> 0 then Inl e else Inr j)"

definition outcome_of :: "mysock_layer \<Rightarrow> int \<Rightarrow> int + int" where
  "outcome_of l j = (case ctx_at l j of Some c \<Rightarrow> if stcp_errno c \<noteq> 0 then Inl (stcp_errno c) else Inr j)"

lemma accept_run_fifo:
  assumes "layer_ok l" and "queue_of l k = Some q" and "\<forall>j \<in> set (completions ops). pending l k j"
    and "distinct (completions ops)"
    and "\<forall>j \<in> set (completed_sds q). \<not> pending l k j"
  shows "accept_run l k ops = Inr (fifo_run (map (outcome_of l) (completed_sds q)) (map (map_option outcome) ops))"
  using assms
proof (induction ops arbitrary: l q)
  case (Cons op ops)
  show ?case
  proof (cases op)
    case None
    show ?thesis
    proof (cases "completed_sds q")
      case Nil
      then show ?thesis by (simp add: None accept_waits [OF Cons.prems(1,2)])
    next
      case q: (Cons j js)
      obtain c l' q' where c: "ctx_at l j = Some c" and a: "myaccept l k = Inr (Some (if stcp_errno c \<noteq> 0 then Inl (stcp_errno c)
          else Inr (j, peer_sockaddr (network_state c)), l'))"
        and l': "layer_ok l'" "ctx_at l' = ctx_at l" "queue_of l' = (queue_of l)(k \<mapsto> q')" "completed_sds q' = js"
        by (rule accept_spec [OF Cons.prems(1,2) q])
      have o: "outcome_of l' = outcome_of l" "pending l' k = pending l k"
        using l'(2) by (simp_all add: outcome_of_def pending_def fun_eq_iff)
      have "accept_run l' k ops = Inr (fifo_run (map (outcome_of l) js) (map (map_option outcome) ops))"
        using Cons.IH [of l' q'] l' o Cons.prems q None by simp
      moreover have "outcome_of l j = (if stcp_errno c \<noteq> 0 then Inl (stcp_errno c) else Inr j)"
        using c by (simp add: outcome_of_def)
      ultimately show ?thesis using a by (simp add: None q)
    qed
  next
    case (Some p)
    obtain j e where p: "p = (j, e)" by (cases p)
    have pd: "pending l k j" using Cons.prems(3) Some p by simp
    then obtain c where c: "ctx_at l j = Some c" "listen_sd c = k" "blocking c" by (auto simp: pending_def)
    obtain l' q' c' where u: "unblock_application l j e = Inr l'" "layer_ok l'"
      "c' = c\<lparr>blocking := False, stcp_errno := (if e = EINTR then 0 else e)\<rparr>" "ctx_at l' = (ctx_at l)(j \<mapsto> c')"
      "queue_of l' = (queue_of l)(k \<mapsto> q')" "completed_sds q' = completed_sds q @ [j]"
      by (rule unblock_spec [OF Cons.prems(1,2) c])
    have np: "\<not> pending l' k j" using u(3,4) by (simp add: pending_def)
    have op: "pending l' k i \<longleftrightarrow> pending l k i" if "i \<noteq> j" for i using that u(4) by (simp add: pending_def)
    have jq: "j \<notin> set (completed_sds q)" using Cons.prems(5) pd by blast
    then have o: "map (outcome_of l') (completed_sds q') = map (outcome_of l) (completed_sds q) @ [outcome (j, e)]"
      using u(3,4,6) by (auto simp: outcome_of_def outcome_def Let_def)
    have nj: "j \<notin> set (completions ops)" using Cons.prems(4) by (simp add: Some p)
    have "accept_run l' k ops = Inr (fifo_run (map (outcome_of l') (completed_sds q')) (map (map_option outcome) ops))"
    proof (rule Cons.IH [OF u(2)])
      show "queue_of l' k = Some q'" using u(5) by simp
      show "\<forall>i \<in> set (completions ops). pending l' k i" using Cons.prems(3) nj op by (simp add: Some p) metis
      show "distinct (completions ops)" using Cons.prems(4) by (simp add: Some p)
      show "\<forall>i \<in> set (completed_sds q'). \<not> pending l' k i" using Cons.prems(5) u(6) np op by (simp add: Some p) metis
    qed
    then show ?thesis using u(1) o by (simp add: Some p)
  qed
qed simp

section \<open>A second backlog\<close>

text \<open>
  Raising the backlog of a socket with completed connections: if \<open>realloc\<close> moves the array, the
  next accept reads freed memory.
\<close>

lemma relisten_dangles:
  assumes "layer_ok l" and "queue_of l k = Some q" and "completed_queue q \<noteq> []" and "max_len q < unat (backlog + 1)"
    and "ctx_at l k = Some a" "lq_local_port q = ntohs (local_port (network_state a))" "local_port (network_state a) \<noteq> 0"
    and "socket (impl_data (network_state a)) \<ge> 0"
  shows "\<exists>l'. mysock_set_backlog l a backlog True = Inr l' \<and> myaccept l' k = Inl UseAfterFree"
proof -
  from layer_okD [OF assms(1,2)] assms(5) have wf: "layer_wf l" and ac: "listening a" "bound a" "my_sd a = k" "0 \<le> k"
    and ok: "queue_ok (ctx_at l) k q" by (metis option.inject)+
  let ?n = "unat (backlog + 1)"
  let ?q = "q\<lparr>connection_queue := take (max_len q) (connection_queue q) @ replicate (?n - max_len q) INVALIDATE_CONNECT_REQUEST,
      queue_block := queue_block q + 1, max_len := ?n\<rparr>"
  from assms(7) have "ntohs (local_port (network_state a)) \<noteq> 0" by (metis swap16_inj swap16_0)
  then have port: "ntohs (local_port (network_state a)) > 0" by (simp only: word_neq_0_conv)
  obtain l' where l': "put_queue l k ?q = Inr l'" "layer_wf l'" "ctx_at l' = ctx_at l" "queue_of l' = (queue_of l)(k \<mapsto> ?q)"
    by (rule put_queue_at [OF wf ac(4)])
  have "mysock_set_backlog l a backlog True = Inr l'"
    using ac assms(2,4,6,8) port l'(1) queue_at [OF wf ac(1,2)]
    by (simp add: mysock_set_backlog_def Let_def network_get_port_def)
  moreover from assms(3) ok obtain i rs where "completed_queue q = (queue_block q, i) # rs"
    by (cases "completed_queue q") (auto simp: queue_ok_def)
  then have "myaccept l' k = Inl UseAfterFree"
    using ac assms(5) l'(3,4) queue_at [OF l'(2) ac(1,2)]
    by (simp add: myaccept_def get_ctx_at [OF l'(2)] mysock_dequeue_connection_def request_at_def)
  ultimately show ?thesis by blast
qed

section \<open>Packets that end the receiver\<close>

text \<open>After a request was dropped its socket is still there, and the next one is not expected.\<close>

lemma dropped_then_fault:
  assumes "layer_ok l" and q: "queue_of l k = Some q" and a: "ctx_at l k = Some a" "ready a"
    and s: "0 \<le> s" "framed (ss s) (packet # ps)" "packet \<noteq> []" "length packet \<le> 1500"
    and d: "dropped q packet \<lparr>sa_inet = True, sin_addr = ip, sin_port = port\<rparr>"
  obtains l' st where "recv_iteration l k conn (Some (s, ip, port)) ss net = Inr (Some (True, l', ss(s := st)))"
    "queue_of l' = queue_of l"
    "\<And>s' ip' port' conn' ss' net'. 0 \<le> s' \<Longrightarrow> recv_iteration l' k conn' (Some (s', ip', port')) ss' net' = Inl AssertFail"
proof -
  let ?a = "arriving a s ip port" and ?l = "put_ctx l (arriving a s ip port)"
  note ar = arriving_layer [OF assms(1) q a(1), of s ip port]
  have wf: "layer_wf l" "layer_wf ?l" using assms(1) ar(1) by (simp_all add: layer_ok_def)
  obtain st where r: "recv_iteration l k conn (Some (s, ip, port)) ss net =
    bindR (mysock_enqueue_connection ?l ?a packet \<lparr>sa_inet = True, sin_addr = ip, sin_port = port\<rparr> 16 net)
      (\<lambda>(_, l). Inr (Some (True, l, ss(s := st))))"
    by (rule recv_listening [where ss = ss, OF wf(1) a s])
  have at: "queue_of ?l k = Some q" "ctx_at ?l k = Some ?a" using ar(2,3) q by simp_all
  have "mysock_enqueue_connection ?l ?a packet \<lparr>sa_inet = True, sin_addr = ip, sin_port = port\<rparr> 16 net = Inr (False, ?l)"
    by (rule enqueue_dropped [OF ar(1) at _ d]) simp
  with r have 1: "recv_iteration l k conn (Some (s, ip, port)) ss net = Inr (Some (True, ?l, ss(s := st)))" by simp
  have 2: "recv_iteration ?l k conn' (Some (s', ip', port')) ss' net' = Inl AssertFail" if "0 \<le> s'" for s' ip' port' conn' ss' net'
  proof -
    have "network_recv_packet ?a conn' (Some (s', ip', port')) ss' 1500 = Inl AssertFail"
      using that a(2) s(1) by (simp add: network_recv_packet_def accept_connection_def ready_def arriving_def Let_def)
    then show ?thesis using at(2) by (simp add: recv_iteration_def get_ctx_at [OF wf(2)])
  qed
  from that [OF 1 ar(3) 2] show ?thesis .
qed

text \<open>A packet of more than 1500 bytes ends the receive thread of a connection in a failed assertion.\<close>

lemma oversized_packet_fault:
  assumes wf: "layer_wf l" and c: "ctx_at l k = Some c" "\<not> listening c" "\<not> is_active c" "socket (impl_data (network_state c)) \<ge> 0"
    and p: "framed (ss (socket (impl_data (network_state c)))) (packet # ps)" "1500 < length packet" "length packet \<le> 65535"
  shows "recv_iteration l k conn acc ss net = Inl AssertFail"
proof -
  obtain st where "read_packet (ss (socket (impl_data (network_state c)))) 1500 = Inr (Some (int (length packet), take 1500 packet, st))"
    by (rule read_packet_long [OF p(1) _ p(2,3)]) simp
  with c p(2) show ?thesis
    by (simp add: recv_iteration_def get_ctx_at [OF wf] network_recv_packet_def Let_def) auto
qed

end
