(* ===== verification/Demux_Claims.thy ===== *)
theory Demux_Claims
  imports Demux_Run
begin

text \<open>
  The properties of the network layer, the table of listening sockets and the demultiplexing
  of connections, with a concrete server on which each can be seen.
\<close>

section \<open>A server\<close>

definition lab_net :: network_context where "lab_net = network_init 0x0100000a 3"
definition lab_addr :: sockaddr where "lab_addr = \<lparr>sa_inet = True, sin_addr = 0, sin_port = 0x5000\<rparr>"

definition lab_start :: mysock_layer where
  "lab_start = \<lparr>global_ctx = replicate MAX_NUM_CONNECTIONS None, listen_table = hash_empty\<rparr>"
definition lab_socket :: mysock_layer where
  "lab_socket = lab_start\<lparr>global_ctx := snd (mysock_new_mysocket (global_ctx lab_start) lab_net)\<rparr>"
definition lab_bound :: mysock_layer where
  "lab_bound = snd (projr (mybind lab_socket 0 lab_addr 0 0x5000))"
definition lab_server :: mysock_layer where
  "lab_server = snd (projr (mylisten lab_bound 0 1 True 0))"

lemma Inr_projr: "\<not> isl x \<Longrightarrow> x = Inr (fst (projr x), snd (projr x))"
  by (cases x) auto

lemma lab_steps:
  "mysock_new_mysocket (global_ctx lab_start) lab_net = (Inr 0, global_ctx lab_socket)"
  "mybind lab_socket 0 lab_addr 0 0x5000 = Inr (Inr 0, lab_bound)"
  "mylisten lab_bound 0 1 True 0 = Inr (0, lab_server)"
  by code_simp+

lemma lab_socket_ctx:
  "ctx_at lab_bound 0 = Some (the (ctx_at lab_bound 0))" "\<not> listening (the (ctx_at lab_bound 0))"
  "listen_sd (the (ctx_at lab_bound 0)) = -1"
  by code_simp+

lemma lab_server_run: "server lab_server"
proof -
  have "server lab_start" unfolding lab_start_def by (rule server.start)
  moreover have "lab_start\<lparr>global_ctx := global_ctx lab_socket\<rparr> = lab_socket"
    by (subst (1 2) lab_socket_def) simp
  ultimately have "server lab_socket" using server.new_mysocket [OF _ lab_steps(1)] by metis
  from server.bind [OF this lab_steps(2)] have "server lab_bound" .
  from server.listen [OF this lab_socket_ctx lab_steps(3)] show ?thesis .
qed

definition lab_listener :: mysock_context where "lab_listener = the (ctx_at lab_server 0)"
definition lab_queue :: listen_queue where "lab_queue = the (queue_of lab_server 0)"

lemma lab_listen: "ctx_at lab_server 0 = Some lab_listener" "queue_of lab_server 0 = Some lab_queue" "ready lab_listener"
  "None \<in> set (global_ctx lab_server)" "max_len lab_queue = 2" "cur_len lab_queue = 0" "completed_sds lab_queue = []"
  by code_simp+

lemma lab_live: "live lab_queue = {}"
proof -
  have "map sd (connection_queue lab_queue) = [-1, -1]" by code_simp
  then have "\<forall>i < 2. sd (connection_queue lab_queue ! i) = -1" by (auto simp: less_2_cases_iff map_eq_Cons_conv)
  then show ?thesis using lab_listen(5) by (auto simp: live_def)
qed

text \<open>A SYN segment, and a stream that brings it in pieces.\<close>

definition lab_syn :: bytes where "lab_syn = replicate 13 0 @ [2] @ replicate 6 0"

definition lab_stream :: stream where
  "lab_stream = \<lparr>in_flight = frame lab_syn, hung_up = False, schedule = [Some 1, Some 1, Some 7]\<rparr>"

definition lab_peer :: network_context where
  "lab_peer = (network_init 0x0100000a 3)\<lparr>peer_addr_len := 16, impl_data := (impl_data (network_init 0x0100000a 3))\<lparr>connected := True\<rparr>\<rparr>"

lemma lab_packet: "framed lab_stream [lab_syn]" "length lab_syn = 20" "th_flags (tcphdr_at lab_syn) AND TH_SYN \<noteq> 0" "lab_syn \<noteq> []"
  by (simp add: framed_def sound_def lab_stream_def) code_simp+

text \<open>The server after two requests.\<close>

definition lab_receive :: "mysock_layer \<Rightarrow> int \<Rightarrow> u16 \<Rightarrow> mysock_layer" where
  "lab_receive l s port =
     (case recv_iteration l 0 0 (Some (s, 0x0200000a, port)) (\<lambda>_. lab_stream) (network_init 0x0100000a (s + 10)) of
        Inr (Some (go, l', ss)) \<Rightarrow> l' | _ \<Rightarrow> l)"

definition lab_one :: mysock_layer where "lab_one = lab_receive lab_server 5 0x5100"
definition lab_two :: mysock_layer where "lab_two = lab_receive lab_one 6 0x5200"

lemma lab_receive_server:
  assumes "server l" and "ctx_at l 0 = Some a" "listening a" and "queue_of l 0 \<noteq> None"
  shows "server (lab_receive l s port)"
  using assms server.receive [OF assms(1-4)]
  by (auto simp: lab_receive_def split: sum.splits option.splits)

lemma lab_two_run: "server lab_two"
proof -
  have "listening lab_listener" using lab_listen(3) by (simp add: ready_def)
  from lab_receive_server [OF lab_server_run lab_listen(1) this] lab_listen(2) have 1: "server lab_one" by (simp add: lab_one_def)
  have "ctx_at lab_one 0 = Some (the (ctx_at lab_one 0))" "listening (the (ctx_at lab_one 0))" "queue_of lab_one 0 \<noteq> None"
    by code_simp+
  from lab_receive_server [OF 1 this] show ?thesis by (simp add: lab_two_def)
qed

definition lab_full :: listen_queue where "lab_full = the (queue_of lab_two 0)"

lemma lab_pending:
  "queue_of lab_two 0 = Some lab_full" "completed_sds lab_full = []" "cur_len lab_full = 2" "max_len lab_full = 2"
  "ctx_at lab_two 0 = Some (the (ctx_at lab_two 0))" "ready (the (ctx_at lab_two 0))"
  "ctx_at lab_two 1 = Some (the (ctx_at lab_two 1))" "listen_sd (the (ctx_at lab_two 1)) = 0" "blocking (the (ctx_at lab_two 1))"
  "ctx_at lab_two 2 = Some (the (ctx_at lab_two 2))" "listen_sd (the (ctx_at lab_two 2)) = 0" "blocking (the (ctx_at lab_two 2))"
  by code_simp+

lemma lab_two_pending: "pending lab_two 0 1" "pending lab_two 0 2"
  using lab_pending(7-12) unfolding pending_def by blast+

section \<open>The network layer\<close>

text \<open>
  C13: Whatever the order of sends and receives and however the calls of \<open>read\<close> and \<open>write\<close> cut
  the stream, a TCP connection carries packets of 1 to 1500 bytes as a queue does: in order,
  unchanged, and a receive waits exactly if nothing is under way.
\<close>

theorem channel_is_fifo:
  assumes "in_flight s = []" and "\<not> hung_up s" and "None \<notin> set (schedule s)"
    and "peer_addr_len net > 0" and "socket (impl_data net) \<ge> 0" and "connected (impl_data net)"
    and "\<And>p. Some p \<in> set ops \<Longrightarrow> 0 < length p \<and> length p \<le> 1500"
  shows "channel_run net s ops = Inr (fifo_run [] ops)"
  by (rule channel_refines_queue) (use assms in \<open>auto simp: framed_def sound_def up_def fits_def\<close>)

theorem channel_is_fifo_witness:
  "channel_run lab_peer \<lparr>in_flight = [], hung_up = False, schedule = [Some 1, Some 1, Some 2, Some 1, Some 5, Some 1]\<rparr>
     [Some [1, 2, 3], Some [4], None, None] = Inr (Some [[1, 2, 3], [4]])"
  by (subst channel_is_fifo) (auto simp: lab_peer_def network_init_def)

section \<open>The table of listening sockets\<close>

text \<open>
  Any sequence of entries set and deleted in the hash table, with descriptors as keys,
  succeeds, and lookups then answer as in a finite map after the same updates.
\<close>

theorem hash_refines_map:
  assumes "\<forall>(k, v) \<in> set ops. 0 \<le> k"
  shows "\<exists>t. listen.updates hash_empty ops = Inr t
    \<and> (\<forall>k. 0 \<le> k \<longrightarrow> hash_lookup_ptr t k = Inr (foldl (\<lambda>m (k, v). m(k := v)) Map.empty ops k))"
proof -
  from listen.updates_refine [OF hash_empty_spec(1) assms] obtain t where
    "listen.updates hash_empty ops = Inr t" "hash_wf t" "hash_map t = foldl (\<lambda>m (k, v). m(k := v)) Map.empty ops"
    by (auto simp: hash_empty_spec(2))
  then show ?thesis by (auto simp: lookup_ptr_map)
qed

theorem hash_refines_map_witness:
  "\<exists>t. listen.updates hash_empty [(3, Some ''a''), (67, Some ''b''), (3, Some ''c''), (67, None)] = Inr t
     \<and> hash_lookup_ptr t 3 = Inr (Some ''c'') \<and> hash_lookup_ptr t 67 = Inr None"
  using hash_refines_map [of "[(3, Some ''a''), (67, Some ''b''), (3, Some ''c''), (67, None)]"] by auto

section \<open>Connection requests\<close>

text \<open>
  A SYN on a new TCP connection to a listening socket, from an address that is not queued
  and with room in the backlog and the descriptor table, creates a connection: a new descriptor
  whose context has the accepted socket, the peer's address and the SYN in its queue, counted
  in the backlog and pending; no other context changes, and the listening socket is ready for
  the next request.
\<close>

theorem request_creates_connection:
  assumes "server l" and "queue_of l k = Some q" and "ctx_at l k = Some a" and "ready a"
    and "0 \<le> s" and "framed (ss s) (packet # ps)" and "length packet \<le> 1500"
    and "20 \<le> length packet" and "th_flags (tcphdr_at packet) AND TH_SYN \<noteq> 0"
    and "\<lparr>sa_inet = True, sin_addr = ip, sin_port = port\<rparr> \<notin> req_addr ` (!) (connection_queue q) ` live q"
    and "cur_len q < max_len q" and "None \<in> set (global_ctx l)"
  shows "\<exists>l' st j q'. recv_iteration l k conn (Some (s, ip, port)) ss net = Inr (Some (True, l', ss(s := st)))
    \<and> framed st ps \<and> ctx_at l j = None
    \<and> ctx_at l' = (ctx_at l)(k \<mapsto> release_socket (arriving a s ip port),
         j \<mapsto> passive_ctx net (network_state (arriving a s ip port)) \<lparr>sa_inet = True, sin_addr = ip, sin_port = port\<rparr> k j packet)
    \<and> queue_of l' = (queue_of l)(k \<mapsto> q') \<and> cur_len q' = cur_len q + 1
    \<and> pending l' k j \<and> ready (release_socket (arriving a s ip port))"
proof -
  from server_ok [OF assms(1)] have ok: "layer_ok l" .
  obtain l' st j q' where r: "recv_iteration l k conn (Some (s, ip, port)) ss net = Inr (Some (True, l', ss(s := st)))" "framed st ps"
    "layer_ok l'" "ctx_at l j = None"
    "ctx_at l' = (ctx_at l)(k \<mapsto> release_socket (arriving a s ip port),
       j \<mapsto> passive_ctx net (network_state (arriving a s ip port)) \<lparr>sa_inet = True, sin_addr = ip, sin_port = port\<rparr> k j packet)"
    "queue_of l' = (queue_of l)(k \<mapsto> q')" "cur_len q' = cur_len q + 1"
    by (rule incoming_spec [where ss = ss, OF ok assms(2-9) refl assms(10-12)])
  moreover have "pending l' k j" using r(5) by (simp add: pending_def passive_ctx_def mysock_allocate_context_def)
  moreover have "ready (release_socket (arriving a s ip port))"
    using assms(4) by (simp add: ready_def release_socket_def arriving_def)
  ultimately show ?thesis by blast
qed

theorem request_creates_connection_witness:
  "\<exists>l' st j q'. recv_iteration lab_server 0 0 (Some (5, 0x0200000a, 0x5100)) (\<lambda>_. lab_stream) (network_init 0x0100000a 4)
       = Inr (Some (True, l', (\<lambda>_. lab_stream)(5 := st)))
     \<and> queue_of l' = (queue_of lab_server)(0 \<mapsto> q') \<and> cur_len q' = 1 \<and> pending l' 0 j"
  using request_creates_connection [OF lab_server_run lab_listen(2,1,3), of 5 "\<lambda>_. lab_stream" lab_syn "[]" "0x0200000a" "0x5100" 0
      "network_init 0x0100000a 4"] lab_packet lab_listen lab_live
  by auto



text \<open>
  C16: A listening socket hands out its connections in the order in which they complete: for
  any interleaving of completions (of different pending connections, with or without an error)
  and accepts, the accepts return what a first-in first-out queue of the outcomes returns, and
  an accept waits exactly if that queue is empty.
\<close>

theorem accepts_in_order:
  assumes "server l" and "queue_of l k = Some q" and "completed_sds q = []"
    and "\<forall>j \<in> set (completions ops). pending l k j" and "distinct (completions ops)"
  shows "accept_run l k ops = Inr (fifo_run [] (map (map_option outcome) ops))"
  using accept_run_fifo [OF server_ok [OF assms(1)] assms(2,4,5)] assms(3) by simp

theorem accepts_in_order_witness:
  "accept_run lab_two 0 [Some (2, 0), None, Some (1, ECONNREFUSED), None] = Inr (Some [Inr 2, Inl ECONNREFUSED])"
  using accepts_in_order [OF lab_two_run lab_pending(1,2), of "[Some (2, 0), None, Some (1, ECONNREFUSED), None]"] lab_two_pending
  by (simp add: outcome_def)

text \<open>
  When a request is dropped (the backlog is full, the address is queued already, or the
  packet is no SYN) the accepted socket is neither closed nor forgotten: the server goes on,
  but the next connection fails an assertion and ends the process.
\<close>

theorem dropped_request_aborts:
  assumes "server l" and "queue_of l k = Some q" and "ctx_at l k = Some a" and "ready a"
    and "0 \<le> s" and "framed (ss s) (packet # ps)" and "packet \<noteq> []" and "length packet \<le> 1500"
    and "dropped q packet \<lparr>sa_inet = True, sin_addr = ip, sin_port = port\<rparr>"
  shows "\<exists>l' st. recv_iteration l k conn (Some (s, ip, port)) ss net = Inr (Some (True, l', ss(s := st)))
    \<and> queue_of l' = queue_of l
    \<and> (\<forall>s' ip' port' conn' ss' net'. 0 \<le> s' \<longrightarrow>
         recv_iteration l' k conn' (Some (s', ip', port')) ss' net' = Inl AssertFail)"
proof -
  obtain l' st where "recv_iteration l k conn (Some (s, ip, port)) ss net = Inr (Some (True, l', ss(s := st)))"
    "queue_of l' = queue_of l"
    "\<And>s' ip' port' conn' ss' net'. 0 \<le> s' \<Longrightarrow> recv_iteration l' k conn' (Some (s', ip', port')) ss' net' = Inl AssertFail"
    by (rule dropped_then_fault [where ss = ss, OF server_ok [OF assms(1)] assms(2-9)]) blast
  then show ?thesis by blast
qed

theorem dropped_request_aborts_witness:
  "\<exists>l' st. recv_iteration lab_two 0 0 (Some (7, 0x0300000a, 0x5300)) (\<lambda>_. lab_stream) (network_init 0x0100000a 8)
       = Inr (Some (True, l', (\<lambda>_. lab_stream)(7 := st)))
     \<and> recv_iteration l' 0 0 (Some (8, 0x0300000a, 0x5400)) (\<lambda>_. lab_stream) (network_init 0x0100000a 9) = Inl AssertFail"
proof -
  have "dropped lab_full lab_syn \<lparr>sa_inet = True, sin_addr = 0x0300000a, sin_port = 0x5300\<rparr>"
    using lab_pending(3,4) by (simp add: dropped_def)
  from dropped_request_aborts [where ss = "\<lambda>_. lab_stream" and ps = "[]" and s = 7 and conn = 0 and
      net = "network_init 0x0100000a 8", OF lab_two_run lab_pending(1,5,6) _ _ _ _ this] lab_packet(1,2,4)
  obtain l' st where "recv_iteration lab_two 0 0 (Some (7, 0x0300000a, 0x5300)) (\<lambda>_. lab_stream) (network_init 0x0100000a 8)
       = Inr (Some (True, l', (\<lambda>_. lab_stream)(7 := st)))"
    "\<forall>s' ip' port' conn' ss' net'. 0 \<le> s' \<longrightarrow> recv_iteration l' 0 conn' (Some (s', ip', port')) ss' net' = Inl AssertFail"
    by auto
  then show ?thesis by (intro exI conjI) (assumption, simp)
qed

end
