(* ===== verification/Os_Fds.thy ===== *)
theory Os_Fds
  imports Net_Prelude
begin

text \<open>The open descriptors of a process.\<close>

text \<open>The descriptors that are open, and how often one was closed that is not.\<close>

record os_fds =
  open_fds :: "int set"
  bad_closes :: nat

definition os_open :: "int \<Rightarrow> os_fds \<Rightarrow> os_fds" where
  "os_open fd os = os\<lparr>open_fds := insert fd (open_fds os)\<rparr>"

definition os_close :: "int \<Rightarrow> os_fds \<Rightarrow> os_fds" where
  "os_close fd os =
     (if fd \<in> open_fds os then os\<lparr>open_fds := open_fds os - {fd}\<rparr> else os\<lparr>bad_closes := bad_closes os + 1\<rparr>)"

lemma close_opened: "fd \<notin> open_fds os \<Longrightarrow> os_close fd (os_open fd os) = os"
  by (simp add: os_close_def os_open_def)

end
