(* ===== verification/Network_Fds.thy ===== *)
theory Network_Fds
  imports Network_Tcp Os_Fds
begin

text \<open>
  The descriptors of the operating system that the network layer holds: allocation and release
  in \<^verbatim>\<open>network_io_socket.c\<close> and \<^verbatim>\<open>network_io_tcp.c\<close>.  A context owns a socket, the two ends of the pipe
  that wakes its receive thread, and for a moment an accepted socket.
\<close>

section \<open>Descriptors\<close>

text \<open>The state of the socket layer with its pipe.\<close>

record network_fds = network_context_socket_tcp +
  exit_read :: int
  exit_write :: int

section \<open>Allocation and release\<close>

text \<open>
  \<open>sd\<close> is the result of \<open>socket\<close>, \<open>pipe\<close> that of the call of this name, which stores two descriptors
  or fails.  The struct is zeroed at first.
\<close>

definition network_alloc_context_socket :: "int \<Rightarrow> (int \<times> int) option \<Rightarrow> os_fds \<Rightarrow> fault + network_fds \<times> os_fds" where
  "network_alloc_context_socket sd pipe os =
     bindR (assertR (sd \<ge> 0)) (\<lambda>_.
       let os = os\<lparr>open_fds := insert sd (open_fds os)\<rparr>
       in case pipe of
            None \<Rightarrow> Inl AssertFail
          | Some (r, w) \<Rightarrow>
              Inr (\<lparr>recv_thread_started = False, socket = sd, new_socket = 0, connected = False, exit_read = r, exit_write = w\<rparr>,
                   os\<lparr>open_fds := insert r (insert w (open_fds os))\<rparr>))"

definition network_destroy_context_socket :: "network_fds \<Rightarrow> os_fds \<Rightarrow> os_fds" where
  "network_destroy_context_socket ctx os =
     (let os = (if socket ctx \<ge> 0 then os_close (socket ctx) os else os);
          os = (if exit_read ctx \<ge> 0 then os_close (exit_read ctx) os else os)
      in if exit_write ctx \<ge> 0 then os_close (exit_write ctx) os else os)"

definition network_close_socket :: "network_fds \<Rightarrow> os_fds \<Rightarrow> os_fds" where
  "network_close_socket ctx os = network_destroy_context_socket ctx os"

definition network_init_socket :: "int \<Rightarrow> (int \<times> int) option \<Rightarrow> os_fds \<Rightarrow> fault + network_fds \<times> os_fds" where
  "network_init_socket sd pipe os = network_alloc_context_socket sd pipe os"

definition network_init_fds :: "int \<Rightarrow> (int \<times> int) option \<Rightarrow> os_fds \<Rightarrow> fault + network_fds \<times> os_fds" where
  "network_init_fds sd pipe os =
     bindR (network_init_socket sd pipe os) (\<lambda>(ctx, os). Inr (ctx\<lparr>new_socket := -1, connected := False\<rparr>, os))"

definition network_close :: "network_fds \<Rightarrow> os_fds \<Rightarrow> os_fds" where
  "network_close ctx os =
     (let os = (if new_socket ctx \<noteq> -1 then os_close (new_socket ctx) os else os)
      in network_close_socket ctx os)"

section \<open>Accepted sockets\<close>

text \<open>The accept of the receive thread; \<open>tmp_sd\<close> is its result.\<close>

definition network_accept_fds :: "network_fds \<Rightarrow> int \<Rightarrow> os_fds \<Rightarrow> fault + network_fds \<times> os_fds" where
  "network_accept_fds ctx tmp_sd os =
     (if tmp_sd < 0 then Inr (ctx, os)
      else bindR (assertR (new_socket ctx = -1)) (\<lambda>_.
             Inr (ctx\<lparr>new_socket := tmp_sd\<rparr>, os\<lparr>open_fds := insert tmp_sd (open_fds os)\<rparr>)))"

text \<open>The accepted socket goes to the new context, whose own is closed.\<close>

definition network_pass_fds :: "network_fds \<Rightarrow> network_fds \<Rightarrow> os_fds \<Rightarrow> network_fds \<times> network_fds \<times> os_fds" where
  "network_pass_fds new_ctx accept_ctx os =
     (new_ctx\<lparr>socket := new_socket accept_ctx, connected := True\<rparr>, accept_ctx\<lparr>new_socket := -1\<rparr>, os_close (socket new_ctx) os)"

text \<open>These agree with the network layer of Network_Tcp, which has no pipes.\<close>

lemma init_fds_refines:
  "network_init_fds sd pipe os = Inr (ctx, os') \<Longrightarrow> network_context_socket_tcp.truncate ctx = impl_data (network_init ip sd)"
  by (auto simp: network_init_fds_def network_init_socket_def network_alloc_context_socket_def network_init_def
      network_context_socket_tcp.truncate_def Let_def split: option.splits)

lemma pass_fds_refines:
  assumes "network_update_passive_state new_ctx accept_ctx = Inr (new_ctx', accept_ctx')"
    and "impl_data (network_state new_ctx) = network_context_socket_tcp.truncate n"
    and "impl_data (network_state accept_ctx) = network_context_socket_tcp.truncate a"
    and "network_pass_fds n a os = (n', a', os')"
  shows "impl_data (network_state new_ctx') = network_context_socket_tcp.truncate n'"
    and "impl_data (network_state accept_ctx') = network_context_socket_tcp.truncate a'"
  using assms by (auto simp: network_update_passive_state_def network_pass_fds_def network_context_socket_tcp.truncate_def Let_def)

section \<open>Runs of a process\<close>

text \<open>
  The contexts of a process by descriptor, and the operating system, which hands out descriptors
  that are not open.  \<open>F\<close> are the descriptors that are open for other reasons.
\<close>

inductive fd_run :: "int set \<Rightarrow> (int \<rightharpoonup> network_fds) \<Rightarrow> os_fds \<Rightarrow> bool" for F where
  start: "fd_run F Map.empty \<lparr>open_fds = F, bad_closes = 0\<rparr>"
| init: "\<lbrakk>fd_run F M os; M k = None; distinct [sd, r, w]; 0 \<le> sd; 0 \<le> r; 0 \<le> w; {sd, r, w} \<inter> open_fds os = {};
     network_init_fds sd (Some (r, w)) os = Inr (c, os')\<rbrakk> \<Longrightarrow> fd_run F (M(k \<mapsto> c)) os'"
| accept: "\<lbrakk>fd_run F M os; M k = Some c; tmp_sd \<notin> open_fds os; network_accept_fds c tmp_sd os = Inr (c', os')\<rbrakk>
    \<Longrightarrow> fd_run F (M(k \<mapsto> c')) os'"
| pass: "\<lbrakk>fd_run F M os; M k = Some a; M j = Some c; j \<noteq> k; new_socket a \<noteq> -1; network_pass_fds c a os = (c', a', os')\<rbrakk>
    \<Longrightarrow> fd_run F (M(j \<mapsto> c', k \<mapsto> a')) os'"
| close: "\<lbrakk>fd_run F M os; M k = Some c\<rbrakk> \<Longrightarrow> fd_run F (M(k := None)) (network_close c os)"

definition fds :: "network_fds \<Rightarrow> int set" where
  "fds c = {socket c, exit_read c, exit_write c} \<union> (if new_socket c = -1 then {} else {new_socket c})"

definition fds_ok :: "network_fds \<Rightarrow> bool" where
  "fds_ok c \<longleftrightarrow> distinct [socket c, exit_read c, exit_write c] \<and> 0 \<le> socket c \<and> 0 \<le> exit_read c \<and> 0 \<le> exit_write c
     \<and> (new_socket c = -1 \<or> 0 \<le> new_socket c \<and> new_socket c \<notin> {socket c, exit_read c, exit_write c})"

definition held :: "(int \<rightharpoonup> network_fds) \<Rightarrow> int set" where
  "held M = {x. \<exists>k c. M k = Some c \<and> x \<in> fds c}"

definition fd_inv :: "int set \<Rightarrow> (int \<rightharpoonup> network_fds) \<Rightarrow> os_fds \<Rightarrow> bool" where
  "fd_inv F M os \<longleftrightarrow> (\<forall>k c. M k = Some c \<longrightarrow> fds_ok c \<and> fds c \<inter> F = {})
     \<and> (\<forall>j k c d. M j = Some c \<longrightarrow> M k = Some d \<longrightarrow> j \<noteq> k \<longrightarrow> fds c \<inter> fds d = {})
     \<and> open_fds os = F \<union> held M \<and> bad_closes os = 0"

text \<open>Closing a context that owns open descriptors closes exactly these.\<close>

lemma network_close_fds:
  assumes "fds_ok c" and "fds c \<subseteq> open_fds os"
  shows "network_close c os = os\<lparr>open_fds := open_fds os - fds c\<rparr>"
proof -
  have "os_close x os = os\<lparr>open_fds := open_fds os - {x}\<rparr>" if "x \<in> open_fds os" for x and os :: os_fds
    using that by (simp add: os_close_def)
  then show ?thesis
    using assms by (cases "new_socket c = -1")
      (auto simp: network_close_def network_close_socket_def network_destroy_context_socket_def fds_def fds_ok_def Let_def
        Diff_insert2 [of _ _ "insert _ _"])
qed

lemma held_Some: "held (M(k \<mapsto> c)) = held (M(k := None)) \<union> fds c"
  by (auto simp: held_def split: if_splits)

lemma held_split: "M k = Some c \<Longrightarrow> held M = held (M(k := None)) \<union> fds c"
  using held_Some [of M k c] by (simp add: fun_upd_idem)

lemma held_upd: "M k = None \<or> M k = Some c0 \<and> fds c0 \<subseteq> fds c \<Longrightarrow> held (M(k \<mapsto> c)) = held M \<union> fds c"
  using held_Some [of M k c] held_split [of M k c0] by (auto simp: fun_upd_idem)

lemma fd_inv_upd:
  assumes "fd_inv F M os" and "fds_ok c" "fds c \<inter> F = {}" and "\<And>m d. M m = Some d \<Longrightarrow> m \<noteq> k \<Longrightarrow> fds d \<inter> fds c = {}"
    and "open_fds os' = F \<union> held (M(k \<mapsto> c))" "bad_closes os' = 0"
  shows "fd_inv F (M(k \<mapsto> c)) os'"
  unfolding fd_inv_def
proof (intro conjI allI impI)
  fix j m d e
  assume "(M(k \<mapsto> c)) j = Some d" "(M(k \<mapsto> c)) m = Some e" "j \<noteq> m"
  moreover have "fds d' \<inter> fds e' = {}" if "M j = Some d'" "M m = Some e'" for d' e'
    using assms(1) that \<open>j \<noteq> m\<close> unfolding fd_inv_def by blast
  ultimately show "fds d \<inter> fds e = {}"
    using assms(4) [of m e] assms(4) [of j d] by (cases "j = k"; cases "m = k") (simp_all add: Int_commute)
qed (use assms in \<open>auto simp: fd_inv_def split: if_splits\<close>)

lemma fd_inv_run: "fd_run F M os \<Longrightarrow> fd_inv F M os"
proof (induction rule: fd_run.induct)
  case start
  show ?case by (simp add: fd_inv_def held_def)
next
  case (init M os k sd r w c os')
  have c: "fds c = {sd, r, w}" "fds_ok c" and os': "open_fds os' = open_fds os \<union> {sd, r, w}" "bad_closes os' = bad_closes os"
    using init by (auto simp: network_init_fds_def network_init_socket_def network_alloc_context_socket_def fds_def fds_ok_def Let_def)
  have "held (M(k \<mapsto> c)) = held M \<union> fds c" using init.hyps(2) by (simp add: held_upd)
  moreover have "fds d \<subseteq> open_fds os" if "M m = Some d" for m d using init.IH that by (auto simp: fd_inv_def held_def)
  moreover have "fds c \<inter> F = {}" "open_fds os = F \<union> held M" "bad_closes os = 0"
    using init.IH init.hyps(7) c(1) by (auto simp: fd_inv_def)
  ultimately show ?case using c os' init.hyps(7) by (intro fd_inv_upd [OF init.IH]) auto
next
  case (close M os k c)
  then have c: "fds_ok c" "fds c \<subseteq> open_fds os" by (auto simp: fd_inv_def held_def)
  have d: "fds d \<inter> fds c = {}" if "M m = Some d" "m \<noteq> k" for m d
    using close.IH close.hyps(2) that unfolding fd_inv_def by blast
  then have "held (M(k := None)) \<inter> fds c = {}" by (auto simp: held_def split: if_splits)
  moreover have "fds c \<inter> F = {}" "open_fds os = F \<union> held M" using close.IH close.hyps(2) unfolding fd_inv_def by blast+
  ultimately have "open_fds os - fds c = F \<union> held (M(k := None))" using held_split [of M k c, OF close.hyps(2)] by auto
  then show ?case using close.IH unfolding network_close_fds [OF c] fd_inv_def by (auto split: if_splits)
next
  case (accept M os k c tmp_sd c' os')
  show ?case
  proof (cases "tmp_sd < 0")
    case True
    then have "M(k \<mapsto> c') = M" "os' = os" using accept.hyps by (auto simp: network_accept_fds_def)
    then show ?thesis using accept.IH by simp
  next
    case False
    then have c': "c' = c\<lparr>new_socket := tmp_sd\<rparr>" "new_socket c = -1" and os': "os' = os\<lparr>open_fds := insert tmp_sd (open_fds os)\<rparr>"
      using accept.hyps(4) by (auto simp: network_accept_fds_def)
    have f: "fds c' = insert tmp_sd (fds c)" using c' False by (auto simp: fds_def)
    have o: "fds d \<subseteq> open_fds os" if "M m = Some d" for m d using accept.IH that by (auto simp: fd_inv_def held_def)
    have "fds_ok c'" using accept.IH accept.hyps(2,3) c' False o [OF accept.hyps(2)] by (auto simp: fd_inv_def fds_ok_def fds_def)
    moreover have "held (M(k \<mapsto> c')) = insert tmp_sd (held M)"
      using held_upd [of M k c c'] held_split [of M k c, OF accept.hyps(2)] accept.hyps(2) f by auto
    moreover have "open_fds os = F \<union> held M" "bad_closes os = 0" "fds c \<inter> F = {}"
      and d: "\<And>m d. M m = Some d \<Longrightarrow> m \<noteq> k \<Longrightarrow> fds d \<inter> fds c = {}"
      using accept.IH accept.hyps(2) unfolding fd_inv_def by blast+
    moreover have "fds d \<inter> fds c' = {}" if "M m = Some d" "m \<noteq> k" for m d
      using d [OF that] o [OF that(1)] accept.hyps(3) f by auto
    ultimately show ?thesis
      using accept.hyps(3) f os' by (intro fd_inv_upd [OF accept.IH]) auto
  qed
next
  case (pass M os k a j c c' a' os')
  have c': "c' = c\<lparr>socket := new_socket a, connected := True\<rparr>" "a' = a\<lparr>new_socket := -1\<rparr>" "os' = os_close (socket c) os"
    using pass.hyps(6) by (auto simp: network_pass_fds_def)
  have i: "fds_ok a" "fds_ok c" "fds a \<inter> fds c = {}" "fds a \<inter> F = {}" "fds c \<inter> F = {}" "fds a \<subseteq> open_fds os" "fds c \<subseteq> open_fds os"
    using pass.IH pass.hyps(2-4) unfolding fd_inv_def held_def by (auto; metis disjoint_iff)+
  have f: "fds c' = insert (new_socket a) (fds c - {socket c})" "fds a' = fds a - {new_socket a}" "fds_ok c'" "fds_ok a'"
    using i(1-3) pass.hyps(5) c'(1,2) by (auto simp: fds_def fds_ok_def)
  have os': "os' = os\<lparr>open_fds := open_fds os - {socket c}\<rparr>" using i(7) c'(3) by (auto simp: os_close_def fds_def)
  let ?M = "M(j \<mapsto> c', k \<mapsto> a')" and ?R = "M(j := None, k := None)"
  have "held M = held ?R \<union> fds c \<union> fds a"
    using held_split [of M j c] held_split [of "M(j := None)" k a] pass.hyps(2-4) by auto
  moreover have "held ?M = held ?R \<union> fds c' \<union> fds a'"
    using held_Some [of "M(j \<mapsto> c')" k a'] held_Some [of "M(k := None)" j c'] pass.hyps(4) by (auto simp: fun_upd_twist)
  moreover have r: "fds d \<inter> (fds c \<union> fds a) = {}" if "M m = Some d" "m \<noteq> j" "m \<noteq> k" for m d
    using pass.IH pass.hyps(2,3) that unfolding fd_inv_def by blast
  then have "held ?R \<inter> (fds c \<union> fds a) = {}" by (auto simp: held_def split: if_splits)
  moreover have "socket c \<in> fds c" "new_socket a \<in> fds a" using pass.hyps(5) by (auto simp: fds_def)
  moreover have "open_fds os = F \<union> held M" "bad_closes os = 0" using pass.IH by (simp_all add: fd_inv_def)
  ultimately have "open_fds os' = F \<union> held ?M" using f(1,2) i(3,4,5) os' by auto
  moreover have "fds d \<inter> (fds c' \<union> fds a') = {}" if "M m = Some d" "m \<noteq> j" "m \<noteq> k" for m d
    using r [OF that] f(1,2) \<open>new_socket a \<in> fds a\<close> by auto
  moreover have "fds c' \<inter> fds a' = {}" "fds c' \<inter> F = {}" "fds a' \<inter> F = {}" using f(1,2) i(3-5) \<open>new_socket a \<in> fds a\<close> by auto
  ultimately show ?case
    using pass.IH f(3,4) os' pass.hyps(4) unfolding fd_inv_def by (auto split: if_splits)
qed

end
