(* ===== verification/Network_Claims.thy ===== *)
theory Network_Claims
  imports Network_Fds
begin

text \<open>
  The descriptors of the network layer are balanced, with a run of a process on which this can be
  seen: a listening context and one that takes over an accepted socket.
\<close>

section \<open>A process with two contexts\<close>

definition two_contexts :: "network_fds \<times> network_fds \<times> os_fds" where
  "two_contexts =
     (let (a, os) = projr (network_init_fds 3 (Some (4, 5)) \<lparr>open_fds = {0, 1, 2}, bad_closes = 0\<rparr>);
          (c, os) = projr (network_init_fds 6 (Some (7, 8)) os);
          (a, os) = projr (network_accept_fds a 9 os)
      in network_pass_fds c a os)"

lemma two_contexts_run:
  "case two_contexts of (c, a, os) \<Rightarrow> fd_run {0, 1, 2} [0 \<mapsto> a, 1 \<mapsto> c] os \<and> socket c = 9 \<and> 6 \<notin> open_fds os"
proof -
  let ?o = "\<lambda>n. \<lparr>open_fds = {0 ..< n :: int}, bad_closes = 0\<rparr>"
  let ?c = "\<lambda>sd. \<lparr>recv_thread_started = False, socket = sd, new_socket = -1, connected = False, exit_read = sd + 1, exit_write = sd + 2\<rparr>"
  let ?a = "?c 3\<lparr>new_socket := 9\<rparr>" and ?n = "?c 6\<lparr>socket := 9, connected := True\<rparr>"
  let ?e = "\<lparr>open_fds = {0 ..< 10} - {6}, bad_closes = 0\<rparr>"
  have i: "network_init_fds sd (Some (sd + 1, sd + 2)) (?o sd) = Inr (?c sd, ?o (sd + 3))" if "0 \<le> sd" for sd
    using that by (auto simp: network_init_fds_def network_init_socket_def network_alloc_context_socket_def Let_def)
  have u: "{0, 1, 2} = {0 ..< 3 :: int}" by auto
  have s: "network_accept_fds (?c 3) 9 (?o 9) = Inr (?a, ?o 10)" "network_pass_fds (?c 6) ?a (?o 10) = (?n, ?c 3, ?e)"
    by (auto simp: network_accept_fds_def network_pass_fds_def os_close_def)
  have two: "two_contexts = (?n, ?c 3, ?e)"
    using i [of 3] i [of 6] s unfolding two_contexts_def u by simp
  have "fd_run {0, 1, 2} [0 \<mapsto> ?c 3] (?o 6)"
    using fd_run.init [OF fd_run.start, where k = 0 and sd = 3 and r = 4 and w = 5] i [of 3] unfolding u by simp
  then have "fd_run {0, 1, 2} [0 \<mapsto> ?c 3, 1 \<mapsto> ?c 6] (?o 9)"
    using fd_run.init [where k = 1 and sd = 6 and r = 7 and w = 8] i [of 6] by simp
  then have "fd_run {0, 1, 2} [0 \<mapsto> ?a, 1 \<mapsto> ?c 6] (?o 10)"
    using fd_run.accept [OF _ _ _ s(1), of "{0, 1, 2}" "[0 \<mapsto> ?c 3, 1 \<mapsto> ?c 6]" 0] by (simp add: fun_upd_twist)
  then have "fd_run {0, 1, 2} [0 \<mapsto> ?c 3, 1 \<mapsto> ?n] ?e"
    using fd_run.pass [OF _ _ _ _ _ s(2), of "{0, 1, 2}" "[0 \<mapsto> ?a, 1 \<mapsto> ?c 6]" 0 1] by (simp add: fun_upd_twist)
  then show ?thesis unfolding two by simp
qed

section \<open>Descriptors\<close>

text \<open>
  C17: In every run of a process no descriptor is closed twice or closed without being open, every
  descriptor of a context is open and belongs to this context alone, and when all contexts are
  closed exactly the descriptors that were open at the start are: nothing leaks, whatever
  sockets were accepted and passed on.
\<close>

theorem descriptors_balanced:
  assumes "fd_run F M os"
  shows "bad_closes os = 0 \<and> (\<forall>k c. M k = Some c \<longrightarrow> fds c \<subseteq> open_fds os)
    \<and> (\<forall>j k c d. M j = Some c \<longrightarrow> M k = Some d \<longrightarrow> j \<noteq> k \<longrightarrow> fds c \<inter> fds d = {}) \<and> (M = Map.empty \<longrightarrow> open_fds os = F)"
proof (intro conjI)
  note inv = fd_inv_run [OF assms, unfolded fd_inv_def]
  show "bad_closes os = 0" "\<forall>j k c d. M j = Some c \<longrightarrow> M k = Some d \<longrightarrow> j \<noteq> k \<longrightarrow> fds c \<inter> fds d = {}" using inv by blast+
  have o: "open_fds os = F \<union> held M" using inv by blast
  then show "\<forall>k c. M k = Some c \<longrightarrow> fds c \<subseteq> open_fds os" "M = Map.empty \<longrightarrow> open_fds os = F" by (auto simp: held_def)
qed

theorem descriptors_balanced_witness:
  "case two_contexts of (c, a, os) \<Rightarrow> socket c = 9 \<and> bad_closes os = 0 \<and> fds c \<inter> fds a = {}
     \<and> open_fds (network_close c (network_close a os)) = {0, 1, 2}"
proof -
  obtain c a os where t: "two_contexts = (c, a, os)" by (cases two_contexts)
  note r = two_contexts_run [unfolded t, simplified]
  have "fd_run {0, 1, 2} [1 \<mapsto> c] (network_close a os)"
    using fd_run.close [OF r [THEN conjunct1], of 0 a] by (simp add: fun_upd_twist)
  then have "fd_run {0, 1, 2} Map.empty (network_close c (network_close a os))"
    using fd_run.close [of "{0, 1, 2}" "[1 \<mapsto> c]" _ 1 c] by simp
  then have "open_fds (network_close c (network_close a os)) = {0, 1, 2}" by (simp add: descriptors_balanced)
  moreover have "fds c \<inter> fds a = {}"
    using descriptors_balanced [OF r [THEN conjunct1], THEN conjunct2, THEN conjunct2, THEN conjunct1, rule_format, of 1 c 0 a] by simp
  ultimately show ?thesis using descriptors_balanced [OF r [THEN conjunct1]] r unfolding t by simp
qed

end
