(* ===== verification/File_Transfer.thy ===== *)
theory File_Transfer
  imports Mysock C_Text
begin

text \<open>
  The two programs over the mysocket layer: the file server of \<^verbatim>\<open>server.c\<close> and the client of
  \<^verbatim>\<open>client.c\<close>.  A program runs on the context of its connection: \<open>app_send_queue\<close> holds what the
  transport layer has for it, \<open>app_recv_queue\<close> what it has written.  None: the program does not
  return, as a read that waits for ever does.  What is printed on the terminal is left out.

  The call that reads is a parameter, for the reason given at \<open>myread_forward\<close>.
\<close>

type_synonym reader = "mysock_context \<Rightarrow> nat \<Rightarrow> fault + ((int + nat \<times> bytes) \<times> mysock_context) option"

text \<open>
  \<open>myread\<close> moves what it leaves in a buffer with a \<open>memcpy\<close> between regions that overlap if it
  leaves more than it takes.  This is \<open>myread\<close> on a machine whose \<open>memcpy\<close> copies upwards, so that
  the move does what it is meant to.
\<close>

definition myread_forward :: reader where
  "myread_forward ctx n =
     (case myread ctx n of
        Inl OverlappingCopy \<Rightarrow>
          (let data = hd (app_send_queue ctx)
           in Inr (Some (Inr (n, take n data), ctx\<lparr>app_send_queue := drop n data # tl (app_send_queue ctx)\<rparr>)))
      | r \<Rightarrow> r)"

abbreviation crlf :: string where "crlf \<equiv> [CR, LF]"
abbreviation text_bytes :: "string \<Rightarrow> bytes" where "text_bytes s \<equiv> map char_byte s"

section \<open>Lines\<close>

text \<open>
  The loop of \<open>get_nvt_line\<close>, which both programs have: \<open>line\<close> is what is in the buffer of \<open>cap\<close>
  characters.  The result is the string the caller finds there, or none for the value -1.
\<close>

partial_function (option) nvt_loop ::
  "reader \<Rightarrow> nat \<Rightarrow> char \<Rightarrow> string \<Rightarrow> mysock_context \<Rightarrow> (fault + string option \<times> mysock_context) option" where
  [code]: "nvt_loop rd cap last_char line ctx =
     (case rd ctx 1 of
        Inl f \<Rightarrow> Some (Inl f)
      | Inr None \<Rightarrow> None
      | Inr (Some (Inl _, ctx)) \<Rightarrow> Some (Inr (None, ctx))
      | Inr (Some (Inr (len, dst), ctx)) \<Rightarrow>
          if len = 0
          then Some (if length line < cap then Inr (Some (takeWhile (\<lambda>c. c \<noteq> NUL) line), ctx) else Inl OutOfBounds)
          else let this_char = char_of (unat (hd dst))
               in if last_char = CR \<and> this_char = LF
                  then Some (Inr (Some (takeWhile (\<lambda>c. c \<noteq> NUL) (butlast line)), ctx))
                  else if length line < cap then nvt_loop rd cap this_char (line @ [this_char]) ctx
                  else Some (Inl OutOfBounds))"

definition get_nvt_line ::
  "reader \<Rightarrow> nat \<Rightarrow> mysock_context \<Rightarrow> (fault + string option \<times> mysock_context) option" where
  "get_nvt_line rd cap ctx = nvt_loop rd cap NUL [] ctx"

section \<open>The server\<close>

text \<open>
  What a name is to the server: \<open>access\<close> fails, \<open>open\<close> fails, a file, or a directory, for which
  \<open>lseek\<close> reports some number and \<open>read\<close> fails.
\<close>

datatype server_file = Absent | Unopenable | Regular bytes | Directory nat

text \<open>The file is sent in pieces of the size of \<open>resp\<close>.  False: a write failed.\<close>

function send_file :: "mysock_context \<Rightarrow> bytes \<Rightarrow> fault + bool \<times> mysock_context" where
  "send_file ctx data =
     (if data = [] then Inr (True, ctx)
      else bindR (mywrite ctx (take 5000 data)) (\<lambda>(r, ctx).
             case r of Inl _ \<Rightarrow> Inr (False, ctx) | Inr _ \<Rightarrow> send_file ctx (drop 5000 data)))"
  by pat_completeness auto
termination by (relation "measure (length \<circ> snd)") auto

declare send_file.simps [simp del]

definition response_line :: "(string \<Rightarrow> server_file) \<Rightarrow> string \<Rightarrow> string" where
  "response_line files line =
     line @ (if line = [] then '',-1,File does not exist or access denied''
             else case files line of
                    Absent \<Rightarrow> '',-1,File does not exist or access denied''
                  | Unopenable \<Rightarrow> '',-1,File could not be opened''
                  | Regular data \<Rightarrow> '','' @ show_nat (length data) @ '',Ok''
                  | Directory n \<Rightarrow> '','' @ show_nat n @ '',Ok'') @ crlf"

definition process_line ::
  "(string \<Rightarrow> server_file) \<Rightarrow> mysock_context \<Rightarrow> string \<Rightarrow> fault + bool \<times> mysock_context" where
  "process_line files ctx line =
     bindR (mywrite ctx (text_bytes (response_line files line))) (\<lambda>(r, ctx).
       case r of
         Inl _ \<Rightarrow> Inr (False, ctx)
       | Inr _ \<Rightarrow>
           if line = [] then Inr (True, ctx)
           else case files line of
                  Regular data \<Rightarrow> send_file ctx data
                | Directory _ \<Rightarrow> Inr (False, ctx)
                | _ \<Rightarrow> Inr (True, ctx))"

partial_function (option) do_connection ::
  "reader \<Rightarrow> (string \<Rightarrow> server_file) \<Rightarrow> mysock_context \<Rightarrow> (fault + mysock_context) option" where
  [code]: "do_connection rd files ctx =
     Option.bind (get_nvt_line rd 256 ctx) (\<lambda>r.
       case r of
         Inl f \<Rightarrow> Some (Inl f)
       | Inr (None, ctx) \<Rightarrow> Some (Inr (myclose_request ctx))
       | Inr (Some line, ctx) \<Rightarrow>
           if line = [] then Some (Inr (myclose_request ctx))
           else case process_line files ctx line of
                  Inl f \<Rightarrow> Some (Inl f)
                | Inr (ok, ctx) \<Rightarrow> if ok then do_connection rd files ctx else Some (Inr (myclose_request ctx)))"

text \<open>The name of the listening socket, with the name of the host as \<open>gethostname\<close> gives it.\<close>

definition local_name :: "string \<Rightarrow> u16 \<Rightarrow> string" where
  "local_name myhostname sin_port = myhostname @ '':'' @ show_nat (unat (ntohs sin_port))"

section \<open>The client\<close>

text \<open>
  The variables of \<open>loop_until_end\<close>: the connection, what is still to be typed, the file \<^verbatim>\<open>rcvd\<close>,
  how long it can get on the disk, and \<open>length\<close>, none before it is set.
\<close>

record client =
  conn :: mysock_context
  stdin_text :: string
  rcvd :: "bytes option"
  room :: nat
  file_length :: "int option"

record client_env =
  filename :: "string option"
  quiet_opt :: bool
  can_create :: bool

text \<open>The next request: the input has ended, a line that is too short, or the line with its terminator.\<close>

datatype request = EndOfInput | Skipped | Request string

definition next_request :: "string option \<Rightarrow> string \<Rightarrow> fault + request \<times> string" where
  "next_request name input =
     (let request = (\<lambda>line rest. if length line + 3 \<le> 1000 then Inr (Request (line @ crlf), rest) else Inl OutOfBounds)
      in case name of
           Some name \<Rightarrow> request name input
         | None \<Rightarrow>
             (case fgets 1000 input of
                None \<Rightarrow> Inr (EndOfInput, input)
              | Some (line, rest) \<Rightarrow>
                  (let line = rev (dropWhile is_space (rev (takeWhile (\<lambda>c. c \<noteq> NUL) line)))
                   in if length line \<le> 1 then Inr (Skipped, rest) else request line rest)))"

text \<open>The text between the last two commas of the answer.\<close>

definition response_length :: "string \<Rightarrow> string option" where
  "response_length line =
     Option.bind (strrchr line CHR '','') (\<lambda>i.
       map_option (\<lambda>j. drop (Suc j) (take i line)) (strrchr (take i line) CHR '',''))"

text \<open>\<open>fwrite\<close>: as much as the disk takes.  The loop around it ends as soon as something is written, or on an error.\<close>

definition write_rcvd :: "client \<Rightarrow> bytes \<Rightarrow> client" where
  "write_rcvd c data =
     c\<lparr>rcvd := map_option (\<lambda>old. old @ take (room c - length old) data) (rcvd c)\<rparr>"

text \<open>
  The loop that receives a file; \<open>len\<close> is the variable \<open>length\<close>, and the result its value after the
  loop.  A negative number of bytes becomes a huge one where it is passed as a \<open>size_t\<close>.
\<close>

partial_function (option) recv_file ::
  "reader \<Rightarrow> bool \<Rightarrow> int \<Rightarrow> client \<Rightarrow> (fault + int \<times> client) option" where
  [code]: "recv_file rd quiet len c =
     (if len = 0 then Some (Inr (0, c))
      else let to_read = min len 1000
           in case rd (conn c) (nat (to_read mod 2 ^ 64)) of
                Inl f \<Rightarrow> Some (Inl f)
              | Inr None \<Rightarrow> None
              | Inr (Some (Inl _, ctx)) \<Rightarrow> Some (Inr (len, c\<lparr>conn := ctx\<rparr>))
              | Inr (Some (Inr (got, dst), ctx)) \<Rightarrow>
                  if length dst > 1000 then Some (Inl OutOfBounds)
                  else if got = 0 then Some (Inr (len, c\<lparr>conn := ctx\<rparr>))
                  else let to_read = (if int got < to_read then int got else to_read)
                       in if quiet then recv_file rd quiet (len - to_read) (c\<lparr>conn := ctx\<rparr>)
                          else if to_read < 0 then Some (Inl OutOfBounds)
                          else recv_file rd quiet (len - to_read) (write_rcvd (c\<lparr>conn := ctx\<rparr>) (take (nat to_read) dst)))"

text \<open>How a round of the loop ends: another one, the loop is left, or the program exits.\<close>

datatype round_end = Again | Leave | Exited

definition receive_response ::
  "reader \<Rightarrow> client_env \<Rightarrow> string \<Rightarrow> client \<Rightarrow> (fault + round_end \<times> client) option" where
  "receive_response rd env line c =
     (let next = (if filename env = None then Again else Leave)
      in case response_length line of
           None \<Rightarrow> Some (Inr (Leave, c))
         | Some lenstr \<Rightarrow>
             (let c = (case scan_int lenstr of None \<Rightarrow> c | Some n \<Rightarrow> c\<lparr>file_length := Some n\<rparr>)
              in case file_length c of
                   None \<Rightarrow> Some (Inl Uninitialised)
                 | Some n \<Rightarrow>
                     if n = -1 then Some (Inr (next, c))
                     else if \<not> can_create env then Some (Inr (Leave, c))
                     else Option.bind (recv_file rd (quiet_opt env) n (c\<lparr>rcvd := Some []\<rparr>)) (\<lambda>r.
                            case r of
                              Inl f \<Rightarrow> Some (Inl f)
                            | Inr (n, c) \<Rightarrow>
                                (let c = c\<lparr>file_length := Some n\<rparr>
                                 in Some (Inr (if n \<noteq> 0 then (Exited, c\<lparr>conn := myclose_request (conn c)\<rparr>)
                                               else (next, c)))))))"

definition exchange ::
  "reader \<Rightarrow> client_env \<Rightarrow> string \<Rightarrow> client \<Rightarrow> (fault + round_end \<times> client) option" where
  "exchange rd env line c =
     (case mywrite (conn c) (text_bytes line) of
        Inl f \<Rightarrow> Some (Inl f)
      | Inr (Inl _, ctx) \<Rightarrow> Some (Inr (Leave, c\<lparr>conn := ctx\<rparr>))
      | Inr (Inr _, ctx) \<Rightarrow>
          Option.bind (get_nvt_line rd 1000 ctx) (\<lambda>r.
            case r of
              Inl f \<Rightarrow> Some (Inl f)
            | Inr (None, ctx) \<Rightarrow> Some (Inr (Leave, c\<lparr>conn := ctx\<rparr>))
            | Inr (Some line, ctx) \<Rightarrow> receive_response rd env line (c\<lparr>conn := ctx\<rparr>)))"

text \<open>The result tells whether the loop was left or the program exits.\<close>

partial_function (option) loop_until_end ::
  "reader \<Rightarrow> client_env \<Rightarrow> client \<Rightarrow> (fault + round_end \<times> client) option" where
  [code]: "loop_until_end rd env c =
     (case next_request (filename env) (stdin_text c) of
        Inl f \<Rightarrow> Some (Inl f)
      | Inr (EndOfInput, input) \<Rightarrow> Some (Inr (Leave, c\<lparr>stdin_text := input\<rparr>))
      | Inr (Skipped, input) \<Rightarrow> loop_until_end rd env (c\<lparr>stdin_text := input\<rparr>)
      | Inr (Request line, input) \<Rightarrow>
          Option.bind (exchange rd env line (c\<lparr>stdin_text := input\<rparr>)) (\<lambda>r.
            case r of
              Inl f \<Rightarrow> Some (Inl f)
            | Inr (next, c) \<Rightarrow> if next = Again then loop_until_end rd env c else Some (Inr (next, c))))"

section \<open>The arguments of the client\<close>

text \<open>\<open>%u\<close> of \<open>sscanf\<close>: \<open>strtoul\<close> in base 10, converted to \<open>unsigned\<close>; none if there is no number.\<close>

definition scan_uint :: "string \<Rightarrow> u32 option" where
  "scan_uint s =
     (let t = dropWhile is_space s;
          neg = (take 1 t = ''-'');
          t = (if take 1 t = ''-'' \<or> take 1 t = ''+'' then drop 1 t else t);
          v = decimal (takeWhile is_digit t)
      in if t = [] \<or> \<not> is_digit (hd t) then None
         else if v \<ge> 2 ^ 64 then Some (-1)
         else Some (if neg then - of_nat v else of_nat v))"

text \<open>
  The address the client connects to, port and host in network byte order; \<open>resolve\<close> is what
  \<open>gethostbyname\<close> finds.  The address 255.255.255.255 is the error value of \<open>inet_addr\<close>.
\<close>

definition parse_address :: "(string \<Rightarrow> u32 option) \<Rightarrow> string \<Rightarrow> (u16 \<times> u32) option" where
  "parse_address resolve address =
     Option.bind
       (case strchr address CHR '':'' of
          None \<Rightarrow> Some (0, address)
        | Some pc \<Rightarrow> map_option (\<lambda>h_port. (htons (ucast h_port), take pc address)) (scan_uint (drop (Suc pc) address)))
       (\<lambda>(port, address_copy).
          case inet_aton address_copy of
            Some a \<Rightarrow> if a \<noteq> -1 then Some (port, a) else map_option (Pair port) (resolve address_copy)
          | None \<Rightarrow> map_option (Pair port) (resolve address_copy))"

text \<open>
  The arguments of \<open>main\<close>: \<open>opts\<close> are the results of \<open>getopt\<close>, \<open>operands\<close> what follows them.  None: the
  program prints a message and exits.
\<close>

fun client_options :: "client_env \<times> bool \<Rightarrow> (char \<times> string) list \<Rightarrow> client_env \<times> bool" where
  "client_options (env, errflg) [] = (env, errflg)"
| "client_options (env, errflg) ((opt, optarg) # opts) =
     client_options
       (if opt = CHR ''f'' then (env\<lparr>filename := Some optarg\<rparr>, errflg)
        else if opt = CHR ''q'' then (env\<lparr>quiet_opt := True\<rparr>, errflg)
        else if opt = CHR ''?'' then (env, True)
        else (env, errflg)) opts"

definition client_arguments ::
  "(string \<Rightarrow> u32 option) \<Rightarrow> bool \<Rightarrow> (char \<times> string) list \<Rightarrow> string list \<Rightarrow> (client_env \<times> u16 \<times> u32) option" where
  "client_arguments resolve create opts operands =
     (let (env, errflg) = client_options (\<lparr>filename = None, quiet_opt = False, can_create = create\<rparr>, False) opts
      in case operands of
           [pline] \<Rightarrow>
             if errflg then None
             else Option.bind (parse_address resolve pline) (\<lambda>(sin_port, sin_addr).
                    if sin_port = 0 then None else Some (env, sin_port, sin_addr))
         | _ \<Rightarrow> None)"

end
