(* ===== verification/File_Start.thy ===== *)
theory File_Start
  imports Demux_Run File_Transfer
begin

text \<open>
  How the file server and its client open their mysockets: the calls of the two \<open>main\<close> functions
  on the layer of mysockets, up to the wait for a connection.  Results of system calls are
  arguments, as they are of the calls of the layer.
\<close>

section \<open>The server\<close>

text \<open>
  From \<open>mysocket\<close> to the name that is printed; \<open>rc\<close> and \<open>port\<close> are what \<open>bind\<close> returns and the port
  the socket has then, \<open>listen_rc\<close> is what \<open>listen\<close> returns.  None: the program exits.
\<close>

definition server_start ::
  "mysock_layer \<Rightarrow> network_context \<Rightarrow> string \<Rightarrow> string \<Rightarrow> int \<Rightarrow> u16 \<Rightarrow> bool \<Rightarrow> int
   \<Rightarrow> fault + (int \<times> string \<times> mysock_layer) option" where
  "server_start l net argv1 myhostname rc port relocated listen_rc =
     (case mysock_new_mysocket (global_ctx l) net of
        (Inl _, _) \<Rightarrow> Inr None
      | (Inr bindsd, tbl) \<Rightarrow>
          bindR (mybind (l\<lparr>global_ctx := tbl\<rparr>) bindsd
                   \<lparr>sa_inet = True, sin_addr = 0, sin_port = htons (of_int (strtol argv1))\<rparr> rc port) (\<lambda>(r, l).
            case r of
              Inl _ \<Rightarrow> Inr None
            | Inr rc \<Rightarrow>
                if rc < 0 then Inr None
                else bindR (mylisten l bindsd 5 relocated listen_rc) (\<lambda>(rc, l).
                       if rc < 0 then Inr None
                       else bindR (mygetsockname l bindsd 0) (\<lambda>sin.
                              Inr (Some (bindsd, local_name myhostname (sin_port sin), l))))))"

text \<open>
  The connection the server accepts: its descriptor and the line that is printed.  The outer option is
  none while the call waits, the inner one if the program exits.  When the connection has been
  served the listening mysocket is closed; only a failure to do so is reported.
\<close>

definition server_accept :: "mysock_layer \<Rightarrow> int \<Rightarrow> fault + ((int \<times> string) option \<times> mysock_layer) option" where
  "server_accept l bindsd =
     bindR (myaccept l bindsd) (\<lambda>r.
       case r of
         None \<Rightarrow> Inr None
       | Some (Inl _, l) \<Rightarrow> Inr (Some (None, l))
       | Some (Inr (k, sin), l) \<Rightarrow>
           bindR (assertR (sa_inet sin)) (\<lambda>_.
             Inr (Some (Some (k, ''connected to '' @ dotted (sin_addr sin) @ '' at port ''
                                 @ show_nat (unat (ntohs (sin_port sin))) @ [LF]), l))))"

definition server_finish :: "nat \<Rightarrow> (int \<Rightarrow> bool) \<Rightarrow> mysock_layer \<Rightarrow> int \<Rightarrow> fault + (int \<times> mysock_layer) option" where
  "server_finish n exited l bindsd = bindR (myclose n exited l bindsd) (\<lambda>r. Inr (map_option (Pair 0) r))"

section \<open>The client\<close>

text \<open>
  \<open>mysocket\<close> and \<open>myconnect\<close> until its wait: the descriptor and the layer, or none if the program exits.
\<close>

definition client_start ::
  "mysock_layer \<Rightarrow> network_context \<Rightarrow> u16 \<times> u32 \<Rightarrow> int \<Rightarrow> u16 \<Rightarrow> fault + (int \<times> mysock_layer) option" where
  "client_start l net sin rc port =
     (case mysock_new_mysocket (global_ctx l) net of
        (Inl _, _) \<Rightarrow> Inr None
      | (Inr k, tbl) \<Rightarrow>
          bindR (myconnect (l\<lparr>global_ctx := tbl\<rparr>) k \<lparr>sa_inet = True, sin_addr = snd sin, sin_port = fst sin\<rparr> 16 rc port) (\<lambda>(err, l).
            Inr (if err \<noteq> None then None else Some (k, l))))"

text \<open>
  The descriptor the client goes on with is what \<open>myconnect\<close> returns, 0 after a connection.  None
  while the call waits, and no descriptor if the program exits.
\<close>

definition client_descriptor :: "mysock_context \<Rightarrow> int option option" where
  "client_descriptor ctx =
     map_option (\<lambda>r. case r of Inl _ \<Rightarrow> None | Inr _ \<Rightarrow> Some 0) (mysock_wait_for_connection ctx)"

text \<open>The end of the program; \<open>k\<close> is that descriptor.\<close>

definition client_finish :: "nat \<Rightarrow> (int \<Rightarrow> bool) \<Rightarrow> mysock_layer \<Rightarrow> int \<Rightarrow> fault + (int \<times> mysock_layer) option" where
  "client_finish n exited l k = bindR (myclose n exited l k) (\<lambda>r. Inr (map_option (Pair 0) r))"

section \<open>What they reach\<close>

text \<open>
  With a free descriptor and a port the server listens: a new mysocket with an empty queue of six
  requests, in a state that runs of a server reach, and the name it prints ends in its port.
\<close>

lemma server_listens:
  assumes "server l" and "None \<in> set (global_ctx l)" and "socket (impl_data net) \<ge> 0" and "\<not> peer_addr_valid net"
    and "port \<noteq> 0" and "0 \<le> rc" and "0 \<le> listen_rc"
  obtains k c q l' where "server_start l net argv1 host rc port relocated listen_rc = Inr (Some (k, local_name host port, l'))"
    and "server l'" and "ctx_at l k = None" and "ctx_at l' k = Some c" "listening c" "local_port (network_state c) = port"
    and "queue_of l' k = Some q" "max_len q = 6" "cur_len q = 0"
proof -
  have wf: "layer_wf l" using server_ok [OF assms(1)] by (simp add: layer_ok_def)
  obtain k tbl where n: "mysock_new_mysocket (global_ctx l) net = (Inr k, tbl)" "ctx_at l k = None" "layer_wf (l\<lparr>global_ctx := tbl\<rparr>)"
    "ctx_at (l\<lparr>global_ctx := tbl\<rparr>) = (ctx_at l)(k \<mapsto> (mysock_allocate_context net)\<lparr>my_sd := k\<rparr>)" "0 \<le> k"
    by (rule new_ctx_at [OF wf assms(2), of net])
  let ?l1 = "l\<lparr>global_ctx := tbl\<rparr>" and ?c1 = "(mysock_allocate_context net)\<lparr>my_sd := k\<rparr>"
  let ?addr = "\<lparr>sa_inet = True, sin_addr = 0, sin_port = htons (of_int (strtol argv1))\<rparr>"
  let ?c2 = "?c1\<lparr>bound := True, network_state := net\<lparr>local_port := port\<rparr>\<rparr>"
  let ?l2 = "put_ctx ?l1 ?c2"
  have s1: "server ?l1" by (rule server.new_mysocket [OF assms(1) n(1)])
  have f: "\<not> listening ?c1" "network_state ?c1 = net" "listen_sd ?c2 = -1" by (simp_all add: mysock_allocate_context_def)
  have b: "mybind ?l1 k ?addr rc port = Inr (Inr rc, ?l2)"
    using n(4) assms(3,6) f(1,2) by (simp add: mybind_def get_ctx_at [OF n(3)] network_bind_def)
  have s2: "server ?l2" by (rule server.bind [OF s1 b])
  have "ctx_at ?l1 (my_sd ?c2) \<noteq> None" using n(4) by simp
  note u = put_ctx_at [OF n(3) this]
  have c2: "ctx_at ?l2 k = Some ?c2" using u(2) by simp
  let ?c3 = "?c2\<lparr>listening := True\<rparr>" and ?l3 = "put_ctx ?l2 (?c2\<lparr>listening := True\<rparr>)"
  have d: "ctx_at ?l2 (my_sd ?c3) \<noteq> None" using c2 by simp
  note v = put_ctx_at [OF u(1) d]
  have nq: "queue_of ?l3 (my_sd ?c3) = None" using no_queue [OF server_ok [OF s2] c2] f(1) v(3) by simp
  obtain l4 q where l4: "mysock_set_backlog ?l3 ?c3 (of_int 5) relocated = Inr l4" "layer_wf l4" "ctx_at l4 = ctx_at ?l3"
    "queue_of l4 = (queue_of ?l3)(my_sd ?c3 \<mapsto> q)" and q: "cur_len q = 0" "max_len q = unat (of_int 5 + 1 :: u32)"
    by (rule set_backlog_first [OF v(1) _ _ _ _ _ nq, of "of_int 5" relocated]) (use n(5) assms(3,5) in simp_all)
  let ?c5 = "?c3\<lparr>network_state := network_start_recv_thread (network_state ?c3)\<rparr>"
  let ?l5 = "put_ctx l4 ?c5"
  have li: "mylisten ?l2 k 5 relocated listen_rc = Inr (0, ?l5)"
    using c2 l4(1) assms(3,7) by (simp add: mylisten_def get_ctx_at [OF u(1)] Let_def)
  have s5: "server ?l5" by (rule server.listen [OF s2 c2 _ f(3) li]) (use f(1) in simp)
  have "ctx_at l4 (my_sd ?c5) \<noteq> None" using l4(3) v(2) by simp
  note w = put_ctx_at [OF l4(2) this]
  have c5: "ctx_at ?l5 k = Some ?c5" using w(2) by simp
  have g5: "get_ctx ?l5 k = Inr ?c5" unfolding get_ctx_at [OF w(1)] c5 by simp
  have "mygetsockname ?l5 k 0 = Inr \<lparr>sa_inet = True, sin_addr = 0, sin_port = port\<rparr>"
    unfolding mygetsockname_def g5
    using assms(3,4) by (simp add: network_get_port_def network_start_recv_thread_def)
  then have "server_start l net argv1 host rc port relocated listen_rc = Inr (Some (k, local_name host port, ?l5))"
    using n(1) b li assms(6) by (simp add: server_start_def)
  moreover have "queue_of ?l5 k = Some q" using l4(4) w(3) by simp
  ultimately show ?thesis
    using that [of k ?l5 ?c5 q] s5 n(2) c5 q by (simp add: network_start_recv_thread_def)
qed

text \<open>
  In a fresh process the first descriptor is 0, so the client goes on with its own connection; with
  another descriptor it would not.
\<close>

lemma client_connects:
  assumes "global_ctx l = replicate MAX_NUM_CONNECTIONS None" and "socket (impl_data net) \<ge> 0" "peer_addr_len net = 0" "0 \<le> rc"
  obtains l' c where "client_start l net (p, a) rc port = Inr (Some (0, l'))" and "get_ctx l' 0 = Inr c"
    and "is_active c" "transport_thread_started c" "peer_addr (network_state c) = a" "peer_port (network_state c) = p"
    and "client_descriptor (c\<lparr>blocking := False\<rparr>) = Some (Some 0)"
proof -
  let ?c0 = "(mysock_allocate_context net)\<lparr>my_sd := 0\<rparr>"
  have n: "mysock_new_mysocket (global_ctx l) net = (Inr 0, (global_ctx l)[0 := Some ?c0])"
    using assms(1) by (simp add: mysock_new_mysocket_def Let_def numeral_eq_Suc)
  have g: "get_ctx (l0\<lparr>global_ctx := (global_ctx l)[0 := Some c]\<rparr>) 0 = Inr c"
    "put_ctx (l0\<lparr>global_ctx := (global_ctx l)[0 := Some c']\<rparr>) c = l0\<lparr>global_ctx := (global_ctx l)[0 := Some c]\<rparr>"
    if "my_sd c = 0" for c c' :: mysock_context and l0 :: mysock_layer
    using that assms(1) by (simp_all add: get_ctx_def mysock_get_context_def put_ctx_def)
  let ?n = "net\<lparr>peer_addr := a, peer_port := p, peer_is_inet := True, peer_addr_len := 16, peer_addr_valid := True, local_port := port\<rparr>"
  let ?c = "?c0\<lparr>network_state := network_start_recv_thread ?n, bound := True, is_active := True, transport_thread_started := True\<rparr>"
  have "client_start l net (p, a) rc port = Inr (Some (0, l\<lparr>global_ctx := (global_ctx l)[0 := Some ?c]\<rparr>))"
    using assms(2-4) by (simp add: client_start_def n myconnect_def g mysock_bind_ephemeral_def network_bind_def
        mysock_transport_init_def mysock_allocate_context_def Let_def)
  then show ?thesis
    using that [of "l\<lparr>global_ctx := (global_ctx l)[0 := Some ?c]\<rparr>" ?c] g(1) [of ?c l]
    by (simp add: network_start_recv_thread_def client_descriptor_def mysock_wait_for_connection_def mysock_allocate_context_def)
qed

end
