(* ===== verification/Mysock_Threads.thy ===== *)
theory Mysock_Threads
  imports Demux_Run
begin

text \<open>
  The two threads of a mysocket around their loops: how the receive thread of \<^verbatim>\<open>network_io_socket.c\<close>
  waits for input or its end, and what the transport thread of \<^verbatim>\<open>mysock.c\<close> does when the transport
  layer returns; and the address of the host.
\<close>

section \<open>The receive thread waits\<close>

text \<open>
  A result of \<open>poll\<close> on the pipe and the socket: an error with its \<open>errno\<close>, no descriptor, or the events
  of the two.
\<close>

datatype poll_result = Poll_Error int | Poll_None | Poll_Events u16 u16

abbreviation (input) POLLIN :: u16 where "POLLIN \<equiv> 1"
abbreviation (input) POLLERR :: u16 where "POLLERR \<equiv> 8"

text \<open>The loop over \<open>poll\<close>: whether the thread is to end; none while it waits.\<close>

fun recv_wait :: "poll_result list \<Rightarrow> fault + (bool \<times> poll_result list) option" where
  "recv_wait [] = Inr None"
| "recv_wait (Poll_Error e # ps) = bindR (assertR (e = EINTR)) (\<lambda>_. recv_wait ps)"
| "recv_wait (Poll_None # ps) = Inl AssertFail"
| "recv_wait (Poll_Events r0 r1 # ps) =
     bindR (assertR (r0 AND POLLERR = 0)) (\<lambda>_.
     bindR (assertR (r1 AND POLLERR = 0)) (\<lambda>_.
       if r0 \<noteq> 0 \<or> r1 \<noteq> 0 then Inr (Some (r0 \<noteq> 0, ps)) else recv_wait ps))"

text \<open>
  The body of the thread: wait, then end or receive.  The result tells whether the thread goes on;
  none while a call blocks.
\<close>

definition recv_round ::
  "mysock_layer \<Rightarrow> int \<Rightarrow> poll_result list \<Rightarrow> int \<Rightarrow> (int \<times> u32 \<times> u16) option \<Rightarrow> (int \<Rightarrow> stream) \<Rightarrow> network_context
    \<Rightarrow> fault + (bool \<times> mysock_layer \<times> (int \<Rightarrow> stream)) option" where
  "recv_round l k ps conn acc ss net =
     bindR (recv_wait ps) (\<lambda>r.
       case r of
         None \<Rightarrow> Inr None
       | Some (ended, ps) \<Rightarrow> if ended then Inr (Some (False, l, ss)) else recv_iteration l k conn acc ss net)"

text \<open>Interruptions do not matter, and a request to end comes before a packet.\<close>

definition no_event :: "poll_result \<Rightarrow> bool" where
  "no_event p \<longleftrightarrow> p = Poll_Error EINTR \<or> p = Poll_Events 0 0"

lemma recv_wait_skip: "list_all no_event ps \<Longrightarrow> recv_wait (ps @ qs) = recv_wait qs"
  by (induction ps) (auto simp: no_event_def)

lemma recv_round_ends:
  assumes "list_all no_event ps" and "r0 \<noteq> 0" "r0 AND POLLERR = 0" "r1 AND POLLERR = 0"
  shows "recv_round l k (ps @ Poll_Events r0 r1 # qs) conn acc ss net = Inr (Some (False, l, ss))"
  using assms by (simp add: recv_round_def recv_wait_skip)

lemma recv_round_receives:
  assumes "list_all no_event ps" and "r1 \<noteq> 0" "r1 AND POLLERR = 0"
  shows "recv_round l k (ps @ Poll_Events 0 r1 # qs) conn acc ss net = recv_iteration l k conn acc ss net"
  using assms by (simp add: recv_round_def recv_wait_skip)

lemma recv_round_server:
  assumes "server l" and "ctx_at l k = Some a" "listening a" and "queue_of l k \<noteq> None"
    and "recv_round l k ps conn acc ss net = Inr (Some (go, l', ss'))"
  shows "server l'"
proof -
  from assms(5) consider "l' = l" | "recv_iteration l k conn acc ss net = Inr (Some (go, l', ss'))"
    by (auto simp: recv_round_def split: option.splits if_splits)
  then show ?thesis using assms(1) server.receive [OF assms(1-4)] by cases auto
qed

section \<open>The transport thread ends\<close>

abbreviation (input) ECONNABORTED :: int where "ECONNABORTED \<equiv> 103"

text \<open>
  What follows \<open>transport_init\<close>, which left \<open>err\<close> in \<open>errno\<close>: an application that still waits is told of
  the failure, and readers get a last empty buffer.
\<close>

definition final_errno :: "mysock_context \<Rightarrow> int \<Rightarrow> int" where
  "final_errno ctx err =
     (if err = 0 \<or> err = EINTR then (if is_active ctx then ECONNREFUSED else ECONNABORTED) else err)"

definition transport_thread_end :: "mysock_layer \<Rightarrow> int \<Rightarrow> int \<Rightarrow> fault + mysock_layer" where
  "transport_thread_end l k err =
     bindR (get_ctx l k) (\<lambda>ctx.
     bindR (if blocking ctx then unblock_application l k (final_errno ctx err) else Inr l) (\<lambda>l.
     bindR (get_ctx l k) (\<lambda>ctx.
       Inr (put_ctx l (stcp_fin_received ctx)))))"

lemma role_fin [simp]: "role (stcp_fin_received c) = role c"
  by (simp add: role_def stcp_fin_received_def)

text \<open>After a connection that was set up only the last buffer is left to do.\<close>

lemma thread_end_connected:
  "get_ctx l k = Inr ctx \<Longrightarrow> \<not> blocking ctx \<Longrightarrow> transport_thread_end l k err = Inr (put_ctx l (stcp_fin_received ctx))"
  by (simp add: transport_thread_end_def)

text \<open>A passive connection that fails leaves the queue of pending connections with its error.\<close>

lemma thread_end_passive:
  assumes "server l" and q: "queue_of l k = Some q" and c: "ctx_at l j = Some c" "listen_sd c = k" "blocking c"
  obtains l' q' c' where "transport_thread_end l j err = Inr l'" "server l'" "queue_of l' k = Some q'"
    "completed_sds q' = completed_sds q @ [j]" "ctx_at l' j = Some c'" "stcp_errno c' = final_errno c err" "\<not> blocking c'"
proof -
  have ok: "layer_ok l" by (rule server_ok [OF assms(1)])
  then have wf: "layer_wf l" by (simp add: layer_ok_def)
  have k: "k \<noteq> -1" by (rule layer_okD [OF ok q]) simp
  have e: "final_errno c err \<noteq> EINTR" by (simp add: final_errno_def)
  obtain l1 q' c1 where u: "unblock_application l j (final_errno c err) = Inr l1" "layer_ok l1"
    "c1 = c\<lparr>blocking := False, stcp_errno := (if final_errno c err = EINTR then 0 else final_errno c err)\<rparr>"
    "ctx_at l1 = (ctx_at l)(j \<mapsto> c1)" "queue_of l1 = (queue_of l)(k \<mapsto> q')" "completed_sds q' = completed_sds q @ [j]"
    by (rule unblock_spec [OF ok q c])
  have s1: "server l1" by (rule server.complete [OF assms(1) c(1) _ u(1)]) (use c(2) k in simp)
  have wf1: "layer_wf l1" using u(2) by (simp add: layer_ok_def)
  have m: "my_sd (stcp_fin_received c1) = j"
    using ctx_at_sd [OF wf c(1)] u(3) by (simp add: stcp_fin_received_def)
  note p = put_ctx_at [OF wf1, of "stcp_fin_received c1", unfolded m]
  have "transport_thread_end l j err = Inr (put_ctx l1 (stcp_fin_received c1))"
    using c(1,3) u(1,4) by (simp add: transport_thread_end_def get_ctx_at [OF wf] get_ctx_at [OF wf1])
  moreover have "server (put_ctx l1 (stcp_fin_received c1))"
    by (rule server.other [OF s1, of _ c1]) (use m u(4) in simp_all)
  moreover have "ctx_at (put_ctx l1 (stcp_fin_received c1)) j = Some (stcp_fin_received c1)" "queue_of (put_ctx l1 (stcp_fin_received c1)) k = Some q'"
    using p u(4,5) by simp_all
  ultimately show ?thesis
    using that u(6) u(3) e by (simp add: stcp_fin_received_def)
qed

section \<open>The address of the host\<close>

text \<open>\<open>hostname\<close> is what \<open>gethostname\<close> stores, \<open>resolve\<close> the addresses that \<open>gethostbyname_r\<close> finds for a name.\<close>

definition network_get_interface_ip :: "string option \<Rightarrow> (string \<Rightarrow> u32 list option) \<Rightarrow> fault + u32" where
  "network_get_interface_ip hostname resolve =
     (case hostname of
        None \<Rightarrow> Inl AssertFail
      | Some name \<Rightarrow>
          (case resolve name of
             None \<Rightarrow> Inl AssertFail
           | Some [] \<Rightarrow> Inl NullDeref
           | Some (a # _) \<Rightarrow> Inr a))"

definition mylocalip :: "string option \<Rightarrow> (string \<Rightarrow> u32 list option) \<Rightarrow> fault + u32" where
  "mylocalip hostname resolve = network_get_interface_ip hostname resolve"

end
