(* ===== verification/Server_Claims.thy ===== *)
theory Server_Claims
  imports File_Start Mysock_Threads Demux_Claims
begin

text \<open>
  A connection from its first packet to the application that accepts it, and one that fails on the
  way.
\<close>

text \<open>
  C14: From a SYN to the server program: when a SYN arrives at a listening socket with room, its receive
  thread, woken by \<open>poll\<close> after any number of interruptions, creates a connection that has the
  accepted socket, the peer's address and the SYN, and leaves all other contexts but the listening
  one alone; the server program waits until the transport layer reports that the connection is
  established, and then gets exactly this descriptor and prints the peer's address and port.
\<close>

theorem connection_accepted:
  assumes "server l" and "queue_of l k = Some q" and "ctx_at l k = Some a" and "ready a" and "completed_sds q = []"
    and "0 \<le> s" and "framed (ss s) (packet # ps)" and "length packet \<le> 1500"
    and "20 \<le> length packet" and "th_flags (tcphdr_at packet) AND TH_SYN \<noteq> 0"
    and "\<lparr>sa_inet = True, sin_addr = ip, sin_port = port\<rparr> \<notin> req_addr ` (!) (connection_queue q) ` live q"
    and "cur_len q < max_len q" and "None \<in> set (global_ctx l)" and "list_all no_event polls"
  shows "\<exists>l1 l2 l3 st j. recv_round l k (polls @ [Poll_Events 0 POLLIN]) rc (Some (s, ip, port)) ss net = Inr (Some (True, l1, ss(s := st)))
    \<and> framed st ps \<and> ctx_at l j = None
    \<and> ctx_at l1 = (ctx_at l)(k \<mapsto> release_socket (arriving a s ip port),
         j \<mapsto> passive_ctx net (network_state (arriving a s ip port)) \<lparr>sa_inet = True, sin_addr = ip, sin_port = port\<rparr> k j packet)
    \<and> server_accept l1 k = Inr None \<and> unblock_application l1 j 0 = Inr l2
    \<and> server_accept l2 k = Inr (Some (Some (j, ''connected to '' @ dotted ip @ '' at port '' @ show_nat (unat (ntohs port)) @ [LF]), l3))
    \<and> server l3"
proof -
  let ?p = "\<lparr>sa_inet = True, sin_addr = ip, sin_port = port\<rparr>"
  have ok: "layer_ok l" by (rule server_ok [OF assms(1)])
  obtain l1 st j q1 where r: "recv_iteration l k rc (Some (s, ip, port)) ss net = Inr (Some (True, l1, ss(s := st)))" "framed st ps"
    "layer_ok l1" "ctx_at l j = None"
    "ctx_at l1 = (ctx_at l)(k \<mapsto> release_socket (arriving a s ip port),
       j \<mapsto> passive_ctx net (network_state (arriving a s ip port)) ?p k j packet)"
    "queue_of l1 = (queue_of l)(k \<mapsto> q1)" "completed_sds q1 = completed_sds q"
    by (rule incoming_spec [where ss = ss, OF ok assms(2-4,6-10) refl assms(11-13)])
  let ?c = "passive_ctx net (network_state (arriving a s ip port)) ?p k j packet"
  have c: "ctx_at l1 j = Some ?c" "listen_sd ?c = k" "blocking ?c" "peer_sockaddr (network_state ?c) = ?p"
    using r(5) by (simp_all add: passive_ctx_def mysock_allocate_context_def peer_sockaddr_def)
  have q1: "queue_of l1 k = Some q1" "completed_sds q1 = []" using r(6,7) assms(5) by simp_all
  obtain l2 q2 where u: "unblock_application l1 j 0 = Inr l2" "layer_ok l2"
    "ctx_at l2 = (ctx_at l1)(j \<mapsto> ?c\<lparr>blocking := False, stcp_errno := 0\<rparr>)" "queue_of l2 = (queue_of l1)(k \<mapsto> q2)" "completed_sds q2 = [j]"
    by (rule unblock_spec [OF r(3) q1(1) c(1-3), where err = 0]) (use q1(2) in auto)
  have q2: "queue_of l2 k = Some q2" using u(4) by simp
  obtain c2 l3 where x: "ctx_at l2 j = Some c2" "myaccept l2 k = Inr (Some (if stcp_errno c2 \<noteq> 0 then Inl (stcp_errno c2)
      else Inr (j, peer_sockaddr (network_state c2)), l3))"
    by (rule accept_spec [OF u(2) q2 u(5)])
  have m: "myaccept l2 k = Inr (Some (Inr (j, ?p), l3))" using x u(3) c(4) by auto
  have li: "listening a" using assms(4) by (simp add: ready_def)
  have "k \<noteq> -1" by (rule layer_okD [OF ok assms(2)]) simp
  then have "server l3"
    using server.accept [OF server.complete [OF server.receive [OF assms(1,3) li _ r(1)] c(1) _ u(1)] _ m] assms(2) c(2) q2 by simp
  moreover have "server_accept l1 k = Inr None" using accept_waits [OF r(3) q1] by (simp add: server_accept_def)
  moreover have "recv_round l k (polls @ [Poll_Events 0 POLLIN]) rc (Some (s, ip, port)) ss net = Inr (Some (True, l1, ss(s := st)))"
    using recv_round_receives [OF assms(14), of POLLIN] r(1) by simp
  moreover have "server_accept l2 k = Inr (Some (Some (j, ''connected to '' @ dotted ip @ '' at port '' @ show_nat (unat (ntohs port)) @ [LF]), l3))"
    unfolding server_accept_def m by simp
  ultimately show ?thesis using r(2,4,5) u(1) by blast
qed

theorem connection_accepted_witness:
  "\<exists>l1 l2 l3 st j. recv_round lab_server 0 ([Poll_Error EINTR] @ [Poll_Events 0 POLLIN]) 0 (Some (5, 0x0200000a, 0x5100))
        (\<lambda>_. lab_stream) (network_init 0x0100000a 4) = Inr (Some (True, l1, (\<lambda>_. lab_stream)(5 := st)))
     \<and> unblock_application l1 j 0 = Inr l2
     \<and> server_accept l2 0 = Inr (Some (Some (j, ''connected to 10.0.0.2 at port 81'' @ [LF]), l3)) \<and> server l3"
proof -
  have t: "''connected to '' @ dotted 0x0200000a @ '' at port '' @ show_nat (unat (ntohs 0x5100)) @ [LF] = ''connected to 10.0.0.2 at port 81'' @ [LF]"
    by code_simp
  have n: "list_all no_event [Poll_Error EINTR]" by (simp add: no_event_def)
  show ?thesis
    using connection_accepted [OF lab_server_run lab_listen(2,1,3,7), of 5 "\<lambda>_. lab_stream" lab_syn "[]" "0x0200000a" "0x5100"
        "[Poll_Error EINTR]" 0 "network_init 0x0100000a 4"] lab_packet lab_listen lab_live n
    unfolding t by fastforce
qed

text \<open>
  C34: A transport layer that gives up does not leave the application waiting: when the thread of a
  pending connection returns with any \<open>errno\<close>, the next accept on an idle listening socket returns
  this error, or ECONNABORTED if none was set, never a descriptor; and the server goes on.
\<close>

theorem setup_failure_reported:
  assumes "server l" and "queue_of l k = Some q" and "completed_sds q = []" and "pending l k j"
  shows "\<exists>l1 l2. transport_thread_end l j err = Inr l1 \<and> server l1
    \<and> myaccept l1 k = Inr (Some (Inl (if err = 0 \<or> err = EINTR then ECONNABORTED else err), l2)) \<and> server l2 \<and> \<not> pending l2 k j"
proof -
  obtain c where c: "ctx_at l j = Some c" "listen_sd c = k" "blocking c" using assms(4) by (auto simp: pending_def)
  have qo: "queue_ok (ctx_at l) k q" by (rule layer_okD [OF server_ok [OF assms(1)] assms(2)])
  then have "j \<in> slots q" using c by (auto simp: queue_ok_def)
  then have "\<not> is_active c" using qo c(1) by (auto simp: queue_ok_def slots_def request_ok_def Let_def)
  then have e: "final_errno c err = (if err = 0 \<or> err = EINTR then ECONNABORTED else err)" by (simp add: final_errno_def)
  obtain l1 q1 c1 where t: "transport_thread_end l j err = Inr l1" "server l1" "queue_of l1 k = Some q1"
    "completed_sds q1 = [j]" "ctx_at l1 j = Some c1" "stcp_errno c1 = final_errno c err" "\<not> blocking c1"
    by (rule thread_end_passive [OF assms(1,2) c, of err]) (use assms(3) in auto)
  obtain c2 l2 where x: "ctx_at l1 j = Some c2" "myaccept l1 k = Inr (Some (if stcp_errno c2 \<noteq> 0 then Inl (stcp_errno c2)
      else Inr (j, peer_sockaddr (network_state c2)), l2))" "ctx_at l2 = ctx_at l1"
    by (rule accept_spec [OF server_ok [OF t(2)] t(3,4)])
  have "final_errno c err \<noteq> 0" by (simp add: final_errno_def)
  then have m: "myaccept l1 k = Inr (Some (Inl (final_errno c err), l2))" using x(1,2) t(5,6) by simp
  have "server l2" by (rule server.accept [OF t(2) _ m]) (simp add: t(3))
  then show ?thesis using t(1,2,5,7) m x(3) unfolding e by (auto simp: pending_def)
qed

theorem setup_failure_reported_witness:
  "\<exists>l1 l2. transport_thread_end lab_two 1 0 = Inr l1 \<and> myaccept l1 0 = Inr (Some (Inl ECONNABORTED, l2)) \<and> server l2 \<and> \<not> pending l2 0 1"
  using setup_failure_reported [OF lab_two_run lab_pending(1,2) lab_two_pending(1), of 0] by auto

end
