(* ===== verification/File_Props.thy ===== *)
theory File_Props
  imports File_Transfer
begin

text \<open>
  Laws of the two programs over any call that reads a stream: lines, files, the server and the
  client.  The interface is a locale; it is interpreted on \<open>myread_forward\<close> for a stream in any
  pieces, and on \<open>myread\<close> itself for a stream in pieces of at most two bytes.
\<close>

section \<open>Requests and answers\<close>

definition name_ok :: "string \<Rightarrow> bool" where
  "name_ok name \<longleftrightarrow> name \<noteq> [] \<and> LF \<notin> set name \<and> NUL \<notin> set name \<and> length name < 256"

definition requests :: "string list \<Rightarrow> bytes" where
  "requests names = concat (map (\<lambda>name. text_bytes (name @ crlf)) names)"

text \<open>What the server sends for a name: the line and the file.\<close>

definition response :: "(string \<Rightarrow> server_file) \<Rightarrow> string \<Rightarrow> bytes" where
  "response files name =
     text_bytes (response_line files name) @ (case files name of Regular data \<Rightarrow> data | _ \<Rightarrow> [])"

definition no_directory :: "server_file \<Rightarrow> bool" where
  "no_directory f \<longleftrightarrow> (case f of Directory _ \<Rightarrow> False | _ \<Rightarrow> True)"

text \<open>The line without its terminator, and the number in it.\<close>

definition response_number :: "server_file \<Rightarrow> int" where
  "response_number f = (case f of Regular data \<Rightarrow> int (length data) | Directory n \<Rightarrow> int n | _ \<Rightarrow> -1)"

lemma response_length_commas:
  assumes "CHR '','' \<notin> set num" and "CHR '','' \<notin> set msg"
  shows "response_length (name @ '','' @ num @ '','' @ msg) = Some num"
proof -
  have "strrchr ((name @ '','' @ num) @ CHR '','' # msg) CHR '','' = Some (length (name @ '','' @ num))"
    using assms(2) by (rule strrchr_last)
  then have 1: "strrchr (name @ '','' @ num @ '','' @ msg) CHR '','' = Some (length (name @ '','' @ num))" by simp
  have 2: "take (length (name @ '','' @ num)) (name @ '','' @ num @ '','' @ msg) = name @ CHR '','' # num" by simp
  have 3: "strrchr (name @ CHR '','' # num) CHR '','' = Some (length name)" using assms(1) by (rule strrchr_last)
  show ?thesis unfolding response_length_def 1 by (simp only: bind.bind_lunit 2 3) simp
qed

lemma digits_no_comma: "CHR '','' \<notin> set (show_nat n)"
  using show_nat_digits [of n] by (auto simp: is_digit_def)

lemma scan_minus_one: "scan_int ''-1'' = Some (-1)"
  by code_simp

lemma show_nat_length: "n < 2 ^ 31 \<Longrightarrow> length (show_nat n) \<le> 10"
proof -
  have "n < 10 ^ k \<Longrightarrow> 0 < k \<Longrightarrow> length (show_nat n) \<le> k" for k
  proof (induction k arbitrary: n)
    case (Suc k)
    show ?case
    proof (cases "n < 10")
      case False
      then have "k \<noteq> 0" using Suc.prems(1) by (cases k) auto
      moreover have "n div 10 < 10 ^ k" using Suc.prems(1) by (simp add: less_mult_imp_div_less mult.commute)
      ultimately show ?thesis using False Suc.IH [of "n div 10"] by (subst show_nat.simps) simp
    qed (subst show_nat.simps, simp)
  qed simp
  from this [of 10] show "n < 2 ^ 31 \<Longrightarrow> ?thesis" by simp
qed

text \<open>What the client finds in the line the server sends.\<close>

definition line_parts :: "string \<Rightarrow> server_file \<Rightarrow> string \<Rightarrow> bool" where
  "line_parts l f line \<longleftrightarrow> line = l @ crlf \<and> LF \<notin> set l \<and> NUL \<notin> set l \<and> length l < 1000
     \<and> (\<exists>lenstr. response_length l = Some lenstr \<and> scan_int lenstr = Some (response_number f))"

lemma line_partsI:
  assumes "name_ok name" and "scan_int num = Some (response_number f)"
    and "CHR '','' \<notin> set num \<and> LF \<notin> set num \<and> NUL \<notin> set num \<and> length num \<le> 10"
    and "CHR '','' \<notin> set msg \<and> LF \<notin> set msg \<and> NUL \<notin> set msg \<and> length msg \<le> 100"
  shows "line_parts (name @ '','' @ num @ '','' @ msg) f (name @ '','' @ num @ '','' @ msg @ crlf)"
  using assms response_length_commas [of num msg name] by (auto simp: line_parts_def name_ok_def)

lemma response_line_parts:
  assumes name: "name_ok name" and f: "no_directory (files name)"
    and small: "\<And>data. files name = Regular data \<Longrightarrow> length data < 2 ^ 31"
  obtains l where "line_parts l (files name) (response_line files name)"
proof (cases "files name")
  case Absent
  then have "response_line files name = name @ '','' @ ''-1'' @ '','' @ ''File does not exist or access denied'' @ crlf"
    using name by (simp add: response_line_def)
  then show ?thesis
    using that line_partsI [OF name, of "''-1''" "files name" "''File does not exist or access denied''"]
    by (simp add: scan_minus_one Absent response_number_def)
next
  case Unopenable
  then have "response_line files name = name @ '','' @ ''-1'' @ '','' @ ''File could not be opened'' @ crlf"
    using name by (simp add: response_line_def name_ok_def)
  then show ?thesis
    using that line_partsI [OF name, of "''-1''" "files name" "''File could not be opened''"]
    by (simp add: scan_minus_one Unopenable response_number_def)
next
  case (Regular data)
  have n: "length data < 2 ^ 31" using small [OF Regular] .
  have "response_line files name = name @ '','' @ show_nat (length data) @ '','' @ ''Ok'' @ crlf"
    using name by (simp add: response_line_def name_ok_def Regular)
  moreover have "LF \<notin> set (show_nat k) \<and> NUL \<notin> set (show_nat k)" for k
    using show_nat_digits [of k] by (auto simp: is_digit_def)
  ultimately show ?thesis
    using that line_partsI [OF name, of "show_nat (length data)" "files name" "''Ok''"]
      strtol_show(2) [OF n] show_nat_length [OF n] digits_no_comma
    by (simp add: Regular response_number_def)
next
  case (Directory n)
  then show ?thesis using f by (simp add: no_directory_def)
qed

text \<open>The file the client is left with: the last one that exists.\<close>

definition received :: "(string \<Rightarrow> server_file) \<Rightarrow> bytes option \<Rightarrow> string \<Rightarrow> bytes option" where
  "received files old name = (case files name of Regular data \<Rightarrow> Some data | _ \<Rightarrow> old)"

text \<open>A name that the client sends as it was typed.\<close>

definition typed_ok :: "string \<Rightarrow> bool" where
  "typed_ok name \<longleftrightarrow> name_ok name \<and> 1 < length name \<and> \<not> is_space (last name)"

lemma next_request_typed:
  assumes "typed_ok name"
  shows "next_request None (name @ LF # rest) = Inr (Request (name @ crlf), rest)"
proof -
  have n: "LF \<notin> set name" "NUL \<notin> set name" "length name < 256" "1 < length name" "\<not> is_space (last name)"
    using assms by (auto simp: typed_ok_def name_ok_def)
  have f: "fgets 1000 (name @ LF # rest) = Some (name @ [LF], rest)" using n by (intro fgets_line) auto
  have t: "takeWhile (\<lambda>c. c \<noteq> NUL) (name @ [LF]) = name @ [LF]" using n(2) by (auto simp: takeWhile_eq_all_conv)
  have "dropWhile is_space (rev (name @ [LF])) = rev name"
    using n(4,5) by (cases name rule: rev_cases) simp_all
  then show ?thesis using n(3,4) by (simp add: next_request_def f t Let_def del: rev_append)
qed

section \<open>Reading a stream\<close>

text \<open>
  \<open>ready\<close> are the contexts on which reading works, \<open>pending\<close> is what is left to read.  A read gets
  some of it, as long as there is something, and nothing at the end.
\<close>

locale stream_reader =
  fixes rd :: reader and ready :: "mysock_context \<Rightarrow> bool" and pending :: "mysock_context \<Rightarrow> bytes"
  assumes read_some: "\<lbrakk>ready ctx; pending ctx \<noteq> []; 0 < n\<rbrakk> \<Longrightarrow>
      \<exists>k ctx'. 0 < k \<and> k \<le> n \<and> k \<le> length (pending ctx)
        \<and> rd ctx n = Inr (Some (Inr (k, take k (pending ctx)), ctx'))
        \<and> ready ctx' \<and> pending ctx' = drop k (pending ctx) \<and> app_recv_queue ctx' = app_recv_queue ctx"
    and read_end: "\<lbrakk>ready ctx; pending ctx = []; 0 < n\<rbrakk> \<Longrightarrow>
      \<exists>ctx'. rd ctx n = Inr (Some (Inr (0, []), ctx'))
        \<and> ready ctx' \<and> pending ctx' = [] \<and> app_recv_queue ctx' = app_recv_queue ctx"
    and ready_open: "ready ctx \<Longrightarrow> \<not> listening ctx \<and> \<not> close_requested ctx"
    and ready_written: "ready (ctx\<lparr>app_recv_queue := q\<rparr>) = ready ctx"
    and pending_written: "pending (ctx\<lparr>app_recv_queue := q\<rparr>) = pending ctx"
begin

text \<open>The state after a call: what is left to read and what has been written.\<close>

definition leaves :: "mysock_context \<Rightarrow> bytes \<Rightarrow> bytes \<Rightarrow> bool" where
  "leaves ctx rest out \<longleftrightarrow> ready ctx \<and> pending ctx = rest \<and> concat (app_recv_queue ctx) = out"

lemma read_byte:
  assumes "leaves ctx (b # rest) out"
  obtains ctx' where "rd ctx 1 = Inr (Some (Inr (1, [b]), ctx'))" and "leaves ctx' rest out"
proof -
  from assms read_some [of ctx 1] obtain k ctx' where
    "0 < k" "k \<le> 1" "rd ctx 1 = Inr (Some (Inr (k, take k (b # rest)), ctx'))"
    "ready ctx'" "pending ctx' = drop k (b # rest)" "app_recv_queue ctx' = app_recv_queue ctx"
    by (auto simp: leaves_def)
  moreover from this have "k = 1" by simp
  ultimately show ?thesis using that assms by (auto simp: leaves_def)
qed

lemma leaves_written:
  assumes "leaves ctx rest out"
  obtains ctx' where "mywrite ctx buf = Inr (Inr (int (length buf)), ctx')" and "leaves ctx' rest (out @ buf)"
  using assms ready_open [of ctx] that
  by (auto simp: leaves_def mywrite_def mysock_enqueue_buffer_def ready_written pending_written)

lemma nvt_line:
  assumes "leaves ctx (text_bytes l @ text_bytes crlf @ rest) out" and "LF \<notin> set l"
    and "length line + length l < cap"
  shows "\<exists>ctx'. nvt_loop rd cap last_char line ctx = Some (Inr (Some (takeWhile (\<lambda>c. c \<noteq> NUL) (line @ l)), ctx'))
           \<and> leaves ctx' rest out"
  using assms
proof (induction l arbitrary: ctx line last_char)
  case Nil
  from Nil.prems(1) obtain c1 where 1: "rd ctx 1 = Inr (Some (Inr (1, [char_byte CR]), c1))"
    and "leaves c1 (char_byte LF # rest) out" by (auto elim: read_byte)
  then obtain c2 where 2: "rd c1 1 = Inr (Some (Inr (1, [char_byte LF]), c2))" and "leaves c2 rest out"
    by (auto elim: read_byte)
  moreover have "nvt_loop rd cap CR (line @ [CR]) c1 = Some (Inr (Some (takeWhile (\<lambda>c. c \<noteq> NUL) line), c2))"
    by (subst nvt_loop.simps) (simp add: 2 del: One_nat_def)
  then have "nvt_loop rd cap last_char line ctx = Some (Inr (Some (takeWhile (\<lambda>c. c \<noteq> NUL) line), c2))"
    using Nil.prems(3) by (subst nvt_loop.simps) (simp add: 1 del: One_nat_def)
  ultimately show ?case by simp
next
  case (Cons c l)
  from Cons.prems(1) obtain c1 where 1: "rd ctx 1 = Inr (Some (Inr (1, [char_byte c]), c1))"
    and l: "leaves c1 (text_bytes l @ text_bytes crlf @ rest) out" by (auto elim: read_byte)
  have "nvt_loop rd cap last_char line ctx = nvt_loop rd cap c (line @ [c]) c1"
    using Cons.prems(2,3) by (subst nvt_loop.simps) (auto simp: 1 simp del: One_nat_def)
  then show ?case using Cons.IH [OF l, of "line @ [c]" c] Cons.prems(2,3) by simp
qed

lemma get_line:
  assumes "leaves ctx (text_bytes l @ text_bytes crlf @ rest) out" and "LF \<notin> set l" "NUL \<notin> set l" "length l < cap"
  obtains ctx' where "get_nvt_line rd cap ctx = Some (Inr (Some l, ctx'))" and "leaves ctx' rest out"
proof -
  have "takeWhile (\<lambda>c. c \<noteq> NUL) l = l" using assms(3) by (auto simp: takeWhile_eq_all_conv)
  moreover from nvt_line [OF assms(1,2), of "[]" cap NUL] assms(4) obtain ctx' where
    "nvt_loop rd cap NUL [] ctx = Some (Inr (Some (takeWhile (\<lambda>c. c \<noteq> NUL) l), ctx'))" "leaves ctx' rest out" by auto
  ultimately show ?thesis using that [of ctx'] by (simp add: get_nvt_line_def)
qed

lemma get_line_end:
  assumes "leaves ctx [] out" and "0 < cap"
  obtains ctx' where "get_nvt_line rd cap ctx = Some (Inr (Some [], ctx'))" and "leaves ctx' [] out"
proof -
  from assms read_end [of ctx 1] obtain ctx' where
    "rd ctx 1 = Inr (Some (Inr (0, []), ctx'))" "leaves ctx' [] out" by (auto simp: leaves_def)
  moreover from this assms(2) have "get_nvt_line rd cap ctx = Some (Inr (Some [], ctx'))"
    unfolding get_nvt_line_def by (subst nvt_loop.simps) (simp del: One_nat_def)
  ultimately show ?thesis using that by blast
qed

text \<open>A line that does not end within the buffer is written past it.\<close>

lemma nvt_overflow:
  assumes "leaves ctx (text_bytes l @ rest) out" and "LF \<notin> set l"
    and "length line \<le> cap" "cap < length line + length l"
  shows "nvt_loop rd cap last_char line ctx = Some (Inl OutOfBounds)"
  using assms
proof (induction l arbitrary: ctx line last_char)
  case (Cons c l)
  from Cons.prems(1) obtain c1 where 1: "rd ctx 1 = Inr (Some (Inr (1, [char_byte c]), c1))"
    and l: "leaves c1 (text_bytes l @ rest) out" by (auto elim: read_byte)
  show ?case
  proof (cases "length line < cap")
    case True
    then have "nvt_loop rd cap last_char line ctx = nvt_loop rd cap c (line @ [c]) c1"
      using Cons.prems(2) by (subst nvt_loop.simps) (auto simp: 1 simp del: One_nat_def)
    then show ?thesis using Cons.IH [OF l, of "line @ [c]" c] Cons.prems(2,4) True by simp
  next
    case False
    then show ?thesis using Cons.prems(2) by (subst nvt_loop.simps) (auto simp: 1 simp del: One_nat_def)
  qed
qed simp

lemma long_request:
  assumes "leaves ctx (text_bytes l @ rest) out" and "LF \<notin> set l" and "256 < length l"
  shows "do_connection rd files ctx = Some (Inl OutOfBounds)"
  using nvt_overflow [OF assms(1,2), of "[]" 256 NUL] assms(3)
  by (subst do_connection.simps) (simp add: get_nvt_line_def)

section \<open>The server\<close>

text \<open>What the server sends for a name.\<close>

lemma send_file_ok:
  assumes "leaves ctx rest out"
  shows "\<exists>ctx'. send_file ctx data = Inr (True, ctx') \<and> leaves ctx' rest (out @ data)"
  using assms
proof (induction data arbitrary: ctx out rule: measure_induct_rule [of length])
  case (less data)
  show ?case
  proof (cases "data = []")
    case True
    then show ?thesis using less.prems by (simp add: send_file.simps)
  next
    case False
    from leaves_written [OF less.prems, of "take 5000 data"] obtain c1 where
      1: "mywrite ctx (take 5000 data) = Inr (Inr (int (length (take 5000 data))), c1)"
      and l: "leaves c1 rest (out @ take 5000 data)" .
    have "send_file ctx data = send_file c1 (drop 5000 data)"
      by (subst send_file.simps) (simp add: 1 False)
    then show ?thesis using less.IH [OF _ l, of "drop 5000 data"] False by simp
  qed
qed

lemma process_line_ok:
  assumes "leaves ctx rest out" and "name_ok name" and "no_directory (files name)"
  shows "\<exists>ctx'. process_line files ctx name = Inr (True, ctx') \<and> leaves ctx' rest (out @ response files name)"
proof -
  from leaves_written [OF assms(1)] obtain c1 n where
    1: "mywrite ctx (text_bytes (response_line files name)) = Inr (Inr n, c1)"
    and l: "leaves c1 rest (out @ text_bytes (response_line files name))" by blast
  show ?thesis
    using l send_file_ok [OF l] assms(2,3)
    by (auto simp: process_line_def 1 response_def name_ok_def no_directory_def split: server_file.splits)
qed

lemma serves:
  assumes "leaves ctx (requests names) out" and "\<forall>name \<in> set names. name_ok name \<and> no_directory (files name)"
  shows "\<exists>ctx'. do_connection rd files ctx = Some (Inr (myclose_request ctx'))
           \<and> leaves ctx' [] (out @ concat (map (response files) names))"
  using assms
proof (induction names arbitrary: ctx out)
  case Nil
  then have "leaves ctx [] out" by (simp add: requests_def)
  from get_line_end [OF this, of 256] obtain c1 where
    "get_nvt_line rd 256 ctx = Some (Inr (Some [], c1))" "leaves c1 [] out" by auto
  then show ?case by (subst do_connection.simps) auto
next
  case (Cons name names)
  have n: "name_ok name" "no_directory (files name)" using Cons.prems(2) by auto
  have "leaves ctx (text_bytes name @ text_bytes crlf @ requests names) out"
    using Cons.prems(1) by (simp add: requests_def)
  then obtain c1 where 1: "get_nvt_line rd 256 ctx = Some (Inr (Some name, c1))" and l1: "leaves c1 (requests names) out"
    using n(1) unfolding name_ok_def by (elim get_line) auto
  from process_line_ok [OF l1 n(1), of files] n(2) obtain c2 where
    2: "process_line files c1 name = Inr (True, c2)" and l2: "leaves c2 (requests names) (out @ response files name)" by blast
  have "do_connection rd files ctx = do_connection rd files c2"
    using n(1) by (subst do_connection.simps) (simp add: 1 2 name_ok_def)
  then show ?case using Cons.IH [OF l2] Cons.prems(2) by simp
qed

section \<open>The client\<close>

lemma recv_file_ok:
  assumes "leaves (conn c) (data @ rest) out" and "rcvd c = Some old" and "length old + length data \<le> room c"
  shows "\<exists>ctx'. recv_file rd False (int (length data)) c = Some (Inr (0, c\<lparr>conn := ctx', rcvd := Some (old @ data)\<rparr>))
           \<and> leaves ctx' rest out"
  using assms
proof (induction data arbitrary: c old rule: measure_induct_rule [of length])
  case (less data)
  show ?case
  proof (cases "data = []")
    case True
    then show ?thesis using less.prems by (subst recv_file.simps) (auto intro!: exI [of _ "conn c"])
  next
    case False
    let ?n = "min (length data) 1000"
    from False read_some [of "conn c" ?n] less.prems(1) obtain k ctx where k: "0 < k" "k \<le> ?n"
      and r: "rd (conn c) ?n = Inr (Some (Inr (k, take k (data @ rest)), ctx))"
      and l: "leaves ctx (drop k (data @ rest)) out"
      by (auto simp: leaves_def)
    have kd: "take k (data @ rest) = take k data" "drop k (data @ rest) = drop k data @ rest" using k by auto
    let ?c = "c\<lparr>conn := ctx, rcvd := Some (old @ take k data)\<rparr>"
    have kn: "(k < length data \<longrightarrow> \<not> k < 1000) \<longrightarrow> ?n = k" using k(2) by auto
    have m: "min (int (length data)) 1000 = int ?n" "nat (int ?n mod 2 ^ 64) = ?n" by auto
    have "take (room c - length old) (take k data) = take k data"
      using less.prems(3) k by (simp add: min_def)
    then have w: "write_rcvd (c\<lparr>conn := ctx\<rparr>) (take k data) = ?c"
      using less.prems(2) by (simp add: write_rcvd_def del: take_take)
    have "recv_file rd False (int (length data)) c = recv_file rd False (int (length (drop k data))) ?c"
      using False k kn by (subst recv_file.simps) (simp add: m r kd w Let_def of_nat_diff)
    moreover have "\<exists>ctx'. recv_file rd False (int (length (drop k data))) ?c
        = Some (Inr (0, ?c\<lparr>conn := ctx', rcvd := Some ((old @ take k data) @ drop k data)\<rparr>)) \<and> leaves ctx' rest out"
      using k False less.prems(3) l kd by (intro less.IH) auto
    ultimately show ?thesis by simp
  qed
qed

text \<open>One request: the request is written, the answer is read, and a file that exists is stored.\<close>

lemma exchange_ok:
  assumes l: "leaves (conn c) (response files name @ rest) out" and n: "name_ok name" "no_directory (files name)"
    and env: "filename env = None" "can_create env" "\<not> quiet_opt env"
    and sz: "\<And>data. files name = Regular data \<Longrightarrow> length data < 2 ^ 31 \<and> length data \<le> room c"
  shows "\<exists>c'. exchange rd env (name @ crlf) c = Some (Inr (Again, c')) \<and> leaves (conn c') rest (out @ text_bytes (name @ crlf))
           \<and> rcvd c' = received files (rcvd c) name \<and> stdin_text c' = stdin_text c \<and> room c' = room c"
proof -
  let ?out = "out @ text_bytes (name @ crlf)"
  let ?data = "case files name of Regular data \<Rightarrow> data | _ \<Rightarrow> []"
  from response_line_parts [of name files] n sz obtain line where p: "line_parts line (files name) (response_line files name)" by blast
  then obtain lenstr where p1: "response_line files name = line @ crlf" "LF \<notin> set line" "NUL \<notin> set line" "length line < 1000"
    "response_length line = Some lenstr" "scan_int lenstr = Some (response_number (files name))" by (auto simp: line_parts_def)
  from leaves_written [OF l] obtain k c1 where 1: "mywrite (conn c) (text_bytes (name @ crlf)) = Inr (Inr k, c1)"
    and "leaves c1 (response files name @ rest) ?out" by blast
  then have "leaves c1 (text_bytes line @ text_bytes crlf @ ?data @ rest) ?out" by (simp add: response_def p1)
  then obtain c2 where 2: "get_nvt_line rd 1000 c1 = Some (Inr (Some line, c2))" and l2: "leaves c2 (?data @ rest) ?out"
    using p1 by (elim get_line) auto
  let ?c = "c\<lparr>conn := c2, file_length := Some (response_number (files name))\<rparr>"
  have x: "exchange rd env (name @ crlf) c = receive_response rd env line (c\<lparr>conn := c2\<rparr>)" using 1 2 by (simp add: exchange_def)
  show ?thesis
  proof (cases "files name")
    case (Regular data)
    then obtain c3 where 3: "recv_file rd False (int (length data)) (?c\<lparr>rcvd := Some []\<rparr>)
        = Some (Inr (0, ?c\<lparr>conn := c3, rcvd := Some data\<rparr>))" and l3: "leaves c3 rest ?out"
      using recv_file_ok [of "?c\<lparr>rcvd := Some []\<rparr>" data rest ?out "[]"] l2 sz [of data] by auto
    then show ?thesis unfolding x
      using p1(5,6) env 3 l3 by (simp add: receive_response_def Let_def Regular response_number_def received_def)
  qed (use l2 n(2) p1(5,6) env x in \<open>simp_all add: receive_response_def Let_def response_number_def received_def no_directory_def\<close>)
qed

lemma receives:
  assumes "leaves (conn c) (concat (map (response files) names) @ rest) out"
    and "stdin_text c = concat (map (\<lambda>name. name @ [LF]) names)"
    and "filename env = None" "can_create env" "\<not> quiet_opt env"
    and "\<forall>name \<in> set names. typed_ok name \<and> no_directory (files name)
           \<and> (\<forall>data. files name = Regular data \<longrightarrow> length data < 2 ^ 31 \<and> length data \<le> room c)"
  shows "\<exists>c'. loop_until_end rd env c = Some (Inr (Leave, c')) \<and> leaves (conn c') rest (out @ requests names)
           \<and> rcvd c' = foldl (received files) (rcvd c) names"
  using assms
proof (induction names arbitrary: c out)
  case Nil
  then show ?case by (subst loop_until_end.simps) (simp add: next_request_def fgets_def requests_def)
next
  case (Cons name names)
  let ?c = "c\<lparr>stdin_text := concat (map (\<lambda>name. name @ [LF]) names)\<rparr>"
  have n: "typed_ok name" "name_ok name" "no_directory (files name)" using Cons.prems(6) by (auto simp: typed_ok_def)
  have "leaves (conn ?c) (response files name @ concat (map (response files) names) @ rest) out" using Cons.prems(1) by simp
  then obtain c1 where 1: "exchange rd env (name @ crlf) ?c = Some (Inr (Again, c1))"
    and l: "leaves (conn c1) (concat (map (response files) names) @ rest) (out @ text_bytes (name @ crlf))"
    and c1: "rcvd c1 = received files (rcvd ?c) name" "stdin_text c1 = stdin_text ?c" "room c1 = room ?c"
    using exchange_ok [of ?c files name _ out env] n(2,3) Cons.prems(3-6) by fastforce
  have "loop_until_end rd env c = loop_until_end rd env c1"
    using next_request_typed [OF n(1)] Cons.prems(2,3) 1 by (subst loop_until_end.simps) simp
  moreover have "\<exists>c'. loop_until_end rd env c1 = Some (Inr (Leave, c'))
      \<and> leaves (conn c') rest ((out @ text_bytes (name @ crlf)) @ requests names)
      \<and> rcvd c' = foldl (received files) (rcvd c1) names"
    using Cons.prems(3-6) c1 by (intro Cons.IH [OF l]) auto
  ultimately show ?case using c1(1) by (simp add: requests_def)
qed

end

section \<open>Streams in the queue of a connection\<close>

text \<open>
  The transport layer ends a stream with an empty buffer, and after it has been read the flag
  \<open>eof\<close> is set.
\<close>

definition stream_open :: "mysock_context \<Rightarrow> bool" where
  "stream_open ctx \<longleftrightarrow> \<not> listening ctx \<and> \<not> close_requested ctx \<and> (eof ctx \<or> [] \<in> set (app_send_queue ctx))"

definition stream_bytes :: "mysock_context \<Rightarrow> bytes" where
  "stream_bytes ctx = (if eof ctx then [] else concat (takeWhile (\<lambda>d. d \<noteq> []) (app_send_queue ctx)))"

definition short_stream :: "mysock_context \<Rightarrow> bool" where
  "short_stream ctx \<longleftrightarrow> stream_open ctx \<and> (\<forall>d \<in> set (app_send_queue ctx). length d \<le> 2)"

text \<open>A read of an open stream: nothing after the end, else some of the first buffer.\<close>

lemma myread_forward_open:
  assumes "stream_open ctx" and "0 < n"
  shows "if stream_bytes ctx = []
         then myread_forward ctx n = Inr (Some (Inr (0, []), ctx\<lparr>app_send_queue :=
                (if eof ctx then app_send_queue ctx else tl (app_send_queue ctx)), eof := True\<rparr>))
         else \<exists>d q. app_send_queue ctx = d # q \<and> d \<noteq> [] \<and> \<not> eof ctx \<and> stream_bytes ctx = d @ stream_bytes (ctx\<lparr>app_send_queue := q\<rparr>)
                \<and> myread_forward ctx n = Inr (Some (Inr (min n (length d), take n d),
                    ctx\<lparr>app_send_queue := (if length d \<le> n then q else drop n d # q)\<rparr>))"
proof (cases "eof ctx")
  case True
  then show ?thesis using assms(1) by (simp add: stream_open_def stream_bytes_def myread_forward_def myread_def)
next
  case False
  with assms(1) obtain d q where q: "app_send_queue ctx = d # q" by (cases "app_send_queue ctx") (auto simp: stream_open_def)
  have e: "\<not> listening ctx" "\<not> close_requested ctx" using assms(1) by (simp_all add: stream_open_def)
  show ?thesis
  proof (cases "d = []")
    case True
    then show ?thesis
      using e False q assms(2)
      by (simp add: stream_bytes_def myread_forward_def myread_def mysock_dequeue_buffer_def Let_def)
  next
    case d: False
    have b: "stream_bytes ctx = d @ stream_bytes (ctx\<lparr>app_send_queue := q\<rparr>)" using False q d by (simp add: stream_bytes_def)
    have "myread_forward ctx n = Inr (Some (Inr (min n (length d), take n d),
            ctx\<lparr>app_send_queue := (if length d \<le> n then q else drop n d # q)\<rparr>))"
      using e False q d assms(2)
      by (cases "length d \<le> n"; cases "length d - n \<le> n")
        (simp_all add: myread_forward_def myread_def mysock_dequeue_buffer_def Let_def min_def)
    then show ?thesis using b q d False by simp
  qed
qed

interpretation fwd: stream_reader myread_forward stream_open stream_bytes
proof
  fix ctx :: mysock_context and n :: nat and q
  assume o: "stream_open ctx" and n: "0 < n"
  {
    assume "stream_bytes ctx \<noteq> []"
    with myread_forward_open [OF o n] obtain d q where q: "app_send_queue ctx = d # q" "d \<noteq> []" "\<not> eof ctx"
      and b: "stream_bytes ctx = d @ stream_bytes (ctx\<lparr>app_send_queue := q\<rparr>)"
      and r: "myread_forward ctx n = Inr (Some (Inr (min n (length d), take n d),
                ctx\<lparr>app_send_queue := (if length d \<le> n then q else drop n d # q)\<rparr>))" by auto
    let ?c = "ctx\<lparr>app_send_queue := (if length d \<le> n then q else drop n d # q)\<rparr>"
    have "take (min n (length d)) (stream_bytes ctx) = take n d" "stream_bytes ?c = drop (min n (length d)) (stream_bytes ctx)"
      using q(3) unfolding b by (auto simp: stream_bytes_def min_def)
    moreover have "stream_open ?c" using o q by (auto simp: stream_open_def)
    ultimately show "\<exists>k ctx'. 0 < k \<and> k \<le> n \<and> k \<le> length (stream_bytes ctx)
        \<and> myread_forward ctx n = Inr (Some (Inr (k, take k (stream_bytes ctx)), ctx'))
        \<and> stream_open ctx' \<and> stream_bytes ctx' = drop k (stream_bytes ctx) \<and> app_recv_queue ctx' = app_recv_queue ctx"
      using n q(2) by (intro exI [of _ "min n (length d)"] exI [of _ ?c]) (simp add: r b)
  next
    assume "stream_bytes ctx = []"
    with myread_forward_open [OF o n] o
    show "\<exists>ctx'. myread_forward ctx n = Inr (Some (Inr (0, []), ctx'))
        \<and> stream_open ctx' \<and> stream_bytes ctx' = [] \<and> app_recv_queue ctx' = app_recv_queue ctx"
      by (auto simp: stream_open_def stream_bytes_def)
  }
qed (auto simp: stream_open_def stream_bytes_def)

text \<open>In pieces of at most two bytes \<open>myread\<close> never moves more than it takes.\<close>

lemma myread_short: "short_stream ctx \<Longrightarrow> 0 < n \<Longrightarrow> myread ctx n = myread_forward ctx n"
  by (cases "app_send_queue ctx")
    (auto simp: short_stream_def stream_open_def myread_forward_def myread_def mysock_dequeue_buffer_def Let_def)

lemma myread_forward_short:
  "short_stream ctx \<Longrightarrow> 0 < n \<Longrightarrow> myread_forward ctx n = Inr (Some (r, ctx')) \<Longrightarrow> stream_open ctx' \<Longrightarrow> short_stream ctx'"
proof -
  assume s: "short_stream ctx" and "0 < n" and r: "myread_forward ctx n = Inr (Some (r, ctx'))" and o: "stream_open ctx'"
  from s have "stream_open ctx" by (simp add: short_stream_def)
  from myread_forward_open [OF this \<open>0 < n\<close>] r
  have "\<forall>d \<in> set (app_send_queue ctx'). \<exists>d' \<in> set (app_send_queue ctx). length d \<le> length d'"
    by (cases "app_send_queue ctx") (fastforce split: if_splits)+
  with s o show "short_stream ctx'" by (fastforce simp: short_stream_def)
qed

interpretation short: stream_reader myread short_stream stream_bytes
proof
  fix ctx :: mysock_context and n :: nat
  assume s: "short_stream ctx" and n: "0 < n"
  then have o: "stream_open ctx" by (simp add: short_stream_def)
  show "\<exists>k ctx'. 0 < k \<and> k \<le> n \<and> k \<le> length (stream_bytes ctx)
        \<and> myread ctx n = Inr (Some (Inr (k, take k (stream_bytes ctx)), ctx'))
        \<and> short_stream ctx' \<and> stream_bytes ctx' = drop k (stream_bytes ctx) \<and> app_recv_queue ctx' = app_recv_queue ctx"
    if "stream_bytes ctx \<noteq> []"
    using fwd.read_some [OF o that n] myread_forward_short [OF s n] unfolding myread_short [OF s n] by blast
  show "\<exists>ctx'. myread ctx n = Inr (Some (Inr (0, []), ctx'))
        \<and> short_stream ctx' \<and> stream_bytes ctx' = [] \<and> app_recv_queue ctx' = app_recv_queue ctx"
    if "stream_bytes ctx = []"
    using fwd.read_end [OF o that n] myread_forward_short [OF s n] unfolding myread_short [OF s n] by blast
qed (auto simp: short_stream_def stream_open_def stream_bytes_def)

end
