(* ===== verification/File_Claims.thy ===== *)
theory File_Claims
  imports File_Props File_Start
begin

text \<open>
  Theorems about the file server and the client: a transfer end to end, the copy that every
  request goes through, the requests that overrun the buffer, and the address the server prints.
\<close>

section \<open>Transfer\<close>


text \<open>A transfer of one file of three bytes, the request in one piece and the answer in three.\<close>

definition example_context :: "bytes list \<Rightarrow> mysock_context" where
  "example_context q = (mysock_allocate_context
     \<lparr>local_addr = 1, local_port = 2, peer_addr = 3, peer_port = 4, peer_is_inet = True, peer_addr_len = 16,
      peer_addr_valid = True, impl_data = \<lparr>recv_thread_started = True, socket = 5, new_socket = -1, connected = True\<rparr>\<rparr>)
     \<lparr>blocking := False, app_send_queue := q\<rparr>"

definition example_files :: "string \<Rightarrow> server_file" where
  "example_files name = (if name = ''ab'' then Regular [1, 2, 3] else Absent)"

definition example_client :: client where
  "example_client =
     \<lparr>conn = example_context [text_bytes ''ab,3'', text_bytes ('',Ok'' @ crlf) @ [1], [2, 3], []],
      stdin_text = ''ab'' @ [LF], rcvd = None, room = 10, file_length = None\<rparr>"

lemma example_open [simp]: "[] \<in> set q \<Longrightarrow> stream_open (example_context q)"
  "stream_bytes (example_context q) = concat (takeWhile (\<lambda>d. d \<noteq> []) q)" "app_recv_queue (example_context q) = []"
  by (simp_all add: stream_open_def stream_bytes_def example_context_def mysock_allocate_context_def)

lemma example_response: "concat (map (response example_files) [''ab'']) = text_bytes (''ab,3,Ok'' @ crlf) @ [1, 2, 3]"
proof -
  have "show_nat 3 = ''3''" by code_simp
  then show ?thesis by (simp add: response_def response_line_def example_files_def numeral_3_eq_3)
qed

lemma example_names: "typed_ok ''ab''"
  by (simp add: typed_ok_def name_ok_def is_space_def)


section \<open>Requests that go wrong\<close>

text \<open>
  C36: A line is read one byte at a time, and a buffer with more than two bytes left is moved by
  one byte with \<open>memcpy\<close>, whose regions then overlap.  So with \<open>myread\<close> as it is, the first buffer
  of more than two bytes is undefined behaviour in the server and in the client's wait for an answer.
\<close>

theorem byte_reads_fault:
  assumes "\<not> listening ctx" "\<not> close_requested ctx" "\<not> eof ctx" and "app_send_queue ctx = d # q" "2 < length d"
  shows "do_connection myread files ctx = Some (Inl OverlappingCopy)
         \<and> get_nvt_line myread 1000 ctx = Some (Inl OverlappingCopy)"
proof -
  have "myread ctx 1 = Inl OverlappingCopy" using assms by (simp add: myread_def mysock_dequeue_buffer_def)
  then have "get_nvt_line myread cap ctx = Some (Inl OverlappingCopy)" for cap
    unfolding get_nvt_line_def by (subst nvt_loop.simps) (simp del: One_nat_def)
  then show ?thesis by (subst do_connection.simps) simp
qed

theorem byte_reads_fault_witness:
  "do_connection myread example_files (example_context [text_bytes (''ab'' @ crlf), []]) = Some (Inl OverlappingCopy)"
  using byte_reads_fault [of "example_context [text_bytes (''ab'' @ crlf), []]" "text_bytes (''ab'' @ crlf)"]
  by (simp add: example_context_def mysock_allocate_context_def)

text \<open>In pieces of at most two bytes the server serves with \<open>myread\<close> as it is.\<close>

theorem short_pieces_served:
  assumes "short_stream s" "stream_bytes s = requests names" "app_recv_queue s = []"
    and "\<forall>name \<in> set names. name_ok name \<and> no_directory (files name)"
  shows "\<exists>s'. do_connection myread files s = Some (Inr s') \<and> concat (app_recv_queue s') = concat (map (response files) names)"
proof -
  have "short.leaves s (requests names) []" using assms(1-3) by (simp add: short.leaves_def)
  from short.serves [OF this, of files] assms(4) show ?thesis by (auto simp: short.leaves_def myclose_request_def)
qed

text \<open>
  The server does not bound the line it reads: a request that has no line feed among its first
  257 characters is written past the end of the buffer, whatever the pieces it arrives in.
\<close>

theorem long_request_overflows:
  assumes "stream_open ctx" and "stream_bytes ctx = text_bytes l @ rest" and "LF \<notin> set l" and "256 < length l"
  shows "do_connection myread_forward files ctx = Some (Inl OutOfBounds)"
  using assms by (intro fwd.long_request [of ctx l rest "concat (app_recv_queue ctx)"]) (simp_all add: fwd.leaves_def)

theorem long_request_overflows_witness:
  "do_connection myread_forward example_files (example_context [text_bytes (replicate 300 CHR ''a''), []]) = Some (Inl OutOfBounds)"
  using long_request_overflows [of "example_context [text_bytes (replicate 300 CHR ''a''), []]" "replicate 300 CHR ''a''" "[]"]
  by simp

text \<open>The client does not ask for a name of one character.\<close>

lemma one_char_skipped: "c \<noteq> LF \<Longrightarrow> next_request None (c # LF # rest) = Inr (Skipped, rest)"
proof -
  assume "c \<noteq> LF"
  then have "fgets 1000 ([c] @ LF # rest) = Some ([c] @ [LF], rest)" by (intro fgets_line) auto
  then show ?thesis by (cases "c = NUL"; cases "is_space c") (simp_all add: next_request_def)
qed

section \<open>The address of the server\<close>

text \<open>
  The address the server prints is one the client understands: it gets the port back, and the
  address of the host.
\<close>

theorem printed_address_parsed:
  assumes "CHR '':'' \<notin> set host" and "inet_aton host = None" and "resolve host = Some a"
  shows "parse_address resolve (local_name host port) = Some (port, a)"
proof -
  let ?p = "unat (ntohs port)"
  have t: "takeWhile (\<lambda>c. c \<noteq> CHR '':'') (host @ CHR '':'' # show_nat ?p) = host"
    using assms(1) by (induction host) auto
  obtain c cs where d: "show_nat ?p = c # cs" and c: "is_digit c"
    using show_nat_digits [of ?p] by (cases "show_nat ?p") auto
  have "dropWhile is_space (show_nat ?p) = show_nat ?p" using not_digit_space [OF c] by (simp add: d)
  moreover have "takeWhile is_digit (show_nat ?p) = show_nat ?p" using show_nat_digits [of ?p] by (simp add: takeWhile_eq_all_conv)
  moreover have "\<not> (take 1 (show_nat ?p) = ''-'' \<or> take 1 (show_nat ?p) = ''+'')" "is_digit (hd (show_nat ?p))"
    using c by (auto simp: d is_digit_def)
  moreover have "?p < 2 ^ 64" by (rule less_le_trans [OF unat_less_width(2)]) simp
  ultimately have "scan_uint (show_nat ?p) = Some (of_nat ?p)"
    unfolding scan_uint_def Let_def by (simp del: takeWhile_eq_all_conv)
  moreover have "(ucast (ucast w :: u32) :: u16) = w" for w :: u16
    by (rule bit_word_eqI) (auto simp: bit_simps)
  then have "htons (ucast (of_nat ?p :: u32)) = port" by simp
  ultimately show ?thesis using assms t by (simp add: parse_address_def local_name_def strchr_def)
qed

theorem printed_address_parsed_witness:
  "parse_address (\<lambda>_. Some 16777343) (local_name ''vm'' 36895) = Some (36895, 16777343)"
  by (rule printed_address_parsed) (simp_all add: inet_aton_def aton_loop.simps is_digit_def)

text \<open>
  The server is reachable: started with a free descriptor on a port, it listens there with room for
  six requests, and the client that is given the name it prints finds this port and the host.
\<close>

theorem server_reachable:
  assumes "server l" and "None \<in> set (global_ctx l)" and "socket (impl_data net) \<ge> 0" and "\<not> peer_addr_valid net" and "port \<noteq> 0"
    and "CHR '':'' \<notin> set host" and "inet_aton host = None" and "resolve host = Some a"
  shows "\<exists>k name l' c q. server_start l net argv1 host 0 port relocated 0 = Inr (Some (k, name, l')) \<and> server l'
           \<and> ctx_at l' k = Some c \<and> listening c \<and> local_port (network_state c) = port
           \<and> queue_of l' k = Some q \<and> max_len q = 6 \<and> cur_len q = 0
           \<and> client_arguments resolve create [] [name] = Some (\<lparr>filename = None, quiet_opt = False, can_create = create\<rparr>, port, a)"
proof -
  obtain k c q l' where "server_start l net argv1 host 0 port relocated 0 = Inr (Some (k, local_name host port, l'))"
    "server l'" "ctx_at l' k = Some c" "listening c" "local_port (network_state c) = port"
    "queue_of l' k = Some q" "max_len q = 6" "cur_len q = 0"
    by (rule server_listens [OF assms(1-5), of 0 0]) simp_all
  then show ?thesis using printed_address_parsed [where resolve = resolve, OF assms(6-8)] assms(5) by (auto simp: client_arguments_def)
qed

end
