(* ===== verification/Http_Parse.thy ===== *)
theory Http_Parse
  imports C_Text
begin

text \<open>
  The HTTP request parser of the proxy, \<^verbatim>\<open>proxy_parse.c\<close>.  A buffer is a list of characters, a
  pointer into it an offset; the C string at a pointer ends at the first null character, and
  reading past the end of the buffer is a fault.  \<open>strtok_r\<close> overwrites the character after a
  token with a null character, as the C library does.  Allocation does not fail.
\<close>

section \<open>C strings\<close>

abbreviation CRLF :: string where "CRLF \<equiv> [CHR 0x0D, CHR 0x0A]"

text \<open>The string at an offset, without its null character.\<close>

definition cstr :: "string \<Rightarrow> nat \<Rightarrow> fault + string" where
  "cstr mem p =
     (if p < length mem \<and> NUL \<in> set (drop p mem) then Inr (takeWhile (\<lambda>c. c \<noteq> NUL) (drop p mem))
      else Inl OutOfBounds)"

fun find_sub :: "string \<Rightarrow> string \<Rightarrow> nat option" where
  "find_sub pat [] = (if pat = [] then Some 0 else None)"
| "find_sub pat (c # cs) =
     (if take (length pat) (c # cs) = pat then Some 0 else map_option Suc (find_sub pat cs))"

text \<open>\<open>strstr\<close> and \<open>index\<close>: the offset of the first occurrence.\<close>

definition strstr :: "string \<Rightarrow> nat \<Rightarrow> string \<Rightarrow> fault + nat option" where
  "strstr mem p pat = bindR (cstr mem p) (\<lambda>s. Inr (map_option ((+) p) (find_sub pat s)))"

text \<open>Whether the characters at an offset are those of \<open>pat\<close> (\<open>strncmp\<close> with the length of \<open>pat\<close>).\<close>

fun strncmp_at :: "string \<Rightarrow> nat \<Rightarrow> string \<Rightarrow> fault + bool" where
  "strncmp_at mem p [] = Inr True"
| "strncmp_at mem p (c # cs) =
     (if p \<ge> length mem then Inl OutOfBounds
      else if mem ! p = c then strncmp_at mem (Suc p) cs else Inr False)"

text \<open>\<open>strtok_r\<close> from an offset: the token if there is one, the buffer, the offset to go on from.\<close>

definition strtok_r :: "string \<Rightarrow> nat \<Rightarrow> string \<Rightarrow> fault + nat option \<times> string \<times> nat" where
  "strtok_r mem p delim =
     bindR (cstr mem p) (\<lambda>s.
       let skip = length (takeWhile (\<lambda>c. c \<in> set delim) s);
           tok = length (takeWhile (\<lambda>c. c \<notin> set delim) (drop skip s));
           start = p + skip; stop = start + tok
       in if skip = length s then Inr (None, mem, p + length s)
          else if stop = p + length s then Inr (Some start, mem, stop)
          else Inr (Some start, mem[stop := NUL], stop + 1))"

section \<open>Headers\<close>

text \<open>A removed header has no key; its value is never read again.\<close>

record ParsedHeader =
  hkey :: "string option"
  keylen :: nat
  hvalue :: string
  valuelen :: nat

text \<open>
  The fields of the request line point into \<open>buf\<close> in the program; the model keeps the strings.
  \<open>headers\<close> are the entries in use of an array of \<open>headerslen\<close>.
\<close>

record ParsedRequest =
  http_method :: "string option"
  protocol :: "string option"
  http_host :: "string option"
  port :: "string option"
  path :: "string option"
  version :: "string option"
  buf :: "string option"
  buflen :: nat
  headers :: "ParsedHeader list"
  headerslen :: nat

text \<open>The index of the first header with the key.\<close>

fun ParsedHeader_get :: "ParsedHeader list \<Rightarrow> string \<Rightarrow> nat option" where
  "ParsedHeader_get [] key = None"
| "ParsedHeader_get (h # hs) key =
     (if hkey h = Some key then Some 0 else map_option Suc (ParsedHeader_get hs key))"

definition ParsedHeader_remove :: "ParsedRequest \<Rightarrow> string \<Rightarrow> int \<times> ParsedRequest" where
  "ParsedHeader_remove pr key =
     (case ParsedHeader_get (headers pr) key of
        None \<Rightarrow> (-1, pr)
      | Some i \<Rightarrow> (0, pr\<lparr>headers := (headers pr)[i := (headers pr ! i)\<lparr>hkey := None\<rparr>]\<rparr>))"

definition ParsedHeader_set :: "ParsedRequest \<Rightarrow> string \<Rightarrow> string \<Rightarrow> fault + ParsedRequest" where
  "ParsedHeader_set pr key val =
     (let pr = snd (ParsedHeader_remove pr key);
          pr = (if headerslen pr \<le> length (headers pr) + 1 then pr\<lparr>headerslen := headerslen pr * 2\<rparr> else pr)
      in if length (headers pr) < headerslen pr
         then Inr (pr\<lparr>headers := headers pr @ [\<lparr>hkey = Some key, keylen = length key + 1, hvalue = val,
                                              valuelen = length val + 1\<rparr>]\<rparr>)
         else Inl OutOfBounds)"

definition ParsedHeader_lineLen :: "ParsedHeader \<Rightarrow> nat" where
  "ParsedHeader_lineLen ph = (case hkey ph of None \<Rightarrow> 0 | Some k \<Rightarrow> length k + length (hvalue ph) + 4)"

definition ParsedHeader_headersLen :: "ParsedRequest \<Rightarrow> nat" where
  "ParsedHeader_headersLen pr =
     (if buf pr = None then 0 else foldl (\<lambda>len ph. len + ParsedHeader_lineLen ph) 0 (headers pr) + 2)"

text \<open>\<open>memcpy\<close> of a string into the output buffer.\<close>

definition put_str :: "string \<Rightarrow> nat \<Rightarrow> string \<Rightarrow> fault + string" where
  "put_str dst off s = (if off + length s \<le> length dst then Inr (splice dst off s) else Inl OutOfBounds)"

fun print_headers :: "ParsedHeader list \<Rightarrow> string \<Rightarrow> nat \<Rightarrow> fault + string" where
  "print_headers [] dst current = put_str dst current CRLF"
| "print_headers (ph # phs) dst current =
     (case hkey ph of
        None \<Rightarrow> print_headers phs dst current
      | Some k \<Rightarrow>
          bindR (put_str dst current k) (\<lambda>dst.
          bindR (put_str dst (current + length k) '': '') (\<lambda>dst.
          bindR (put_str dst (current + length k + 2) (hvalue ph)) (\<lambda>dst.
          bindR (put_str dst (current + length k + 2 + length (hvalue ph)) CRLF) (\<lambda>dst.
            print_headers phs dst (current + (length k + length (hvalue ph) + 4)))))))"

text \<open>The output buffer is \<open>dst\<close> from \<open>off\<close> on, said to have \<open>len\<close> characters.\<close>

definition ParsedHeader_printHeaders :: "ParsedRequest \<Rightarrow> string \<Rightarrow> nat \<Rightarrow> nat \<Rightarrow> fault + int \<times> string" where
  "ParsedHeader_printHeaders pr dst off len =
     (if len < ParsedHeader_headersLen pr then Inr (-1, dst)
      else bindR (print_headers (headers pr) dst off) (\<lambda>dst. Inr (0, dst)))"

text \<open>
  The colon is looked for in the rest of the buffer, not in the line.  Without an end of line
  after it the program computes with a null pointer.
\<close>

definition ParsedHeader_parse :: "ParsedRequest \<Rightarrow> string \<Rightarrow> nat \<Rightarrow> fault + int \<times> ParsedRequest" where
  "ParsedHeader_parse pr mem line =
     bindR (strstr mem line '':'') (\<lambda>index1.
       case index1 of
         None \<Rightarrow> Inr (-1, pr)
       | Some index1 \<Rightarrow>
           (let key = slice mem line (index1 - line);
                index1 = index1 + 2
            in bindR (strstr mem index1 CRLF) (\<lambda>index2.
                 case index2 of
                   None \<Rightarrow> Inl NullDeref
                 | Some index2 \<Rightarrow>
                     bindR (ParsedHeader_set pr key (slice mem index1 (index2 - index1))) (\<lambda>pr. Inr (0, pr)))))"

text \<open>
  The memory of the keys and values that are left is freed, then the array; the entries as they are
  just before that, and the request after it.
\<close>

definition ParsedHeader_destroyOne :: "ParsedHeader \<Rightarrow> ParsedHeader" where
  "ParsedHeader_destroyOne ph =
     (if hkey ph \<noteq> None then \<lparr>hkey = None, keylen = 0, hvalue = [], valuelen = 0\<rparr> else ph)"

definition ParsedHeader_destroy :: "ParsedRequest \<Rightarrow> ParsedHeader list \<times> ParsedRequest" where
  "ParsedHeader_destroy pr = (map ParsedHeader_destroyOne (headers pr), pr\<lparr>headers := [], headerslen := 0\<rparr>)"

section \<open>Requests\<close>

definition ParsedRequest_create :: ParsedRequest where
  "ParsedRequest_create =
     \<lparr>http_method = None, protocol = None, http_host = None, port = None, path = None, version = None,
      buf = None, buflen = 0, headers = [], headerslen = 8\<rparr>"

declare bindR_cong [fundef_cong]

lemma find_sub_le: "find_sub pat s = Some i \<Longrightarrow> i \<le> length s"
  by (induction s arbitrary: i) (auto split: if_splits)

lemma strstr_ge: "strstr mem p pat = Inr (Some i) \<Longrightarrow> p \<le> i \<and> p < length mem"
  by (auto simp: strstr_def cstr_def split: if_splits)

text \<open>
  The loop over the header lines; \<open>h\<close> is the offset of the current one.  The rest of the buffer
  after an end of line has at least two characters, so the test of its length never ends the loop.
\<close>

function header_loop :: "ParsedRequest \<Rightarrow> string \<Rightarrow> nat \<Rightarrow> fault + int \<times> ParsedRequest" where
  "header_loop pr mem h =
     (if h \<ge> length mem then Inl OutOfBounds
      else if mem ! h = NUL then Inr (0, pr)
      else bindR (strncmp_at mem h CRLF) (\<lambda>blank.
             if blank then Inr (0, pr)
             else bindR (ParsedHeader_parse pr mem h) (\<lambda>(rc, pr).
                    if rc \<noteq> 0 then Inr (-1, pr)
                    else bindR (strstr mem h CRLF) (\<lambda>next_line.
                           case next_line of None \<Rightarrow> Inr (0, pr) | Some i \<Rightarrow> header_loop pr mem (i + 2)))))"
  by pat_completeness auto
termination
  by (relation "measure (\<lambda>(pr, mem, h). length mem - h)") (auto dest: strstr_ge)

declare header_loop.simps [simp del]

text \<open>
  The request line, the buffer \<open>mem\<close> with its null character: the fields, or none if it is
  rejected.  \<open>einval\<close> tells whether \<open>errno\<close> is \<open>EINVAL\<close> after \<open>strtol\<close>, which does not set it.
  The version is what follows the address, whether or not there is anything.
\<close>

type_synonym request_line = "string \<times> string \<times> string \<times> string option \<times> string \<times> string"

definition parse_host :: "string \<Rightarrow> bool \<Rightarrow> nat \<Rightarrow> nat \<Rightarrow> nat \<Rightarrow> nat \<Rightarrow> string \<Rightarrow> fault + request_line option" where
  "parse_host mem einval meth prot host vers pth =
     bindR (strtok_r mem host '':'') (\<lambda>(host, mem, save).
     bindR (strtok_r mem save ''/'') (\<lambda>(prt, mem, save).
       case host of
         None \<Rightarrow> Inr None
       | Some host \<Rightarrow>
           bindR (case prt of None \<Rightarrow> Inr None | Some p \<Rightarrow> bindR (cstr mem p) (\<lambda>s. Inr (Some s))) (\<lambda>prt.
             if (case prt of None \<Rightarrow> False | Some s \<Rightarrow> strtol s = 0 \<and> einval) then Inr None
             else bindR (cstr mem meth) (\<lambda>meth.
                  bindR (cstr mem prot) (\<lambda>prot.
                  bindR (cstr mem host) (\<lambda>host.
                  bindR (cstr mem vers) (\<lambda>vers.
                    Inr (Some (meth, prot, host, prt, pth, vers)))))))))"

definition parse_address :: "string \<Rightarrow> bool \<Rightarrow> nat \<Rightarrow> nat \<Rightarrow> nat \<Rightarrow> fault + request_line option" where
  "parse_address mem einval meth full_addr vers =
     bindR (strtok_r mem full_addr ''://'') (\<lambda>(prot, mem, save).
       case prot of
         None \<Rightarrow> Inr None
       | Some prot \<Rightarrow>
           bindR (cstr mem prot) (\<lambda>p.
           bindR (cstr mem (full_addr + length p + 3)) (\<lambda>abs_uri.
           bindR (strtok_r mem save ''/'') (\<lambda>(host, mem, save).
             case host of
               None \<Rightarrow> Inr None
             | Some host \<Rightarrow>
                 bindR (cstr mem host) (\<lambda>h.
                   if length h = length abs_uri then Inr None
                   else bindR (strtok_r mem save '' '') (\<lambda>(pth, mem, save).
                          case pth of
                            None \<Rightarrow> parse_host mem einval meth prot host vers ''/''
                          | Some pth \<Rightarrow>
                              bindR (cstr mem pth) (\<lambda>p.
                                if take 1 p = ''/'' then Inr None
                                else parse_host mem einval meth prot host vers (''/'' @ p))))))))"

definition parse_line :: "string \<Rightarrow> bool \<Rightarrow> fault + request_line option" where
  "parse_line mem einval =
     bindR (strtok_r mem 0 '' '') (\<lambda>(meth, mem, save).
       case meth of
         None \<Rightarrow> Inr None
       | Some meth \<Rightarrow>
           bindR (strtok_r mem save '' '') (\<lambda>(full_addr, mem, save).
             case full_addr of
               None \<Rightarrow> Inr None
             | Some full_addr \<Rightarrow>
                 bindR (cstr mem full_addr) (\<lambda>a.
                   let vers = full_addr + length a + 1
                   in bindR (strncmp_at mem vers ''HTTP/'') (\<lambda>ok.
                        if ok then parse_address mem einval meth full_addr vers else Inr None))))"

text \<open>
  A rejected request line is freed and \<open>buf\<close> is null again; \<open>buflen\<close> keeps its value.  The
  pointers into the freed line that the program leaves behind are not modelled: nothing reads them.  A header
  without a colon is reported after the request line has been stored.
\<close>

definition ParsedRequest_parse :: "ParsedRequest \<Rightarrow> bool \<Rightarrow> string \<Rightarrow> int \<Rightarrow> fault + int \<times> ParsedRequest" where
  "ParsedRequest_parse pr einval req len =
     (if buf pr \<noteq> None then Inr (-1, pr)
      else if len < 4 \<or> len > 65535 then Inr (-1, pr)
      else if nat len > length req then Inl OutOfBounds
      else let tmp_buf = take (nat len) req @ [NUL]
           in bindR (strstr tmp_buf 0 (CRLF @ CRLF)) (\<lambda>r.
                case r of
                  None \<Rightarrow> Inr (-1, pr)
                | Some _ \<Rightarrow>
                    bindR (strstr tmp_buf 0 CRLF) (\<lambda>r.
                      case r of
                        None \<Rightarrow> Inl NullDeref
                      | Some i \<Rightarrow>
                          (let line = take i tmp_buf @ [NUL]; pr = pr\<lparr>buflen := i + 1\<rparr>
                           in bindR (parse_line line einval) (\<lambda>r.
                                case r of
                                  None \<Rightarrow> Inr (-1, pr)
                                | Some (m, p, h, t, a, v) \<Rightarrow>
                                    header_loop (pr\<lparr>http_method := Some m, protocol := Some p, http_host := Some h,
                                      port := t, path := Some a, version := Some v, buf := Some line\<rparr>) tmp_buf (i + 2))))))"

section \<open>Printing\<close>

definition ParsedRequest_requestLineLen :: "ParsedRequest \<Rightarrow> fault + nat" where
  "ParsedRequest_requestLineLen pr =
     (if buf pr = None then Inr 0
      else bindR (deref (http_method pr)) (\<lambda>m.
           bindR (deref (protocol pr)) (\<lambda>p.
           bindR (deref (http_host pr)) (\<lambda>h.
           bindR (deref (version pr)) (\<lambda>v.
           bindR (deref (path pr)) (\<lambda>a.
             Inr (length m + 1 + length p + 3 + length h + 1 + length v + 2
                  + (case port pr of None \<Rightarrow> 0 | Some t \<Rightarrow> length t + 1) + length a)))))))"

definition ParsedRequest_totalLen :: "ParsedRequest \<Rightarrow> fault + nat" where
  "ParsedRequest_totalLen pr =
     (if buf pr = None then Inr 0
      else bindR (ParsedRequest_requestLineLen pr) (\<lambda>n. Inr (n + ParsedHeader_headersLen pr)))"

text \<open>Strings written one after the other; the buffer and the offset after the last.\<close>

fun put_strs :: "string \<Rightarrow> nat \<Rightarrow> string list \<Rightarrow> fault + string \<times> nat" where
  "put_strs dst current [] = Inr (dst, current)"
| "put_strs dst current (s # ss) = bindR (put_str dst current s) (\<lambda>dst. put_strs dst (current + length s) ss)"

definition ParsedRequest_printRequestLine ::
  "ParsedRequest \<Rightarrow> string \<Rightarrow> nat \<Rightarrow> fault + int \<times> string \<times> nat" where
  "ParsedRequest_printRequestLine pr dst len =
     bindR (ParsedRequest_requestLineLen pr) (\<lambda>n.
       if len < n then Inr (-1, dst, 0)
       else bindR (deref (http_method pr)) (\<lambda>m.
            bindR (deref (protocol pr)) (\<lambda>p.
            bindR (deref (http_host pr)) (\<lambda>h.
            bindR (deref (path pr)) (\<lambda>a.
            bindR (deref (version pr)) (\<lambda>v.
            bindR (put_strs dst 0 ([m, '' '', p, ''://'', h] @ (case port pr of None \<Rightarrow> [] | Some t \<Rightarrow> ['':'', t])
                                   @ [a, '' '', v, CRLF])) (\<lambda>(dst, tmp).
              Inr (0, dst, tmp))))))))"

definition ParsedRequest_unparse :: "ParsedRequest \<Rightarrow> string \<Rightarrow> nat \<Rightarrow> fault + int \<times> string" where
  "ParsedRequest_unparse pr dst len =
     (if buf pr = None then Inr (-1, dst)
      else bindR (ParsedRequest_printRequestLine pr dst len) (\<lambda>(rc, dst, tmp).
             if rc < 0 then Inr (-1, dst)
             else bindR (ParsedHeader_printHeaders pr dst tmp (len - tmp)) (\<lambda>(rc, dst).
                    Inr (if rc < 0 then -1 else 0, dst))))"

definition ParsedRequest_unparse_headers :: "ParsedRequest \<Rightarrow> string \<Rightarrow> nat \<Rightarrow> fault + int \<times> string" where
  "ParsedRequest_unparse_headers pr dst len =
     (if buf pr = None then Inr (-1, dst)
      else bindR (ParsedHeader_printHeaders pr dst 0 len) (\<lambda>(rc, dst). Inr (if rc < 0 then -1 else 0, dst)))"

end
