(* ===== verification/Http_Props.thy ===== *)
theory Http_Props
  imports Http_Parse
begin

text \<open>
  What the request parser does: the string functions on a buffer written as a concatenation,
  the request line, the headers as a map, and printing.
\<close>

section \<open>The string functions\<close>

lemma takeWhile_stop: "\<forall>c \<in> set xs. P c \<Longrightarrow> ys = [] \<or> \<not> P (hd ys) \<Longrightarrow> takeWhile P (xs @ ys) = xs"
  by (cases ys) auto

lemma cstr_append: "NUL \<notin> set s \<Longrightarrow> cstr (pre @ s @ NUL # post) (length pre) = Inr s"
proof -
  assume "NUL \<notin> set s"
  then have t: "takeWhile (\<lambda>c. c \<noteq> NUL) (s @ NUL # post) = s" by (intro takeWhile_stop) auto
  show ?thesis by (simp add: cstr_def t)
qed

lemma strtok_token:
  assumes "\<forall>c \<in> set sk. c \<in> set delim" and "tok \<noteq> []" and "\<forall>c \<in> set tok. c \<notin> set delim"
    and "d \<in> set delim" and "NUL \<notin> set (sk @ tok @ d # rest)"
  shows "strtok_r (pre @ sk @ tok @ d # rest @ NUL # post) (length pre) delim =
    Inr (Some (length pre + length sk), pre @ sk @ tok @ NUL # rest @ NUL # post, length pre + length sk + length tok + 1)"
proof -
  have c: "cstr (pre @ sk @ tok @ d # rest @ NUL # post) (length pre) = Inr (sk @ tok @ d # rest)"
    using cstr_append [OF assms(5), of pre post] by simp
  have 1: "takeWhile (\<lambda>c. c \<in> set delim) (sk @ tok @ d # rest) = sk"
    by (rule takeWhile_stop) (use assms in \<open>cases tok; auto\<close>)+
  have 2: "takeWhile (\<lambda>c. c \<notin> set delim) (tok @ d # rest) = tok"
    by (rule takeWhile_stop) (use assms in auto)
  show ?thesis
    using assms(2) by (simp add: strtok_r_def c 1 2 Let_def list_update_append)
qed

lemma strtok_last:
  assumes "\<forall>c \<in> set sk. c \<in> set delim" and "tok \<noteq> []" and "\<forall>c \<in> set tok. c \<notin> set delim" and "NUL \<notin> set (sk @ tok)"
  shows "strtok_r (pre @ sk @ tok @ NUL # post) (length pre) delim =
    Inr (Some (length pre + length sk), pre @ sk @ tok @ NUL # post, length pre + length sk + length tok)"
proof -
  have c: "cstr (pre @ sk @ tok @ NUL # post) (length pre) = Inr (sk @ tok)"
    using cstr_append [OF assms(4), of pre post] by simp
  have 1: "takeWhile (\<lambda>c. c \<in> set delim) (sk @ tok) = sk"
    by (rule takeWhile_stop) (use assms in \<open>cases tok; auto\<close>)+
  have 2: "takeWhile (\<lambda>c. c \<notin> set delim) tok = tok" using assms(3) by (simp add: takeWhile_eq_all_conv)
  show ?thesis using assms(2) by (simp add: strtok_r_def c 1 2 Let_def)
qed

lemma strtok_none:
  assumes "\<forall>c \<in> set sk. c \<in> set delim" and "NUL \<notin> set sk"
  shows "strtok_r (pre @ sk @ NUL # post) (length pre) delim = Inr (None, pre @ sk @ NUL # post, length pre + length sk)"
proof -
  have t: "takeWhile (\<lambda>c. c \<in> set delim) sk = sk" using takeWhile_stop [OF assms(1), of "[]"] by simp
  show ?thesis unfolding strtok_r_def Let_def cstr_append [OF assms(2)] by (simp add: t)
qed

lemma strncmp_append: "strncmp_at (pre @ s @ rest) (length pre) s = Inr True"
proof (induction s arbitrary: pre)
  case (Cons c s)
  from Cons [of "pre @ [c]"] show ?case by simp
qed simp

lemma find_sub_first:
  assumes "pat = c # cs" and "c \<notin> set s"
  shows "find_sub pat (s @ pat @ rest) = Some (length s)"
  using assms(2)
proof (induction s)
  case Nil
  then show ?case using assms(1) by simp
next
  case (Cons a s)
  then have "a \<noteq> c" by auto
  then show ?case using Cons assms(1) by simp
qed

lemma find_sub_ex: "\<exists>i. find_sub pat (s @ pat @ rest) = Some i"
proof (induction s)
  case Nil
  show ?case by (cases pat; cases rest) simp_all
next
  case (Cons a s)
  then show ?case by auto
qed

lemma strstr_first:
  assumes "pat = c # cs" and "c \<notin> set s" and "NUL \<notin> set (s @ pat @ rest)"
  shows "strstr (pre @ s @ pat @ rest @ NUL # post) (length pre) pat = Inr (Some (length pre + length s))"
  using cstr_append [OF assms(3), of pre post] find_sub_first [OF assms(1,2), of rest]
  by (simp add: strstr_def)

section \<open>The request line\<close>

text \<open>Strings that contain no null character, carriage return or space, nor other characters.\<close>

definition plain :: "string \<Rightarrow> string \<Rightarrow> bool" where
  "plain bad s \<longleftrightarrow> (\<forall>c \<in> set s. c \<noteq> NUL \<and> c \<noteq> CHR 0x0D \<and> c \<notin> set bad)"

lemma plainD: "plain bad s \<Longrightarrow> NUL \<notin> set s" "plain bad s \<Longrightarrow> CHR 0x0D \<notin> set s" "plain bad s \<Longrightarrow> c \<in> set bad \<Longrightarrow> c \<notin> set s"
  by (auto simp: plain_def)

lemma plain_append [simp]:
  "plain bad []" "plain bad (s @ s') \<longleftrightarrow> plain bad s \<and> plain bad s'"
  "plain bad (c # s) \<longleftrightarrow> c \<noteq> NUL \<and> c \<noteq> CHR 0x0D \<and> c \<notin> set bad \<and> plain bad s"
  by (auto simp: plain_def)

lemma plain_mono: "plain bad s \<Longrightarrow> set bad' \<subseteq> set bad \<Longrightarrow> plain bad' s"
  by (auto simp: plain_def)

text \<open>A valid request line: method, protocol, host, port, path without its slash, version without its prefix.\<close>

definition line_ok :: "string \<Rightarrow> string \<Rightarrow> string \<Rightarrow> string option \<Rightarrow> string \<Rightarrow> string \<Rightarrow> bool" where
  "line_ok m p h t r v \<longleftrightarrow> m \<noteq> [] \<and> plain '' '' m \<and> p \<noteq> [] \<and> plain '' :/'' p \<and> h \<noteq> [] \<and> plain '' :/'' h
     \<and> (case t of None \<Rightarrow> True | Some s \<Rightarrow> s \<noteq> [] \<and> plain '' /'' s \<and> strtol s \<noteq> 0)
     \<and> plain '' '' r \<and> take 1 r \<noteq> ''/'' \<and> plain [] v"

definition authority :: "string \<Rightarrow> string option \<Rightarrow> string" where
  "authority h t = h @ (case t of None \<Rightarrow> [] | Some s \<Rightarrow> '':'' @ s)"

definition line_text :: "string \<Rightarrow> string \<Rightarrow> string \<Rightarrow> string option \<Rightarrow> string \<Rightarrow> string \<Rightarrow> string" where
  "line_text m p h t r v = m @ '' '' @ p @ ''://'' @ authority h t @ ''/'' @ r @ '' HTTP/'' @ v"

lemma authority_ok:
  assumes "line_ok m p h t r v"
  shows "plain '' /'' (authority h t)" and "authority h t \<noteq> []"
proof -
  have "plain '' /'' h" using assms plain_mono [of "'' :/''" h "'' /''"] by (simp add: line_ok_def)
  then show "plain '' /'' (authority h t)" using assms by (cases t) (simp_all add: authority_def line_ok_def)
  show "authority h t \<noteq> []" using assms by (simp add: authority_def line_ok_def)
qed

lemma parse_host_ok:
  assumes "line_ok m p h t r v"
  defines "pre \<equiv> m @ NUL # p @ NUL # ''//''" and "post \<equiv> r @ NUL # ''HTTP/'' @ v @ [NUL]"
  shows "parse_host (pre @ authority h t @ NUL # post) einval 0 (length m + 1) (length pre)
      (length pre + length (authority h t) + 1 + length r + 1) pth = Inr (Some (m, p, h, t, pth, ''HTTP/'' @ v))"
proof -
  from assms(1) have pl: "plain '' '' m" "plain '' :/'' p" "plain '' :/'' h" "plain [] v" and h: "h \<noteq> []"
    and t: "case t of None \<Rightarrow> True | Some s \<Rightarrow> s \<noteq> [] \<and> plain '' /'' s \<and> strtol s \<noteq> 0"
    unfolding line_ok_def by blast+
  have mp: "NUL \<notin> set m" "NUL \<notin> set p" "NUL \<notin> set h" "NUL \<notin> set (''HTTP/'' @ v)"
    using pl [THEN plainD(1)] by simp_all
  have h: "h \<noteq> []" "\<forall>c \<in> set h. c \<notin> set '':''" using h pl(3) by (auto simp: plain_def)
  show ?thesis
  proof (cases t)
    case None
    let ?M = "pre @ h @ NUL # post"
    have a: "authority h t = h" by (simp add: authority_def None)
    have s1: "strtok_r ?M (length pre) '':'' = Inr (Some (length pre), ?M, length pre + length h)"
      using strtok_last [of "[]" "'':''" h pre post] h mp(3) by simp
    have s2: "strtok_r ?M (length pre + length h) ''/'' = Inr (None, ?M, length pre + length h)"
      using strtok_none [of "[]" "''/''" "pre @ h" post] by simp
    have "cstr ?M 0 = Inr m" using cstr_append [OF mp(1), of "[]" "p @ NUL # ''//'' @ h @ NUL # post"] by (simp add: pre_def)
    moreover have "cstr ?M (length m + 1) = Inr p"
      using cstr_append [OF mp(2), of "m @ [NUL]" "''//'' @ h @ NUL # post"] by (simp add: pre_def)
    moreover have "cstr ?M (length pre) = Inr h" by (rule cstr_append [OF mp(3)])
    moreover have "cstr ?M (length pre + length h + 1 + length r + 1) = Inr (''HTTP/'' @ v)"
      using cstr_append [OF mp(4), of "pre @ h @ NUL # r @ [NUL]" "[]"] by (simp add: post_def ac_simps)
    ultimately show ?thesis unfolding a parse_host_def by (simp add: s1 s2 None)
  next
    case (Some s)
    let ?M = "pre @ h @ NUL # s @ NUL # post"
    have a: "authority h t = h @ CHR '':'' # s" by (simp add: authority_def Some)
    have s: "s \<noteq> []" "\<forall>c \<in> set s. c \<notin> set ''/''" "NUL \<notin> set s" "strtol s \<noteq> 0" using t by (auto simp: plain_def Some)
    have s1: "strtok_r (pre @ (h @ CHR '':'' # s) @ NUL # post) (length pre) '':'' = Inr (Some (length pre), ?M, length pre + length h + 1)"
      using strtok_token [of "[]" "'':''" h "CHR '':''" s pre post] h mp(3) s(3) by simp
    have s2: "strtok_r ?M (length pre + length h + 1) ''/'' = Inr (Some (length pre + length h + 1), ?M, length pre + length h + 1 + length s)"
      using strtok_last [of "[]" "''/''" s "pre @ h @ [NUL]" post] s by simp
    have "cstr ?M (length pre + length h + 1) = Inr s" using cstr_append [OF s(3), of "pre @ h @ [NUL]" post] by simp
    moreover have "cstr ?M 0 = Inr m" using cstr_append [OF mp(1), of "[]" "p @ NUL # ''//'' @ h @ NUL # s @ NUL # post"] by (simp add: pre_def)
    moreover have "cstr ?M (length m + 1) = Inr p"
      using cstr_append [OF mp(2), of "m @ [NUL]" "''//'' @ h @ NUL # s @ NUL # post"] by (simp add: pre_def)
    moreover have "cstr ?M (length pre) = Inr h" by (rule cstr_append [OF mp(3)])
    moreover have "cstr ?M (length pre + (length h + Suc (length s)) + 1 + length r + 1) = Inr (''HTTP/'' @ v)"
      using cstr_append [OF mp(4), of "pre @ h @ NUL # s @ NUL # r @ [NUL]" "[]"] by (simp add: post_def ac_simps)
    moreover note s1 s2
    ultimately show ?thesis unfolding a parse_host_def by (simp add: Some s(4))
  qed
qed

lemma parse_address_ok:
  assumes "line_ok m p h t r v"
  shows "parse_address (m @ NUL # (p @ ''://'' @ authority h t @ ''/'' @ r) @ NUL # ''HTTP/'' @ v @ [NUL]) einval 0
      (length m + 1) (length m + 1 + length (p @ ''://'' @ authority h t @ ''/'' @ r) + 1)
    = Inr (Some (m, p, h, t, ''/'' @ r, ''HTTP/'' @ v))"
proof -
  let ?a = "authority h t" and ?v = "''HTTP/'' @ v @ [NUL]"
  from assms have pl: "plain '' '' m" "plain '' :/'' p" "plain '' :/'' h" "plain '' '' r" "plain [] v" and ne: "p \<noteq> []" "h \<noteq> []"
    and r1: "take 1 r \<noteq> ''/''"
    unfolding line_ok_def by blast+
  have ac: "NUL \<notin> set ?a" "\<forall>c \<in> set ?a. c \<notin> set ''/''" "?a \<noteq> []"
    using authority_ok [OF assms] by (auto simp: plain_def)
  have n: "NUL \<notin> set p" "NUL \<notin> set r" "\<forall>c \<in> set p. c \<notin> set ''://''" "\<forall>c \<in> set r. c \<notin> set '' ''"
    using pl by (auto simp: plain_def)
  let ?pre = "m @ NUL # p @ NUL # ''//''"
  let ?M3 = "m @ NUL # p @ NUL # ''//'' @ ?a @ ''/'' @ r @ NUL # ?v"
  let ?M4 = "?pre @ ?a @ NUL # r @ NUL # ?v"
  have s1: "strtok_r (m @ NUL # (p @ ''://'' @ ?a @ ''/'' @ r) @ NUL # ?v) (length m + 1) ''://''
      = Inr (Some (length m + 1), ?M3, length m + 1 + length p + 1)"
    using strtok_token [of "[]" "''://''" p "CHR '':''" "''//'' @ ?a @ ''/'' @ r" "m @ [NUL]" ?v] ne n ac by simp
  have c1: "cstr ?M3 (length m + 1) = Inr p" using cstr_append [OF n(1), of "m @ [NUL]"] by simp
  have c2: "cstr ?M3 (length m + 1 + length p + 3) = Inr (?a @ ''/'' @ r)"
    using cstr_append [of "?a @ ''/'' @ r" ?pre ?v] ac(1) n(2) by (simp add: numeral_eq_Suc)
  have s2: "strtok_r ?M3 (length m + 1 + length p + 1) ''/'' = Inr (Some (length ?pre), ?M4, length ?pre + length ?a + 1)"
    using strtok_token [of "''//''" "''/''" ?a "CHR ''/''" r "m @ NUL # p @ [NUL]" ?v] ac n(2) by simp
  have c3: "cstr ?M4 (length ?pre) = Inr ?a" by (rule cstr_append [OF ac(1)])
  have ne3: "\<not> length ?a = length (?a @ ''/'' @ r)" by simp
  note ph = parse_host_ok [OF assms, of einval]
  show ?thesis
  proof (cases "r = []")
    case True
    have s3: "strtok_r ?M4 (length ?pre + length ?a + 1) '' '' = Inr (None, ?M4, length ?pre + length ?a + 1)"
      using strtok_none [of "[]" "'' ''" "?pre @ ?a @ [NUL]" ?v] by (simp add: True add.assoc)
    show ?thesis
      unfolding parse_address_def s1 bindR_simps prod.case option.case c1 c2 s2 c3 if_not_P [OF ne3] s3
      using ph [of "''/''"] by (simp add: True ac_simps)
  next
    case False
    have s3: "strtok_r ?M4 (length ?pre + length ?a + 1) '' '' = Inr (Some (length ?pre + length ?a + 1), ?M4, length ?pre + length ?a + 1 + length r)"
      using strtok_last [of "[]" "'' ''" r "?pre @ ?a @ [NUL]" ?v] False n by (simp add: add.assoc)
    have c4: "cstr ?M4 (length ?pre + length ?a + 1) = Inr r" using cstr_append [OF n(2), of "?pre @ ?a @ [NUL]" ?v] by (simp add: add.assoc)
    show ?thesis
      unfolding parse_address_def s1 bindR_simps prod.case option.case c1 c2 s2 c3 if_not_P [OF ne3] s3 c4 if_not_P [OF r1]
      using ph [of "''/'' @ r"] by (simp add: ac_simps)
  qed
qed

lemma parse_line_ok:
  assumes "line_ok m p h t r v"
  shows "parse_line (line_text m p h t r v @ [NUL]) einval = Inr (Some (m, p, h, t, ''/'' @ r, ''HTTP/'' @ v))"
proof -
  let ?fa = "p @ ''://'' @ authority h t @ ''/'' @ r" and ?v = "''HTTP/'' @ v"
  from assms have pl: "plain '' '' m" "plain '' :/'' p" "plain '' :/'' h" "plain '' '' r" "plain [] v" and ne: "m \<noteq> []" "p \<noteq> []"
    unfolding line_ok_def by blast+
  have fa: "plain '' '' ?fa"
    using pl(2,4) authority_ok(1) [OF assms] plain_mono [of "'' :/''" p "'' ''"] plain_mono [of "'' /''" "authority h t" "'' ''"]
    by simp
  have f: "NUL \<notin> set ?fa" "\<forall>c \<in> set ?fa. c \<notin> set '' ''" "?fa \<noteq> []"
    using plainD(1) [OF fa] plainD(3) [OF fa] ne(2) by (blast, blast, simp)
  have m: "NUL \<notin> set m" "\<forall>c \<in> set m. c \<notin> set '' ''" "NUL \<notin> set ?v"
    using plainD(1) [OF pl(1)] plainD(3) [OF pl(1)] plainD(1) [OF pl(5)] by (blast, blast, simp)
  let ?M2 = "m @ NUL # ?fa @ NUL # ?v @ [NUL]"
  have s1: "strtok_r (line_text m p h t r v @ [NUL]) 0 '' '' = Inr (Some 0, m @ NUL # ?fa @ SP # ?v @ [NUL], length m + 1)"
    using strtok_token [of "[]" "'' ''" m SP "?fa @ SP # ?v" "[]" "[]"] ne(1) m f(1) by (simp add: line_text_def)
  have s2: "strtok_r (m @ NUL # ?fa @ SP # ?v @ [NUL]) (length m + 1) '' '' = Inr (Some (length m + 1), ?M2, length m + 1 + length ?fa + 1)"
    using strtok_token [of "[]" "'' ''" ?fa SP ?v "m @ [NUL]" "[]"] f m(3) by simp
  have c: "cstr ?M2 (length m + 1) = Inr ?fa" using cstr_append [OF f(1), of "m @ [NUL]" "?v @ [NUL]"] by simp
  have v: "strncmp_at ?M2 (length m + 1 + length ?fa + 1) ''HTTP/'' = Inr True"
    using strncmp_append [of "m @ NUL # ?fa @ [NUL]" "''HTTP/''" "v @ [NUL]"] by simp
  show ?thesis
    unfolding parse_line_def s1 bindR_simps prod.case option.case s2 c Let_def v if_True
    using parse_address_ok [OF assms, of einval] by (simp add: ac_simps)
qed

end
