(* ===== verification/Http_Headers.thy ===== *)
theory Http_Headers
  imports Http_Props
begin

text \<open>
  The headers of a request: the array with its removed entries is a map from keys to values in
  the order of insertion, the loop over the header lines stores every header of the text, and
  printing writes the entries that are left.
\<close>

section \<open>The entries that are left\<close>

definition live_headers :: "ParsedHeader list \<Rightarrow> (string \<times> string) list" where
  "live_headers hs = List.map_filter (\<lambda>h. map_option (\<lambda>k. (k, hvalue h)) (hkey h)) hs"

lemma live_headers_simps [simp]:
  "live_headers [] = []"
  "live_headers (h # hs) = (case hkey h of None \<Rightarrow> live_headers hs | Some k \<Rightarrow> (k, hvalue h) # live_headers hs)"
  "live_headers (hs @ hs') = live_headers hs @ live_headers hs'"
  by (auto simp: live_headers_def map_filter_def split: option.splits)

text \<open>At most one entry has a given key, and the array has room for one more.\<close>

definition headers_wf :: "ParsedRequest \<Rightarrow> bool" where
  "headers_wf pr \<longleftrightarrow> distinct (map fst (live_headers (headers pr))) \<and> length (headers pr) < headerslen pr"

definition header_value :: "ParsedRequest \<Rightarrow> string \<Rightarrow> string option" where
  "header_value pr key = map_option (\<lambda>i. hvalue (headers pr ! i)) (ParsedHeader_get (headers pr) key)"

lemma ParsedHeader_get_nth:
  "ParsedHeader_get hs key = Some i \<Longrightarrow> i < length hs \<and> hkey (hs ! i) = Some key"
  by (induction hs arbitrary: i) (auto split: if_splits)

lemma ParsedHeader_get_live:
  "map_option (\<lambda>i. hvalue (hs ! i)) (ParsedHeader_get hs key) = map_of (live_headers hs) key"
  by (induction hs) (auto simp: option.map_comp o_def split: option.splits)

lemma header_value_live: "header_value pr = map_of (live_headers (headers pr))"
  by (rule ext) (simp add: header_value_def ParsedHeader_get_live)

lemma live_without:
  "key \<notin> fst ` set l \<Longrightarrow> filter (\<lambda>x. fst x \<noteq> key) l = l"
  by (induction l) auto

lemma ParsedHeader_get_none: "ParsedHeader_get hs key = None \<longleftrightarrow> key \<notin> fst ` set (live_headers hs)"
  using ParsedHeader_get_live [of hs key] by (metis map_of_eq_None_iff option.map_disc_iff)

lemma live_headers_update:
  assumes "ParsedHeader_get hs key = Some i" and "distinct (map fst (live_headers hs))"
  shows "live_headers (hs[i := (hs ! i)\<lparr>hkey := None\<rparr>]) = filter (\<lambda>x. fst x \<noteq> key) (live_headers hs)"
  using assms
proof (induction hs arbitrary: i)
  case (Cons h hs)
  show ?case
  proof (cases "hkey h = Some key")
    case True
    with Cons.prems show ?thesis by (auto simp: live_without)
  next
    case False
    with Cons.prems(1) obtain j where j: "ParsedHeader_get hs key = Some j" "i = Suc j" by auto
    have d: "distinct (map fst (live_headers hs))" using Cons.prems(2) by (auto split: option.splits)
    from Cons.IH [OF j(1) d] False j(2) show ?thesis by (auto split: option.splits)
  qed
qed simp

lemma remove_live:
  assumes "headers_wf pr"
  shows "live_headers (headers (snd (ParsedHeader_remove pr key))) = filter (\<lambda>x. fst x \<noteq> key) (live_headers (headers pr))"
    and "length (headers (snd (ParsedHeader_remove pr key))) = length (headers pr)"
    and "\<exists>hs. snd (ParsedHeader_remove pr key) = pr\<lparr>headers := hs\<rparr>"
proof -
  show "live_headers (headers (snd (ParsedHeader_remove pr key))) = filter (\<lambda>x. fst x \<noteq> key) (live_headers (headers pr))"
    using assms live_headers_update [of "headers pr" key]
    by (auto simp: ParsedHeader_remove_def headers_wf_def live_without ParsedHeader_get_none split: option.splits)
  show "length (headers (snd (ParsedHeader_remove pr key))) = length (headers pr)"
    by (simp add: ParsedHeader_remove_def split: option.splits)
  have "snd (ParsedHeader_remove pr key) = pr\<lparr>headers := headers (snd (ParsedHeader_remove pr key))\<rparr>"
    by (simp add: ParsedHeader_remove_def split: option.splits)
  then show "\<exists>hs. snd (ParsedHeader_remove pr key) = pr\<lparr>headers := hs\<rparr>" by blast
qed

text \<open>Storing a header moves its key to the end.\<close>

definition put_last :: "(string \<times> string) list \<Rightarrow> string \<times> string \<Rightarrow> (string \<times> string) list" where
  "put_last l kv = filter (\<lambda>x. fst x \<noteq> fst kv) l @ [kv]"

lemma set_live:
  assumes "headers_wf pr"
  shows "\<exists>hs n. ParsedHeader_set pr key val = Inr (pr\<lparr>headers := hs, headerslen := n\<rparr>)
    \<and> live_headers hs = put_last (live_headers (headers pr)) (key, val) \<and> headers_wf (pr\<lparr>headers := hs, headerslen := n\<rparr>)"
proof -
  obtain hs where hs: "snd (ParsedHeader_remove pr key) = pr\<lparr>headers := hs\<rparr>" using remove_live(3) [OF assms] by blast
  let ?n = "if headerslen pr \<le> length hs + 1 then headerslen pr * 2 else headerslen pr"
  let ?hs = "hs @ [\<lparr>hkey = Some key, keylen = length key + 1, hvalue = val, valuelen = length val + 1\<rparr>]"
  have l: "live_headers hs = filter (\<lambda>x. fst x \<noteq> key) (live_headers (headers pr))" "length hs = length (headers pr)"
    using remove_live(1,2) [OF assms, of key] by (simp_all add: hs)
  have n: "length (headers pr) < headerslen pr" and d: "distinct (map fst (live_headers (headers pr)))"
    using assms by (simp_all add: headers_wf_def)
  have room: "length ?hs < ?n" using n l(2) by auto
  have set: "ParsedHeader_set pr key val = Inr (pr\<lparr>headers := ?hs, headerslen := ?n\<rparr>)"
    using room unfolding ParsedHeader_set_def hs Let_def by auto
  have live: "live_headers ?hs = put_last (live_headers (headers pr)) (key, val)" by (simp add: l put_last_def)
  have "distinct (map fst (put_last (live_headers (headers pr)) (key, val)))"
    using d by (auto simp: put_last_def distinct_map_filter)
  with set live room show ?thesis
    by (intro exI [of _ ?hs] exI [of _ ?n]) (simp add: headers_wf_def)
qed

lemma map_of_filter_key: "map_of (filter (\<lambda>x. fst x \<noteq> k) l) = (map_of l)(k := None)"
  by (induction l) (auto simp: fun_eq_iff)

lemma map_of_put_last: "map_of (put_last l (k, v)) = (map_of l)(k \<mapsto> v)"
  by (simp add: put_last_def map_of_filter_key map_add_def fun_eq_iff split: option.splits)

section \<open>Headers as a map\<close>

lemma header_set_spec:
  assumes "headers_wf pr"
  shows "\<exists>pr'. ParsedHeader_set pr key val = Inr pr' \<and> headers_wf pr' \<and> header_value pr' = (header_value pr)(key \<mapsto> val)"
proof -
  obtain hs n where "ParsedHeader_set pr key val = Inr (pr\<lparr>headers := hs, headerslen := n\<rparr>)"
    "live_headers hs = put_last (live_headers (headers pr)) (key, val)" "headers_wf (pr\<lparr>headers := hs, headerslen := n\<rparr>)"
    using set_live [OF assms] by blast
  then show ?thesis by (auto simp: header_value_live map_of_put_last)
qed

lemma header_remove_spec:
  assumes "headers_wf pr"
  shows "headers_wf (snd (ParsedHeader_remove pr key))"
    and "header_value (snd (ParsedHeader_remove pr key)) = (header_value pr)(key := None)"
proof -
  obtain hs where hs: "snd (ParsedHeader_remove pr key) = pr\<lparr>headers := hs\<rparr>" using remove_live(3) [OF assms] by blast
  from remove_live(1,2) [OF assms, of key] assms show "headers_wf (snd (ParsedHeader_remove pr key))"
    by (auto simp: hs headers_wf_def distinct_map_filter)
  show "header_value (snd (ParsedHeader_remove pr key)) = (header_value pr)(key := None)"
    using remove_live(1) [OF assms, of key] by (simp add: header_value_live map_of_filter_key)
qed

interpretation hdrs: partial_map "\<lambda>_. True" headers_wf header_value ParsedHeader_set
  "\<lambda>pr key. Inr (snd (ParsedHeader_remove pr key))"
  by unfold_locales (use header_set_spec header_remove_spec in auto)

section \<open>The loop over the header lines\<close>

definition header_text :: "string \<times> string \<Rightarrow> string" where
  "header_text kv = fst kv @ '': '' @ snd kv @ CRLF"

definition headers_ok :: "(string \<times> string) list \<Rightarrow> bool" where
  "headers_ok hs \<longleftrightarrow> (\<forall>(k, v) \<in> set hs. plain '':'' k \<and> plain [] v)"

lemma ParsedHeader_parse_ok:
  assumes "plain '':'' k" and "plain [] v" and "NUL \<notin> set rest"
  shows "ParsedHeader_parse pr (pre @ header_text (k, v) @ rest @ NUL # post) (length pre) =
    bindR (ParsedHeader_set pr k v) (\<lambda>pr. Inr (0, pr))"
proof -
  let ?M = "pre @ header_text (k, v) @ rest @ NUL # post"
  note k = plainD(1) [OF assms(1)] plainD(3) [OF assms(1), of "CHR '':''"] and v = plainD(1,2) [OF assms(2)]
  have 1: "strstr ?M (length pre) '':'' = Inr (Some (length pre + length k))"
    using strstr_first [of "'':''" "CHR '':''" "[]" k "'' '' @ v @ CRLF @ rest" pre post] k v assms(3)
    by (simp add: header_text_def)
  have 2: "strstr ?M (length pre + length k + 2) CRLF = Inr (Some (length pre + length k + 2 + length v))"
    using strstr_first [of CRLF "CHR 0x0D" "[CHR 0x0A]" v rest "pre @ k @ '': ''" post] v assms(3)
    by (simp add: header_text_def)
  show ?thesis
    unfolding ParsedHeader_parse_def 1 bindR_simps option.case Let_def 2
    by (simp add: slice_def header_text_def)
qed

text \<open>The headers of the text, one after the other.\<close>

lemma header_loop_end:
  "header_loop pr (pre @ CRLF @ rest) (length pre) = Inr (0, pr)"
  using strncmp_append [of pre CRLF rest] by (simp add: header_loop.simps [of pr] nth_append)

lemma header_first:
  assumes "plain '':'' k"
  shows "(pre @ header_text (k, v) @ rest) ! length pre \<noteq> NUL"
    and "strncmp_at (pre @ header_text (k, v) @ rest) (length pre) CRLF = Inr False"
  using assms by (cases k; simp add: header_text_def nth_append)+

lemma header_loop_step:
  assumes "plain '':'' k" and "plain [] v" and "NUL \<notin> set rest" and "ParsedHeader_set pr k v = Inr pr'"
  shows "header_loop pr (pre @ header_text (k, v) @ rest @ NUL # post) (length pre) =
    header_loop pr' (pre @ header_text (k, v) @ rest @ NUL # post) (length (pre @ header_text (k, v)))"
proof -
  let ?M = "pre @ header_text (k, v) @ rest @ NUL # post"
  have kv: "CHR 0x0D \<notin> set (k @ '': '' @ v)" "NUL \<notin> set (k @ '': '' @ v)"
    using plainD(1,2) [OF assms(1)] plainD(1,2) [OF assms(2)] by simp_all
  have nl: "strstr ?M (length pre) CRLF = Inr (Some (length pre + length (k @ '': '' @ v)))"
    using strstr_first [of CRLF "CHR 0x0D" "[CHR 0x0A]" "k @ '': '' @ v" rest pre post] kv assms(3)
    by (simp add: header_text_def)
  have p: "ParsedHeader_parse pr ?M (length pre) = Inr (0, pr')"
    using ParsedHeader_parse_ok [OF assms(1-3)] assms(4) by simp
  have l: "length pre < length ?M" by (simp add: header_text_def)
  have e: "length pre + length (k @ '': '' @ v) + 2 = length (pre @ header_text (k, v))" by (simp add: header_text_def)
  show ?thesis
    unfolding header_loop.simps [of pr ?M] header_first(2) [OF assms(1)] bindR_simps p nl e [symmetric]
    using l header_first(1) [OF assms(1), of pre v "rest @ NUL # post"] by simp
qed

lemma header_text_no_nul: "headers_ok hs \<Longrightarrow> NUL \<notin> set (concat (map header_text hs))"
  by (induction hs) (auto simp: headers_ok_def header_text_def dest: plainD(1))

lemma header_loop_ok:
  assumes "headers_ok hs" and "headers_wf pr" and "NUL \<notin> set rest"
  shows "\<exists>hs' n. header_loop pr (pre @ concat (map header_text hs) @ CRLF @ rest @ NUL # post) (length pre)
      = Inr (0, pr\<lparr>headers := hs', headerslen := n\<rparr>)
    \<and> live_headers hs' = foldl put_last (live_headers (headers pr)) hs \<and> headers_wf (pr\<lparr>headers := hs', headerslen := n\<rparr>)"
  using assms(1,2)
proof (induction hs arbitrary: pr pre)
  case Nil
  have "pr = pr\<lparr>headers := headers pr, headerslen := headerslen pr\<rparr>" by simp
  with Nil show ?case by (metis header_loop_end append.simps(1) concat.simps(1) foldl.simps(1) list.map(1))
next
  case (Cons kv hs)
  obtain k v where kv: "kv = (k, v)" by (cases kv)
  have ok: "plain '':'' k" "plain [] v" "headers_ok hs" using Cons.prems(1) by (auto simp: kv headers_ok_def)
  obtain a n where set: "ParsedHeader_set pr k v = Inr (pr\<lparr>headers := a, headerslen := n\<rparr>)"
    "live_headers a = put_last (live_headers (headers pr)) (k, v)" "headers_wf (pr\<lparr>headers := a, headerslen := n\<rparr>)"
    using set_live [OF Cons.prems(2)] by blast
  let ?rest = "concat (map header_text hs) @ CRLF @ rest"
  have n: "NUL \<notin> set ?rest" using header_text_no_nul [OF ok(3)] assms(3) by simp
  note step = header_loop_step [OF ok(1,2) n set(1), of pre post]
  from Cons.IH [OF ok(3) set(3), of "pre @ header_text (k, v)"] show ?case
    using step set(2) by (simp add: kv)
qed

text \<open>A text with a key twice keeps the last value, at its place.\<close>

fun last_wins :: "(string \<times> string) list \<Rightarrow> (string \<times> string) list" where
  "last_wins [] = []"
| "last_wins (kv # hs) = (if fst kv \<in> fst ` set hs then last_wins hs else kv # last_wins hs)"

lemma foldl_put_last: "foldl put_last l hs = filter (\<lambda>x. fst x \<notin> fst ` set hs) l @ last_wins hs"
  by (induction hs arbitrary: l) (auto simp: put_last_def conj_commute)

lemma last_wins_distinct: "distinct (map fst hs) \<Longrightarrow> last_wins hs = hs"
  by (induction hs) auto

section \<open>Printing\<close>

lemma splice_splice_append:
  "off + length a + length b \<le> length dst \<Longrightarrow> splice (splice dst off a) (off + length a) b = splice dst off (a @ b)"
  by (cases a) (auto simp: splice_def min_def add.commute add.left_commute)

lemma put_str_ok: "off + length s \<le> length dst \<Longrightarrow> put_str dst off s = Inr (splice dst off s)"
  by (simp add: put_str_def)

lemma put_strs_ok:
  "off + length (concat ss) \<le> length dst \<Longrightarrow>
   put_strs dst off ss = Inr (splice dst off (concat ss), off + length (concat ss))"
proof (induction ss arbitrary: dst off)
  case (Cons s ss)
  then show ?case using splice_splice_append [of off s "concat ss" dst] by (simp add: put_str_ok)
qed (simp add: splice_def)

lemma print_headers_strs:
  "print_headers phs dst off =
     bindR (put_strs dst off (concat (map (\<lambda>(k, v). [k, '': '', v, CRLF]) (live_headers phs)) @ [CRLF])) (\<lambda>(dst, _). Inr dst)"
proof (induction phs arbitrary: dst off)
  case (Cons ph phs)
  show ?case
  proof (cases "hkey ph")
    case (Some k)
    show ?thesis by (simp add: Some Cons.IH bindR_assoc numeral_eq_Suc ac_simps)
  qed (simp add: Cons.IH)
qed (simp add: put_str_def)

definition headers_text :: "(string \<times> string) list \<Rightarrow> string" where
  "headers_text hs = concat (map header_text hs) @ CRLF"

lemma concat_header_text:
  "concat (concat (map (\<lambda>(k, v). [k, '': '', v, CRLF]) l) @ [CRLF]) = headers_text l"
  by (induction l) (auto simp: headers_text_def header_text_def)

lemma print_headers_ok:
  "off + length (headers_text (live_headers phs)) \<le> length dst \<Longrightarrow>
   print_headers phs dst off = Inr (splice dst off (headers_text (live_headers phs)))"
  unfolding print_headers_strs by (simp add: put_strs_ok concat_header_text del: concat_append)

lemma headersLen_text:
  "buf pr \<noteq> None \<Longrightarrow> ParsedHeader_headersLen pr = length (headers_text (live_headers (headers pr)))"
proof -
  have "foldl (\<lambda>len ph. len + ParsedHeader_lineLen ph) n phs + 2 = n + length (headers_text (live_headers phs))" for n phs
    by (induction phs arbitrary: n)
      (auto simp: headers_text_def header_text_def ParsedHeader_lineLen_def split: option.splits)
  then show "buf pr \<noteq> None \<Longrightarrow> ?thesis" by (auto simp: ParsedHeader_headersLen_def)
qed

section \<open>Requests\<close>

definition request_text ::
  "string \<Rightarrow> string \<Rightarrow> string \<Rightarrow> string option \<Rightarrow> string \<Rightarrow> string \<Rightarrow> (string \<times> string) list \<Rightarrow> string" where
  "request_text m p h t r v hs = line_text m p h t r v @ CRLF @ headers_text hs"

definition request_of ::
  "string \<Rightarrow> string \<Rightarrow> string \<Rightarrow> string option \<Rightarrow> string \<Rightarrow> string \<Rightarrow> ParsedRequest \<Rightarrow> bool" where
  "request_of m p h t r v pr \<longleftrightarrow> http_method pr = Some m \<and> protocol pr = Some p \<and> http_host pr = Some h
     \<and> port pr = t \<and> path pr = Some (''/'' @ r) \<and> version pr = Some (''HTTP/'' @ v) \<and> buf pr \<noteq> None"

lemma line_text_plain: "line_ok m p h t r v \<Longrightarrow> plain [] (line_text m p h t r v)"
  using plain_mono [of "'' ''" m "[]"] plain_mono [of "'' :/''" p "[]"] plain_mono [of "'' ''" r "[]"]
    plain_mono [OF authority_ok(1), of m p h t r v "[]"]
  by (simp add: line_text_def line_ok_def)

lemma headers_text_end: "\<exists>s. CRLF @ headers_text hs = s @ CRLF @ CRLF"
proof (cases hs rule: rev_cases)
  case (snoc hs' kv)
  then show ?thesis by (auto simp: headers_text_def header_text_def)
qed (simp add: headers_text_def)

lemma request_parse_ok:
  assumes "line_ok m p h t r v" and "headers_ok hs"
    and "length (request_text m p h t r v hs @ body) \<le> 65535"
  shows "\<exists>pr. ParsedRequest_parse ParsedRequest_create einval (request_text m p h t r v hs @ body)
        (int (length (request_text m p h t r v hs @ body))) = Inr (0, pr)
      \<and> request_of m p h t r v pr \<and> live_headers (headers pr) = last_wins hs \<and> headers_wf pr"
proof -
  let ?l = "line_text m p h t r v" and ?T = "request_text m p h t r v hs"
  obtain rest post where rest: "body @ [NUL] = rest @ NUL # post" "NUL \<notin> set rest"
    using split_list_first [of NUL "body @ [NUL]"] by auto
  have l: "NUL \<notin> set ?l" "CHR 0x0D \<notin> set ?l" using plainD(1,2) [OF line_text_plain [OF assms(1)]] by simp_all
  have n: "NUL \<notin> set (headers_text hs)" using header_text_no_nul [OF assms(2)] by (simp add: headers_text_def)
  have buf: "?T @ body @ [NUL] = ?l @ CRLF @ (headers_text hs @ rest) @ NUL # post"
    by (simp add: request_text_def rest)
  have 1: "strstr (?T @ body @ [NUL]) 0 CRLF = Inr (Some (length ?l))"
    unfolding buf using strstr_first [of CRLF "CHR 0x0D" "[CHR 0x0A]" ?l "headers_text hs @ rest" "[]" post] l n rest(2) by simp
  obtain s where s: "CRLF @ headers_text hs = s @ CRLF @ CRLF" using headers_text_end by blast
  have c: "cstr (?T @ body @ [NUL]) 0 = Inr ((?l @ s) @ (CRLF @ CRLF) @ rest)"
    unfolding buf using cstr_append [of "?l @ CRLF @ headers_text hs @ rest" "[]" post] l n rest(2) s by simp
  have 2: "\<exists>i. strstr (?T @ body @ [NUL]) 0 (CRLF @ CRLF) = Inr (Some i)"
    using find_sub_ex [of "CRLF @ CRLF" "?l @ s" rest] unfolding strstr_def c by auto
  let ?pr = "ParsedRequest_create\<lparr>buflen := length ?l + 1, http_method := Some m, protocol := Some p, http_host := Some h,
    port := t, path := Some (''/'' @ r), version := Some (''HTTP/'' @ v), buf := Some (?l @ [NUL])\<rparr>"
  have wf: "headers_wf ?pr" by (simp add: headers_wf_def ParsedRequest_create_def)
  obtain hs' k where loop: "header_loop ?pr (?T @ body @ [NUL]) (length ?l + 2) = Inr (0, ?pr\<lparr>headers := hs', headerslen := k\<rparr>)"
    "live_headers hs' = last_wins hs" "headers_wf (?pr\<lparr>headers := hs', headerslen := k\<rparr>)"
    using header_loop_ok [OF assms(2) wf rest(2), of "?l @ CRLF" post]
    by (auto simp: buf headers_text_def foldl_put_last ParsedRequest_create_def)
  have len: "\<not> (int (length (?T @ body)) < 4 \<or> int (length (?T @ body)) > 65535)"
    using assms(3) by (simp add: request_text_def headers_text_def)
  have t1: "take (length ?l) (?T @ body @ [NUL]) = ?l" by (simp add: buf)
  obtain i where i: "strstr (?T @ body @ [NUL]) 0 (CRLF @ CRLF) = Inr (Some i)" using 2 by blast
  have b: "buf ParsedRequest_create = None" by (simp add: ParsedRequest_create_def)
  have "ParsedRequest_parse ParsedRequest_create einval (?T @ body) (int (length (?T @ body)))
      = Inr (0, ?pr\<lparr>headers := hs', headerslen := k\<rparr>)"
    unfolding ParsedRequest_parse_def if_not_P [OF len] nat_int Let_def take_all [OF order_refl]
    using i 1 t1 loop(1) parse_line_ok [OF assms(1), of einval] by (simp add: b del: take_append)
  then show ?thesis using loop(2,3) by (auto simp: request_of_def)
qed

lemma requestLineLen_text:
  "request_of m p h t r v pr \<Longrightarrow> ParsedRequest_requestLineLen pr = Inr (length (line_text m p h t r v @ CRLF))"
  by (auto simp: ParsedRequest_requestLineLen_def request_of_def line_text_def authority_def split: option.splits)

lemma unparse_ok:
  assumes "request_of m p h t r v pr" and "len \<le> length dst"
    and "length (request_text m p h t r v (live_headers (headers pr))) \<le> len"
  shows "ParsedRequest_unparse pr dst len = Inr (0, splice dst 0 (request_text m p h t r v (live_headers (headers pr))))"
proof -
  let ?ls = "[m, '' '', p, ''://'', h] @ (case t of None \<Rightarrow> [] | Some t \<Rightarrow> ['':'', t]) @ [''/'' @ r, '' '', ''HTTP/'' @ v, CRLF]"
  let ?L = "line_text m p h t r v @ CRLF" and ?H = "headers_text (live_headers (headers pr))"
  have L: "concat ?ls = ?L" by (simp add: line_text_def authority_def split: option.splits)
  have f: "buf pr \<noteq> None" "http_method pr = Some m" "protocol pr = Some p" "http_host pr = Some h"
    "port pr = t" "path pr = Some (''/'' @ r)" "version pr = Some (''HTTP/'' @ v)"
    using assms(1) by (simp_all add: request_of_def)
  have n: "length ?L + length ?H \<le> len" using assms(3) by (simp add: request_text_def)
  have p: "put_strs dst 0 ?ls = Inr (splice dst 0 ?L, length ?L)"
    using put_strs_ok [of 0 ?ls dst] n assms(2) unfolding L by simp
  have 1: "ParsedRequest_printRequestLine pr dst len = Inr (0, splice dst 0 ?L, length ?L)"
    unfolding ParsedRequest_printRequestLine_def requestLineLen_text [OF assms(1)] bindR_simps f deref_simps p
    using n by simp
  have 2: "ParsedHeader_printHeaders pr (splice dst 0 ?L) (length ?L) (len - length ?L) = Inr (0, splice dst 0 (?L @ ?H))"
    unfolding ParsedHeader_printHeaders_def headersLen_text [OF f(1)]
    using n assms(2) print_headers_ok [of "length ?L" "headers pr" "splice dst 0 ?L"] splice_splice_append [of 0 ?L ?H dst]
    by simp
  show ?thesis unfolding ParsedRequest_unparse_def 1 bindR_simps prod.case 2 using f(1) by (simp add: request_text_def)
qed

lemma totalLen_text:
  "request_of m p h t r v pr \<Longrightarrow>
   ParsedRequest_totalLen pr = Inr (length (request_text m p h t r v (live_headers (headers pr))))"
  using requestLineLen_text [of m p h t r v pr]
  by (auto simp: ParsedRequest_totalLen_def headersLen_text request_text_def request_of_def)

end
