(* ===== verification/Http_Proxy.thy ===== *)
theory Http_Proxy
  imports Http_Headers
begin

text \<open>
  The proxy, \<^verbatim>\<open>proxy.c\<close>: one conversation with a client in its own process.  What a peer sends
  is a script of the results of \<open>recv\<close>, after which it has closed the connection; what \<open>send\<close>
  does is a script too, after which it takes everything.  Name resolution and the calls that open
  a socket are a parameter: they map a host and a port to what happens at each of its addresses.
\<close>

section \<open>Receiving\<close>

datatype recv_event = Data string | Recv_Intr | Recv_Error

abbreviation RECV_BUFFER_SIZE :: nat where "RECV_BUFFER_SIZE \<equiv> 2048"

definition event_size :: "recv_event \<Rightarrow> nat" where
  "event_size e = (case e of Data bs \<Rightarrow> Suc (length bs) | _ \<Rightarrow> 1)"

text \<open>Whether the last four characters read are an empty line.\<close>

definition blank_line_at :: "string \<Rightarrow> int \<Rightarrow> bool" where
  "blank_line_at buffer tot \<longleftrightarrow> tot \<ge> 4 \<and> slice buffer (nat tot - 4) 4 = CRLF @ CRLF"

text \<open>
  The result of the loop is the value returned, the buffer and the rest of the script.  An
  interrupted call adds its result, -1, to the count; the next read is then written one
  character too early, before the buffer if nothing has been read.
\<close>

function receive_from_socket :: "recv_event list \<Rightarrow> string \<Rightarrow> int \<Rightarrow> fault + int \<times> string \<times> recv_event list" where
  "receive_from_socket [] buffer tot = Inr (tot, buffer, [])"
| "receive_from_socket (Recv_Error # evs) buffer tot = Inr (-1, buffer, evs)"
| "receive_from_socket (Recv_Intr # evs) buffer tot =
     (if blank_line_at buffer (tot - 1) then Inr (-1, buffer, evs)
      else receive_from_socket evs buffer (tot - 1))"
| "receive_from_socket (Data bs # evs) buffer tot =
     (let n = nat (int RECV_BUFFER_SIZE - tot); got = take n bs; rest = drop n bs;
          evs' = (if rest = [] then evs else Data rest # evs)
      in if got = [] then Inr (tot, buffer, evs')
         else if tot < 0 \<or> nat tot + length got > length buffer then Inl OutOfBounds
         else let buffer = splice buffer (nat tot) got; tot = tot + int (length got)
              in if blank_line_at buffer tot then Inr (tot, buffer, evs')
                 else receive_from_socket evs' buffer tot)"
  by pat_completeness auto
termination
  by (relation "measure (\<lambda>(evs, _, _). sum_list (map event_size evs))") (auto simp: event_size_def)

declare receive_from_socket.simps [simp del]

section \<open>Sending\<close>

datatype send_event = Sent nat | Send_Intr | Send_Error

text \<open>
  The result is the value returned, what has gone out and the rest of the script.  An
  interrupted call takes one character back; before the first character it makes the next call
  read in front of the buffer.
\<close>

function send_to_socket :: "send_event list \<Rightarrow> string \<Rightarrow> int \<Rightarrow> string \<Rightarrow> fault + int \<times> string \<times> send_event list" where
  "send_to_socket evs buffer tot out =
     (if tot \<ge> int (length buffer) then Inr (0, out, evs)
      else if tot < 0 then Inl OutOfBounds
      else case evs of
             [] \<Rightarrow> Inr (0, out @ drop (nat tot) buffer, [])
           | Send_Error # evs \<Rightarrow> Inr (-1, out, evs)
           | Send_Intr # evs \<Rightarrow> send_to_socket evs buffer (tot - 1) out
           | Sent k # evs \<Rightarrow>
               (let chunk = take k (drop (nat tot) buffer)
                in send_to_socket evs buffer (tot + int (length chunk)) (out @ chunk)))"
  by pat_completeness auto
termination
  by (relation "measure (\<lambda>(evs, _, _, _). length evs)") auto

declare send_to_socket.simps [simp del]

section \<open>The request to the server\<close>

definition server_request :: "string \<Rightarrow> string \<Rightarrow> string" where
  "server_request pth host =
     ''GET '' @ pth @ '' HTTP/1.0'' @ CRLF @ ''Host: '' @ host @ CRLF @ ''Connection: close'' @ CRLF @ CRLF"

text \<open>\<open>snprintf\<close>: at most \<open>length buffer - 1\<close> characters and a null character; the length the text has.\<close>

definition snprintf :: "string \<Rightarrow> string \<Rightarrow> int \<times> string" where
  "snprintf buffer s =
     (int (length s), if buffer = [] then [] else splice buffer 0 (take (length buffer - 1) s @ [NUL]))"

text \<open>The result is the value returned, the buffer and the parsed request if it is kept.\<close>

definition parse_request :: "bool \<Rightarrow> string \<Rightarrow> int \<Rightarrow> fault + int \<times> string \<times> ParsedRequest option" where
  "parse_request einval buffer req_len =
     bindR (ParsedRequest_parse ParsedRequest_create einval buffer req_len) (\<lambda>(rc, req).
       if rc < 0 then Inr (-400, buffer, None)
       else let req = (if port req = None then req\<lparr>port := Some ''80''\<rparr> else req)
            in bindR (deref (http_method req)) (\<lambda>m.
                 if m \<noteq> ''GET'' then Inr (-501, buffer, None)
                 else bindR (deref (path req)) (\<lambda>pth.
                      bindR (deref (http_host req)) (\<lambda>host.
                        let (len, out) = snprintf buffer (server_request pth host)
                        in if len < 0 \<or> len \<ge> int (length buffer) then Inr (-1, out, None)
                           else Inr (len, out, Some req)))))"

section \<open>Opening sockets\<close>

text \<open>
  What the system calls do for one address of the list that \<open>getaddrinfo\<close> returns: no socket, an
  option that cannot be set, an address that cannot be bound or connected, or a socket to use.
  The first usable socket is taken; those that fail are closed.
\<close>

datatype 'c attempt = No_Socket | No_Option | Refused | Ready 'c

fun find_server_socket_binding :: "'c attempt list \<Rightarrow> 'c option" where
  "find_server_socket_binding [] = None"
| "find_server_socket_binding (a # as) =
     (case a of
        No_Socket \<Rightarrow> find_server_socket_binding as
      | No_Option \<Rightarrow> find_server_socket_binding as
      | Refused \<Rightarrow> find_server_socket_binding as
      | Ready c \<Rightarrow> Some c)"

text \<open>Clients set no option.\<close>

fun find_client_socket_binding :: "'c attempt list \<Rightarrow> 'c option" where
  "find_client_socket_binding [] = None"
| "find_client_socket_binding (a # as) =
     (case a of Ready c \<Rightarrow> Some c | _ \<Rightarrow> find_client_socket_binding as)"

text \<open>\<open>resolve\<close> stands for \<open>getaddrinfo\<close> and the system calls; \<open>listens\<close> for the result of \<open>listen\<close>.\<close>

definition proxy_server_socket_setup ::
  "(string \<Rightarrow> string \<Rightarrow> 'c attempt list option) \<Rightarrow> ('c \<Rightarrow> bool) \<Rightarrow> string \<Rightarrow> 'c option" where
  "proxy_server_socket_setup resolve listens proxy_port =
     (case resolve ''127.0.0.1'' proxy_port of
        None \<Rightarrow> None
      | Some servinfo \<Rightarrow>
          (case find_server_socket_binding servinfo of
             None \<Rightarrow> None
           | Some sockfd \<Rightarrow> if listens sockfd then Some sockfd else None))"

definition proxy_client_socket_setup ::
  "(string \<Rightarrow> string \<Rightarrow> 'c attempt list option) \<Rightarrow> string \<Rightarrow> string \<Rightarrow> 'c option" where
  "proxy_client_socket_setup resolve server_ip server_port =
     (case resolve server_ip server_port of None \<Rightarrow> None | Some servinfo \<Rightarrow> find_client_socket_binding servinfo)"

section \<open>A conversation\<close>

text \<open>
  The ends of the connections: what they send, what sending to them does, and what has been
  sent to them.  The buffers start with whatever is on the stack.
\<close>

record peer =
  script_in :: "recv_event list"
  script_out :: "send_event list"
  outbox :: string

definition bad_request :: string where
  "bad_request = ''HTTP/1.0 400 Bad Request'' @ CRLF @ CRLF"

definition not_implemented :: string where
  "not_implemented = ''HTTP/1.0 501 Not Implemented'' @ CRLF @ CRLF"

text \<open>Sending to a peer.\<close>

definition send_peer :: "peer \<Rightarrow> string \<Rightarrow> fault + int \<times> peer" where
  "send_peer p buffer =
     bindR (send_to_socket (script_out p) buffer 0 (outbox p)) (\<lambda>(rc, out, evs).
       Inr (rc, p\<lparr>script_out := evs, outbox := out\<rparr>))"

definition receive_peer :: "peer \<Rightarrow> string \<Rightarrow> fault + int \<times> string \<times> peer" where
  "receive_peer p buffer =
     bindR (receive_from_socket (script_in p) buffer 0) (\<lambda>(n, buffer, evs). Inr (n, buffer, p\<lparr>script_in := evs\<rparr>))"

text \<open>The second half of a conversation: the request goes to the server, its answer to the client.\<close>

definition relay :: "peer \<Rightarrow> peer \<Rightarrow> string \<Rightarrow> string \<Rightarrow> fault + int \<times> peer \<times> peer option" where
  "relay client server request server_buffer =
     bindR (send_peer server request) (\<lambda>(rc, server).
       if rc < 0 then Inr (-1, client, Some server)
       else bindR (receive_peer server server_buffer) (\<lambda>(n, server_buffer, server).
              if n < 0 then Inr (-1, client, Some server)
              else bindR (send_peer client (take (nat n) server_buffer)) (\<lambda>(rc, client).
                     Inr (if rc < 0 then -1 else 0, client, Some server))))"

definition chat_with_client ::
  "(string \<Rightarrow> string \<Rightarrow> peer attempt list option) \<Rightarrow> bool \<Rightarrow> peer \<Rightarrow> string \<Rightarrow> string \<Rightarrow> fault + int \<times> peer \<times> peer option" where
  "chat_with_client resolve einval client client_buffer server_buffer =
     bindR (receive_peer client client_buffer) (\<lambda>(n, client_buffer, client).
       if n < 0 then Inr (-1, client, None)
       else bindR (parse_request einval client_buffer n) (\<lambda>(req_len, client_buffer, req).
              if req_len < 0 then
                if req_len = -400 then bindR (send_peer client bad_request) (\<lambda>(_, client). Inr (-1, client, None))
                else if req_len = -501 then bindR (send_peer client not_implemented) (\<lambda>(_, client). Inr (-1, client, None))
                else Inr (-1, client, None)
              else bindR (deref req) (\<lambda>req.
                   bindR (deref (http_host req)) (\<lambda>host.
                   bindR (deref (port req)) (\<lambda>prt.
                     case proxy_client_socket_setup resolve host prt of
                       None \<Rightarrow> Inr (-1, client, None)
                     | Some server \<Rightarrow> relay client server (take (nat req_len) client_buffer) server_buffer)))))"

end
