(* ===== verification/Http_Proxy_Props.thy ===== *)
theory Http_Proxy_Props
  imports Http_Proxy "HOL-Library.Sublist"
begin

text \<open>
  What a conversation of the proxy does: receiving puts the pieces of a stream together, sending
  gets everything out, and an answer of the server reaches the client up to the first piece that
  ends in an empty line.
\<close>

section \<open>Sending\<close>

definition undisturbed :: "send_event list \<Rightarrow> bool" where
  "undisturbed evs \<longleftrightarrow> (\<forall>e \<in> set evs. case e of Sent k \<Rightarrow> True | _ \<Rightarrow> False)"

lemma send_all:
  assumes "undisturbed evs" and "k \<le> length buffer"
  shows "\<exists>evs'. send_to_socket evs buffer (int k) out = Inr (0, out @ drop k buffer, evs')"
  using assms
proof (induction evs arbitrary: k out)
  case Nil
  then show ?case by (simp add: send_to_socket.simps)
next
  case (Cons e evs)
  obtain j where e: "e = Sent j" and u: "undisturbed evs"
    using Cons.prems(1) by (cases e) (auto simp: undisturbed_def)
  let ?c = "take j (drop k buffer)"
  show ?case
  proof (cases "k = length buffer")
    case False
    have le: "k + length ?c \<le> length buffer" using Cons.prems(2) by simp
    have "drop (k + length ?c) buffer = drop j (drop k buffer)" by (simp add: min_def add.commute)
    then have "drop k buffer = ?c @ drop (k + length ?c) buffer"
      using append_take_drop_id [of j "drop k buffer"] by metis
    then show ?thesis
      using Cons.IH [OF u le, of "out @ ?c"] False Cons.prems(2)
      by (subst send_to_socket.simps) (simp add: e Let_def)
  qed (simp add: send_to_socket.simps)
qed

lemma send_peer_all:
  "undisturbed (script_out p) \<Longrightarrow> \<exists>p'. send_peer p buffer = Inr (0, p') \<and> outbox p' = outbox p @ buffer \<and> script_in p' = script_in p"
  using send_all [of "script_out p" 0 buffer "outbox p"] by (auto simp: send_peer_def)

section \<open>Receiving\<close>

abbreviation blank :: string where "blank \<equiv> CRLF @ CRLF"

lemma blank_line_at_suffix:
  assumes "take (length s) buffer = s"
  shows "blank_line_at buffer (int (length s)) \<longleftrightarrow> suffix blank s"
proof -
  obtain rest where b: "buffer = s @ rest" using assms by (metis append_take_drop_id)
  have "slice buffer (length s - 4) 4 = drop (length s - 4) s" if "4 \<le> length s"
    using that by (simp add: b slice_def)
  moreover have "suffix blank s \<longleftrightarrow> 4 \<le> length s \<and> drop (length s - 4) s = blank"
    by (auto simp: suffix_def) (metis append_take_drop_id)
  ultimately show ?thesis by (auto simp: blank_line_at_def)
qed

lemma receive_piece:
  assumes "length buffer = RECV_BUFFER_SIZE" and "take (length got) buffer = got"
    and "c \<noteq> []" and "length (got @ c) \<le> RECV_BUFFER_SIZE"
  defines "buffer' \<equiv> splice buffer (length got) c"
  shows "receive_from_socket (Data c # evs) buffer (int (length got)) =
      (if suffix blank (got @ c) then Inr (int (length (got @ c)), buffer', evs)
       else receive_from_socket evs buffer' (int (length (got @ c))))"
    and "length buffer' = RECV_BUFFER_SIZE" and "take (length (got @ c)) buffer' = got @ c"
proof -
  show l: "length buffer' = RECV_BUFFER_SIZE" and t: "take (length (got @ c)) buffer' = got @ c"
    using assms(1,2,4) by (simp_all add: buffer'_def splice_def)
  have n: "nat (int RECV_BUFFER_SIZE - int (length got)) = RECV_BUFFER_SIZE - length got" by (simp add: nat_diff_distrib)
  have d: "take (RECV_BUFFER_SIZE - length got) c = c" "drop (RECV_BUFFER_SIZE - length got) c = []"
    using assms(4) by simp_all
  have i: "int (length got) + int (length c) = int (length (got @ c))" by simp
  show "receive_from_socket (Data c # evs) buffer (int (length got)) =
      (if suffix blank (got @ c) then Inr (int (length (got @ c)), buffer', evs)
       else receive_from_socket evs buffer' (int (length (got @ c))))"
    unfolding receive_from_socket.simps Let_def n d nat_int i buffer'_def [symmetric] blank_line_at_suffix [OF t]
    using assms(1,3,4) by simp
qed

text \<open>The pieces of a stream, none of which but the last ends in an empty line.\<close>

fun no_early_end :: "string \<Rightarrow> string list \<Rightarrow> bool" where
  "no_early_end got [] \<longleftrightarrow> True"
| "no_early_end got [c] \<longleftrightarrow> True"
| "no_early_end got (c # cs) \<longleftrightarrow> \<not> suffix blank (got @ c) \<and> no_early_end (got @ c) cs"

lemma receive_pieces:
  assumes "length buffer = RECV_BUFFER_SIZE" and "take (length got) buffer = got" and "[] \<notin> set cs"
    and "length (got @ concat cs) \<le> RECV_BUFFER_SIZE" and "no_early_end got cs"
  shows "\<exists>b. receive_from_socket (map Data cs) buffer (int (length got)) = Inr (int (length (got @ concat cs)), b, [])
    \<and> length b = RECV_BUFFER_SIZE \<and> take (length (got @ concat cs)) b = got @ concat cs"
  using assms
proof (induction cs arbitrary: got buffer)
  case Nil
  then show ?case by (simp add: receive_from_socket.simps)
next
  case (Cons c cs)
  have c: "c \<noteq> []" "length (got @ c) \<le> RECV_BUFFER_SIZE" "[] \<notin> set cs" using Cons.prems(3,4) by auto
  note piece = receive_piece [OF Cons.prems(1,2) c(1,2)]
  show ?case
  proof (cases "suffix blank (got @ c)")
    case True
    with Cons.prems(5) have "cs = []" by (cases cs) auto
    then show ?thesis using piece(1) [of "[]"] piece(2,3) True by auto
  next
    case False
    have "no_early_end (got @ c) cs" using Cons.prems(5) by (cases cs) auto
    from Cons.IH [OF piece(2,3) c(3) _ this] Cons.prems(4) show ?thesis
      using piece(1) [of "map Data cs"] False by simp
  qed
qed

lemma find_sub_least: "\<exists>i. find_sub pat (p @ pat @ q) = Some i \<and> i \<le> length p"
proof (induction p)
  case Nil
  show ?case by (cases pat; cases q) simp_all
next
  case (Cons a p)
  then show ?case by auto
qed

lemma find_sub_split: "find_sub pat s \<noteq> None \<Longrightarrow> \<exists>u w. s = u @ pat @ w"
proof (induction s)
  case (Cons c s)
  show ?case
  proof (cases "take (length pat) (c # s) = pat")
    case True
    then show ?thesis by (metis append_Nil append_take_drop_id)
  next
    case False
    with Cons obtain u w where "s = u @ pat @ w" by auto
    then have "c # s = (c # u) @ pat @ w" by simp
    then show ?thesis by blast
  qed
qed (auto split: if_splits)

text \<open>Where the first empty line of a stream is at its end, or there is none, no piece but the last ends in one.\<close>

lemma no_early_end_first:
  assumes "\<And>i. find_sub blank (got @ concat cs) = Some i \<Longrightarrow> length (got @ concat cs) \<le> i + 4" and "[] \<notin> set cs"
  shows "no_early_end got cs"
  using assms
proof (induction got cs rule: no_early_end.induct)
  case (3 got c d cs)
  have "\<not> suffix blank (got @ c)"
  proof
    assume "suffix blank (got @ c)"
    then obtain p where p: "got @ c = p @ blank" by (auto simp: suffix_def)
    obtain i where "find_sub blank (p @ blank @ d @ concat cs) = Some i" "i \<le> length p" using find_sub_least by blast
    moreover have "got @ concat (c # d # cs) = p @ blank @ d @ concat cs" using p by (simp flip: append_assoc)
    ultimately have "find_sub blank (got @ concat (c # d # cs)) = Some i" "i \<le> length p" by metis+
    with 3(2) have "length (got @ concat (c # d # cs)) \<le> length p + 4" by (meson add_le_mono1 le_trans)
    moreover have "length (got @ c) = length p + 4" using p by simp
    ultimately show False using 3(3) by (cases d) simp_all
  qed
  moreover have "no_early_end (got @ c) (d # cs)" using 3(1) [of] 3(2,3) by simp
  ultimately show ?case by simp
qed simp_all

lemma find_blank_skip:
  assumes "CHR 0x0D \<notin> set l" and "rest \<noteq> []" and "hd rest \<noteq> CHR 0x0D"
  shows "find_sub blank (l @ CRLF @ rest) = map_option ((+) (length l + 2)) (find_sub blank rest)"
  using assms(1)
proof (induction l)
  case Nil
  obtain c cs where "rest = c # cs" using assms(2) by (cases rest) auto
  with assms(3) show ?case by (auto simp: option.map_comp o_def)
next
  case (Cons a l)
  then show ?case by (auto simp: option.map_comp o_def)
qed

lemma find_blank_headers:
  assumes "headers_ok hs" and "CHR 0x0D \<notin> set l"
  shows "find_sub blank (l @ CRLF @ headers_text hs) = Some (length (l @ CRLF @ headers_text hs) - 4)"
  using assms
proof (induction hs arbitrary: l)
  case Nil
  then show ?case using find_sub_first [of blank "CHR 0x0D" "[CHR 0x0A] @ CRLF" l "[]"] by (simp add: headers_text_def)
next
  case (Cons kv hs)
  obtain k v where kv: "kv = (k, v)" by (cases kv)
  let ?l = "k @ '': '' @ v"
  have ok: "headers_ok hs" "plain '':'' k" "plain [] v" using Cons.prems(1) by (auto simp: kv headers_ok_def)
  have l: "CHR 0x0D \<notin> set ?l" using plainD(2) [OF ok(2)] plainD(2) [OF ok(3)] by simp
  have t: "headers_text (kv # hs) = ?l @ CRLF @ headers_text hs" by (simp add: kv headers_text_def header_text_def)
  have h: "hd (?l @ CRLF @ headers_text hs) \<noteq> CHR 0x0D" using l by (cases k) auto
  have "4 \<le> length (?l @ CRLF @ headers_text hs)" by (simp add: headers_text_def)
  then show ?case
    unfolding t using Cons.IH [OF ok(1) l] find_blank_skip [OF Cons.prems(2) _ h] by simp
qed

lemma request_no_early_end:
  assumes "line_ok m p h t r v" and "headers_ok hs" and "concat cs = request_text m p h t r v hs" and "[] \<notin> set cs"
  shows "no_early_end [] cs"
proof (rule no_early_end_first [OF _ assms(4)])
  fix i
  have "CHR 0x0D \<notin> set (line_text m p h t r v)" using plainD(2) [OF line_text_plain [OF assms(1)]] .
  from find_blank_headers [OF assms(2) this]
  show "find_sub blank ([] @ concat cs) = Some i \<Longrightarrow> length ([] @ concat cs) \<le> i + 4"
    by (auto simp: assms(3) request_text_def)
qed

lemma receive_peer_pieces:
  assumes "script_in p = map Data cs" and "length buffer = RECV_BUFFER_SIZE" and "[] \<notin> set cs"
    and "length (concat cs) \<le> RECV_BUFFER_SIZE" and "no_early_end [] cs"
  shows "\<exists>b. receive_peer p buffer = Inr (int (length (concat cs)), b, p\<lparr>script_in := []\<rparr>)
    \<and> length b = RECV_BUFFER_SIZE \<and> take (length (concat cs)) b = concat cs"
  using receive_pieces [of buffer "[]" cs] assms(2-) by (auto simp: receive_peer_def assms(1))

section \<open>The request\<close>

lemma parse_take:
  "n \<le> length buffer \<Longrightarrow>
   ParsedRequest_parse pr einval buffer (int n) = ParsedRequest_parse pr einval (take n buffer) (int n)"
  by (simp add: ParsedRequest_parse_def)

definition default_port :: "string option \<Rightarrow> string" where
  "default_port t = (case t of None \<Rightarrow> ''80'' | Some s \<Rightarrow> s)"

lemma parse_buffer_ok:
  assumes "line_ok m p h t r v" and "headers_ok hs" and "length buffer = RECV_BUFFER_SIZE"
    and "take (length (request_text m p h t r v hs)) buffer = request_text m p h t r v hs"
    and "length (request_text m p h t r v hs) \<le> RECV_BUFFER_SIZE"
  shows "\<exists>pr. ParsedRequest_parse ParsedRequest_create einval buffer (int (length (request_text m p h t r v hs))) = Inr (0, pr)
    \<and> request_of m p h t r v pr"
  using request_parse_ok [OF assms(1,2), of "[]" einval] parse_take [of "length (request_text m p h t r v hs)" buffer] assms(3-)
  by auto

lemma snprintf_take:
  "length s < length buffer \<Longrightarrow> snprintf buffer s = (int (length s), splice buffer 0 (s @ [NUL])) \<and>
     take (length s) (splice buffer 0 (s @ [NUL])) = s"
  by (auto simp: snprintf_def splice_def)

lemma parse_request_ok:
  assumes "line_ok ''GET'' p h t r v" and "headers_ok hs" and "length buffer = RECV_BUFFER_SIZE"
    and "take (length (request_text ''GET'' p h t r v hs)) buffer = request_text ''GET'' p h t r v hs"
    and "length (request_text ''GET'' p h t r v hs) \<le> RECV_BUFFER_SIZE"
    and "length (server_request (''/'' @ r) h) < RECV_BUFFER_SIZE"
  shows "\<exists>b pr. parse_request einval buffer (int (length (request_text ''GET'' p h t r v hs)))
      = Inr (int (length (server_request (''/'' @ r) h)), b, Some pr)
    \<and> take (length (server_request (''/'' @ r) h)) b = server_request (''/'' @ r) h
    \<and> http_host pr = Some h \<and> port pr = Some (default_port t)"
proof -
  obtain pr where pr: "ParsedRequest_parse ParsedRequest_create einval buffer
      (int (length (request_text ''GET'' p h t r v hs))) = Inr (0, pr)" "request_of ''GET'' p h t r v pr"
    using parse_buffer_ok [OF assms(1-5)] by blast
  have f: "http_method pr = Some ''GET''" "path pr = Some (''/'' @ r)" "http_host pr = Some h" "port pr = t"
    using pr(2) by (simp_all add: request_of_def)
  let ?pr = "if port pr = None then pr\<lparr>port := Some ''80''\<rparr> else pr"
  have g: "http_method ?pr = Some ''GET''" "path ?pr = Some (''/'' @ r)" "http_host ?pr = Some h" "port ?pr = Some (default_port t)"
    using f by (auto simp: default_port_def)
  note sn = snprintf_take [of "server_request (''/'' @ r) h" buffer, unfolded assms(3), OF assms(6)]
  show ?thesis
    unfolding parse_request_def pr(1) bindR_simps prod.case Let_def g deref_simps sn [THEN conjunct1]
    using sn assms(3,6) g(3,4) by auto
qed

section \<open>Conversations\<close>

text \<open>What the client gets is what receiving from the server puts into the buffer.\<close>

lemma relay_receives:
  assumes "undisturbed (script_out client)" and "undisturbed (script_out server)"
    and "\<And>p. script_in p = script_in server \<Longrightarrow>
      \<exists>b. receive_peer p sbuf = Inr (int (length answer), b, p\<lparr>script_in := evs\<rparr>) \<and> take (length answer) b = answer"
  shows "\<exists>client' server'. relay client server request sbuf = Inr (0, client', Some server')
    \<and> outbox client' = outbox client @ answer \<and> outbox server' = outbox server @ request \<and> script_in server' = evs"
proof -
  obtain s where s: "send_peer server request = Inr (0, s)" "outbox s = outbox server @ request" "script_in s = script_in server"
    using send_peer_all [OF assms(2)] by blast
  obtain b where b: "receive_peer s sbuf = Inr (int (length answer), b, s\<lparr>script_in := evs\<rparr>)" "take (length answer) b = answer"
    using assms(3) [OF s(3)] by blast
  obtain c where "send_peer client answer = Inr (0, c)" "outbox c = outbox client @ answer"
    using send_peer_all [OF assms(1)] by blast
  then show ?thesis by (auto simp: relay_def s b)
qed

lemma chat_get:
  assumes "line_ok ''GET'' p h t r v" and "headers_ok hs" and "concat cs = request_text ''GET'' p h t r v hs" and "[] \<notin> set cs"
    and "length (concat cs) \<le> RECV_BUFFER_SIZE" and "length (server_request (''/'' @ r) h) < RECV_BUFFER_SIZE"
    and "length cbuf = RECV_BUFFER_SIZE" and "script_in client = map Data cs" and "proxy_client_socket_setup resolve h (default_port t) = Some server"
  shows "chat_with_client resolve einval client cbuf sbuf =
    relay (client\<lparr>script_in := []\<rparr>) server (server_request (''/'' @ r) h) sbuf"
proof -
  obtain b where b: "receive_peer client cbuf = Inr (int (length (concat cs)), b, client\<lparr>script_in := []\<rparr>)"
    "length b = RECV_BUFFER_SIZE" "take (length (concat cs)) b = concat cs"
    using receive_peer_pieces [OF assms(8,7,4,5) request_no_early_end [OF assms(1-4)]] by blast
  obtain b' pr where pr: "parse_request einval b (int (length (concat cs))) = Inr (int (length (server_request (''/'' @ r) h)), b', Some pr)"
    "take (length (server_request (''/'' @ r) h)) b' = server_request (''/'' @ r) h"
    "http_host pr = Some h" "port pr = Some (default_port t)"
    using parse_request_ok [OF assms(1,2) b(2) _ _ assms(6)] b(3) assms(3,5) by metis
  show ?thesis unfolding chat_with_client_def b(1) bindR_simps prod.case pr(1) using pr(2-4) assms(9) by simp
qed

text \<open>Requests the proxy answers itself.\<close>

lemma chat_refused:
  assumes "receive_peer client cbuf = Inr (int n, b, c)" and "parse_request einval b (int n) = Inr (code, b, None)"
    and "code = -400 \<and> answer = bad_request \<or> code = -501 \<and> answer = not_implemented" and "undisturbed (script_out c)"
  shows "\<exists>client'. chat_with_client resolve einval client cbuf sbuf = Inr (-1, client', None) \<and> outbox client' = outbox c @ answer"
  using send_peer_all [OF assms(4), of answer] assms(3)
  by (auto simp: chat_with_client_def assms(1,2))

lemma parse_request_no_end:
  assumes "length b = RECV_BUFFER_SIZE" and "n \<le> RECV_BUFFER_SIZE" and "find_sub blank (take n b) = None"
  shows "parse_request einval b (int n) = Inr (-400, b, None)"
proof -
  let ?s = "takeWhile (\<lambda>c. c \<noteq> NUL) (take n b @ [NUL])"
  have "prefix ?s (take n b)"
    by (simp add: takeWhile_tail takeWhile_is_prefix)
  then obtain q where q: "take n b = ?s @ q" by (auto simp: prefix_def)
  have "find_sub blank ?s = None"
  proof (rule ccontr)
    assume "find_sub blank ?s \<noteq> None"
    then obtain u w where "?s = u @ blank @ w" using find_sub_split by blast
    with q have "take n b = u @ blank @ (w @ q)" by simp
    with find_sub_least [of blank u "w @ q"] assms(3) show False by auto
  qed
  then have "strstr (take n b @ [NUL]) 0 blank = Inr None" by (simp add: strstr_def cstr_def)
  then have "ParsedRequest_parse ParsedRequest_create einval b (int n) = Inr (-1, ParsedRequest_create)"
    using assms(1,2) by (simp add: ParsedRequest_parse_def ParsedRequest_create_def)
  then show ?thesis by (simp add: parse_request_def)
qed

end
