(* ===== verification/Http_Claims.thy ===== *)
theory Http_Claims
  imports Http_Proxy_Props
begin

text \<open>What the request parser and the proxy promise, and where they fall short of it.\<close>

section \<open>The parser\<close>

lemmas text_defs = request_text_def line_text_def authority_def headers_text_def header_text_def

text \<open>
  C20: A request text (request line with method, absolute address and version, header lines, empty
  line) of at most 65535 characters is accepted, whatever follows it.  Printing the parsed request into a buffer of
  exactly the length the parser reports gives the same text back, where a key that occurs twice
  keeps its last value.
\<close>

theorem request_round_trip:
  assumes "line_ok m p h t r v" and "headers_ok hs" and "length (request_text m p h t r v hs @ body) \<le> 65535"
  shows "\<exists>pr n. ParsedRequest_parse ParsedRequest_create einval (request_text m p h t r v hs @ body)
        (int (length (request_text m p h t r v hs @ body))) = Inr (0, pr)
      \<and> ParsedRequest_totalLen pr = Inr n
      \<and> ParsedRequest_unparse pr (replicate n NUL) n = Inr (0, request_text m p h t r v (last_wins hs))
      \<and> (distinct (map fst hs) \<longrightarrow> last_wins hs = hs)"
proof -
  obtain pr where pr: "ParsedRequest_parse ParsedRequest_create einval (request_text m p h t r v hs @ body)
      (int (length (request_text m p h t r v hs @ body))) = Inr (0, pr)"
    "request_of m p h t r v pr" "live_headers (headers pr) = last_wins hs"
    using request_parse_ok [OF assms] by blast
  let ?n = "length (request_text m p h t r v (last_wins hs))"
  have n: "ParsedRequest_totalLen pr = Inr ?n" using totalLen_text [OF pr(2)] by (simp add: pr(3))
  have "ParsedRequest_unparse pr (replicate ?n NUL) ?n = Inr (0, request_text m p h t r v (last_wins hs))"
    using unparse_ok [OF pr(2), of ?n "replicate ?n NUL"] by (simp add: pr(3) splice_def)
  with pr(1) n show ?thesis using last_wins_distinct [of hs] by blast
qed

theorem request_round_trip_witness:
  "\<exists>pr n. ParsedRequest_parse ParsedRequest_create True
        (request_text ''GET'' ''http'' ''host'' (Some ''8080'') ''a/b'' ''1.0'' [(''A'', ''x y''), (''B'', ''1''), (''A'', ''z'')] @ ''body'')
        (int (length (request_text ''GET'' ''http'' ''host'' (Some ''8080'') ''a/b'' ''1.0'' [(''A'', ''x y''), (''B'', ''1''), (''A'', ''z'')] @ ''body'')))
        = Inr (0, pr)
      \<and> ParsedRequest_totalLen pr = Inr n
      \<and> ParsedRequest_unparse pr (replicate n NUL) n =
          Inr (0, request_text ''GET'' ''http'' ''host'' (Some ''8080'') ''a/b'' ''1.0'' [(''B'', ''1''), (''A'', ''z'')])"
proof -
  have l: "line_ok ''GET'' ''http'' ''host'' (Some ''8080'') ''a/b'' ''1.0''" by code_simp
  have h: "headers_ok [(''A'', ''x y''), (''B'', ''1''), (''A'', ''z'')]" by code_simp
  have n: "length (request_text ''GET'' ''http'' ''host'' (Some ''8080'') ''a/b'' ''1.0'' [(''A'', ''x y''), (''B'', ''1''), (''A'', ''z'')] @ ''body'') \<le> 65535"
    by (simp add: text_defs)
  have e: "last_wins [(''A'', ''x y''), (''B'', ''1''), (''A'', ''z'')] = [(''B'', ''1''), (''A'', ''z'')]" by code_simp
  show ?thesis using request_round_trip [OF l h n, of True] unfolding e by blast
qed

text \<open>
  C38: The header operations behave as a finite map from keys to values: any sequence of settings
  and removals on a new request succeeds, the array grows as needed, and looking a key up gives the
  value of the last setting that has not been removed.
\<close>

theorem headers_refine_map:
  "\<exists>pr. hdrs.updates ParsedRequest_create ops = Inr pr
     \<and> header_value pr = foldl (\<lambda>m (k, v). m(k := v)) Map.empty ops \<and> length (headers pr) < headerslen pr"
proof -
  have "headers_wf ParsedRequest_create" "header_value ParsedRequest_create = Map.empty"
    by (simp_all add: headers_wf_def ParsedRequest_create_def header_value_live)
  then show ?thesis using hdrs.updates_refine [of ParsedRequest_create ops] by (auto simp: headers_wf_def)
qed

text \<open>
  A request line without a version makes the parser read past the end of its copy of the line: the
  test for a missing version compares an address that is never null.
\<close>

theorem missing_version_out_of_bounds:
  assumes "m \<noteq> []" and "plain '' '' m" and "a \<noteq> []" and "plain '' '' a"
  shows "parse_line (m @ '' '' @ a @ [NUL]) einval = Inl OutOfBounds"
proof -
  have m: "NUL \<notin> set m" "\<forall>c \<in> set m. c \<notin> set '' ''" and a: "NUL \<notin> set a" "\<forall>c \<in> set a. c \<notin> set '' ''"
    using plainD(1,3) [OF assms(2)] plainD(1,3) [OF assms(4)] by blast+
  have 1: "strtok_r (m @ '' '' @ a @ [NUL]) 0 '' '' = Inr (Some 0, m @ NUL # a @ [NUL], length m + 1)"
    using strtok_token [of "[]" "'' ''" m SP a "[]" "[]"] assms(1) m a(1) by simp
  have 2: "strtok_r (m @ NUL # a @ [NUL]) (length m + 1) '' '' = Inr (Some (length m + 1), m @ NUL # a @ [NUL], length m + 1 + length a)"
    using strtok_last [of "[]" "'' ''" a "m @ [NUL]" "[]"] assms(3) a by simp
  have 3: "cstr (m @ NUL # a @ [NUL]) (length m + 1) = Inr a" using cstr_append [OF a(1), of "m @ [NUL]" "[]"] by simp
  show ?thesis unfolding parse_line_def 1 bindR_simps prod.case option.case 2 3 Let_def by simp
qed

section \<open>The proxy\<close>



text \<open>
  A request with another method is answered with status 501, without a connection to any
  server.
\<close>

theorem other_methods_refused:
  assumes "line_ok m p h t r v" and "m \<noteq> ''GET''" and "headers_ok hs" and "concat cs = request_text m p h t r v hs"
    and "[] \<notin> set cs" and "length (concat cs) \<le> 2048" and "length cbuf = 2048"
    and "script_in client = map Data cs" and "undisturbed (script_out client)"
  shows "\<exists>client'. chat_with_client resolve einval client cbuf sbuf = Inr (-1, client', None)
    \<and> outbox client' = outbox client @ not_implemented"
proof -
  obtain b where b: "receive_peer client cbuf = Inr (int (length (concat cs)), b, client\<lparr>script_in := []\<rparr>)"
    "length b = RECV_BUFFER_SIZE" "take (length (concat cs)) b = concat cs"
    using receive_peer_pieces [OF assms(8,7,5,6) request_no_early_end [OF assms(1,3,4,5)]] by blast
  obtain pr where pr: "ParsedRequest_parse ParsedRequest_create einval b (int (length (concat cs))) = Inr (0, pr)"
    "request_of m p h t r v pr"
    using parse_buffer_ok [OF assms(1,3) b(2)] b(3) assms(4,6) by metis
  have "parse_request einval b (int (length (concat cs))) = Inr (-501, b, None)"
    using pr assms(2) by (auto simp: parse_request_def request_of_def)
  from chat_refused [OF b(1) this, of not_implemented] show ?thesis using assms(9) by simp
qed

theorem other_methods_refused_witness:
  "\<exists>client'. chat_with_client (\<lambda>_ _. None) False
       \<lparr>script_in = [Data ''PUT http://host/'', Data ('' HTTP/1.1'' @ CRLF @ ''A: b'' @ CRLF @ CRLF)], script_out = [], outbox = []\<rparr>
       (replicate 2048 NUL) [] = Inr (-1, client', None)
   \<and> outbox client' = not_implemented"
proof -
  let ?cs = "[''PUT http://host/'', '' HTTP/1.1'' @ CRLF @ ''A: b'' @ CRLF @ CRLF]"
  have "line_ok ''PUT'' ''http'' ''host'' None [] ''1.1''" "headers_ok [(''A'', ''b'')]"
    "concat ?cs = request_text ''PUT'' ''http'' ''host'' None [] ''1.1'' [(''A'', ''b'')]"
    by code_simp+
  moreover have "length (concat ?cs) \<le> 2048" by simp
  ultimately show ?thesis
    using other_methods_refused [of "''PUT''" "''http''" "''host''" None "[]" "''1.1''" "[(''A'', ''b'')]" ?cs "replicate 2048 NUL"
        "\<lparr>script_in = map Data ?cs, script_out = [], outbox = []\<rparr>" "\<lambda>_ _. None" False "[]"]
    by (simp add: undisturbed_def)
qed

text \<open>
  A client that closes its connection before it has sent an empty line is answered with status
  400, without a connection to any server; this includes a client that sends nothing.
\<close>

theorem incomplete_request_refused:
  assumes "find_sub (CRLF @ CRLF) (concat cs) = None" and "[] \<notin> set cs" and "length (concat cs) \<le> 2048"
    and "length cbuf = 2048" and "script_in client = map Data cs" and "undisturbed (script_out client)"
  shows "\<exists>client'. chat_with_client resolve einval client cbuf sbuf = Inr (-1, client', None)
    \<and> outbox client' = outbox client @ bad_request"
proof -
  have e: "no_early_end [] cs" using no_early_end_first [of "[]" cs] assms(1,2) by simp
  obtain b where b: "receive_peer client cbuf = Inr (int (length (concat cs)), b, client\<lparr>script_in := []\<rparr>)"
    "length b = RECV_BUFFER_SIZE" "take (length (concat cs)) b = concat cs"
    using receive_peer_pieces [OF assms(5,4,2,3) e] by blast
  have "parse_request einval b (int (length (concat cs))) = Inr (-400, b, None)"
    using parse_request_no_end [OF b(2) assms(3)] b(3) assms(1) by simp
  from chat_refused [OF b(1) this, of bad_request] show ?thesis using assms(6) by simp
qed

theorem incomplete_request_refused_witness:
  "\<exists>client'. chat_with_client (\<lambda>_ _. None) False
       \<lparr>script_in = [Data ''GET http://host/ HTTP/1.0'', Data CRLF], script_out = [Sent 1, Sent 0], outbox = []\<rparr>
       (replicate 2048 NUL) [] = Inr (-1, client', None)
   \<and> outbox client' = bad_request"
proof -
  have "find_sub (CRLF @ CRLF) (concat [''GET http://host/ HTTP/1.0'', CRLF]) = None" by code_simp
  then show ?thesis
    using incomplete_request_refused [of "[''GET http://host/ HTTP/1.0'', CRLF]" "replicate 2048 NUL"
        "\<lparr>script_in = map Data [''GET http://host/ HTTP/1.0'', CRLF], script_out = [Sent 1, Sent 0], outbox = []\<rparr>" "\<lambda>_ _. None" False "[]"]
    by (simp add: undisturbed_def)
qed

text \<open>
  An answer whose first piece ends in an empty line, as the headers of an answer do, is cut off
  there: whatever the server sends after it does not reach the client, and the proxy reports
  success.
\<close>

theorem answer_cut_short:
  assumes "suffix (CRLF @ CRLF) a" and "length a \<le> 2048" and "length sbuf = 2048" and "script_in server = Data a # evs"
    and "undisturbed (script_out client)" and "undisturbed (script_out server)"
  shows "\<exists>client' server'. relay client server request sbuf = Inr (0, client', Some server')
    \<and> outbox client' = outbox client @ a \<and> script_in server' = evs"
proof -
  have a: "a \<noteq> []" using assms(1) by auto
  have r: "\<exists>b. receive_peer q sbuf = Inr (int (length a), b, q\<lparr>script_in := evs\<rparr>) \<and> take (length a) b = a"
    if "script_in q = script_in server" for q
    using receive_piece(1,3) [of sbuf "[]" a] assms(1-4) a that by (auto simp: receive_peer_def)
  show ?thesis using relay_receives [OF assms(5,6) r] by blast
qed

text \<open>A call of \<open>recv\<close> that is interrupted before anything has been read makes the next one write before the buffer.\<close>

theorem interrupted_receive_faults:
  "bs \<noteq> [] \<Longrightarrow> receive_from_socket (Recv_Intr # Data bs # evs) buffer 0 = Inl OutOfBounds"
  by (simp add: receive_from_socket.simps blank_line_at_def Let_def)

end
