(* ===== verification/Http_Processes.thy ===== *)
theory Http_Processes
  imports Http_Proxy Os_Fds
begin

text \<open>
  The processes of the HTTP proxy: \<^verbatim>\<open>proxy\<close> and \<^verbatim>\<open>sigchld_handler\<close> of \<^verbatim>\<open>proxy.c\<close>.  The parent accepts
  connections and starts a child for each; children that have ended stay in the table of processes
  until the handler waits for them.
\<close>

section \<open>Child processes\<close>

record proc_table =
  running :: "int list"
  zombies :: "int list"
  proc_errno :: int

abbreviation (input) ECHILD :: int where "ECHILD \<equiv> 10"

text \<open>\<open>waitpid\<close> for any child, without waiting.\<close>

definition waitpid :: "proc_table \<Rightarrow> int \<times> proc_table" where
  "waitpid t =
     (case zombies t of
        z # zs \<Rightarrow> (z, t\<lparr>zombies := zs\<rparr>)
      | [] \<Rightarrow> if running t = [] then (-1, t\<lparr>proc_errno := ECHILD\<rparr>) else (0, t))"

function reap :: "proc_table \<Rightarrow> proc_table" where
  "reap t = (let (pid, t) = waitpid t in if pid > 0 then reap t else t)"
  by pat_completeness auto
termination
  by (relation "measure (\<lambda>t. length (zombies t))") (auto simp: waitpid_def split: list.splits if_splits)

declare reap.simps [simp del]

definition sigchld_handler :: "proc_table \<Rightarrow> proc_table" where
  "sigchld_handler t = (let saved_errno = proc_errno t in (reap t)\<lparr>proc_errno := saved_errno\<rparr>)"

text \<open>The handler reaps every child that has ended and leaves no other trace, not even in \<open>errno\<close>.\<close>

lemma reap_zombies: "\<forall>z \<in> set (zombies t). z > 0 \<Longrightarrow> \<exists>e. reap t = t\<lparr>zombies := [], proc_errno := e\<rparr>"
proof (induction t rule: reap.induct)
  case (1 t)
  show ?case
  proof (cases "zombies t")
    case Nil
    then have "reap t = snd (waitpid t)" by (subst reap.simps) (simp add: waitpid_def)
    then show ?thesis using Nil by (cases t) (auto simp: waitpid_def)
  next
    case (Cons z zs)
    with 1 have "reap t = reap (t\<lparr>zombies := zs\<rparr>)" "\<exists>e. reap (t\<lparr>zombies := zs\<rparr>) = t\<lparr>zombies := [], proc_errno := e\<rparr>"
      by (subst reap.simps, auto simp: waitpid_def)+
    then show ?thesis by simp
  qed
qed

lemma sigchld_reaps: "\<forall>z \<in> set (zombies t). z > 0 \<Longrightarrow> sigchld_handler t = t\<lparr>zombies := []\<rparr>"
  using reap_zombies [of t] by (cases t) (auto simp: sigchld_handler_def)

section \<open>The parent\<close>

text \<open>
  What happens to the parent: a failed \<open>accept\<close>; a client on a new descriptor, with the result of
  \<open>fork\<close>, a process number and what the child meets, or none; a child that ends; the signal.
\<close>

datatype proxy_event = No_Client | Client int "(int \<times> bool \<times> peer \<times> string \<times> string) option" | Ended int | Sigchld

record proxy_process =
  parent_fds :: os_fds
  children :: proc_table
  conversations :: "(int \<times> os_fds \<times> (fault + int \<times> peer \<times> peer option)) list"

text \<open>
  A child closes the listening socket, talks to the client and closes its connection; the sockets
  it opens for the conversation are not followed here, since it exits at once.
\<close>

definition child_process ::
  "(string \<Rightarrow> string \<Rightarrow> peer attempt list option) \<Rightarrow> int \<Rightarrow> int \<Rightarrow> os_fds \<Rightarrow> bool \<times> peer \<times> string \<times> string
    \<Rightarrow> os_fds \<times> (fault + int \<times> peer \<times> peer option)" where
  "child_process resolve sockfd clientfd os =
     (\<lambda>(einval, client, client_buffer, server_buffer).
       (os_close clientfd (os_close sockfd os), chat_with_client resolve einval client client_buffer server_buffer))"

fun proxy_step :: "(string \<Rightarrow> string \<Rightarrow> peer attempt list option) \<Rightarrow> int \<Rightarrow> proxy_process \<Rightarrow> proxy_event \<Rightarrow> proxy_process" where
  "proxy_step resolve sockfd p No_Client = p"
| "proxy_step resolve sockfd p (Client clientfd None) =
     p\<lparr>parent_fds := os_close clientfd (os_open clientfd (parent_fds p))\<rparr>"
| "proxy_step resolve sockfd p (Client clientfd (Some (pid, script))) =
     (let os = os_open clientfd (parent_fds p)
      in p\<lparr>parent_fds := os_close clientfd os,
           children := (children p)\<lparr>running := running (children p) @ [pid]\<rparr>,
           conversations := conversations p @ [(pid, child_process resolve sockfd clientfd os script)]\<rparr>)"
| "proxy_step resolve sockfd p (Ended pid) =
     p\<lparr>children := (children p)\<lparr>running := remove1 pid (running (children p)), zombies := zombies (children p) @ [pid]\<rparr>\<rparr>"
| "proxy_step resolve sockfd p Sigchld = p\<lparr>children := sigchld_handler (children p)\<rparr>"

text \<open>The program: a result if it returns, and the state of the parent after the events.\<close>

definition proxy ::
  "(string \<Rightarrow> string \<Rightarrow> int attempt list option) \<Rightarrow> (int \<Rightarrow> bool) \<Rightarrow> bool \<Rightarrow> (string \<Rightarrow> string \<Rightarrow> peer attempt list option)
    \<Rightarrow> string \<Rightarrow> proxy_process \<Rightarrow> proxy_event list \<Rightarrow> int option \<times> proxy_process" where
  "proxy binds listens sigaction_ok resolve proxy_port p evs =
     (case proxy_server_socket_setup binds listens proxy_port of
        None \<Rightarrow> (Some (-1), p)
      | Some sockfd \<Rightarrow>
          (let p = p\<lparr>parent_fds := os_open sockfd (parent_fds p)\<rparr>
           in if \<not> sigaction_ok then (Some (-1), p) else (None, foldl (proxy_step resolve sockfd) p evs)))"

definition proxy_main ::
  "(string \<Rightarrow> string \<Rightarrow> int attempt list option) \<Rightarrow> (int \<Rightarrow> bool) \<Rightarrow> bool \<Rightarrow> (string \<Rightarrow> string \<Rightarrow> peer attempt list option)
    \<Rightarrow> string list \<Rightarrow> proxy_process \<Rightarrow> proxy_event list \<Rightarrow> int option \<times> proxy_process" where
  "proxy_main binds listens sigaction_ok resolve argv p evs =
     (case argv of [_, proxy_port] \<Rightarrow> proxy binds listens sigaction_ok resolve proxy_port p evs | _ \<Rightarrow> (Some 1, p))"

section \<open>What the parent keeps\<close>

text \<open>Events the operating system can bring about: new descriptors, new process numbers, children that end.\<close>

fun possible :: "proxy_process \<Rightarrow> proxy_event \<Rightarrow> bool" where
  "possible p No_Client \<longleftrightarrow> True"
| "possible p (Client fd None) \<longleftrightarrow> fd \<notin> open_fds (parent_fds p)"
| "possible p (Client fd (Some (pid, _))) \<longleftrightarrow> fd \<notin> open_fds (parent_fds p) \<and> 0 < pid \<and> pid \<notin> set (running (children p) @ zombies (children p))"
| "possible p (Ended pid) \<longleftrightarrow> pid \<in> set (running (children p))"
| "possible p Sigchld \<longleftrightarrow> True"

fun possible_run :: "(string \<Rightarrow> string \<Rightarrow> peer attempt list option) \<Rightarrow> int \<Rightarrow> proxy_process \<Rightarrow> proxy_event list \<Rightarrow> bool" where
  "possible_run resolve sockfd p [] \<longleftrightarrow> True"
| "possible_run resolve sockfd p (ev # evs) \<longleftrightarrow> possible p ev \<and> possible_run resolve sockfd (proxy_step resolve sockfd p ev) evs"

text \<open>The clients that got a child, with what it meets.\<close>

fun clients :: "proxy_event list \<Rightarrow> (int \<times> bool \<times> peer \<times> string \<times> string) list" where
  "clients [] = []"
| "clients (Client fd (Some c) # evs) = c # clients evs"
| "clients (_ # evs) = clients evs"

definition started_ok :: "int \<Rightarrow> os_fds \<Rightarrow> proxy_process \<Rightarrow> bool" where
  "started_ok sockfd os p \<longleftrightarrow> parent_fds p = os \<and> sockfd \<in> open_fds os \<and> bad_closes os = 0
     \<and> (\<forall>z \<in> set (running (children p) @ zombies (children p)). 0 < z) \<and> distinct (running (children p) @ zombies (children p))
     \<and> (\<forall>(pid, fds, _) \<in> set (conversations p). open_fds fds = open_fds os - {sockfd} \<and> bad_closes fds = 0)"

lemma proxy_step_ok:
  assumes "started_ok sockfd os p" and "possible p ev"
  shows "started_ok sockfd os (proxy_step resolve sockfd p ev)"
    "map (\<lambda>(pid, fds, r). r) (conversations (proxy_step resolve sockfd p ev)) =
     map (\<lambda>(pid, fds, r). r) (conversations p)
       @ map (\<lambda>(pid, einval, client, cb, sb). chat_with_client resolve einval client cb sb) (clients [ev])"
    "ev = Sigchld \<Longrightarrow> zombies (children (proxy_step resolve sockfd p ev)) = []"
proof -
  have z: "\<forall>z \<in> set (zombies (children p)). 0 < z" using assms(1) by (simp add: started_ok_def)
  have "started_ok sockfd os (proxy_step resolve sockfd p ev)
    \<and> map (\<lambda>(pid, fds, r). r) (conversations (proxy_step resolve sockfd p ev)) = map (\<lambda>(pid, fds, r). r) (conversations p)
       @ map (\<lambda>(pid, einval, client, cb, sb). chat_with_client resolve einval client cb sb) (clients [ev])"
  proof (cases ev)
    case (Client fd c)
    then have fd: "fd \<notin> open_fds os" using assms by (cases c) (auto simp: started_ok_def)
    show ?thesis
    proof (cases c)
      case None
      then show ?thesis using Client fd assms(1) by (simp add: started_ok_def close_opened)
    next
      case (Some x)
      obtain pid einval client cb sb where x: "x = (pid, einval, client, cb, sb)" by (cases x) auto
      have "insert fd (open_fds os) - {sockfd} - {fd} = open_fds os - {sockfd}" using fd by auto
      then have "os_close fd (os_close sockfd (os_open fd os)) = os\<lparr>open_fds := open_fds os - {sockfd}\<rparr>"
        using fd assms(1) by (auto simp: started_ok_def os_close_def os_open_def)
      then show ?thesis
        using Client Some x fd assms by (auto simp: started_ok_def close_opened child_process_def Let_def)
    qed
  qed (use assms z in \<open>auto simp: started_ok_def sigchld_reaps distinct_remove1 dest: notin_set_remove1 split: if_splits\<close>)
  then show "started_ok sockfd os (proxy_step resolve sockfd p ev)"
    "map (\<lambda>(pid, fds, r). r) (conversations (proxy_step resolve sockfd p ev)) =
     map (\<lambda>(pid, fds, r). r) (conversations p)
       @ map (\<lambda>(pid, einval, client, cb, sb). chat_with_client resolve einval client cb sb) (clients [ev])"
    by blast+
  show "zombies (children (proxy_step resolve sockfd p ev)) = []" if "ev = Sigchld"
    using that z by (simp add: sigchld_reaps)
qed

lemma proxy_run_ok:
  assumes "started_ok sockfd os p" and "possible_run resolve sockfd p evs"
  defines "p' \<equiv> foldl (proxy_step resolve sockfd) p evs"
  shows "started_ok sockfd os p'"
    "map (\<lambda>(pid, fds, r). r) (conversations p') = map (\<lambda>(pid, fds, r). r) (conversations p)
       @ map (\<lambda>(pid, einval, client, cb, sb). chat_with_client resolve einval client cb sb) (clients evs)"
    "evs = evs' @ [Sigchld] \<Longrightarrow> zombies (children p') = []"
proof -
  have app: "clients (ev # evs) = clients [ev] @ clients evs" for ev evs
    by (cases "ev # evs" rule: clients.cases) simp_all
  have "started_ok sockfd os (foldl (proxy_step resolve sockfd) p evs)
    \<and> map (\<lambda>(pid, fds, r). r) (conversations (foldl (proxy_step resolve sockfd) p evs)) = map (\<lambda>(pid, fds, r). r) (conversations p)
       @ map (\<lambda>(pid, einval, client, cb, sb). chat_with_client resolve einval client cb sb) (clients evs)
    \<and> (evs = evs' @ [Sigchld] \<longrightarrow> zombies (children (foldl (proxy_step resolve sockfd) p evs)) = [])"
    using assms(1,2)
  proof (induction evs arbitrary: p evs')
    case (Cons ev evs)
    then have "possible p ev" and run: "possible_run resolve sockfd (proxy_step resolve sockfd p ev) evs" by simp_all
    note s = proxy_step_ok [OF Cons.prems(1) this(1)]
    show ?case
      using Cons.IH [OF s(1) [of resolve] run, of "tl evs'"] s(2,3) [of resolve] unfolding app [of ev evs]
      by (cases evs') auto
  qed simp
  then show "started_ok sockfd os p'"
    "map (\<lambda>(pid, fds, r). r) (conversations p') = map (\<lambda>(pid, fds, r). r) (conversations p)
       @ map (\<lambda>(pid, einval, client, cb, sb). chat_with_client resolve einval client cb sb) (clients evs)"
    "evs = evs' @ [Sigchld] \<Longrightarrow> zombies (children p') = []"
    unfolding p'_def by blast+
qed



end
