(* ===== verification/Socket_Chat.thy ===== *)
theory Socket_Chat
  imports Net_Prelude
begin

text \<open>
  The socket exercise, \<^verbatim>\<open>sockets/src/client.c\<close> and \<^verbatim>\<open>sockets/src/server.c\<close>: the client sends its
  standard input to the server, the server prints what its clients send.  The results of the
  system calls are given as lists, in the order of the calls; a list that is used up means that
  the program waits, and the result is none.  \<open>errno\<close> is a variable, since both programs test it
  after calls that have succeeded, which leave it as it is.
\<close>

text \<open>A call that reads: the bytes it got, none of them at the end of the input.  A call that writes: how much it took.\<close>

datatype read_result = Read bytes | ReadFailed int
datatype write_result = Wrote nat | WriteFailed int

abbreviation (input) EINTR :: int where "EINTR \<equiv> 4"

section \<open>Finding an address\<close>

text \<open>
  The loops over the addresses that \<open>getaddrinfo\<close> found: for each the result of \<open>socket\<close> and
  whether the calls that follow succeed.  None: the program exits.
\<close>

fun client_connect :: "(int \<times> bool) list \<Rightarrow> int option" where
  "client_connect [] = None"
| "client_connect ((sockfd, connects) # ps) =
     (if sockfd < 0 \<or> \<not> connects then client_connect ps else Some sockfd)"

fun server_bind :: "(int \<times> bool \<times> bool) list \<Rightarrow> int option" where
  "server_bind [] = None"
| "server_bind ((sockfd, reuses, binds) # ps) =
     (if sockfd < 0 \<or> \<not> reuses \<or> \<not> binds then server_bind ps else Some sockfd)"

section \<open>The client\<close>

text \<open>
  Sending a buffer: \<open>sent\<close> is \<open>total_bytes_sent\<close>, to which the result of \<open>send\<close> is added before it
  is looked at; \<open>out\<close> is what has gone to the server.  The result is whether the loop ended, with
  \<open>errno\<close>, what has been sent and the results that are left, or the program exits.
\<close>

fun send_loop ::
  "bytes \<Rightarrow> int \<Rightarrow> int \<Rightarrow> bytes \<Rightarrow> write_result list \<Rightarrow> fault + (bool \<times> int \<times> bytes \<times> write_result list) option" where
  "send_loop buffer sent errno out ws =
     (if sent \<ge> int (length buffer) then Inr (Some (True, errno, out, ws))
      else if sent < 0 then Inl OutOfBounds
      else case ws of
             [] \<Rightarrow> Inr None
           | Wrote k # ws \<Rightarrow>
               (let k = min k (length buffer - nat sent)
                in send_loop buffer (sent + int k) errno (out @ take k (drop (nat sent) buffer)) ws)
           | WriteFailed e # ws \<Rightarrow>
               if e \<noteq> EINTR then Inr (Some (False, e, out, ws)) else send_loop buffer (sent - 1) e out ws)"

declare send_loop.simps [simp del]

text \<open>The result is whether the function returned, what has been sent and the results that are left.\<close>

fun chat_with_server ::
  "int \<Rightarrow> bytes \<Rightarrow> read_result list \<Rightarrow> write_result list \<Rightarrow> fault + (bool \<times> bytes \<times> read_result list \<times> write_result list) option" where
  "chat_with_server errno out [] ws = Inr None"
| "chat_with_server errno out (ReadFailed e # rs) ws = Inr (Some (False, out, rs, ws))"
| "chat_with_server errno out (Read bs # rs) ws =
     (if bs = [] \<or> errno = EINTR then Inr (Some (True, out, rs, ws))
      else bindR (send_loop bs 0 errno out ws) (\<lambda>r.
             case r of
               None \<Rightarrow> Inr None
             | Some (ok, errno, out, ws) \<Rightarrow>
                 if ok then chat_with_server errno out rs ws else Inr (Some (False, out, rs, ws))))"

section \<open>The server\<close>

text \<open>
  What \<open>write\<close> does not take is not written again.  The result is \<open>errno\<close>, what has been printed and
  the results that are left.
\<close>

fun chat_with_client ::
  "int \<Rightarrow> bytes \<Rightarrow> read_result list \<Rightarrow> write_result list \<Rightarrow> (int \<times> bytes \<times> read_result list \<times> write_result list) option" where
  "chat_with_client errno out [] ws = None"
| "chat_with_client errno out (ReadFailed e # rs) ws = Some (e, out, rs, ws)"
| "chat_with_client errno out (Read bs # rs) ws =
     (if bs = [] \<or> errno = EINTR then Some (errno, out, rs, ws)
      else case ws of
             [] \<Rightarrow> None
           | Wrote k # ws \<Rightarrow> chat_with_client errno (out @ take k bs) rs ws
           | WriteFailed e # ws \<Rightarrow>
               if e \<noteq> EINTR then Some (e, out, rs, ws) else chat_with_client e out rs ws)"

text \<open>
  The loop over the clients: for each the errors of the calls of \<open>accept\<close> that fail before it is
  accepted, the results of reading from it and those of writing.  The result is \<open>errno\<close> and what has
  been written; the line feed that \<open>printf\<close> adds goes through the buffer of stdio and is left out.
\<close>

fun serve_clients ::
  "int \<Rightarrow> bytes \<Rightarrow> (int list \<times> read_result list \<times> write_result list) list \<Rightarrow> (int \<times> bytes) option" where
  "serve_clients errno out [] = Some (errno, out)"
| "serve_clients errno out ((failed, rs, ws) # cs) =
     (case chat_with_client (foldl (\<lambda>_ e. e) errno failed) out rs ws of
        None \<Rightarrow> None
      | Some (errno, out, _, _) \<Rightarrow> serve_clients errno out cs)"

section \<open>Without interruptions everything is delivered\<close>

text \<open>Results of \<open>send\<close> that take at least a byte each, and enough of them.\<close>

definition progress :: "write_result list \<Rightarrow> bool" where
  "progress ws \<longleftrightarrow> (\<forall>w \<in> set ws. \<exists>k. w = Wrote k \<and> 0 < k)"

lemma send_loop_ok:
  assumes "progress ws" and "sent \<le> length buffer" and "length buffer - sent \<le> length ws"
  shows "\<exists>used ws'. ws = used @ ws' \<and> length used \<le> length buffer - sent
           \<and> send_loop buffer (int sent) errno out ws = Inr (Some (True, errno, out @ drop sent buffer, ws'))"
  using assms
proof (induction ws arbitrary: sent out)
  case Nil
  then show ?case by (subst send_loop.simps) simp
next
  case (Cons w ws)
  show ?case
  proof (cases "sent = length buffer")
    case True
    then show ?thesis by (subst send_loop.simps) simp
  next
    case False
    from Cons.prems(1) obtain k where w: "w = Wrote k" "0 < k" "progress ws" by (auto simp: progress_def)
    let ?k = "min k (length buffer - sent)"
    have k: "0 < ?k" "sent + ?k \<le> length buffer" using w False Cons.prems(2) by auto
    have "send_loop buffer (int sent) errno out (w # ws)
        = send_loop buffer (int (sent + ?k)) errno (out @ take ?k (drop sent buffer)) ws"
      using False Cons.prems(2) by (subst send_loop.simps) (simp add: w Let_def)
    moreover obtain used ws' where u: "ws = used @ ws'" "length used \<le> length buffer - (sent + ?k)"
      "send_loop buffer (int (sent + ?k)) errno (out @ take ?k (drop sent buffer)) ws
       = Inr (Some (True, errno, (out @ take ?k (drop sent buffer)) @ drop (sent + ?k) buffer, ws'))"
      using Cons.IH [OF w(3) k(2), of "out @ take ?k (drop sent buffer)"] Cons.prems(3) k by fastforce
    moreover have "take ?k (drop sent buffer) @ drop (sent + ?k) buffer = drop sent buffer"
      by (metis append_take_drop_id drop_drop add.commute)
    ultimately show ?thesis using k by (intro exI [of _ "w # used"] exI [of _ ws']) auto
  qed
qed

lemma client_sends_all:
  assumes "errno \<noteq> EINTR" and "progress ws" and "length (concat pieces) \<le> length ws" and "[] \<notin> set pieces"
  shows "\<exists>ws'. chat_with_server errno out (map Read pieces @ [Read []]) ws = Inr (Some (True, out @ concat pieces, [], ws'))"
  using assms
proof (induction pieces arbitrary: out ws)
  case (Cons p pieces)
  from send_loop_ok [OF Cons.prems(2), of 0 p errno out] Cons.prems(3) obtain used ws' where
    u: "ws = used @ ws'" "length used \<le> length p" "send_loop p 0 errno out ws = Inr (Some (True, errno, out @ p, ws'))" by auto
  then have "progress ws'" "length (concat pieces) \<le> length ws'" using Cons.prems(2,3) by (auto simp: progress_def)
  from Cons.IH [OF assms(1) this, of "out @ p"] Cons.prems(1,4) u(3) show ?case by auto
qed simp

lemma server_prints_all:
  assumes "errno \<noteq> EINTR" and "[] \<notin> set pieces"
  shows "chat_with_client errno out (map Read pieces @ [Read []]) (map (Wrote \<circ> length) pieces)
         = Some (errno, out @ concat pieces, [], [])"
  using assms by (induction pieces arbitrary: out) auto

section \<open>Interruptions\<close>

text \<open>
  An interrupted call of \<open>send\<close> before anything is sent moves the position before the buffer.
\<close>

lemma interrupted_send: "bs \<noteq> [] \<Longrightarrow> send_loop bs 0 errno out (WriteFailed EINTR # ws) = Inl OutOfBounds"
  by (subst send_loop.simps, simp) (subst send_loop.simps, simp)

text \<open>After part of the buffer it sends the last byte again.\<close>

lemma interrupted_send_repeats:
  assumes "0 < k" "k < length bs"
  shows "send_loop bs 0 errno out [Wrote k, WriteFailed EINTR, Wrote (length bs)]
         = Inr (Some (True, EINTR, out @ take k bs @ drop (k - 1) bs, []))"
proof -
  have "send_loop bs (int k) errno (out @ take k bs) [WriteFailed EINTR, Wrote (length bs)]
      = send_loop bs (int (k - 1)) EINTR (out @ take k bs) [Wrote (length bs)]"
    using assms by (subst send_loop.simps) (simp add: of_nat_diff)
  also have "\<dots> = Inr (Some (True, EINTR, out @ take k bs @ drop (k - 1) bs, []))"
  proof -
    have "nat (int (k - 1)) = k - 1" "\<not> int (length bs) \<le> int (k - 1)" "\<not> int (k - 1) < 0" using assms by auto
    then show ?thesis
      using assms by (subst send_loop.simps, simp del: of_nat_diff) (subst send_loop.simps, simp)
  qed
  finally show ?thesis using assms by (subst send_loop.simps) auto
qed

text \<open>
  Once \<open>errno\<close> is \<open>EINTR\<close> the server prints nothing any more, whatever its clients send.
\<close>

lemma interrupted_server:
  assumes "\<forall>(failed, rs, ws) \<in> set cs. failed = [] \<and> (\<exists>bs rs'. rs = Read bs # rs')"
  shows "serve_clients EINTR out cs = Some (EINTR, out)"
  using assms by (induction cs) auto

end
