(* ===== verification/Socket_Claims.thy ===== *)
theory Socket_Claims
  imports Socket_Chat
begin

text \<open>Theorems about the socket exercise: what is delivered, and what an interrupted call does.\<close>



text \<open>
  An interrupted call of \<open>send\<close> is counted as minus one byte: at the start of a buffer the
  client reads before it, later it sends the last byte twice.  And once a call has been
  interrupted, the server prints nothing that its clients send.
\<close>

theorem interruptions_break_chat:
  assumes "0 < k" "k < length bs"
    and "\<forall>(failed, rs, ws) \<in> set cs. failed = [] \<and> (\<exists>bs rs'. rs = Read bs # rs')"
  shows "chat_with_server 0 [] (Read bs # rs) (WriteFailed EINTR # ws) = Inl OutOfBounds
         \<and> chat_with_server 0 [] [Read bs, Read []] [Wrote k, WriteFailed EINTR, Wrote (length bs)]
           = Inr (Some (True, take k bs @ drop (k - 1) bs, [], []))
         \<and> serve_clients 0 [] (([EINTR], Read bs # rs, ws) # cs) = Some (EINTR, [])"
proof -
  have "bs \<noteq> []" using assms(2) by auto
  then show ?thesis
    using interrupted_send [of bs 0 "[]"] interrupted_send_repeats [OF assms(1,2), of 0 "[]"] interrupted_server [OF assms(3), of "[]"]
    by simp
qed

theorem interruptions_break_chat_witness:
  "chat_with_server 0 [] [Read [1, 2, 3], Read []] [Wrote 2, WriteFailed EINTR, Wrote 3] = Inr (Some (True, [1, 2, 2, 3], [], []))
   \<and> serve_clients 0 [] [([EINTR], [Read [1, 2, 3]], []), ([], [Read [7], Read []], [Wrote 1])] = Some (EINTR, [])"
  using interruptions_break_chat [of 2 "[1, 2, 3]" "[([], [Read [7], Read []], [Wrote 1])]" "[]" "[]"]
  by (simp add: numeral_2_eq_2 numeral_3_eq_3)

end
