(* ===== verification/Spec2Isabelle.thy ===== *)
theory Spec2Isabelle
  imports Delivery_Claims Router_Run_Claims Session_Claims Boot_Claims Print_Claims Stcp_Claims Demux_Claims Network_Claims
    Server_Claims File_Claims Http_Claims Http_Processes Socket_Claims
begin

text \<open>
  Verification of the course projects of a computer networks repository: a software router, a
  reliable transport protocol with the layers under it and the programs over it, the session
  protocol that ties the router to an emulated network, an HTTP proxy and an exercise on sockets.

  \<^bold>\<open>The router\<close> (\<^verbatim>\<open>src/router/src/router\<close>).  Ethernet frames arrive from the virtual network
  server, are dispatched to the ARP, IP and ICMP handlers, and frames are sent back to it; an ARP
  cache with a queue of waiting packets and a cleanup thread resolve next hops.
    \<^item> \<open>Net_Prelude\<close>: byte buffers, faults as values of a sum type, loads and stores as a packed
      struct overlay performs them on a little-endian host, byte order and C strings.  \<open>C_Text\<close>:
      what the programs use of the C library on text: numbers, words, lines, dotted addresses.
    \<^item> \<open>Sr_Utils\<close> (\<^verbatim>\<open>sr_utils.c\<close>): the Internet checksum.  \<open>Sr_State\<close> (\<^verbatim>\<open>sr_protocol.h\<close>, \<^verbatim>\<open>sr_if.h\<close>,
      \<^verbatim>\<open>sr_rt.h\<close>, \<^verbatim>\<open>sr_arpcache.h\<close>, \<^verbatim>\<open>sr_router.h\<close>): headers and the record of the router.
    \<^item> \<open>Sr_If\<close>, \<open>Sr_Rt\<close>, \<open>Sr_Arpcache\<close>, \<open>Sr_Send\<close>: interfaces, routes with the longest prefix
      match, the ARP cache, transmission; one definition per C function.
    \<^item> \<open>Sr_Router\<close> (\<^verbatim>\<open>sr_router.c\<close> and the request handling of \<^verbatim>\<open>sr_arpcache.c\<close>): every handler.
      \<open>handle_arpreq\<close> and the error messages it sends call each other; the recursion carries a
      budget, and running out of it is the fault \<open>StackOverflow\<close>.  The theorem \<open>handle_arpreq_depth\<close>
      shows that a larger budget never changes a result; the other theorems about handlers hold
      for every budget or say which one is enough.
    \<^item> \<open>Sr_Frames\<close>, \<open>Sr_Router_Inv\<close>, \<open>Sr_Handlers\<close>, \<open>Sr_Router_Props\<close>, \<open>Sr_Router_Runs\<close>: what the
      frames built by the handlers contain, the invariant of the router, what each handler does
      on each branch, runs as an inductive predicate.
    \<^item> \<open>Sha1\<close> (\<^verbatim>\<open>sha1.c\<close>) and \<open>Sr_Vns\<close> (\<^verbatim>\<open>sr_vns_comm.c\<close>, \<^verbatim>\<open>vnscommand.h\<close>): the digest, equal to a
      reference definition of the standard, and the session: reading a command from a socket that
      cuts the stream anywhere, hardware information, authentication, dispatch, the routing table
      the server may send.  \<open>Sr_Hwinfo\<close>: hardware information written and read, and the invariant.
    \<^item> \<open>Sr_Load\<close> (\<open>sr_load_rt\<close> of \<^verbatim>\<open>sr_rt.c\<close>): the routing table file, with the buffers of \<open>sscanf\<close>
      that keep their contents between lines.  \<open>Sr_Dumper\<close> (\<^verbatim>\<open>sr_dumper.c\<close>, \<open>sr_log_packet\<close>): the packet
      log, with a reader of its format.
    \<^item> \<open>Sr_Print\<close> (the printing functions of \<^verbatim>\<open>sr_utils.c\<close>, \<^verbatim>\<open>sr_rt.c\<close>, \<^verbatim>\<open>sr_if.c\<close>, \<^verbatim>\<open>sr_arpcache.c\<close>): the
      text of headers and tables.  \<open>Print_Claims\<close>: it stays within the frame, and a printed table loads.
    \<^item> \<open>Sr_Main\<close> (\<^verbatim>\<open>sr_main.c\<close>, \<open>sr_connect_to_server\<close>): the program from its options through
      connection and authentication to the main loop, and its runs, in which commands of the server
      and seconds of the cleanup thread alternate.  The main loop recurses over the results of
      \<open>recv\<close>.  \<open>Sr_Boot\<close>: what each command of the start-up does.  \<open>Boot_Claims\<close>: the properties.
      \<open>Sr_Delivery\<close>: frames in commands of the server and packets that wait for their next hop;
      \<open>Delivery_Claims\<close> and this theory compose them into the way of a frame from the server's socket to
      the wire.
    \<^item> \<open>Sr_Lab\<close>: a concrete router; \<open>Router_Claims\<close>, \<open>Router_Run_Claims\<close>, \<open>Session_Claims\<close>: the
      properties.

  \<^bold>\<open>The transport layer\<close> (\<^verbatim>\<open>src/transport-layer/src\<close>).  Applications call mysockets; a transport
  thread per connection runs the protocol STCP between the application queues and the network;
  a receive thread per mysocket reads packets from a TCP socket that stands for the datagram
  service, and distributes connection requests of listening sockets.
    \<^item> \<open>Stcp_Sum\<close> (\<^verbatim>\<open>tcp_sum.c\<close>, \<^verbatim>\<open>transport.h\<close>, \<^verbatim>\<open>network_io.h\<close>, \<^verbatim>\<open>network_io.c\<close>): segment header and
      checksum with its signed accumulator.
    \<^item> \<open>Mysock\<close> (\<^verbatim>\<open>mysock.c\<close>, \<^verbatim>\<open>mysock_api.c\<close>, \<^verbatim>\<open>stcp_api.c\<close>): packet queues, contexts and the calls on
      them.  A call is one atomic step under its lock; one that would wait returns none.
    \<^item> \<open>Stcp_Transport\<close> (\<^verbatim>\<open>transport.c\<close>): set-up, control loop, data, acknowledgements, tear-down.
      The thread is a step function: one step per wait for an event, so no loop needs fuel.
    \<^item> \<open>Stcp_Props\<close>, \<open>Stcp_Steps\<close>: the layout of a segment and the effect of each handler.
      \<open>Stcp_Link\<close>, \<open>Stcp_Link_Inv\<close>, \<open>Stcp_Link_Run\<close>, \<open>Stcp_Live\<close>: two ends over a network that keeps
      the order of packets, with every interleaving of threads, applications and network; the
      invariant that ties packets in flight to sequence numbers and bytes; a measure that every
      step after the close decreases.  \<open>Stcp_Claims\<close>: delivery, safety, set-up, tear-down.
    \<^item> \<open>Network_Tcp\<close> (\<^verbatim>\<open>network_io_tcp.c\<close>, parts of \<^verbatim>\<open>network_io_socket.c\<close>): packets framed on a stream
      socket.  A stream is the bytes in it and an arbitrary schedule of how much each call moves.
      \<open>channel_is_fifo\<close> is what the network of \<open>Stcp_Link\<close> assumes: packets arrive unchanged and in
      order.  \<open>Network_Fds\<close>: the descriptors of a context, from \<open>socket\<close> and \<open>pipe\<close> to \<open>close\<close>, and runs of
      a process that opens, accepts, passes on and closes.  \<open>Network_Claims\<close>: no descriptor leaks.
      \<open>Os_Fds\<close>: open descriptors of a process, for this and for the HTTP proxy.
    \<^item> \<open>Mysock_Hash\<close> (\<^verbatim>\<open>mysock_hash.h\<close>): the hash table, a refinement of finite maps.
    \<^item> \<open>Connection_Demux\<close> (\<^verbatim>\<open>connection_demux.c\<close>, the opening and closing calls of \<^verbatim>\<open>mysock_api.c\<close> and
      \<^verbatim>\<open>mysock.c\<close>, the receive thread of \<^verbatim>\<open>network_io_socket.c\<close>): backlog queues with their pointers
      into a reallocated array, connection requests, accept, close.  \<open>Demux_Inv\<close>, \<open>Demux_Run\<close>: the
      state as two maps, the invariant, runs of a server.  \<open>Demux_Claims\<close>: the properties.
    \<^item> \<open>Mysock_Threads\<close> (\<open>network_recv_thread_func\<close>, \<open>transport_thread_func\<close>): how the receive thread waits and
      ends, and what the transport thread does when the transport layer returns.  \<open>Server_Claims\<close>: a
      connection from its first packet to the server program that accepts it, and one that fails.
    \<^item> \<open>File_Transfer\<close> (\<^verbatim>\<open>server.c\<close>, \<^verbatim>\<open>client.c\<close>): the file server and its client over a connection.  A
      loop that may wait for ever is a partial function into options, and the theorems say that it
      returns.  The call that reads is a parameter: with \<open>myread\<close> as it is nearly every request
      is undefined behaviour (\<open>byte_reads_fault\<close>), so the transfer is shown for a machine whose \<open>memcpy\<close>
      copies upwards, and for \<open>myread\<close> itself in pieces of at most two bytes.  \<open>File_Props\<close>: the laws of
      both programs over a reader of streams.  \<open>File_Start\<close>: how the two programs open and close their mysockets
      and the server accepts, on the layer of \<open>Connection_Demux\<close>.  \<open>File_Claims\<close>: the properties.

  \<^bold>\<open>The HTTP proxy\<close> (\<^verbatim>\<open>src/http-proxy/src\<close>).  A process per connection reads a request, parses it,
  sends a request of its own to the server and passes the answer on.
    \<^item> \<open>Http_Parse\<close> (\<^verbatim>\<open>proxy_parse.c\<close>, \<^verbatim>\<open>proxy_parse.h\<close>): C strings in a buffer with \<open>strtok_r\<close>, which
      overwrites delimiters; headers in an array with removed entries; parsing and printing.
    \<^item> \<open>Http_Props\<close>, \<open>Http_Headers\<close>: the request line on a buffer written as a concatenation, headers
      as a map in the order of insertion, the parse of a request text, printing.
    \<^item> \<open>Http_Proxy\<close> (\<^verbatim>\<open>proxy.c\<close>): receiving, sending, the request to the server, opening sockets, a
      conversation.  The loops recurse over the script of the system calls, so
      they need no fuel.  \<open>Http_Proxy_Props\<close>, \<open>Http_Claims\<close>: what a conversation does, the properties.
    \<^item> \<open>Http_Processes\<close> (\<open>proxy\<close>, \<open>sigchld_handler\<close>, \<open>main\<close> of \<^verbatim>\<open>proxy.c\<close>): the parent with its descriptors, its
      children and the handler that reaps them, driven by an arbitrary sequence of events.

  \<^bold>\<open>The socket exercise\<close> (\<^verbatim>\<open>src/sockets/src\<close>).  \<open>Socket_Chat\<close> (\<^verbatim>\<open>client.c\<close>, \<^verbatim>\<open>server.c\<close>): a client that
  sends its input and a server that prints it, with \<open>errno\<close> as a variable, since both test it after
  calls that succeeded.  \<open>Socket_Claims\<close>: delivery, and what an interrupted call does.

  \<^bold>\<open>Interfaces.\<close>  Locales state what one layer relies on and are interpreted on the definitions
  of the model: byte queues (\<open>byte_queue\<close> on the packet queues), byte streams (\<open>byte_stream\<close> on the
  stream socket, used by the framing), partial maps (\<open>partial_map\<close> on the hash table, used by the
  demultiplexing, and on the headers of a request), readers of a stream (\<open>stream_reader\<close> on two
  versions of \<open>myread\<close>, used by the file programs), and those of the router's components.

  \<^bold>\<open>Faults.\<close>  Undefined behaviour and failed assertions of the C code are values of the type
  \<open>fault\<close>; the safety theorems say when no fault occurs, and theorems about errors say which
  inputs lead to one.

  \<^bold>\<open>Parameters.\<close>  What the operating system returns (sockets, results of \<open>accept\<close>, \<open>connect\<close>, \<open>bind\<close>,
  bytes per \<open>read\<close>, random numbers, file contents) is an argument of the definitions.

  \<^bold>\<open>Not modelled.\<close>  Debugging output (\<open>our_dprintf\<close>, \<open>debug\<close>, \<open>_debug_print_connection\<close>), usage texts and
  messages of \<open>perror\<close>; \<open>mygetpeername\<close> and \<open>ParsedRequest_destroy\<close>, which copy an address and free
  memory; the unfinished stub \<^verbatim>\<open>transport3.c\<close>, which is not built; the Python emulation scripts; mutexes
  and the deadlock between \<open>_mysock_close_passive_socket\<close> and a thread that completes a connection, since
  locks are replaced by atomic steps; packet loss and retransmission, which STCP leaves to the
  network.
\<close>

section \<open>From the server's socket to the wire\<close>

text \<open>
  C21: End to end: a frame the server hands over, however the socket cuts it, is read, recognised and
  passed to the router; if it is a packet in transit with TTL at least 2 whose next hop is
  resolved, the aged packet is on the wire when the call returns 1, and the rest of the stream is
  untouched.
\<close>

theorem frame_to_wire:
  assumes "router_inv sr" and "length name < 16" and "CHR 0x00 \<notin> set name" and "sr_get_interface sr name = Some j"
    and "42 \<le> length packet" and "length packet \<le> 9000"
    and "delivers rs1 (take 4 (packet_command name packet))" and "delivers rs2 (drop 4 (packet_command name packet))"
    and "in_transit sr packet" and "2 \<le> ip_ttl (ip_hdr_at packet 14)"
    and "sr_get_longest_prefix_match sr (ip_dst (ip_hdr_at packet 14)) = Some rt"
    and "sr_get_interface sr (rt_interface rt) = Some i"
    and "sr_arpcache_lookup sr (rt_gw rt) = Some e"
  shows "\<exists>f. sr_read_from_server_expect fuel key ok 0 sr (rs1 @ rs2 @ rs) = Inr (Got (1, emit f (if_name i) sr) rs)
     \<and> ether_dhost (ethernet_hdr_at f 0) = ae_mac e \<and> ether_shost (ethernet_hdr_at f 0) = if_addr i
     \<and> aged packet f"
proof -
  let ?cmd = "packet_command name packet" and ?f = "forwarded_frame packet (length packet) i e"
  have read: "read_command (rs1 @ rs2 @ rs) = Inr (Got ?cmd rs)"
    by (rule read_command_delivers [OF _ _ _ assms(7,8)]) (use assms(5,6) in \<open>simp_all add: packet_command_def\<close>)
  have len: "34 \<le> length packet" using assms(5) by simp
  have "ether_type (ethernet_hdr_at packet 0) = htons ethertype_ip" using assms(9) by (simp add: in_transit_def)
  then have na: "ether_type (ethernet_hdr_at packet 0) \<noteq> htons ethertype_arp" by simp
  have "packet ! 22 \<noteq> 1" using assms(10) by (auto simp: hdr_fields word_le_nat_alt)
  then have "sr_handlepacket fuel sr packet (length packet) name = Inr (emit ?f (if_name i) sr)"
    using forward_hit [OF assms(1) len _ _ _ assms(12,13)] assms(11)
    by (simp add: handlepacket_transit [OF assms(9)] hdr_fields)
  then have run: "sr_read_from_server_expect fuel key ok 0 sr (rs1 @ rs2 @ rs) = Inr (Got (1, emit ?f (if_name i) sr) rs)"
    using read handle_packet_command [OF assms(2,3,5,6,4) disjI1 [OF na], of fuel key ok]
    by (simp add: sr_read_from_server_expect_def)
  have l: "length (if_addr i) = 6" "length (ae_mac e) = 6"
    using inv_if_addr [OF assms(1,12)] cache_hit_mac [OF assms(1,13)] by auto
  show ?thesis
    using run forwarded_frame_slice(1,2) [OF len _ l] aged_forwarded_frame [OF len l]
    by (intro exI [of _ ?f]) (simp add: ethernet_hdr_at_def)
qed

theorem frame_to_wire_witness:
  "\<exists>f. sr_read_from_server_expect 1 None True 0 lab_router
       ([Recv (take 4 (packet_command ''eth2'' (lab_ip 64 17 [8, 8, 8, 8] [10, 0, 1, 77] [1, 2, 3, 4, 5, 6, 7, 8])))]
        @ [Recv (drop 4 (packet_command ''eth2'' (lab_ip 64 17 [8, 8, 8, 8] [10, 0, 1, 77] [1, 2, 3, 4, 5, 6, 7, 8])))] @ [])
     = Inr (Got (1, emit f ''eth1'' lab_router) [])
     \<and> aged (lab_ip 64 17 [8, 8, 8, 8] [10, 0, 1, 77] [1, 2, 3, 4, 5, 6, 7, 8]) f"
proof -
  let ?p = "lab_ip 64 17 [8, 8, 8, 8] [10, 0, 1, 77] [1, 2, 3, 4, 5, 6, 7, 8]"
  let ?c = "packet_command ''eth2'' ?p"
  have f: "ip_dst (ip_hdr_at ?p 14) = ipaddr 10 0 1 77" "ip_ttl (ip_hdr_at ?p 14) = 64" by code_simp+
  have t: "in_transit lab_router ?p" by code_simp
  have l: "length ?c = 66" by simp
  then have d: "delivers [Recv (take 4 ?c)] (take 4 ?c)" "delivers [Recv (drop 4 ?c)] (drop 4 ?c)"
    by (auto simp: delivers_def simp flip: length_greater_0_conv)
  have g: "sr_get_interface lab_router (rt_interface lab_client) = Some lab_eth1"
    "sr_arpcache_lookup lab_router (rt_gw lab_client) = Some lab_neighbour"
    using lab_interfaces by (simp_all add: lab_client_def lab_lookup)
  have n: "if_name lab_eth1 = ''eth1''" by (simp add: lab_eth1_def)
  have q: "length ''eth2'' < 16" "CHR 0x00 \<notin> set ''eth2''" "42 \<le> length ?p" "length ?p \<le> 9000"
    "2 \<le> ip_ttl (ip_hdr_at ?p 14)" by (simp_all add: f)
  show ?thesis
    using frame_to_wire [OF lab_inv q(1,2) lab_interfaces(2) q(3,4) d t q(5) _ g, of 1 None True "[]"] f lab_routes(1)
    unfolding n by fastforce
qed

end
